(* ===== verification/Prelude.thy ===== *)
theory Prelude
  imports Complex_Main
    "HOL-Library.Product_Lexorder" "HOL-Library.List_Lexorder" "HOL-Library.Char_ord"
begin

text \<open>
  What every component of the model shares: Rust's fixed-width and saturating arithmetic, the
  textual codecs of the enums, the SQL tables as lists of rows with guarded updates, folds over
  event sequences, and list facts about "the last element that satisfies a condition" and "the
  element with the largest key". The lemma collections \<open>str_defs\<close> (the literals of the enum
  codecs) and \<open>row_simps\<close> (field accesses after an update) are filled by the components.
\<close>

named_theorems str_defs \<open>definitions of the enum names\<close>
named_theorems row_simps \<open>fields of updated rows\<close>

section \<open>Errors and results\<close>

text \<open>
  \<open>crate::error::Error\<close> (\<open>src/src/error.rs\<close>). \<open>rusqlite::Error\<close> is a library type: the
  model keeps the one case the code looks at, a violated constraint with its message. A
  \<open>Result<T>\<close> is a sum with the error on the left.
\<close>

datatype sqlite_error = ConstraintViolation string | OtherSqlite string

datatype error =
    Config string
  | Catalog string
  | Store sqlite_error
  | Schema string
  | Nostr string
  | InvalidEvent string
  | SessionEnded string
  | Logging string

type_synonym 'a result = "error + 'a"

definition ok :: "'e + 'a \<Rightarrow> 'a option" where
  "ok r = (case r of Inl _ \<Rightarrow> None | Inr x \<Rightarrow> Some x)"

lemma ok_simps [simp]: "ok (Inl e) = None" "ok (Inr x) = Some x"
  by (simp_all add: ok_def)

section \<open>Machine integers\<close>

text \<open>
  Times are \<open>i64\<close>: an \<open>int\<close> between \<open>i64_min\<close> and \<open>i64_max\<close>. Where the code calls
  \<open>saturating_add\<close> the clamp is written out. A \<open>Duration\<close> is its whole seconds, a \<open>u64\<close>.
\<close>

definition i64_max :: int where "i64_max = 9223372036854775807"
definition i64_min :: int where "i64_min = - 9223372036854775808"
definition u32_max :: nat where "u32_max = 4294967295"

definition is_i64 :: "int \<Rightarrow> bool" where
  "is_i64 x \<longleftrightarrow> i64_min \<le> x \<and> x \<le> i64_max"

definition saturating_add :: "int \<Rightarrow> int \<Rightarrow> int" where
  "saturating_add a b = max i64_min (min i64_max (a + b))"

definition u32_try_from :: "nat \<Rightarrow> nat" where
  "u32_try_from n = (if n \<le> u32_max then n else u32_max)"

lemma saturating_add_i64: "is_i64 (saturating_add a b)"
  by (auto simp: saturating_add_def is_i64_def i64_max_def i64_min_def)

lemma saturating_add_exact: "is_i64 (a + b) \<Longrightarrow> saturating_add a b = a + b"
  by (auto simp: saturating_add_def is_i64_def)

lemma saturating_add_mono: "b \<le> c \<Longrightarrow> saturating_add a b \<le> saturating_add a c"
  by (auto simp: saturating_add_def)

lemma saturating_add_ge: "is_i64 a \<Longrightarrow> 0 \<le> b \<Longrightarrow> a \<le> saturating_add a b"
  by (auto simp: saturating_add_def is_i64_def)

lemma u32_try_from_le: "m \<le> n \<Longrightarrow> m \<le> u32_max \<Longrightarrow> m \<le> u32_try_from n"
  by (simp add: u32_try_from_def)

section \<open>Enum names\<close>

text \<open>
  Every enum stored as text has an \<open>as_str\<close> (or \<open>Display\<close>) and a \<open>parse\<close> (or \<open>FromStr\<close>).
  What the store relies on: a written value reads back as itself, and only the written names
  read at all.
\<close>

locale text_codec =
  fixes as_str :: "'a \<Rightarrow> string" and parse :: "string \<Rightarrow> 'a option"
  assumes parse_as_str: "parse (as_str x) = Some x"
    and parse_sound: "parse s = Some x \<Longrightarrow> s = as_str x"
begin

lemma as_str_inject: "as_str x = as_str y \<longleftrightarrow> x = y"
  by (metis parse_as_str option.inject)

lemma parse_iff: "parse s = Some x \<longleftrightarrow> s = as_str x"
  using parse_as_str parse_sound by blast

lemma parse_none: "parse s = None \<longleftrightarrow> s \<notin> range as_str"
  by (metis parse_as_str parse_sound not_Some_eq rangeE rangeI)

text \<open>A column written from the enum satisfies \<open>column IN (...)\<close> as the enum does.\<close>

lemma in_names: "as_str x \<in> as_str ` S \<longleftrightarrow> x \<in> S"
  by (auto simp: as_str_inject)

end

section \<open>Quoted text\<close>

text \<open>
  \<open>{:?}\<close> of a \<open>str\<close>: the text in double quotes, with quotes, backslashes and what is not printable escaped.
\<close>

definition hex_digit :: "nat \<Rightarrow> char" where
  "hex_digit n = (if n < 10 then char_of (48 + n) else char_of (87 + n))"

definition debug_char :: "char \<Rightarrow> string" where
  "debug_char c =
     (let n = (of_char c :: nat)
      in if n = 0 then [CHR 0x5C, CHR ''0'']
         else if n = 9 then [CHR 0x5C, CHR ''t'']
         else if n = 10 then [CHR 0x5C, CHR ''n'']
         else if n = 13 then [CHR 0x5C, CHR ''r'']
         else if n = 34 \<or> n = 92 then [CHR 0x5C, c]
         else if n < 32 \<or> 127 \<le> n \<and> n \<le> 160 \<or> n = 173
           then [CHR 0x5C, CHR ''u'', CHR 0x7B] @ (if n < 16 then [hex_digit n] else [hex_digit (n div 16), hex_digit (n mod 16)]) @ [CHR 0x7D]
         else [c])"

definition debug_str :: "string \<Rightarrow> string" where
  "debug_str s = CHR 0x22 # concat (map debug_char s) @ [CHR 0x22]"

section \<open>SQL tables\<close>

text \<open>
  A table is the list of its rows in \<open>rowid\<close> order; an insert appends. An \<open>UPDATE ... WHERE\<close>
  rewrites every row that satisfies the condition and returns how many it rewrote.
\<close>

definition upd_where :: "('r \<Rightarrow> bool) \<Rightarrow> ('r \<Rightarrow> 'r) \<Rightarrow> 'r list \<Rightarrow> nat \<times> 'r list" where
  "upd_where P f t = (length (filter P t), map (\<lambda>r. if P r then f r else r) t)"

lemma fst_upd_where [simp]: "fst (upd_where P f t) = length (filter P t)"
  and snd_upd_where: "snd (upd_where P f t) = map (\<lambda>r. if P r then f r else r) t"
  by (simp_all add: upd_where_def)

lemma length_snd_upd_where [simp]: "length (snd (upd_where P f t)) = length t"
  by (simp add: upd_where_def)

lemma upd_where_none: "(\<And>r. r \<in> set t \<Longrightarrow> \<not> P r) \<Longrightarrow> upd_where P f t = (0, t)"
  by (auto simp: upd_where_def filter_empty_conv intro: map_idI)

lemma find_eq_some_key:
  "distinct (map key t) \<Longrightarrow> r \<in> set t \<Longrightarrow> find (\<lambda>x. key x = key r) t = Some r"
  by (induction t) (auto simp: image_iff)

lemma find_key_some:
  "find (\<lambda>x. key x = k) t = Some r \<Longrightarrow> r \<in> set t \<and> key r = k"
  by (auto simp: find_Some_iff)

lemma filter_key_le_one: "distinct (map key t) \<Longrightarrow> length (filter (\<lambda>r. key r = k \<and> Q r) t) \<le> 1"
proof (induction t)
  case (Cons a t)
  show ?case
  proof (cases "key a = k")
    case True
    from Cons.prems have "key a \<notin> key ` set t" by simp
    with True have "\<forall>x \<in> set t. key x \<noteq> k" by (metis imageI)
    then have "filter (\<lambda>r. key r = k \<and> Q r) t = []"
      by (simp add: filter_empty_conv)
    then show ?thesis by simp
  next
    case False
    with Cons show ?thesis by simp
  qed
qed simp

text \<open>
  An update guarded by the row's state: \<open>UPDATE t SET ... WHERE key = ?1 AND guard\<close>. Every
  guarded update of the stores is an instance; what a client of the store relies on is that
  keys never change, that a row the guard excludes is untouched, and that at most one row is
  rewritten.
\<close>

locale guarded_update =
  fixes key :: "'r \<Rightarrow> 'k" and guard :: "'r \<Rightarrow> bool" and change :: "'r \<Rightarrow> 'r"
  assumes key_change: "key (change r) = key r"
begin

definition run :: "'k \<Rightarrow> 'r list \<Rightarrow> bool \<times> 'r list" where
  "run k t = (let (n, t') = upd_where (\<lambda>r. key r = k \<and> guard r) change t in (n = 1, t'))"

lemma snd_run: "snd (run k t) = map (\<lambda>r. if key r = k \<and> guard r then change r else r) t"
  by (simp add: run_def upd_where_def)

lemma keys_run: "map key (snd (run k t)) = map key t"
  by (auto simp: snd_run key_change)

lemma find_run:
  "find (\<lambda>r. key r = k') (snd (run k t)) =
     map_option (\<lambda>r. if key r = k \<and> guard r then change r else r) (find (\<lambda>r. key r = k') t)"
proof (induction t)
  case (Cons a t)
  then show ?case by (auto simp: snd_run key_change)
qed (simp add: snd_run)

lemma run_hit: "find (\<lambda>r. key r = k) t = Some r \<Longrightarrow> guard r \<Longrightarrow> find (\<lambda>r. key r = k) (snd (run k t)) = Some (change r)"
  by (auto simp: find_run dest: find_key_some)

lemma run_other: "k' \<noteq> k \<Longrightarrow> find (\<lambda>r. key r = k') (snd (run k t)) = find (\<lambda>r. key r = k') t"
  by (subst find_run) (cases "find (\<lambda>r. key r = k') t"; auto dest: find_key_some)

lemma fst_run:
  assumes "distinct (map key t)"
  shows "fst (run k t) \<longleftrightarrow> (\<exists>r. find (\<lambda>r. key r = k) t = Some r \<and> guard r)"
proof -
  have le: "length (filter (\<lambda>r. key r = k \<and> guard r) t) \<le> 1"
    using assms by (rule filter_key_le_one)
  have "length (filter (\<lambda>r. key r = k \<and> guard r) t) = 1 \<longleftrightarrow>
      filter (\<lambda>r. key r = k \<and> guard r) t \<noteq> []"
    using le by (cases "filter (\<lambda>r. key r = k \<and> guard r) t") auto
  also have "\<dots> \<longleftrightarrow> (\<exists>r \<in> set t. key r = k \<and> guard r)"
    by (auto simp: filter_empty_conv)
  also have "\<dots> \<longleftrightarrow> (\<exists>r. find (\<lambda>r. key r = k) t = Some r \<and> guard r)"
    using assms by (metis find_eq_some_key find_key_some)
  finally show ?thesis by (simp add: run_def upd_where_def)
qed

lemma run_false_unchanged:
  "distinct (map key t) \<Longrightarrow> \<not> fst (run k t) \<Longrightarrow> snd (run k t) = t"
  unfolding snd_run by (rule map_idI) (auto simp: fst_run dest: find_eq_some_key)

end

text \<open>A guarded update that disables its own guard succeeds at most once per row.\<close>

locale one_shot_update = guarded_update +
  assumes guard_off: "\<not> guard (change r)"
begin

lemma run_guard_off:
  assumes "find (\<lambda>r. key r = k) (snd (run k t)) = Some r"
  shows "\<not> guard r"
proof -
  from assms obtain r0 where r0: "find (\<lambda>r. key r = k) t = Some r0"
    and r: "r = (if key r0 = k \<and> guard r0 then change r0 else r0)"
    by (auto simp: find_run)
  from r0 have "key r0 = k" by (auto dest: find_key_some)
  with r guard_off [of r0] show ?thesis by (cases "guard r0") auto
qed

lemma run_once:
  assumes "distinct (map key t)"
  shows "\<not> fst (run k (snd (run k t)))"
proof -
  have "distinct (map key (snd (run k t)))" using assms by (simp add: keys_run)
  then show ?thesis
    by (auto simp: fst_run find_run guard_off split: if_splits dest: find_key_some)
qed

end

section \<open>Runs\<close>

text \<open>
  A component driven by a sequence of events is a step function folded over the list. An
  invariant every step keeps holds after every run, and a quantity no step decreases never
  decreases over a run.
\<close>

locale kept_by_steps =
  fixes step :: "'e \<Rightarrow> 's \<Rightarrow> 's" and inv :: "'s \<Rightarrow> bool"
  assumes step_inv: "inv s \<Longrightarrow> inv (step e s)"
begin

lemma run_inv: "inv s \<Longrightarrow> inv (fold step es s)"
  by (induction es arbitrary: s) (auto simp: step_inv)

lemma run_rel:
  assumes refl: "\<And>s. inv s \<Longrightarrow> R s s" and trans: "\<And>a b c. R a b \<Longrightarrow> R b c \<Longrightarrow> R a c"
    and one: "\<And>e s. inv s \<Longrightarrow> R s (step e s)"
  shows "inv s \<Longrightarrow> R s (fold step es s)"
proof (induction es arbitrary: s)
  case Nil
  then show ?case by (simp add: refl)
next
  case (Cons e es)
  then have "R s (step e s)" "R (step e s) (fold step es (step e s))"
    by (auto simp: one step_inv)
  then show ?case by (auto intro: trans)
qed

end

section \<open>Lists\<close>

lemma distinct_filter_index:
  "distinct (map f (filter P t)) \<Longrightarrow> i < length t \<Longrightarrow> j < length t \<Longrightarrow> P (t ! i) \<Longrightarrow> P (t ! j) \<Longrightarrow>
     f (t ! i) = f (t ! j) \<Longrightarrow> i = j"
proof (induction t arbitrary: i j)
  case (Cons a t)
  have tail: "f a \<noteq> f (t ! k) \<and> f (t ! k) \<noteq> f a" if "P a" "k < length t" "P (t ! k)" for k
  proof -
    have "t ! k \<in> set (filter P t)" using that by simp
    then have "f (t ! k) \<in> f ` set (filter P t)" by blast
    with Cons.prems(1) that(1) show ?thesis by auto
  qed
  show ?case
    using Cons.prems Cons.IH tail by (cases i; cases j) (auto split: if_splits)
qed simp

text \<open>\<open>Iterator::rfind\<close> / \<open>next_back\<close>: the last element with a property.\<close>

definition find_last :: "('a \<Rightarrow> bool) \<Rightarrow> 'a list \<Rightarrow> 'a option" where
  "find_last P xs = find P (rev xs)"

lemma find_append: "find P (xs @ ys) = (case find P xs of None \<Rightarrow> find P ys | Some x \<Rightarrow> Some x)"
  by (induction xs) auto

lemma find_last_simps [simp]:
  "find_last P [] = None"
  "find_last P (xs @ [x]) = (if P x then Some x else find_last P xs)"
  by (simp_all add: find_last_def)

lemma find_last_Some: "find_last P xs = Some x \<Longrightarrow> x \<in> set xs \<and> P x"
  by (auto simp: find_last_def find_Some_iff dest: nth_mem) (metis nth_mem set_rev length_rev)

lemma find_last_None: "find_last P xs = None \<longleftrightarrow> (\<forall>x \<in> set xs. \<not> P x)"
  by (auto simp: find_last_def find_None_iff)

text \<open>
  \<open>Iterator::max_by_key\<close>: the element with the largest key, the last one among equals;
  \<open>Iterator::max\<close> on keys is \<open>max_key\<close>.
\<close>

fun max_by_key :: "('a \<Rightarrow> 'k::linorder) \<Rightarrow> 'a list \<Rightarrow> 'a option" where
  "max_by_key f [] = None"
| "max_by_key f (x # xs) =
     (case max_by_key f xs of None \<Rightarrow> Some x | Some y \<Rightarrow> Some (if f x \<le> f y then y else x))"

definition max_key :: "('a \<Rightarrow> 'k::linorder) \<Rightarrow> 'a list \<Rightarrow> 'k option" where
  "max_key f xs = map_option f (max_by_key f xs)"

lemma max_by_key_None [simp]: "max_by_key f xs = None \<longleftrightarrow> xs = []"
  by (cases xs) (auto split: option.splits)

lemma max_by_key_in: "max_by_key f xs = Some y \<Longrightarrow> y \<in> set xs"
  by (induction xs arbitrary: y) (auto split: option.splits if_splits)

lemma max_by_key_ge: "max_by_key f xs = Some y \<Longrightarrow> x \<in> set xs \<Longrightarrow> f x \<le> f y"
proof (induction xs arbitrary: y)
  case (Cons a xs)
  then show ?case by (fastforce split: option.splits if_splits)
qed simp

lemma max_by_key_unique:
  assumes "y \<in> set xs" and "\<And>x. x \<in> set xs \<Longrightarrow> x \<noteq> y \<Longrightarrow> f x < f y"
  shows "max_by_key f xs = Some y"
proof (cases "max_by_key f xs")
  case None
  with assms(1) show ?thesis by simp
next
  case (Some z)
  have "z = y"
    using max_by_key_in [OF Some] max_by_key_ge [OF Some assms(1)] assms(2) by force
  with Some show ?thesis by simp
qed

definition max_or :: "int \<Rightarrow> ('a \<Rightarrow> int) \<Rightarrow> 'a list \<Rightarrow> int" where
  "max_or d f xs = (case max_key f xs of None \<Rightarrow> d | Some m \<Rightarrow> m)"

lemma max_or_ge: "x \<in> set xs \<Longrightarrow> f x \<le> max_or d f xs"
  by (auto simp: max_or_def max_key_def split: option.splits dest: max_by_key_ge)

lemma max_or_in: "max_or d f xs = d \<or> (\<exists>x \<in> set xs. max_or d f xs = f x)"
  by (auto simp: max_or_def max_key_def split: option.splits dest: max_by_key_in)

end
