(* ===== verification/Sessions.thy ===== *)
theory Sessions
  imports Prelude
begin

text \<open>
  \<open>src/src/store/sessions.rs\<close>: the \<open>sessions\<close> table, Serbero assisting one dispute. A row is
  the record \<open>session\<close>; the table is the list of rows in \<open>rowid\<close> order, with the primary key
  \<open>session_id\<close> and the partial unique index \<open>one_live_session\<close> (at most one row per dispute
  whose state is not terminal). Every statement of the file is a definition here; the guarded
  updates are instances of the interface \<open>guarded_update\<close>.
\<close>

section \<open>States and parties\<close>

datatype session_state = Opening | Active | Guiding | HandedOff | Closed | Superseded

definition is_terminal :: "session_state \<Rightarrow> bool" where
  "is_terminal st \<longleftrightarrow> st = Closed \<or> st = Superseded"

lemma is_terminal_simps [simp]:
  "\<not> is_terminal Opening" "\<not> is_terminal Active" "\<not> is_terminal Guiding"
  "\<not> is_terminal HandedOff" "is_terminal Closed" "is_terminal Superseded"
  by (simp_all add: is_terminal_def)

datatype party = Buyer | Seller

lemma party_all: "(\<forall>p. P p) \<longleftrightarrow> P Buyer \<and> P Seller"
  by (metis party.exhaust)

fun session_state_str :: "session_state \<Rightarrow> string" where
  "session_state_str Opening = ''opening''"
| "session_state_str Active = ''active''"
| "session_state_str Guiding = ''guiding''"
| "session_state_str HandedOff = ''handed_off''"
| "session_state_str Closed = ''closed''"
| "session_state_str Superseded = ''superseded''"

definition session_state_from_str :: "string \<Rightarrow> session_state result" where
  "session_state_from_str s =
     (if s = ''opening'' then Inr Opening
      else if s = ''active'' then Inr Active
      else if s = ''guiding'' then Inr Guiding
      else if s = ''handed_off'' then Inr HandedOff
      else if s = ''closed'' then Inr Closed
      else if s = ''superseded'' then Inr Superseded
      else Inl (Schema (''unknown session state '' @ debug_str s)))"

fun party_str :: "party \<Rightarrow> string" where
  "party_str Buyer = ''buyer''"
| "party_str Seller = ''seller''"

definition party_from_str :: "string \<Rightarrow> party result" where
  "party_from_str s =
     (if s = ''buyer'' then Inr Buyer
      else if s = ''seller'' then Inr Seller
      else Inl (Schema (''unknown party '' @ debug_str s)))"

interpretation state_text: text_codec session_state_str "\<lambda>s. ok (session_state_from_str s)"
proof
  show "ok (session_state_from_str (session_state_str x)) = Some x" for x
    by (cases x) (simp_all add: session_state_from_str_def)
  show "ok (session_state_from_str s) = Some x \<Longrightarrow> s = session_state_str x" for s x
    by (auto simp: session_state_from_str_def split: if_splits)
qed

interpretation party_text: text_codec party_str "\<lambda>s. ok (party_from_str s)"
proof
  show "ok (party_from_str (party_str x)) = Some x" for x
    by (cases x) (simp_all add: party_from_str_def)
  show "ok (party_from_str s) = Some x \<Longrightarrow> s = party_str x" for s x
    by (auto simp: party_from_str_def split: if_splits)
qed

section \<open>Rows\<close>

record session =
  s_session_id :: string
  s_dispute_id :: string
  s_state :: session_state
  s_buyer_trade_pubkey :: string
  s_seller_trade_pubkey :: string
  s_fiat_amount :: "string option"
  s_fiat_code :: "string option"
  s_payment_method :: "string option"
  s_order_published_at :: "int option"
  s_buyer_lang :: "string option"
  s_seller_lang :: "string option"
  s_buyer_chat_cursor :: "int option"
  s_seller_chat_cursor :: "int option"
  s_rounds :: nat
  s_buyer_rounds :: nat
  s_seller_rounds :: nat
  s_handoff_reason :: "string option"
  s_opened_at :: int
  s_updated_at :: int

fun rounds_of :: "session \<Rightarrow> party \<Rightarrow> nat" where
  "rounds_of s Buyer = s_buyer_rounds s"
| "rounds_of s Seller = s_seller_rounds s"

fun trade_pubkey :: "session \<Rightarrow> party \<Rightarrow> string" where
  "trade_pubkey s Buyer = s_buyer_trade_pubkey s"
| "trade_pubkey s Seller = s_seller_trade_pubkey s"

definition unwrap_or :: "'a option \<Rightarrow> 'a \<Rightarrow> 'a" where
  "unwrap_or x d = (case x of None \<Rightarrow> d | Some y \<Rightarrow> y)"

lemma unwrap_or_simps [simp]: "unwrap_or None d = d" "unwrap_or (Some x) d = x"
  by (simp_all add: unwrap_or_def)

fun session_language :: "session \<Rightarrow> party \<Rightarrow> string \<Rightarrow> string" where
  "session_language s Buyer dflt = unwrap_or (s_buyer_lang s) dflt"
| "session_language s Seller dflt = unwrap_or (s_seller_lang s) dflt"

fun chat_cursor :: "session \<Rightarrow> party \<Rightarrow> int option" where
  "chat_cursor s Buyer = s_buyer_chat_cursor s"
| "chat_cursor s Seller = s_seller_chat_cursor s"

record new_session =
  n_session_id :: string
  n_dispute_id :: string
  n_buyer_trade_pubkey :: string
  n_seller_trade_pubkey :: string
  n_fiat_amount :: "string option"
  n_fiat_code :: "string option"
  n_payment_method :: "string option"
  n_order_published_at :: "int option"
  n_now :: int

type_synonym sessions = "session list"

definition live :: "session \<Rightarrow> bool" where
  "live s \<longleftrightarrow> \<not> is_terminal (s_state s)"

text \<open>The row an insert writes: the columns the statement does not name have their defaults.\<close>

definition opening_row :: "new_session \<Rightarrow> session" where
  "opening_row n = \<lparr>
     s_session_id = n_session_id n, s_dispute_id = n_dispute_id n, s_state = Opening,
     s_buyer_trade_pubkey = n_buyer_trade_pubkey n,
     s_seller_trade_pubkey = n_seller_trade_pubkey n,
     s_fiat_amount = n_fiat_amount n, s_fiat_code = n_fiat_code n,
     s_payment_method = n_payment_method n, s_order_published_at = n_order_published_at n,
     s_buyer_lang = None, s_seller_lang = None,
     s_buyer_chat_cursor = None, s_seller_chat_cursor = None,
     s_rounds = 0, s_buyer_rounds = 0, s_seller_rounds = 0, s_handoff_reason = None,
     s_opened_at = n_now n, s_updated_at = n_now n\<rparr>"

text \<open>
  \<open>insert\<close>: the index \<open>one_live_session\<close>, the primary key and the foreign key on
  \<open>disputes (dispute_id)\<close> are checked; only the first violation is not an error. The last
  argument of the foreign key is the set of dispute ids the \<open>disputes\<close> table holds.
\<close>

definition insert_session ::
    "string list \<Rightarrow> sessions \<Rightarrow> new_session \<Rightarrow> (bool \<times> sessions) result" where
  "insert_session disputes t n =
     (if \<exists>s \<in> set t. s_dispute_id s = n_dispute_id n \<and> live s then Inr (False, t)
      else if \<exists>s \<in> set t. s_session_id s = n_session_id n
        then Inl (Store (ConstraintViolation ''UNIQUE constraint failed: sessions.session_id''))
      else if n_dispute_id n \<notin> set disputes
        then Inl (Store (ConstraintViolation ''FOREIGN KEY constraint failed''))
      else Inr (True, t @ [opening_row n]))"

section \<open>Queries\<close>

definition get_session :: "sessions \<Rightarrow> string \<Rightarrow> session option" where
  "get_session t sid = find (\<lambda>s. s_session_id s = sid) t"

definition live_for_dispute :: "sessions \<Rightarrow> string \<Rightarrow> session option" where
  "live_for_dispute t d = find (\<lambda>s. s_dispute_id s = d \<and> live s) t"

definition list_live :: "sessions \<Rightarrow> session list" where
  "list_live t = sort_key (\<lambda>s. (s_opened_at s, s_session_id s)) (filter live t)"

text \<open>\<open>ORDER BY opened_at DESC, rowid DESC LIMIT 1\<close>: the last of the rows opened latest.\<close>

definition latest_for_dispute :: "sessions \<Rightarrow> string \<Rightarrow> session option" where
  "latest_for_dispute t d = max_by_key s_opened_at (filter (\<lambda>s. s_dispute_id s = d) t)"

definition exists_for_dispute :: "sessions \<Rightarrow> string \<Rightarrow> bool" where
  "exists_for_dispute t d \<longleftrightarrow> (\<exists>s \<in> set t. s_dispute_id s = d)"

section \<open>Updates\<close>

fun with_language :: "party \<Rightarrow> string \<Rightarrow> session \<Rightarrow> session" where
  "with_language Buyer l s = s\<lparr>s_buyer_lang := Some l\<rparr>"
| "with_language Seller l s = s\<lparr>s_seller_lang := Some l\<rparr>"

definition set_language ::
    "sessions \<Rightarrow> string \<Rightarrow> party \<Rightarrow> string \<Rightarrow> int \<Rightarrow> bool \<times> sessions" where
  "set_language t sid p l now =
     (let (n, t') = upd_where (\<lambda>s. s_session_id s = sid)
                      (\<lambda>s. (with_language p l s)\<lparr>s_updated_at := now\<rparr>) t
      in (n = 1, t'))"

definition add_round :: "party \<Rightarrow> bool \<Rightarrow> session \<Rightarrow> session" where
  "add_round p first_in_turn s =
     (let (b, sl) = (case p of Buyer \<Rightarrow> (1, 0) | Seller \<Rightarrow> (0, 1))
      in s\<lparr>s_rounds := s_rounds s + (if first_in_turn then 1 else 0),
           s_buyer_rounds := s_buyer_rounds s + b,
           s_seller_rounds := s_seller_rounds s + sl\<rparr>)"

definition count_round :: "sessions \<Rightarrow> string \<Rightarrow> party \<Rightarrow> bool \<Rightarrow> int \<Rightarrow> sessions" where
  "count_round t sid p first_in_turn now =
     snd (upd_where (\<lambda>s. s_session_id s = sid)
            (\<lambda>s. (add_round p first_in_turn s)\<lparr>s_updated_at := now\<rparr>) t)"

definition hand_off_row :: "string \<Rightarrow> int \<Rightarrow> session \<Rightarrow> session" where
  "hand_off_row reason now s =
     s\<lparr>s_state := HandedOff, s_handoff_reason := Some reason, s_updated_at := now\<rparr>"

definition mediating :: "session_state \<Rightarrow> bool" where
  "mediating st \<longleftrightarrow> st \<in> {Opening, Active, Guiding}"

definition hand_off :: "sessions \<Rightarrow> string \<Rightarrow> string \<Rightarrow> int \<Rightarrow> bool \<times> sessions" where
  "hand_off t sid reason now =
     (let (n, t') = upd_where (\<lambda>s. s_session_id s = sid \<and> mediating (s_state s))
                      (hand_off_row reason now) t
      in (n = 1, t'))"

definition set_state_row :: "session_state \<Rightarrow> int \<Rightarrow> session \<Rightarrow> session" where
  "set_state_row st now s = s\<lparr>s_state := st, s_updated_at := now\<rparr>"

definition set_state :: "sessions \<Rightarrow> string \<Rightarrow> session_state \<Rightarrow> int \<Rightarrow> bool \<times> sessions" where
  "set_state t sid st now =
     (let (n, t') = upd_where (\<lambda>s. s_session_id s = sid \<and> live s) (set_state_row st now) t
      in (n = 1, t'))"

definition start_guiding :: "sessions \<Rightarrow> string \<Rightarrow> int \<Rightarrow> bool \<times> sessions" where
  "start_guiding t sid now =
     (let (n, t') = upd_where (\<lambda>s. s_session_id s = sid \<and> s_state s = Active)
                      (set_state_row Guiding now) t
      in (n = 1, t'))"

fun with_cursor :: "party \<Rightarrow> int \<Rightarrow> session \<Rightarrow> session" where
  "with_cursor Buyer c s =
     s\<lparr>s_buyer_chat_cursor := Some (max (unwrap_or (s_buyer_chat_cursor s) 0) c)\<rparr>"
| "with_cursor Seller c s =
     s\<lparr>s_seller_chat_cursor := Some (max (unwrap_or (s_seller_chat_cursor s) 0) c)\<rparr>"

definition advance_chat_cursor ::
    "sessions \<Rightarrow> string \<Rightarrow> party \<Rightarrow> int \<Rightarrow> int \<Rightarrow> sessions" where
  "advance_chat_cursor t sid p c now =
     snd (upd_where (\<lambda>s. s_session_id s = sid)
            (\<lambda>s. (with_cursor p c s)\<lparr>s_updated_at := now\<rparr>) t)"

section \<open>The guarded updates as instances of the interface\<close>

text \<open>
  \<open>hand_off\<close>, \<open>set_state\<close> and \<open>start_guiding\<close> are guarded updates over the primary key;
  \<open>hand_off\<close> and \<open>start_guiding\<close> leave a state their own guard excludes, so they are one-shot.
\<close>

interpretation handing: one_shot_update s_session_id "\<lambda>s. mediating (s_state s)" "hand_off_row reason now"
  for reason now
  by unfold_locales (auto simp: hand_off_row_def mediating_def)

interpretation guiding: one_shot_update s_session_id "\<lambda>s. s_state s = Active" "set_state_row Guiding now"
  for now
  by unfold_locales (auto simp: set_state_row_def)

interpretation moving: guarded_update s_session_id live "set_state_row st now"
  for st now
  by unfold_locales (auto simp: set_state_row_def)

lemma hand_off_run:
  "hand_off t sid reason now =
     guarded_update.run s_session_id (\<lambda>s. mediating (s_state s)) (hand_off_row reason now) sid t"
  by (simp add: hand_off_def handing.run_def)

lemma start_guiding_run:
  "start_guiding t sid now =
     guarded_update.run s_session_id (\<lambda>s. s_state s = Active) (set_state_row Guiding now) sid t"
  by (simp add: start_guiding_def guiding.run_def)

lemma set_state_run:
  "set_state t sid st now = guarded_update.run s_session_id live (set_state_row st now) sid t"
  by (simp add: set_state_def moving.run_def)

section \<open>The table's operations as one machine\<close>

text \<open>
  Everything the rest of the program can do to the table, in any order: the operations are the
  file's functions, and a failed insert leaves the table alone.
\<close>

datatype session_op =
    Insert new_session
  | Set_Language string party string int
  | Count_Round string party bool int
  | Hand_Off string string int
  | Set_State string session_state int
  | Start_Guiding string int
  | Advance_Cursor string party int int

fun session_step :: "string list \<Rightarrow> session_op \<Rightarrow> sessions \<Rightarrow> sessions" where
  "session_step ds (Insert n) t =
     (case insert_session ds t n of Inl _ \<Rightarrow> t | Inr (_, t') \<Rightarrow> t')"
| "session_step ds (Set_Language sid p l now) t = snd (set_language t sid p l now)"
| "session_step ds (Count_Round sid p f now) t = count_round t sid p f now"
| "session_step ds (Hand_Off sid reason now) t = snd (hand_off t sid reason now)"
| "session_step ds (Set_State sid st now) t = snd (set_state t sid st now)"
| "session_step ds (Start_Guiding sid now) t = snd (start_guiding t sid now)"
| "session_step ds (Advance_Cursor sid p c now) t = advance_chat_cursor t sid p c now"

text \<open>The invariant the two unique indexes stand for.\<close>

definition sessions_ok :: "sessions \<Rightarrow> bool" where
  "sessions_ok t \<longleftrightarrow> distinct (map s_session_id t) \<and> distinct (map s_dispute_id (filter live t))"

text \<open>
  What no operation takes back from a row: its identity, a terminal state, and the monotone
  columns (rounds and chat cursors).
\<close>

definition cursor_le :: "int option \<Rightarrow> int option \<Rightarrow> bool" where
  "cursor_le a b \<longleftrightarrow> (case a of None \<Rightarrow> True | Some x \<Rightarrow> (case b of None \<Rightarrow> False | Some y \<Rightarrow> x \<le> y))"

lemma cursor_le_refl [simp]: "cursor_le a a"
  by (simp add: cursor_le_def split: option.splits)

lemma cursor_le_trans: "cursor_le a b \<Longrightarrow> cursor_le b c \<Longrightarrow> cursor_le a c"
  by (auto simp: cursor_le_def split: option.splits)

definition row_grows :: "session \<Rightarrow> session \<Rightarrow> bool" where
  "row_grows s s' \<longleftrightarrow>
     s_session_id s' = s_session_id s \<and> s_dispute_id s' = s_dispute_id s \<and>
     s_opened_at s' = s_opened_at s \<and>
     (is_terminal (s_state s) \<longrightarrow> s_state s' = s_state s) \<and>
     s_rounds s \<le> s_rounds s' \<and>
     s_buyer_rounds s \<le> s_buyer_rounds s' \<and> s_seller_rounds s \<le> s_seller_rounds s' \<and>
     cursor_le (s_buyer_chat_cursor s) (s_buyer_chat_cursor s') \<and>
     cursor_le (s_seller_chat_cursor s) (s_seller_chat_cursor s')"

lemma row_grows_refl [simp]: "row_grows s s"
  by (simp add: row_grows_def)

lemma row_grows_trans: "row_grows a b \<Longrightarrow> row_grows b c \<Longrightarrow> row_grows a c"
  by (auto simp: row_grows_def intro: cursor_le_trans)

text \<open>Each statement rewrites rows by a function that only grows them.\<close>

lemma row_grows_changes [row_simps]:
  "row_grows s ((with_language p l s)\<lparr>s_updated_at := now\<rparr>)"
  "row_grows s ((add_round p f s)\<lparr>s_updated_at := now\<rparr>)"
  "mediating (s_state s) \<Longrightarrow> row_grows s (hand_off_row reason now s)"
  "live s \<Longrightarrow> row_grows s (set_state_row st now s)"
  "s_state s = Active \<Longrightarrow> row_grows s (set_state_row st now s)"
  "row_grows s ((with_cursor p c s)\<lparr>s_updated_at := now\<rparr>)"
  by (cases p; auto simp: row_grows_def add_round_def hand_off_row_def set_state_row_def
      mediating_def live_def cursor_le_def unwrap_or_def split: option.splits)+

lemma live_changes [row_simps]:
  "s_dispute_id ((with_language p l s)\<lparr>s_updated_at := now\<rparr>) = s_dispute_id s"
  "live ((with_language p l s)\<lparr>s_updated_at := now\<rparr>) = live s"
  "live ((add_round p f s)\<lparr>s_updated_at := now\<rparr>) = live s"
  "live ((with_cursor p c s)\<lparr>s_updated_at := now\<rparr>) = live s"
  "mediating (s_state s) \<Longrightarrow> live s"
  "s_state s = Active \<Longrightarrow> live s"
  by (cases p; auto simp: live_def add_round_def mediating_def split: party.splits)+

text \<open>An update of live rows by a function that grows them keeps the invariant.\<close>

lemma sessions_ok_map:
  assumes "sessions_ok t" and grow: "\<And>s. s \<in> set t \<Longrightarrow> row_grows s (f s)"
    and live: "\<And>s. s \<in> set t \<Longrightarrow> live (f s) \<Longrightarrow> live s"
  shows "sessions_ok (map f t)"
proof -
  have ids: "map s_session_id (map f t) = map s_session_id t"
    using grow by (auto simp: row_grows_def)
  have "distinct (map s_dispute_id (filter live (map f t)))"
    using assms
  proof (induction t)
    case (Cons a t)
    have sub: "s_dispute_id ` set (filter live (map f t)) \<subseteq> s_dispute_id ` set (filter live t)"
      using Cons.prems by (fastforce simp: row_grows_def)
    have "sessions_ok t" using Cons.prems(1) by (auto simp: sessions_ok_def split: if_splits)
    then have IH: "distinct (map s_dispute_id (filter live (map f t)))"
      using Cons.prems by (intro Cons.IH) auto
    show ?case
    proof (cases "live (f a)")
      case True
      with Cons.prems have "live a" and same: "s_dispute_id (f a) = s_dispute_id a"
        by (auto simp: row_grows_def)
      with Cons.prems(1) have "s_dispute_id a \<notin> s_dispute_id ` set (filter live t)"
        by (auto simp: sessions_ok_def)
      with sub same have "s_dispute_id (f a) \<notin> s_dispute_id ` set (filter live (map f t))"
        by auto
      with IH show ?thesis using True by simp
    next
      case False
      with IH show ?thesis by simp
    qed
  qed simp
  with assms(1) show ?thesis unfolding sessions_ok_def ids by blast
qed

lemma upd_where_grows:
  assumes "\<And>s. P s \<Longrightarrow> row_grows s (g s)" and "\<And>s. P s \<Longrightarrow> live (g s) \<Longrightarrow> live s"
  shows "\<exists>f. snd (upd_where P g t) = map f t \<and> (\<forall>s. row_grows s (f s)) \<and> (\<forall>s. live (f s) \<longrightarrow> live s)"
  by (rule exI [of _ "\<lambda>s. if P s then g s else s"]) (auto simp: snd_upd_where assms)

lemmas session_updates = set_language_def count_round_def hand_off_def set_state_def
  start_guiding_def advance_chat_cursor_def

text \<open>Every operation but the insert maps a growing function over the rows.\<close>

lemma session_step_map:
  assumes "\<forall>n. oper \<noteq> Insert n"
  obtains f where "session_step ds oper t = map f t" and "\<And>s. row_grows s (f s)"
    and "\<And>s. live (f s) \<Longrightarrow> live s"
proof -
  have "\<exists>f. session_step ds oper t = map f t \<and> (\<forall>s. row_grows s (f s)) \<and> (\<forall>s. live (f s) \<longrightarrow> live s)"
    using assms
    by (cases oper)
      (auto simp: session_updates case_prod_beta row_simps intro!: upd_where_grows)
  with that show thesis by blast
qed

lemma sessions_ok_insert:
  assumes "sessions_ok t" and "insert_session ds t n = Inr (b, t')"
  shows "sessions_ok t'"
proof (cases "t' = t")
  case False
  with assms(2) have new: "t' = t @ [opening_row n]"
    and free: "\<forall>s \<in> set t. s_session_id s \<noteq> n_session_id n"
    and idle: "\<forall>s \<in> set t. s_dispute_id s = n_dispute_id n \<longrightarrow> \<not> live s"
    by (auto simp: insert_session_def split: if_splits)
  from free have "n_session_id n \<notin> s_session_id ` set t" by auto
  moreover from idle have "n_dispute_id n \<notin> s_dispute_id ` set (filter live t)" by auto
  ultimately show ?thesis
    using assms(1) by (simp add: sessions_ok_def new opening_row_def)
qed (simp add: assms)

interpretation session_machine: kept_by_steps "session_step ds" sessions_ok for ds
proof
  fix t oper assume ok: "sessions_ok t"
  show "sessions_ok (session_step ds oper t)"
  proof (cases "\<exists>n. oper = Insert n")
    case True
    with ok show ?thesis by (auto split: sum.splits intro: sessions_ok_insert)
  next
    case False
    then obtain f where "session_step ds oper t = map f t" "\<And>s. row_grows s (f s)"
      "\<And>s. live (f s) \<Longrightarrow> live s" using session_step_map by blast
    with ok show ?thesis by (simp add: sessions_ok_map)
  qed
qed

definition table_grows :: "sessions \<Rightarrow> sessions \<Rightarrow> bool" where
  "table_grows t t' \<longleftrightarrow>
     (\<forall>sid s. get_session t sid = Some s \<longrightarrow> (\<exists>s'. get_session t' sid = Some s' \<and> row_grows s s'))"

lemma table_grows_refl: "table_grows t t"
  by (auto simp: table_grows_def)

lemma table_grows_trans: "table_grows a b \<Longrightarrow> table_grows b c \<Longrightarrow> table_grows a c"
  unfolding table_grows_def by (meson row_grows_trans)

lemma get_session_map:
  assumes "\<And>s. row_grows s (f s)"
  shows "get_session (map f t) sid = map_option f (get_session t sid)"
  using assms by (induction t) (auto simp: get_session_def row_grows_def)

lemma table_grows_step: "table_grows t (session_step ds oper t)"
proof (cases "\<exists>n. oper = Insert n")
  case True
  then show ?thesis
    by (auto simp: table_grows_def insert_session_def get_session_def find_append)
next
  case False
  then obtain f where "session_step ds oper t = map f t" "\<And>s. row_grows s (f s)"
    using session_step_map by blast
  then show ?thesis by (auto simp: table_grows_def get_session_map)
qed

lemma sessions_ok_empty: "sessions_ok []"
  by (simp add: sessions_ok_def)

section \<open>Properties\<close>

text \<open>
  Property C13. At most one live session per dispute: whatever sequence of the table's operations
  runs on an empty table, two live rows of one dispute are the same row.
\<close>

theorem one_live_session:
  assumes "t = fold (session_step ds) ops []"
    and "i < length t" and "j < length t" and "live (t ! i)" and "live (t ! j)"
    and "s_dispute_id (t ! i) = s_dispute_id (t ! j)"
  shows "i = j"
proof -
  have "sessions_ok t"
    using assms(1) session_machine.run_inv [OF sessions_ok_empty] by simp
  then have "distinct (map s_dispute_id (filter live t))" by (simp add: sessions_ok_def)
  then show ?thesis using assms(2-6) by (rule distinct_filter_index)
qed

text \<open>
  Nothing takes back what a session row reached: over any sequence of operations a
  session that is closed or superseded keeps that state, no round counter and no chat cursor goes
  down, and the row keeps its identity.
\<close>

theorem session_rows_grow:
  assumes "get_session t sid = Some s" and "sessions_ok t"
  shows "\<exists>s'. get_session (fold (session_step ds) ops t) sid = Some s' \<and> row_grows s s'"
proof -
  have "table_grows t (fold (session_step ds) ops t)"
    using table_grows_refl table_grows_trans table_grows_step assms(2)
    by (rule session_machine.run_rel)
  with assms(1) show ?thesis by (auto simp: table_grows_def)
qed

text \<open>
  A handoff is claimed once: whichever reason comes second, a session already handed
  off refuses it and keeps the table, so the first reason stands; and a handoff succeeds exactly
  when the session is still opening, active or guiding.
\<close>

theorem hand_off_once:
  assumes "sessions_ok t" and "hand_off t sid r1 n1 = (b1, t1)"
  shows "hand_off t1 sid r2 n2 = (False, t1) \<and>
    (b1 \<longleftrightarrow> (\<exists>s. get_session t sid = Some s \<and> mediating (s_state s))) \<and>
    (b1 \<longrightarrow> (\<exists>s. get_session t1 sid = Some s \<and> s_state s = HandedOff \<and> s_handoff_reason s = Some r1))"
proof -
  have d: "distinct (map s_session_id t)" using assms(1) by (simp add: sessions_ok_def)
  have t1: "t1 = snd (handing.run r1 n1 sid t)" and b1: "b1 = fst (handing.run r1 n1 sid t)"
    using assms(2) by (simp_all add: hand_off_run)
  have d1: "distinct (map s_session_id t1)" using d by (simp add: t1 handing.keys_run)
  have gone: "\<not> (\<exists>s. find (\<lambda>s. s_session_id s = sid) t1 = Some s \<and> mediating (s_state s))"
    unfolding t1 using handing.run_guard_off by blast
  have nb2: "\<not> fst (handing.run r2 n2 sid t1)" using gone by (simp add: handing.fst_run [OF d1])
  have again: "hand_off t1 sid r2 n2 = (False, t1)"
    using nb2 handing.run_false_unchanged [OF d1 nb2] by (simp add: hand_off_run prod_eq_iff)
  have iff: "b1 \<longleftrightarrow> (\<exists>s. get_session t sid = Some s \<and> mediating (s_state s))"
    by (simp add: b1 handing.fst_run [OF d] get_session_def)
  have "\<exists>s. get_session t1 sid = Some s \<and> s_state s = HandedOff \<and> s_handoff_reason s = Some r1"
    if b1
    using that handing.run_hit [of sid t _ r1 n1]
    by (auto simp: iff t1 get_session_def hand_off_row_def)
  with again iff show ?thesis by blast
qed

section \<open>Witnesses\<close>

definition example_session :: "string \<Rightarrow> string \<Rightarrow> new_session" where
  "example_session sid d = \<lparr>n_session_id = sid, n_dispute_id = d,
     n_buyer_trade_pubkey = ''buyer-trade'', n_seller_trade_pubkey = ''seller-trade'',
     n_fiat_amount = Some ''50000'', n_fiat_code = Some ''ARS'', n_payment_method = None,
     n_order_published_at = Some 90, n_now = 100\<rparr>"

lemma one_live_session_witness:
  "fold (session_step [''d1'']) [Insert (example_session ''s1'' ''d1''),
      Insert (example_session ''s2'' ''d1'')] [] = [opening_row (example_session ''s1'' ''d1'')] \<and>
   live (opening_row (example_session ''s1'' ''d1'')) \<and> (0::nat) = 0"
proof -
  let ?ops = "[Insert (example_session ''s1'' ''d1''), Insert (example_session ''s2'' ''d1'')]"
  have eq: "fold (session_step [''d1'']) ?ops [] = [opening_row (example_session ''s1'' ''d1'')]"
    by (simp add: insert_session_def example_session_def opening_row_def live_def)
  have "(0::nat) = 0"
    by (rule one_live_session [of "[opening_row (example_session ''s1'' ''d1'')]" "[''d1'']" ?ops])
      (use eq in \<open>simp_all add: live_def opening_row_def\<close>)
  with eq show ?thesis by (simp add: live_def opening_row_def)
qed

lemma session_rows_grow_witness:
  "\<exists>s'. get_session (fold (session_step [''d1'']) [Set_State ''s1'' Closed 5, Start_Guiding ''s1'' 6,
       Advance_Cursor ''s1'' Buyer 3 7] [opening_row (example_session ''s1'' ''d1'')]) ''s1'' = Some s' \<and>
     row_grows (opening_row (example_session ''s1'' ''d1'')) s'"
  by (rule session_rows_grow)
    (simp_all add: get_session_def opening_row_def example_session_def sessions_ok_def)

lemma hand_off_once_witness:
  "hand_off (snd (hand_off [opening_row (example_session ''s1'' ''d1'')] ''s1'' ''fraud'' 1))
     ''s1'' ''conflict'' 2 =
   (False, snd (hand_off [opening_row (example_session ''s1'' ''d1'')] ''s1'' ''fraud'' 1))"
  using hand_off_once [of "[opening_row (example_session ''s1'' ''d1'')]" "''s1''" "''fraud''" 1
      True "snd (hand_off [opening_row (example_session ''s1'' ''d1'')] ''s1'' ''fraud'' 1)"
      "''conflict''" 2]
  by (simp add: sessions_ok_def prod_eq_iff hand_off_def upd_where_def opening_row_def mediating_def
      example_session_def)

end
