(* ===== verification/Messages.thy ===== *)
theory Messages
  imports Sessions
begin

text \<open>
  \<open>src/src/store/messages.rs\<close>: the \<open>messages\<close> table, every message exchanged with a party. Ids
  are \<open>INTEGER PRIMARY KEY\<close> row ids, one more than the largest stored; rows are never deleted, so
  the list of rows is in id order. The unique key (session, direction, party, inner event id) is
  the durable deduplication.
\<close>

datatype direction = In | Out

fun direction_str :: "direction \<Rightarrow> string" where
  "direction_str In = ''in''"
| "direction_str Out = ''out''"

definition direction_from_str :: "string \<Rightarrow> direction result" where
  "direction_from_str s =
     (if s = ''in'' then Inr In
      else if s = ''out'' then Inr Out
      else Inl (Schema (''unknown message direction '' @ debug_str s)))"

interpretation direction_text: text_codec direction_str "\<lambda>s. ok (direction_from_str s)"
proof
  show "ok (direction_from_str (direction_str x)) = Some x" for x
    by (cases x) (simp_all add: direction_from_str_def)
  show "ok (direction_from_str s) = Some x \<Longrightarrow> s = direction_str x" for s x
    by (auto simp: direction_from_str_def split: if_splits)
qed

record message =
  m_id :: int
  m_session_id :: string
  m_direction :: direction
  m_party :: party
  m_template_id :: "string option"
  m_lang :: "string option"
  m_content :: string
  m_attachments :: nat
  m_inner_event_id :: string
  m_created_at :: int

record new_message =
  nm_session_id :: string
  nm_direction :: direction
  nm_party :: party
  nm_template_id :: "string option"
  nm_lang :: "string option"
  nm_content :: string
  nm_attachments :: nat
  nm_inner_event_id :: string
  nm_created_at :: int

type_synonym messages = "message list"

definition next_rowid :: "('r \<Rightarrow> int) \<Rightarrow> 'r list \<Rightarrow> int" where
  "next_rowid idf t = max_or 0 idf t + 1"

lemma next_rowid_greater: "r \<in> set t \<Longrightarrow> idf r < next_rowid idf t"
  using max_or_ge [of r t idf 0] by (simp add: next_rowid_def)

lemma next_rowid_pos: "\<forall>r \<in> set t. 0 < idf r \<Longrightarrow> 0 < next_rowid idf t"
  using max_or_in [of 0 idf t] by (auto simp: next_rowid_def)

definition message_key :: "message \<Rightarrow> string \<times> direction \<times> party \<times> string" where
  "message_key m = (m_session_id m, m_direction m, m_party m, m_inner_event_id m)"

definition new_message_key :: "new_message \<Rightarrow> string \<times> direction \<times> party \<times> string" where
  "new_message_key n = (nm_session_id n, nm_direction n, nm_party n, nm_inner_event_id n)"

definition message_row :: "int \<Rightarrow> new_message \<Rightarrow> message" where
  "message_row i n = \<lparr>m_id = i, m_session_id = nm_session_id n, m_direction = nm_direction n,
     m_party = nm_party n, m_template_id = nm_template_id n, m_lang = nm_lang n,
     m_content = nm_content n, m_attachments = nm_attachments n,
     m_inner_event_id = nm_inner_event_id n, m_created_at = nm_created_at n\<rparr>"

text \<open>
  \<open>insert_if_new\<close>: \<open>ON CONFLICT ... DO NOTHING\<close> on the unique key; the foreign key on
  \<open>sessions (session_id)\<close> is an error. The first argument holds the stored session ids.
\<close>

definition insert_message ::
    "string list \<Rightarrow> messages \<Rightarrow> new_message \<Rightarrow> (bool \<times> messages) result" where
  "insert_message sids t n =
     (if \<exists>m \<in> set t. message_key m = new_message_key n then Inr (False, t)
      else if nm_session_id n \<notin> set sids
        then Inl (Store (ConstraintViolation ''FOREIGN KEY constraint failed''))
      else Inr (True, t @ [message_row (next_rowid m_id t) n]))"

definition messages_for_session :: "messages \<Rightarrow> string \<Rightarrow> message list" where
  "messages_for_session t sid =
     sort_key (\<lambda>m. (m_created_at m, m_id m)) (filter (\<lambda>m. m_session_id m = sid) t)"

section \<open>Arrival order and deduplication\<close>

definition messages_ok :: "messages \<Rightarrow> bool" where
  "messages_ok t \<longleftrightarrow> sorted_wrt (<) (map m_id t) \<and> distinct (map message_key t) \<and> (\<forall>m \<in> set t. 0 < m_id m)"

lemma message_key_row [simp]: "message_key (message_row i n) = new_message_key n"
  by (simp add: message_key_def new_message_key_def message_row_def)

lemma m_id_row [simp]: "m_id (message_row i n) = i"
  by (simp add: message_row_def)

lemma insert_message_cases:
  assumes "insert_message sids t n = Inr (b, t')"
  obtains "\<not> b" "t' = t" "\<exists>m \<in> set t. message_key m = new_message_key n"
  | "b" "t' = t @ [message_row (next_rowid m_id t) n]"
    "\<forall>m \<in> set t. message_key m \<noteq> new_message_key n"
  using assms by (auto simp: insert_message_def split: if_splits)

lemma messages_ok_insert:
  assumes "messages_ok t" and "insert_message sids t n = Inr (b, t')"
  shows "messages_ok t'"
  using assms(2)
proof (cases rule: insert_message_cases)
  case 1
  with assms(1) show ?thesis by simp
next
  case 2
  have "new_message_key n \<notin> message_key ` set t" using 2(3) by force
  then show ?thesis
    using assms(1) by (auto simp: messages_ok_def 2(2) sorted_wrt_append next_rowid_greater next_rowid_pos)
qed

text \<open>
  A sequence of inserts; a failed one leaves the table alone. The invariant holds throughout.
\<close>

definition message_step :: "string list \<Rightarrow> new_message \<Rightarrow> messages \<Rightarrow> messages" where
  "message_step sids n t = (case insert_message sids t n of Inl _ \<Rightarrow> t | Inr (_, t') \<Rightarrow> t')"

interpretation message_log: kept_by_steps "message_step sids" messages_ok for sids
  by unfold_locales (auto simp: message_step_def split: sum.splits intro: messages_ok_insert)

lemma messages_for_session_set [simp]:
  "set (messages_for_session t sid) = {m \<in> set t. m_session_id m = sid}"
  by (auto simp: messages_for_session_def)

lemma messages_for_session_ids:
  "messages_ok t \<Longrightarrow> distinct (map m_id (messages_for_session t sid))"
proof -
  assume "messages_ok t"
  then have "distinct (map m_id t)" by (simp add: messages_ok_def strict_sorted_iff)
  then have "distinct (map m_id (filter (\<lambda>m. m_session_id m = sid) t))"
    by (rule distinct_map_filter)
  then show ?thesis
    by (simp add: messages_for_session_def distinct_map inj_on_def)
qed

text \<open>
  Inbound deduplication is durable: once a message's inner event id is stored for a
  session, direction and party, no later sequence of inserts stores it again, however many other
  messages arrived in between.
\<close>

theorem message_never_stored_twice:
  assumes "messages_ok t" and "insert_message sids t n = Inr (b, t')"
    and "new_message_key n' = new_message_key n"
  shows "insert_message sids (fold (message_step sids) ns t') n' =
           Inr (False, fold (message_step sids) ns t')"
proof -
  have stored: "\<exists>m \<in> set t'. message_key m = new_message_key n"
    using assms(2) by (cases rule: insert_message_cases) auto
  have mono: "set u \<subseteq> set (fold (message_step sids) ns u)" for u
  proof (induction ns arbitrary: u)
    case (Cons a ns)
    have "set u \<subseteq> set (message_step sids a u)"
      by (auto simp: message_step_def insert_message_def)
    with Cons show ?case by fastforce
  qed simp
  from stored mono have "\<exists>m \<in> set (fold (message_step sids) ns t'). message_key m = new_message_key n'"
    using assms(3) by fastforce
  then show ?thesis by (simp add: insert_message_def)
qed

definition example_in :: "party \<Rightarrow> string \<Rightarrow> new_message" where
  "example_in p i = \<lparr>nm_session_id = ''s1'', nm_direction = In, nm_party = p,
     nm_template_id = None, nm_lang = None, nm_content = ''hola'', nm_attachments = 0,
     nm_inner_event_id = i, nm_created_at = 10\<rparr>"

lemma message_never_stored_twice_witness:
  "insert_message [''s1''] (fold (message_step [''s1'']) [example_in Seller ''e1'']
       [message_row 1 (example_in Buyer ''e1'')]) (example_in Buyer ''e1'') =
   Inr (False, fold (message_step [''s1'']) [example_in Seller ''e1'']
       [message_row 1 (example_in Buyer ''e1'')])"
  by (rule message_never_stored_twice [of "[]" "[''s1'']" "example_in Buyer ''e1''" True])
    (simp_all add: messages_ok_def insert_message_def next_rowid_def max_or_def max_key_def
      example_in_def)

end
