(* ===== verification/Events.thy ===== *)
theory Events
  imports Messages
begin

text \<open>
  \<open>src/src/store/events.rs\<close>: the append-only audit log. A payload is a JSON value; the model
  keeps the accessors the code uses (\<open>json_extract\<close>, indexing and \<open>as_i64\<close>/\<open>as_str\<close>). Row ids
  grow with every append, so the list of rows is in id order.
\<close>

section \<open>JSON values\<close>

datatype json =
    JNull
  | JBool bool
  | JInt int
  | JNum rat
  | JStr string
  | JArr "json list"
  | JObj "(string \<times> json) list"

fun jget :: "json \<Rightarrow> string \<Rightarrow> json" where
  "jget (JObj kvs) k = (case map_of kvs k of None \<Rightarrow> JNull | Some v \<Rightarrow> v)"
| "jget _ k = JNull"

fun as_i64 :: "json \<Rightarrow> int option" where
  "as_i64 (JInt i) = Some i"
| "as_i64 _ = None"

fun as_str :: "json \<Rightarrow> string option" where
  "as_str (JStr s) = Some s"
| "as_str _ = None"

section \<open>The table\<close>

record event =
  ev_id :: int
  ev_dispute_id :: string
  ev_session_id :: "string option"
  ev_kind :: string
  ev_payload :: json
  ev_created_at :: int

record new_event =
  ne_dispute_id :: string
  ne_session_id :: "string option"
  ne_kind :: string
  ne_payload :: json
  ne_now :: int

type_synonym events = "event list"

definition event_row :: "int \<Rightarrow> new_event \<Rightarrow> event" where
  "event_row i n = \<lparr>ev_id = i, ev_dispute_id = ne_dispute_id n, ev_session_id = ne_session_id n,
     ev_kind = ne_kind n, ev_payload = ne_payload n, ev_created_at = ne_now n\<rparr>"

definition append_event :: "events \<Rightarrow> new_event \<Rightarrow> (int \<times> events) result" where
  "append_event t n =
     (if ne_kind n = [] then Inl (Schema ''event kind must not be empty'')
      else let i = next_rowid ev_id t in Inr (i, t @ [event_row i n]))"

definition events_for_dispute :: "events \<Rightarrow> string \<Rightarrow> event list" where
  "events_for_dispute t d = filter (\<lambda>e. ev_dispute_id e = d) t"

definition last_notification_to :: "events \<Rightarrow> string \<Rightarrow> string \<Rightarrow> int \<Rightarrow> event option" where
  "last_notification_to t solver notification until =
     find_last (\<lambda>e. ev_kind e = ''notification_sent'' \<and>
       as_str (jget (ev_payload e) ''solver'') = Some solver \<and>
       as_str (jget (ev_payload e) ''notification'') = Some notification \<and>
       ev_created_at e \<le> until) t"

definition about_observer :: "string \<Rightarrow> string \<Rightarrow> string \<Rightarrow> event \<Rightarrow> bool" where
  "about_observer d observer subject e \<longleftrightarrow>
     ev_dispute_id e = d \<and> as_str (jget (ev_payload e) ''observer'') = Some observer \<and>
     as_str (jget (ev_payload e) ''subject'') = Some subject"

definition observer_queued :: "events \<Rightarrow> string \<Rightarrow> string \<Rightarrow> string \<Rightarrow> bool" where
  "observer_queued t d observer subject \<longleftrightarrow>
     (\<exists>e \<in> set t. ev_kind e = ''observer_pending'' \<and> about_observer d observer subject e)"

record observer_notice =
  on_dispute_id :: string
  on_observer :: string
  on_subject :: string
  on_failures :: nat
  on_last_failure :: "int option"

text \<open>
  \<open>pending_observer_notices\<close>: one notice per queued event since \<open>since\<close> whose observer and
  subject are texts, unless a later query row says it was delivered; failures are counted over
  the same window.
\<close>

definition pending_observer_notices :: "events \<Rightarrow> int \<Rightarrow> observer_notice list" where
  "pending_observer_notices t since =
     (let recent = filter (\<lambda>e. since \<le> ev_created_at e) t;
          notice = (\<lambda>q. case (as_str (jget (ev_payload q) ''observer''), as_str (jget (ev_payload q) ''subject'')) of
              (Some ob, Some su) \<Rightarrow>
                (let about = about_observer (ev_dispute_id q) ob su;
                     failed = filter (\<lambda>a. ev_kind a = ''observer_failed'' \<and> about a) recent
                 in if \<exists>a \<in> set recent. ev_kind a = ''observer_notified'' \<and> about a then None
                    else Some \<lparr>on_dispute_id = ev_dispute_id q, on_observer = ob, on_subject = su,
                      on_failures = length failed, on_last_failure = max_key ev_created_at failed\<rparr>)
            | _ \<Rightarrow> None)
      in List.map_filter notice (filter (\<lambda>e. ev_kind e = ''observer_pending'') recent))"

text \<open>The distinct values of a list in the order they first occur (\<open>GROUP BY ... ORDER BY min(id)\<close>).\<close>

definition first_occurrences :: "'a list \<Rightarrow> 'a list" where
  "first_occurrences xs = rev (remdups (rev xs))"

definition closed_later :: "events \<Rightarrow> string \<Rightarrow> event \<Rightarrow> bool" where
  "closed_later t closing p \<longleftrightarrow>
     (\<exists>d \<in> set t. ev_dispute_id d = ev_dispute_id p \<and> ev_kind d = closing \<and> ev_id p < ev_id d)"

definition still_pending :: "events \<Rightarrow> string \<Rightarrow> string \<Rightarrow> int \<Rightarrow> string list" where
  "still_pending t pending closing since =
     first_occurrences (map ev_dispute_id
       (filter (\<lambda>p. ev_kind p = pending \<and> since \<le> ev_created_at p \<and> \<not> closed_later t closing p) t))"

record resolution =
  r_dispute_id :: string
  r_status :: string
  r_by_parties :: bool

definition unfinished_resolutions :: "events \<Rightarrow> sessions \<Rightarrow> int \<Rightarrow> resolution list" where
  "unfinished_resolutions t ss since =
     map (\<lambda>e. \<lparr>r_dispute_id = ev_dispute_id e,
               r_status = unwrap_or (as_str (jget (ev_payload e) ''status'')) [],
               r_by_parties = (as_str (jget (ev_payload e) ''resolved_by'') = Some ''parties'')\<rparr>)
       (filter (\<lambda>e. ev_kind e = ''resolved'' \<and> since \<le> ev_created_at e \<and>
                   exists_for_dispute ss (ev_dispute_id e) \<and>
                   \<not> (\<exists>f \<in> set t. ev_dispute_id f = ev_dispute_id e \<and> ev_kind f = ''finished'')) t)"

definition feedback_recorded :: "events \<Rightarrow> string \<Rightarrow> bool" where
  "feedback_recorded t source \<longleftrightarrow>
     (\<exists>e \<in> set t. ev_kind e = ''solver_feedback'' \<and>
        as_str (jget (ev_payload e) ''source'') = Some source)"

section \<open>The log only grows\<close>

definition events_ok :: "events \<Rightarrow> bool" where
  "events_ok t \<longleftrightarrow> sorted_wrt (<) (map ev_id t)"

lemma event_row_simps [simp]:
  "ev_id (event_row i n) = i" "ev_dispute_id (event_row i n) = ne_dispute_id n"
  "ev_session_id (event_row i n) = ne_session_id n" "ev_kind (event_row i n) = ne_kind n"
  "ev_payload (event_row i n) = ne_payload n" "ev_created_at (event_row i n) = ne_now n"
  by (simp_all add: event_row_def)

lemma append_event_Inr:
  "append_event t n = Inr (i, t') \<longleftrightarrow>
     ne_kind n \<noteq> [] \<and> i = next_rowid ev_id t \<and> t' = t @ [event_row i n]"
  by (auto simp: append_event_def Let_def)

lemma events_ok_append: "events_ok t \<Longrightarrow> append_event t n = Inr (i, t') \<Longrightarrow> events_ok t'"
  by (auto simp: append_event_Inr events_ok_def sorted_wrt_append next_rowid_greater)

lemma set_first_occurrences [simp]: "set (first_occurrences xs) = set xs"
  and distinct_first_occurrences [simp]: "distinct (first_occurrences xs)"
  by (simp_all add: first_occurrences_def)

lemma still_pending_iff:
  "d \<in> set (still_pending t pending closing since) \<longleftrightarrow>
     (\<exists>p \<in> set t. ev_dispute_id p = d \<and> ev_kind p = pending \<and> since \<le> ev_created_at p \<and>
        \<not> closed_later t closing p)"
  by (auto simp: still_pending_def)

text \<open>
  Undelivered work stays pending until it is done: appending an event of another kind
  keeps a dispute pending, appending the closing event of the dispute ends it, and appending a
  pending event (even after an earlier closing one) makes it pending again.
\<close>

theorem pending_until_done:
  assumes ok: "events_ok t" and app: "append_event t n = Inr (i, t')" and kinds: "pending \<noteq> closing"
  shows "d \<in> set (still_pending t' pending closing since) \<longleftrightarrow>
    (if ne_dispute_id n = d \<and> ne_kind n = closing then False
     else if ne_dispute_id n = d \<and> ne_kind n = pending \<and> since \<le> ne_now n then True
     else d \<in> set (still_pending t pending closing since))"
proof -
  have t': "t' = t @ [event_row i n]" and i: "i = next_rowid ev_id t"
    using app by (auto simp: append_event_Inr)
  have newer: "\<And>e. e \<in> set t \<Longrightarrow> ev_id e < i" by (simp add: i next_rowid_greater)
  have later: "closed_later t' closing p \<longleftrightarrow>
      closed_later t closing p \<or> (ne_dispute_id n = ev_dispute_id p \<and> ne_kind n = closing)"
    if "p \<in> set t" for p
    using newer [OF that] by (auto simp: closed_later_def t')
  have last: "\<not> closed_later t' closing (event_row i n)"
    using newer by (auto simp: closed_later_def t' dest: less_asym)
  show ?thesis
    using kinds later last by (auto simp: still_pending_iff t')
qed

definition example_event :: "string \<Rightarrow> int \<Rightarrow> new_event" where
  "example_event k now = \<lparr>ne_dispute_id = ''d1'', ne_session_id = None, ne_kind = k,
     ne_payload = JObj [], ne_now = now\<rparr>"

lemma pending_until_done_witness:
  "\<not> (''d1'' \<in> set (still_pending
        [event_row 1 (example_event ''notice_pending'' 10), event_row 2 (example_event ''notice_sent'' 12)]
        ''notice_pending'' ''notice_sent'' 5))"
proof -
  let ?t = "[event_row 1 (example_event ''notice_pending'' 10)]"
  have ok: "events_ok ?t" by (simp add: events_ok_def)
  have app: "append_event ?t (example_event ''notice_sent'' 12) =
      Inr (2, ?t @ [event_row 2 (example_event ''notice_sent'' 12)])"
    by (simp add: append_event_def example_event_def next_rowid_def max_or_def max_key_def)
  show ?thesis
    using pending_until_done [OF ok app, of "''notice_pending''" "''notice_sent''" "''d1''" 5]
    by (simp add: example_event_def)
qed

end
