(* ===== verification/Disputes.thy ===== *)
theory Disputes
  imports Sessions
begin

text \<open>
  \<open>src/src/store/disputes.rs\<close>: the \<open>disputes\<close> table, one row per Mostro dispute and its
  notification lifecycle. The guarded updates (\<open>apply_status\<close>, \<open>mark_notified\<close>, \<open>set_lifecycle\<close>)
  are instances of \<open>guarded_update\<close>; a revision that was applied can never be applied again.
\<close>

section \<open>Rows\<close>

datatype initiator = InitBuyer | InitSeller | InitUnknown

datatype lifecycle = Lc_New | Lc_Notified | Lc_Taken | Lc_Resolved

fun initiator_str :: "initiator \<Rightarrow> string" where
  "initiator_str InitBuyer = ''buyer''"
| "initiator_str InitSeller = ''seller''"
| "initiator_str InitUnknown = ''unknown''"

definition initiator_from_str :: "string \<Rightarrow> initiator result" where
  "initiator_from_str s =
     (if s = ''buyer'' then Inr InitBuyer
      else if s = ''seller'' then Inr InitSeller
      else if s = ''unknown'' then Inr InitUnknown
      else Inl (Schema (''unknown initiator '' @ debug_str s)))"

fun lifecycle_str :: "lifecycle \<Rightarrow> string" where
  "lifecycle_str Lc_New = ''new''"
| "lifecycle_str Lc_Notified = ''notified''"
| "lifecycle_str Lc_Taken = ''taken''"
| "lifecycle_str Lc_Resolved = ''resolved''"

definition lifecycle_from_str :: "string \<Rightarrow> lifecycle result" where
  "lifecycle_from_str s =
     (if s = ''new'' then Inr Lc_New
      else if s = ''notified'' then Inr Lc_Notified
      else if s = ''taken'' then Inr Lc_Taken
      else if s = ''resolved'' then Inr Lc_Resolved
      else Inl (Schema (''unknown lifecycle '' @ debug_str s)))"

interpretation initiator_text: text_codec initiator_str "\<lambda>s. ok (initiator_from_str s)"
proof
  show "ok (initiator_from_str (initiator_str x)) = Some x" for x
    by (cases x) (simp_all add: initiator_from_str_def)
  show "ok (initiator_from_str s) = Some x \<Longrightarrow> s = initiator_str x" for s x
    by (auto simp: initiator_from_str_def split: if_splits)
qed

interpretation lifecycle_text: text_codec lifecycle_str "\<lambda>s. ok (lifecycle_from_str s)"
proof
  show "ok (lifecycle_from_str (lifecycle_str x)) = Some x" for x
    by (cases x) (simp_all add: lifecycle_from_str_def)
  show "ok (lifecycle_from_str s) = Some x \<Longrightarrow> s = lifecycle_str x" for s x
    by (auto simp: lifecycle_from_str_def split: if_splits)
qed

record dispute =
  d_dispute_id :: string
  d_initiator :: initiator
  d_status :: string
  d_status_at :: int
  d_lifecycle :: lifecycle
  d_assigned_solver :: "string option"
  d_first_seen_at :: int
  d_last_notified_at :: "int option"
  d_updated_at :: int

record new_dispute =
  nd_dispute_id :: string
  nd_initiator :: initiator
  nd_status :: string
  nd_status_at :: int
  nd_now :: int

type_synonym disputes = "dispute list"

definition new_dispute_row :: "new_dispute \<Rightarrow> dispute" where
  "new_dispute_row n = \<lparr>d_dispute_id = nd_dispute_id n, d_initiator = nd_initiator n,
     d_status = nd_status n, d_status_at = nd_status_at n, d_lifecycle = Lc_New,
     d_assigned_solver = None, d_first_seen_at = nd_now n, d_last_notified_at = None,
     d_updated_at = nd_now n\<rparr>"

definition insert_dispute :: "disputes \<Rightarrow> new_dispute \<Rightarrow> bool \<times> disputes" where
  "insert_dispute t n =
     (if \<exists>d \<in> set t. d_dispute_id d = nd_dispute_id n then (False, t)
      else (True, t @ [new_dispute_row n]))"

definition get_dispute :: "disputes \<Rightarrow> string \<Rightarrow> dispute option" where
  "get_dispute t i = find (\<lambda>d. d_dispute_id d = i) t"

section \<open>Updates\<close>

datatype status_update = Applied | Stale | NotFound

definition status_row :: "string \<Rightarrow> int \<Rightarrow> int \<Rightarrow> dispute \<Rightarrow> dispute" where
  "status_row status status_at now d = d\<lparr>d_status := status, d_status_at := status_at, d_updated_at := now\<rparr>"

definition apply_status ::
    "disputes \<Rightarrow> string \<Rightarrow> string \<Rightarrow> int \<Rightarrow> int \<Rightarrow> status_update \<times> disputes" where
  "apply_status t i status status_at now =
     (let (n, t') = upd_where (\<lambda>d. d_dispute_id d = i \<and> d_status_at d < status_at)
                      (status_row status status_at now) t
      in (if n = 1 then Applied else if \<exists>d \<in> set t. d_dispute_id d = i then Stale else NotFound, t'))"

definition lifecycle_row :: "lifecycle \<Rightarrow> int \<Rightarrow> dispute \<Rightarrow> dispute" where
  "lifecycle_row l now d = d\<lparr>d_lifecycle := l, d_updated_at := now\<rparr>"

definition set_lifecycle :: "disputes \<Rightarrow> string \<Rightarrow> lifecycle \<Rightarrow> int \<Rightarrow> bool \<times> disputes" where
  "set_lifecycle t i l now =
     (let (n, t') = upd_where (\<lambda>d. d_dispute_id d = i) (lifecycle_row l now) t in (n = 1, t'))"

definition waiting :: "dispute \<Rightarrow> bool" where
  "waiting d \<longleftrightarrow> d_lifecycle d \<in> {Lc_New, Lc_Notified}"

definition notified_row :: "int \<Rightarrow> dispute \<Rightarrow> dispute" where
  "notified_row now d =
     d\<lparr>d_lifecycle := Lc_Notified, d_last_notified_at := Some now, d_updated_at := now\<rparr>"

definition mark_notified :: "disputes \<Rightarrow> string \<Rightarrow> int \<Rightarrow> bool \<times> disputes" where
  "mark_notified t i now =
     (let (n, t') = upd_where (\<lambda>d. d_dispute_id d = i \<and> waiting d) (notified_row now) t in (n = 1, t'))"

section \<open>Lists\<close>

definition list_notified_without_session :: "disputes \<Rightarrow> sessions \<Rightarrow> int \<Rightarrow> dispute list" where
  "list_notified_without_session t ss since =
     sort_key d_first_seen_at
       (filter (\<lambda>d. d_lifecycle d = Lc_Notified \<and> since \<le> d_first_seen_at d \<and>
          \<not> exists_for_dispute ss (d_dispute_id d)) t)"

definition list_awaiting_solver :: "disputes \<Rightarrow> int \<Rightarrow> dispute list" where
  "list_awaiting_solver t cutoff =
     sort_key d_first_seen_at
       (filter (\<lambda>d. waiting d \<and> unwrap_or (d_last_notified_at d) (d_first_seen_at d) \<le> cutoff) t)"

section \<open>The updates as instances of the interface\<close>

interpretation applying: one_shot_update d_dispute_id "\<lambda>d. d_status_at d < status_at" "status_row status status_at now"
  for status status_at now
  by unfold_locales (auto simp: status_row_def)

interpretation notifying: guarded_update d_dispute_id waiting "notified_row now"
  for now
  by unfold_locales (auto simp: notified_row_def)

interpretation stepping: guarded_update d_dispute_id "\<lambda>_. True" "lifecycle_row l now"
  for l now
  by unfold_locales (auto simp: lifecycle_row_def)

lemma snd_apply_status:
  "snd (apply_status t i status status_at now) = snd (applying.run status_at status now i t)"
  by (simp add: apply_status_def applying.run_def case_prod_beta)

lemma mark_notified_run: "mark_notified t i now = notifying.run now i t"
  by (simp add: mark_notified_def notifying.run_def)

lemma set_lifecycle_run: "set_lifecycle t i l now = stepping.run l now i t"
  by (simp add: set_lifecycle_def stepping.run_def)

definition disputes_ok :: "disputes \<Rightarrow> bool" where
  "disputes_ok t \<longleftrightarrow> distinct (map d_dispute_id t)"

lemma get_dispute_exists: "(\<exists>d \<in> set t. d_dispute_id d = i) \<longleftrightarrow> get_dispute t i \<noteq> None"
  by (auto simp: get_dispute_def find_None_iff)

lemma apply_status_cases:
  assumes "disputes_ok t"
  shows "apply_status t i status status_at now =
    (case get_dispute t i of
       None \<Rightarrow> (NotFound, t)
     | Some d \<Rightarrow> if d_status_at d < status_at
         then (Applied, snd (applying.run status_at status now i t)) else (Stale, t))"
proof -
  have d: "distinct (map d_dispute_id t)" using assms by (simp add: disputes_ok_def)
  have fst: "fst (upd_where (\<lambda>d. d_dispute_id d = i \<and> d_status_at d < status_at)
      (status_row status status_at now) t) = 1 \<longleftrightarrow>
      (\<exists>r. get_dispute t i = Some r \<and> d_status_at r < status_at)"
    using applying.fst_run [OF d, of status_at status now i]
    by (simp add: applying.run_def case_prod_beta get_dispute_def)
  show ?thesis
  proof (cases "\<exists>r. get_dispute t i = Some r \<and> d_status_at r < status_at")
    case True
    then show ?thesis
      using fst by (auto simp: apply_status_def applying.run_def case_prod_beta)
  next
    case False
    have "\<not> fst (applying.run status_at status now i t)"
      using False by (simp add: applying.fst_run [OF d] get_dispute_def)
    then have "snd (applying.run status_at status now i t) = t"
      by (rule applying.run_false_unchanged [OF d])
    then have same: "snd (apply_status t i status status_at now) = t"
      by (simp add: snd_apply_status)
    have "fst (apply_status t i status status_at now) =
        (if get_dispute t i \<noteq> None then Stale else NotFound)"
      using False fst by (auto simp: apply_status_def case_prod_beta get_dispute_exists)
    with same False show ?thesis
      by (cases "get_dispute t i") (auto simp: prod_eq_iff)
  qed
qed

lemma get_dispute_apply:
  "get_dispute (snd (applying.run status_at status now i t)) j =
     map_option (\<lambda>d. if d_dispute_id d = i \<and> d_status_at d < status_at then status_row status status_at now d else d)
       (get_dispute t j)"
  by (simp add: get_dispute_def applying.find_run)

lemma get_dispute_lifecycle:
  "get_dispute (snd (set_lifecycle t i l now)) j =
     map_option (\<lambda>d. if d_dispute_id d = i then lifecycle_row l now d else d) (get_dispute t j)"
  by (simp add: get_dispute_def set_lifecycle_run stepping.find_run)

lemma get_dispute_notified:
  "get_dispute (snd (mark_notified t i now)) j =
     map_option (\<lambda>d. if d_dispute_id d = i \<and> waiting d then notified_row now d else d) (get_dispute t j)"
  by (simp add: get_dispute_def mark_notified_run notifying.find_run)

lemma get_dispute_insert:
  "get_dispute (snd (insert_dispute t n)) j =
     (if get_dispute t j = None \<and> nd_dispute_id n = j then Some (new_dispute_row n) else get_dispute t j)"
  by (auto simp: insert_dispute_def get_dispute_exists)
    (auto simp: get_dispute_def find_append new_dispute_row_def split: option.splits)

lemma get_dispute_id: "get_dispute t i = Some d \<Longrightarrow> d_dispute_id d = i"
  by (auto simp: get_dispute_def dest: find_key_some)

lemma disputes_ok_updates:
  assumes "disputes_ok t"
  shows "disputes_ok (snd (apply_status t i status status_at now))"
    and "disputes_ok (snd (set_lifecycle t i l now))"
    and "disputes_ok (snd (mark_notified t i now))"
    and "disputes_ok (snd (insert_dispute t n))"
  using assms
  by (simp_all add: disputes_ok_def snd_apply_status set_lifecycle_run mark_notified_run
      applying.keys_run stepping.keys_run notifying.keys_run insert_dispute_def)
    (auto simp: new_dispute_row_def)

end
