(* ===== verification/Texts.thy ===== *)
theory Texts
  imports Prelude
begin

text \<open>
  Texts and numbers written in them. A \<open>string\<close> is a list of characters, of which HOL has the
  first 256 code points: \<open>str::trim\<close> drops the white space among them. The ASCII tests are those
  of \<open>u8\<close> and \<open>char\<close>; \<open>dec\<close> is \<open>Display\<close> of an unsigned integer and \<open>number_from\<close> the value
  \<open>str::parse\<close> reads from a run of digits.
\<close>

section \<open>Characters\<close>

definition is_digit :: "char \<Rightarrow> bool" where
  "is_digit c \<longleftrightarrow> 48 \<le> (of_char c :: nat) \<and> (of_char c :: nat) \<le> 57"

definition is_hexdigit :: "char \<Rightarrow> bool" where
  "is_hexdigit c \<longleftrightarrow> is_digit c \<or> c \<in> set ''abcdefABCDEF''"

definition is_alphanumeric :: "char \<Rightarrow> bool" where
  "is_alphanumeric c \<longleftrightarrow> is_digit c
     \<or> 65 \<le> (of_char c :: nat) \<and> (of_char c :: nat) \<le> 90
     \<or> 97 \<le> (of_char c :: nat) \<and> (of_char c :: nat) \<le> 122"

definition is_white :: "char \<Rightarrow> bool" where
  "is_white c \<longleftrightarrow> (of_char c :: nat) \<in> {9, 10, 11, 12, 13, 32, 133, 160}"

definition trim :: "string \<Rightarrow> string" where
  "trim s = rev (dropWhile is_white (rev (dropWhile is_white s)))"

definition ascii_lower :: "char \<Rightarrow> char" where
  "ascii_lower c = (if 65 \<le> (of_char c :: nat) \<and> (of_char c :: nat) \<le> 90
     then char_of ((of_char c :: nat) + 32) else c)"

definition eq_ignore_case :: "string \<Rightarrow> string \<Rightarrow> bool" where
  "eq_ignore_case a b \<longleftrightarrow> map ascii_lower a = map ascii_lower b"

definition starts_with :: "string \<Rightarrow> string \<Rightarrow> bool" where
  "starts_with p s \<longleftrightarrow> take (length p) s = p"

section \<open>Decimal numbers\<close>

definition digit_value :: "char \<Rightarrow> nat" where "digit_value c = of_char c - 48"

fun number_from :: "nat \<Rightarrow> string \<Rightarrow> nat" where
  "number_from acc [] = acc"
| "number_from acc (c # cs) = number_from (10 * acc + digit_value c) cs"

definition digit_char :: "nat \<Rightarrow> char" where "digit_char d = char_of (48 + d)"

fun dec :: "nat \<Rightarrow> string" where
  "dec n = (if n < 10 then [digit_char n] else dec (n div 10) @ [digit_char (n mod 10)])"

declare dec.simps [simp del]

lemma of_char_digit_char: "d < 10 \<Longrightarrow> (of_char (digit_char d) :: nat) = 48 + d"
  by (simp add: digit_char_def)

lemma digit_char_digit [simp]: "d < 10 \<Longrightarrow> is_digit (digit_char d)"
  by (simp add: is_digit_def of_char_digit_char)

lemma digit_value_char [simp]: "d < 10 \<Longrightarrow> digit_value (digit_char d) = d"
  by (simp add: digit_value_def of_char_digit_char)

lemma dec_digits: "list_all is_digit (dec n)"
  by (induction n rule: dec.induct) (subst dec.simps, simp)

lemma dec_nonempty [simp]: "dec n \<noteq> []"
  by (subst dec.simps) simp

lemma number_from_append: "number_from a (xs @ ys) = number_from (number_from a xs) ys"
  by (induction xs arbitrary: a) auto

lemma number_from_dec: "number_from 0 (dec n) = n"
proof (induction n rule: dec.induct)
  case (1 n)
  then show ?case by (subst dec.simps) (auto simp: number_from_append)
qed

lemma dec_inject: "dec m = dec n \<longleftrightarrow> m = n"
  by (metis number_from_dec)

section \<open>Trimming\<close>

lemma is_white_not_digit: "is_digit c \<Longrightarrow> \<not> is_white c"
  by (auto simp: is_digit_def is_white_def)

lemma trim_ends:
  assumes "\<not> is_white c" and "\<not> is_white d"
  shows "trim (c # xs @ [d]) = c # xs @ [d]"
  using assms by (simp add: trim_def)

section \<open>Signed numbers\<close>

text \<open>\<open>str::parse::<i64>\<close>: an optional sign, then digits, within the range of the type.\<close>

definition parse_i64 :: "string \<Rightarrow> int option" where
  "parse_i64 s =
     (let (neg, ds) = (case s of c # cs \<Rightarrow> if c = CHR ''-'' then (True, cs)
                         else if c = CHR ''+'' then (False, cs) else (False, s) | [] \<Rightarrow> (False, []))
      in if ds = [] \<or> \<not> list_all is_digit ds then None
         else let v = (if neg then - int (number_from 0 ds) else int (number_from 0 ds))
           in if is_i64 v then Some v else None)"

text \<open>\<open>x as i64\<close> for an unsigned 64-bit \<open>x\<close> wraps around.\<close>

definition as_i64_cast :: "nat \<Rightarrow> int" where
  "as_i64_cast x = (if int x \<le> i64_max then int x else int x - 18446744073709551616)"

text \<open>\<open>Display\<close> of a signed integer.\<close>

definition dec_int :: "int \<Rightarrow> string" where
  "dec_int i = (if i < 0 then ''-'' @ dec (nat (- i)) else dec (nat i))"

end
