(* ===== verification/Config.thy ===== *)
theory Config
  imports Texts
begin

text \<open>
  \<open>src/src/config/mod.rs\<close>, \<open>duration.rs\<close>, \<open>secret_file.rs\<close>: the configuration file after TOML
  decoding (a library's work), its validation, the durations written in it and the lookup of the
  secrets it names. A \<open>Duration\<close> is its whole seconds. A message is kept as the value
  it is formatted from (\<open>config_problem\<close>). What the build embeds (\<open>available\<close>, the catalog
  codes), the \<open>nostr_sdk\<close> key functions, the process environment and the disk are parameters.
\<close>

section \<open>Durations\<close>

type_synonym duration = nat

definition u64_max :: nat where "u64_max = 18446744073709551615"

datatype duration_error = NoUnit string | NotWhole string | UnknownUnit string string | TooLarge string

text \<open>\<open>str::parse::<u64>\<close> on a run of digits: empty and overflow are the two errors.\<close>

definition parse_u64 :: "string \<Rightarrow> nat option" where
  "parse_u64 s = (if s = [] \<or> u64_max < number_from 0 s then None else Some (number_from 0 s))"

definition unit_secs :: "string \<Rightarrow> nat option" where
  "unit_secs u = (if u = ''s'' then Some 1 else if u = ''m'' then Some 60
     else if u = ''h'' then Some 3600 else if u = ''d'' then Some 86400 else None)"

definition parse_duration :: "string \<Rightarrow> duration_error + duration" where
  "parse_duration raw =
     (let v = trim raw
      in if list_all is_digit v then Inl (NoUnit v)
         else let number = takeWhile is_digit v; u = dropWhile is_digit v
           in case parse_u64 number of
                None \<Rightarrow> Inl (NotWhole v)
              | Some n \<Rightarrow> (case unit_secs u of
                    None \<Rightarrow> Inl (UnknownUnit v u)
                  | Some k \<Rightarrow> if u64_max < n * k then Inl (TooLarge v) else Inr (n * k)))"

section \<open>The configuration\<close>

record server_config =
  private_key_env :: string
  db_path :: string
  log_level :: string

record mostro_config =
  mostro_pubkey :: string
  relays :: "string list"

datatype permission = Read | Write

record solver_config =
  solver_pubkey :: string
  permission :: permission

record mediation_config =
  enabled :: bool
  default_language :: string
  languages :: "string list"
  quiet_period :: duration
  response_timeout :: duration
  max_rounds :: nat
  max_message_chars :: nat
  max_messages_per_turn :: nat
  self_resolution_timeout :: duration
  handoff_grace :: duration

record thresholds =
  th_guide :: rat
  th_fact :: rat
  th_human_request :: rat
  th_fraud :: rat
  th_conflict :: rat
  th_outside_scope :: rat
  validated_languages :: "string list"

record judge_config =
  provider :: string
  model :: string
  api_base :: string
  api_key_env :: string
  judge_timeout :: duration
  max_retries :: nat
  judge_thresholds :: "(string \<times> thresholds) list"

record config =
  serbero :: server_config
  mostro :: mostro_config
  solvers :: "solver_config list"
  observers :: "string list"
  renotify_after :: duration
  mediation :: mediation_config
  judge :: judge_config

definition default_server :: server_config where
  "default_server = \<lparr>private_key_env = ''SERBERO_PRIVATE_KEY'', db_path = ''serbero.db'',
     log_level = ''info''\<rparr>"

definition default_renotify_after :: duration where "default_renotify_after = 15 * 60"

definition default_mediation :: "string list \<Rightarrow> mediation_config" where
  "default_mediation available = \<lparr>enabled = False, default_language = ''en'', languages = available,
     quiet_period = 20, response_timeout = 30 * 60, max_rounds = 4, max_message_chars = 2000,
     max_messages_per_turn = 10, self_resolution_timeout = 2 * 3600, handoff_grace = 30 * 60\<rparr>"

definition default_judge :: judge_config where
  "default_judge = \<lparr>provider = ''typesafe'', model = ''jev-1.13.0'',
     api_base = ''https://api.typesafe.ai'', api_key_env = ''TYPESAFE_API_KEY'',
     judge_timeout = 10, max_retries = 3, judge_thresholds = []\<rparr>"

definition judge_key :: "judge_config \<Rightarrow> string" where
  "judge_key j = provider j @ ''/'' @ model j"

definition active_thresholds :: "judge_config \<Rightarrow> thresholds option" where
  "active_thresholds j = map_of (judge_thresholds j) (judge_key j)"

definition named :: "thresholds \<Rightarrow> (string \<times> rat) list" where
  "named th = [(''guide'', th_guide th), (''fact'', th_fact th),
     (''human_request'', th_human_request th), (''fraud'', th_fraud th),
     (''conflict'', th_conflict th), (''outside_scope'', th_outside_scope th)]"

section \<open>Validation\<close>

datatype field = Field string | Indexed string nat | Threshold string string

datatype config_problem =
    NotAnEnvName field string
  | NotAPubkey field string
  | NoRelays
  | RelayScheme string
  | ObserverIsNode field
  | ObserverIsSolver field
  | ObserverTwice field
  | IsZero field
  | NoLanguages
  | LanguageTwice string
  | NoCatalog field string
  | DefaultNotEnabled string
  | UnknownProvider string
  | EmptyModel
  | OutOfRange field rat
  | NotAboveHalf field rat
  | OwnKey field
  | InvalidPrivateKey
  | BothSet string string
  | NotAbsolute string string
  | Unreadable string string
  | EmptyFile string string
  | NotSet string
  | NotASecretKey string
  | ApiKeyMissing string

type_synonym checked = "config_problem + unit"

text \<open>The \<open>?\<close> operator between checks.\<close>

fun and_then :: "'e + unit \<Rightarrow> 'e + 'b \<Rightarrow> 'e + 'b" where
  "and_then (Inl e) next' = Inl e"
| "and_then (Inr _) next' = next'"

definition invalid_if :: "bool \<Rightarrow> config_problem \<Rightarrow> checked" where
  "invalid_if b p = (if b then Inl p else Inr ())"

fun check_all :: "('a \<Rightarrow> 'e + unit) \<Rightarrow> 'a list \<Rightarrow> 'e + unit" where
  "check_all f [] = Inr ()"
| "check_all f (x # xs) = and_then (f x) (check_all f xs)"

lemma and_then_Inr [simp]: "and_then a b = Inr u \<longleftrightarrow> a = Inr () \<and> b = Inr u"
  by (cases a) auto

lemma invalid_if_Inr [simp]: "invalid_if b p = Inr u \<longleftrightarrow> \<not> b"
  by (simp add: invalid_if_def)

lemma check_all_Inr [simp]: "check_all f xs = Inr u \<longleftrightarrow> (\<forall>x \<in> set xs. f x = Inr ())"
  by (induction xs) auto

definition is_hex_key :: "string \<Rightarrow> bool" where
  "is_hex_key s \<longleftrightarrow> length s = 64 \<and> list_all is_hexdigit s"

definition check_pubkey :: "(string \<Rightarrow> bool) \<Rightarrow> field \<Rightarrow> string \<Rightarrow> checked" where
  "check_pubkey on_curve f v = invalid_if (\<not> (is_hex_key v \<and> on_curve v)) (NotAPubkey f v)"

definition check_env_name :: "field \<Rightarrow> string \<Rightarrow> checked" where
  "check_env_name f v =
     invalid_if (\<not> (v \<noteq> [] \<and> \<not> is_digit (hd v) \<and> list_all (\<lambda>c. is_alphanumeric c \<or> c = CHR ''_'') v))
       (NotAnEnvName f v)"

definition check_non_zero :: "field \<Rightarrow> duration \<Rightarrow> checked" where
  "check_non_zero f d = invalid_if (d = 0) (IsZero f)"

definition check_observer :: "(string \<Rightarrow> bool) \<Rightarrow> config \<Rightarrow> nat \<times> string \<Rightarrow> checked" where
  "check_observer on_curve c io = (case io of (i, obs) \<Rightarrow>
     (let f = Indexed ''observers'' i
      in and_then (check_pubkey on_curve f obs)
        (and_then (invalid_if (eq_ignore_case (mostro_pubkey (mostro c)) obs) (ObserverIsNode f))
          (and_then (invalid_if (\<exists>s \<in> set (solvers c). eq_ignore_case (solver_pubkey s) obs)
              (ObserverIsSolver f))
            (invalid_if (\<exists>o' \<in> set (take i (observers c)). eq_ignore_case o' obs)
              (ObserverTwice f))))))"

definition validate_observers :: "(string \<Rightarrow> bool) \<Rightarrow> config \<Rightarrow> checked" where
  "validate_observers on_curve c = check_all (check_observer on_curve c) (enumerate 0 (observers c))"

definition validate_mediation :: "string list \<Rightarrow> config \<Rightarrow> checked" where
  "validate_mediation available c =
     (let m = mediation c
      in and_then (invalid_if (languages m = []) NoLanguages)
        (and_then (check_all (\<lambda>(i, l).
            and_then (invalid_if (l \<in> set (take i (languages m))) (LanguageTwice l))
              (invalid_if (l \<notin> set available) (NoCatalog (Field ''mediation.languages'') l)))
            (enumerate 0 (languages m)))
        (and_then (invalid_if (default_language m \<notin> set (languages m))
            (DefaultNotEnabled (default_language m)))
        (and_then (check_non_zero (Field ''mediation.quiet_period'') (quiet_period m))
        (and_then (check_non_zero (Field ''mediation.response_timeout'') (response_timeout m))
        (and_then (check_non_zero (Field ''mediation.self_resolution_timeout'')
            (self_resolution_timeout m))
          (check_all (\<lambda>(f, v). invalid_if (v = 0) (IsZero (Field f)))
            [(''mediation.max_rounds'', max_rounds m),
             (''mediation.max_message_chars'', max_message_chars m),
             (''mediation.max_messages_per_turn'', max_messages_per_turn m)])))))))"

definition validate_thresholds :: "string list \<Rightarrow> string \<times> thresholds \<Rightarrow> checked" where
  "validate_thresholds available kt = (case kt of (key, th) \<Rightarrow>
     and_then (check_all (\<lambda>(name, v). invalid_if (\<not> (0 < v \<and> v \<le> 1)) (OutOfRange (Threshold key name) v))
         (named th))
       (and_then (case find (\<lambda>l. l \<notin> set available) (validated_languages th) of
           Some l \<Rightarrow> Inl (NoCatalog (Threshold key ''validated_languages'') l) | None \<Rightarrow> Inr ())
         (check_all (\<lambda>(name, v). invalid_if (v \<le> 1 / 2) (NotAboveHalf (Threshold key name) v))
           [(''guide'', th_guide th), (''fact'', th_fact th)])))"

definition validate_judge :: "string list \<Rightarrow> config \<Rightarrow> checked" where
  "validate_judge available c =
     (let j = judge c
      in and_then (invalid_if (provider j \<notin> {''typesafe'', ''recorded''}) (UnknownProvider (provider j)))
        (and_then (invalid_if (trim (model j) = []) EmptyModel)
        (and_then (check_non_zero (Field ''judge.timeout'') (judge_timeout j))
          (check_all (validate_thresholds available) (judge_thresholds j)))))"

definition validate :: "string list \<Rightarrow> (string \<Rightarrow> bool) \<Rightarrow> config \<Rightarrow> checked" where
  "validate available on_curve c =
     and_then (check_env_name (Field ''serbero.private_key_env'') (private_key_env (serbero c)))
     (and_then (check_env_name (Field ''judge.api_key_env'') (api_key_env (judge c)))
     (and_then (check_pubkey on_curve (Field ''mostro.pubkey'') (mostro_pubkey (mostro c)))
     (and_then (invalid_if (relays (mostro c) = []) NoRelays)
     (and_then (check_all (\<lambda>r. invalid_if (\<not> (starts_with ''wss://'' r \<or> starts_with ''ws://'' r))
         (RelayScheme r)) (relays (mostro c)))
     (and_then (check_all (\<lambda>(i, s). check_pubkey on_curve (Indexed ''solvers'' i) (solver_pubkey s))
         (enumerate 0 (solvers c)))
     (and_then (validate_observers on_curve c)
     (and_then (check_non_zero (Field ''notify.renotify_after'') (renotify_after c))
     (and_then (validate_mediation available c)
       (validate_judge available c)))))))))"

section \<open>Secrets\<close>

record secret_file =
  contents :: string
  shared :: bool

record found =
  f_value :: string
  f_warning :: bool

text \<open>
  \<open>lookup\<close>, where a warning is the fact that the file is shared: \<open>env\<close> is the environment; \<open>read_file\<close> the disk, an unreadable file being \<open>None\<close>;
  \<open>is_absolute\<close> is \<open>Path::is_absolute\<close> on the unix targets.
\<close>

definition is_absolute :: "string \<Rightarrow> bool" where
  "is_absolute p \<longleftrightarrow> starts_with ''/'' p"

definition env_set :: "(string \<Rightarrow> string option) \<Rightarrow> string \<Rightarrow> string option" where
  "env_set env v = (case env v of None \<Rightarrow> None
     | Some x \<Rightarrow> (if trim x = [] then None else Some (trim x)))"

definition lookup_secret ::
    "(string \<Rightarrow> string option) \<Rightarrow> (string \<Rightarrow> secret_file option) \<Rightarrow> string \<Rightarrow> config_problem + found option" where
  "lookup_secret env read_file name =
     (let file_var = name @ ''_FILE''
      in case (env_set env name, env_set env file_var) of
           (Some _, Some _) \<Rightarrow> Inl (BothSet name file_var)
         | (Some v, None) \<Rightarrow> Inr (Some \<lparr>f_value = v, f_warning = False\<rparr>)
         | (None, None) \<Rightarrow> Inr None
         | (None, Some p) \<Rightarrow>
             (if \<not> is_absolute p then Inl (NotAbsolute file_var name)
              else case read_file p of
                  None \<Rightarrow> Inl (Unreadable file_var p)
                | Some f \<Rightarrow>
                    (if trim (contents f) = [] then Inl (EmptyFile file_var p)
                     else Inr (Some \<lparr>f_value = trim (contents f), f_warning = shared f\<rparr>))))"

text \<open>
  \<open>read_from_disk\<close>: \<open>dk_stat\<close> is the metadata of a path and \<open>dk_open\<close> what an opened file has, with its
  contents; \<open>None\<close> is any I/O error, such as contents that are not UTF-8.
\<close>

definition MAX_SECRET_BYTES :: nat where "MAX_SECRET_BYTES = 4096"

record inode =
  in_regular :: bool
  in_mode :: nat

record disk =
  disk_stat :: "string \<Rightarrow> inode option"
  disk_open :: "string \<Rightarrow> (inode \<times> string) option"

definition is_shared :: "inode \<Rightarrow> bool" where
  "is_shared i \<longleftrightarrow> in_mode i mod 8 \<noteq> 0"

definition utf8_len :: "string \<Rightarrow> nat" where
  "utf8_len s = sum_list (map (\<lambda>c. if (of_char c :: nat) < 128 then 1 else 2) s)"

definition read_from_disk :: "disk \<Rightarrow> string \<Rightarrow> secret_file option" where
  "read_from_disk dk p =
     (case disk_stat dk p of
        None \<Rightarrow> None
      | Some i \<Rightarrow>
          (if \<not> in_regular i then None
           else case disk_open dk p of
               None \<Rightarrow> None
             | Some (f, t) \<Rightarrow>
                 (if \<not> in_regular f then None
                  else if MAX_SECRET_BYTES < utf8_len t then None
                  else Some \<lparr>contents = t, shared = is_shared f\<rparr>)))"

record secrets =
  private_key :: string
  judge_api_key :: "string option"

definition resolve_secrets ::
    "(string \<Rightarrow> bool) \<Rightarrow> (string \<Rightarrow> string option) \<Rightarrow> (string \<Rightarrow> secret_file option) \<Rightarrow> config \<Rightarrow>
     config_problem + (secrets \<times> string list)" where
  "resolve_secrets secret_ok env read_file c =
     (case lookup_secret env read_file (private_key_env (serbero c)) of
        Inl e \<Rightarrow> Inl e
      | Inr None \<Rightarrow> Inl (NotSet (private_key_env (serbero c)))
      | Inr (Some k) \<Rightarrow>
          (if \<not> (is_hex_key (f_value k) \<and> secret_ok (f_value k))
           then Inl (NotASecretKey (private_key_env (serbero c)))
           else case lookup_secret env read_file (api_key_env (judge c)) of
               Inl e \<Rightarrow> Inl e
             | Inr a \<Rightarrow>
                 (if enabled (mediation c) \<and> provider (judge c) \<noteq> ''recorded'' \<and> a = None
                  then Inl (ApiKeyMissing (api_key_env (judge c)))
                  else Inr (\<lparr>private_key = f_value k, judge_api_key = map_option f_value a\<rparr>,
                    (if f_warning k then [private_key_env (serbero c)] else []) @
                    (case a of Some f \<Rightarrow> (if f_warning f then [api_key_env (judge c)] else []) | None \<Rightarrow> [])))))"

text \<open>The warnings of a resolution are the variables whose files any user may read.
  \<open>check_not_serbero\<close>: \<open>pubkey_of\<close> derives the public key of a secret key, if it is one.\<close>

definition listed_keys :: "config \<Rightarrow> (field \<times> string) list" where
  "listed_keys c =
     map (\<lambda>(i, s). (Indexed ''solvers'' i, solver_pubkey s)) (enumerate 0 (solvers c)) @
     map (\<lambda>(i, obs). (Indexed ''observers'' i, obs)) (enumerate 0 (observers c))"

definition check_not_serbero :: "(string \<Rightarrow> string option) \<Rightarrow> config \<Rightarrow> secrets \<Rightarrow> checked" where
  "check_not_serbero pubkey_of c s =
     (case pubkey_of (private_key s) of
        None \<Rightarrow> Inl InvalidPrivateKey
      | Some own \<Rightarrow> check_all (\<lambda>(f, k). invalid_if (eq_ignore_case k own) (OwnKey f)) (listed_keys c))"

definition settings_parse ::
    "string list \<Rightarrow> (string \<Rightarrow> bool) \<Rightarrow> (string \<Rightarrow> bool) \<Rightarrow> (string \<Rightarrow> string option) \<Rightarrow>
     (string \<Rightarrow> string option) \<Rightarrow> (string \<Rightarrow> secret_file option) \<Rightarrow> config \<Rightarrow> 
     config_problem + (config \<times> secrets \<times> string list)" where
  "settings_parse available on_curve secret_ok pubkey_of env read_file c =
     and_then (validate available on_curve c)
       (case resolve_secrets secret_ok env read_file c of
          Inl e \<Rightarrow> Inl e
        | Inr (s, w) \<Rightarrow> and_then (check_not_serbero pubkey_of c s) (Inr (c, s, w)))"

section \<open>Properties\<close>

lemma unit_secs_Some:
  "unit_secs u = Some k \<longleftrightarrow> u = ''s'' \<and> k = 1 \<or> u = ''m'' \<and> k = 60 \<or> u = ''h'' \<and> k = 3600 \<or> u = ''d'' \<and> k = 86400"
  by (auto simp: unit_secs_def)

lemma unit_letter:
  assumes "unit_secs u = Some k"
  obtains c where "u = [c]" and "\<not> is_digit c" and "\<not> is_white c"
proof -
  have "u = [hd u] \<and> \<not> is_digit (hd u) \<and> \<not> is_white (hd u)"
    using assms by (auto simp: unit_secs_Some is_digit_def is_white_def)
  with that show thesis by blast
qed

lemma trim_dec_unit:
  assumes "unit_secs u = Some k"
  shows "trim (dec n @ u) = dec n @ u"
proof -
  obtain c where u: "u = [c]" and c: "\<not> is_white c" using assms by (rule unit_letter)
  obtain d ds where d: "dec n = d # ds" by (cases "dec n") auto
  with dec_digits [of n] have "\<not> is_white d" by (simp add: is_white_not_digit)
  with c show ?thesis by (simp add: u d trim_ends)
qed

text \<open>
  A duration written as a whole number and a unit is read as exactly that many
  seconds, for every number: an amount that does not fit an unsigned 64-bit count of seconds is
  refused, and never wraps around.
\<close>

theorem duration_exact:
  assumes "unit_secs u = Some k"
  shows "parse_duration (dec n @ u) =
    (if u64_max < n then Inl (NotWhole (dec n @ u))
     else if u64_max < n * k then Inl (TooLarge (dec n @ u)) else Inr (n * k))"
proof -
  obtain c where u: "u = [c]" and c: "\<not> is_digit c" using assms by (rule unit_letter)
  have "takeWhile is_digit (dec n @ u) = dec n" and "dropWhile is_digit (dec n @ u) = u"
    using dec_digits [of n] c by (simp_all add: u takeWhile_append2 dropWhile_append2 list_all_iff)
  moreover have "\<not> list_all is_digit (dec n @ u)" using c by (simp add: u)
  ultimately show ?thesis
    by (simp add: parse_duration_def trim_dec_unit [OF assms] parse_u64_def number_from_dec assms Let_def)
qed

lemma duration_exact_witness:
  "parse_duration (dec 15 @ ''m'') = Inr 900 \<and>
   parse_duration (dec 99999999999999999 @ ''d'') = Inl (TooLarge (dec 99999999999999999 @ ''d''))"
  using duration_exact [of "''m''" 60 15] duration_exact [of "''d''" 86400 99999999999999999]
  by (simp add: unit_secs_def u64_max_def)

lemma in_enumerate: "(i, x) \<in> set (enumerate 0 xs) \<longleftrightarrow> i < length xs \<and> xs ! i = x"
  by (auto simp: in_set_enumerate_eq)

lemma validate_Inr:
  assumes "validate available on_curve c = Inr ()"
  shows "validate_observers on_curve c = Inr ()" and "validate_mediation available c = Inr ()"
    and "validate_judge available c = Inr ()"
  using assms by (simp_all add: validate_def)

lemma observer_checks:
  assumes "validate_observers on_curve c = Inr ()" and "i < length (observers c)"
  shows "\<not> eq_ignore_case (mostro_pubkey (mostro c)) (observers c ! i)"
    and "s \<in> set (solvers c) \<Longrightarrow> \<not> eq_ignore_case (solver_pubkey s) (observers c ! i)"
    and "j < i \<Longrightarrow> \<not> eq_ignore_case (observers c ! j) (observers c ! i)"
proof -
  have *: "check_observer on_curve c (i, observers c ! i) = Inr ()"
    using assms by (simp add: validate_observers_def in_enumerate split: prod.splits)
  show "\<not> eq_ignore_case (mostro_pubkey (mostro c)) (observers c ! i)"
    and "s \<in> set (solvers c) \<Longrightarrow> \<not> eq_ignore_case (solver_pubkey s) (observers c ! i)"
    using * by (simp_all add: check_observer_def Let_def)
  show "\<not> eq_ignore_case (observers c ! j) (observers c ! i)" if "j < i"
  proof -
    have "observers c ! j \<in> set (take i (observers c))"
      using that assms(2) by (auto simp: in_set_conv_nth intro!: exI [of _ j])
    with * show ?thesis by (simp add: check_observer_def Let_def)
  qed
qed

lemma listed_keys_set:
  "snd ` set (listed_keys c) = solver_pubkey ` set (solvers c) \<union> set (observers c)"
proof -
  have "map snd (listed_keys c) = map solver_pubkey (solvers c) @ observers c"
    unfolding listed_keys_def map_append map_map
    by (rule arg_cong2 [where f = "(@)"]; rule nth_equalityI; simp add: nth_enumerate_eq)
  then show ?thesis by (metis set_append set_map)
qed

text \<open>
  A secret has one source. It is the trimmed value of its variable, or, when only the file variable is
  set, the trimmed contents of a regular file of at most 4096 bytes under an absolute path, with a
  warning exactly when every user of the machine may use the file; it is never empty.
\<close>

theorem secret_has_one_source:
  assumes "lookup_secret env (read_from_disk dk) name = Inr (Some f)"
  shows "f_value f \<noteq> [] \<and>
    ((\<exists>v. env name = Some v \<and> f_value f = trim v \<and> \<not> f_warning f \<and> env_set env (name @ ''_FILE'') = None) \<or>
     env_set env name = None \<and>
     (\<exists>p i t. env_set env (name @ ''_FILE'') = Some p \<and> is_absolute p \<and> disk_open dk p = Some (i, t) \<and> in_regular i \<and>
        utf8_len t \<le> 4096 \<and> f_value f = trim t \<and> (f_warning f \<longleftrightarrow> in_mode i mod 8 \<noteq> 0)))"
  using assms
  by (auto simp: lookup_secret_def env_set_def read_from_disk_def is_shared_def MAX_SECRET_BYTES_def Let_def
      split: option.splits if_splits)

text \<open>
  Accepted settings keep Serbero's messages apart: nobody Serbero messages is Serbero
  itself, an observer is neither the Mostro node nor a solver nor listed twice (whatever the case
  of the hex digits), and mediation with a judge that needs a key has one.
\<close>

theorem accepted_settings:
  assumes "settings_parse available on_curve secret_ok pubkey_of env read_file c = Inr (c', s, w)"
    and "pubkey_of (private_key s) = Some own"
  shows "c' = c \<and>
    (\<forall>k \<in> solver_pubkey ` set (solvers c) \<union> set (observers c). \<not> eq_ignore_case k own) \<and>
    (\<forall>i < length (observers c). \<not> eq_ignore_case (mostro_pubkey (mostro c)) (observers c ! i) \<and>
       (\<forall>v \<in> set (solvers c). \<not> eq_ignore_case (solver_pubkey v) (observers c ! i)) \<and>
       (\<forall>j < i. \<not> eq_ignore_case (observers c ! j) (observers c ! i))) \<and>
    (enabled (mediation c) \<and> provider (judge c) \<noteq> ''recorded'' \<longrightarrow> judge_api_key s \<noteq> None)"
proof -
  have v: "validate available on_curve c = Inr ()"
    using assms(1) unfolding settings_parse_def by simp
  obtain s' w' where r: "resolve_secrets secret_ok env read_file c = Inr (s', w')"
    using assms(1) v unfolding settings_parse_def
    by (cases "resolve_secrets secret_ok env read_file c") auto
  have n: "check_not_serbero pubkey_of c s' = Inr ()" and eq: "c' = c" "s' = s"
    using assms(1) v r unfolding settings_parse_def by auto
  have "\<forall>k \<in> snd ` set (listed_keys c). \<not> eq_ignore_case k own"
    using n assms(2) eq by (auto simp: check_not_serbero_def)
  moreover have "enabled (mediation c) \<and> provider (judge c) \<noteq> ''recorded'' \<longrightarrow> judge_api_key s \<noteq> None"
    using r eq by (auto simp: resolve_secrets_def split: sum.splits option.splits if_splits)
  ultimately show ?thesis
    using observer_checks [OF validate_Inr(1) [OF v]] eq(1) by (simp add: listed_keys_set)
qed

definition example_thresholds :: thresholds where
  "example_thresholds = \<lparr>th_guide = 9/10, th_fact = 6/10, th_human_request = 7/10, th_fraud = 7/10,
     th_conflict = 7/10, th_outside_scope = 6/10, validated_languages = [''en'', ''es'']\<rparr>"

definition hex_of :: "char \<Rightarrow> string" where "hex_of c = replicate 64 c"

definition example_config :: config where
  "example_config = \<lparr>serbero = default_server,
     mostro = \<lparr>mostro_pubkey = hex_of CHR ''1'', relays = [''wss://relay'']\<rparr>,
     solvers = [\<lparr>solver_pubkey = hex_of CHR ''2'', permission = Write\<rparr>],
     observers = [hex_of CHR ''3'', hex_of CHR ''4''], renotify_after = default_renotify_after,
     mediation = (default_mediation [''en'', ''es''])\<lparr>enabled := True\<rparr>,
     judge = default_judge\<lparr>judge_thresholds := [(''typesafe/jev-1.13.0'', example_thresholds)]\<rparr>\<rparr>"

definition example_env :: "string \<Rightarrow> string option" where
  "example_env = (\<lambda>v. if v = ''SERBERO_PRIVATE_KEY'' then Some (hex_of CHR ''9'')
     else if v = ''TYPESAFE_API_KEY_FILE'' then Some ''/run/key'' else None)"

definition example_file :: "string \<Rightarrow> secret_file option" where
  "example_file = (\<lambda>p. Some \<lparr>contents = ''secret '', shared = True\<rparr>)"

lemma hex_of_simps [simp]:
  "is_hex_key (hex_of c) \<longleftrightarrow> is_hexdigit c"
  "eq_ignore_case (hex_of c) (hex_of d) \<longleftrightarrow> ascii_lower c = ascii_lower d"
  by (simp_all add: hex_of_def is_hex_key_def eq_ignore_case_def list_all_iff)

lemma trim_hex_of [simp]: "\<not> is_white c \<Longrightarrow> trim (hex_of c) = hex_of c"
  using trim_ends [of c c "replicate 62 c"]
  by (simp add: hex_of_def numeral_eq_Suc replicate_append_same)

lemmas example_defs = example_config_def example_thresholds_def default_server_def
  default_mediation_def default_judge_def default_renotify_after_def

lemma example_observers_valid: "validate_observers (\<lambda>_. True) example_config = Inr ()"
  by (simp add: validate_observers_def check_observer_def check_pubkey_def example_defs
      is_hexdigit_def is_digit_def Let_def ascii_lower_def)

lemma example_mediation_valid: "validate_mediation [''en'', ''es''] example_config = Inr ()"
  by (simp add: validate_mediation_def check_non_zero_def example_defs)

lemma example_judge_valid: "validate_judge [''en'', ''es''] example_config = Inr ()"
  by (simp add: validate_judge_def validate_thresholds_def check_non_zero_def named_def trim_def
      is_white_def example_defs)

lemma example_names_valid:
  "check_env_name f (private_key_env (serbero example_config)) = Inr ()"
  "check_env_name f (api_key_env (judge example_config)) = Inr ()"
  by (simp_all add: check_env_name_def example_defs is_alphanumeric_def is_digit_def)

lemma example_valid: "validate [''en'', ''es''] (\<lambda>_. True) example_config = Inr ()"
  unfolding validate_def example_names_valid example_observers_valid example_mediation_valid
    example_judge_valid and_then.simps
  by (simp add: check_pubkey_def check_non_zero_def example_defs is_hexdigit_def is_digit_def
      starts_with_def)

lemma example_lookups:
  "lookup_secret example_env example_file ''SERBERO_PRIVATE_KEY'' =
     Inr (Some \<lparr>f_value = hex_of CHR ''9'', f_warning = False\<rparr>)"
  "lookup_secret example_env example_file ''TYPESAFE_API_KEY'' =
     Inr (Some \<lparr>f_value = ''secret'', f_warning = True\<rparr>)"
proof -
  have "trim (hex_of CHR ''9'') = hex_of CHR ''9''" by (rule trim_hex_of) (simp add: is_white_def)
  moreover have "hex_of CHR ''9'' \<noteq> []" by (simp add: hex_of_def)
  ultimately show "lookup_secret example_env example_file ''SERBERO_PRIVATE_KEY'' =
     Inr (Some \<lparr>f_value = hex_of CHR ''9'', f_warning = False\<rparr>)"
    by (simp add: lookup_secret_def env_set_def example_env_def)
  show "lookup_secret example_env example_file ''TYPESAFE_API_KEY'' =
     Inr (Some \<lparr>f_value = ''secret'', f_warning = True\<rparr>)"
    by (simp add: lookup_secret_def env_set_def example_env_def example_file_def trim_def is_white_def
        is_absolute_def starts_with_def)
qed

lemma example_secrets:
  "resolve_secrets (\<lambda>_. True) example_env example_file example_config =
     Inr (\<lparr>private_key = hex_of CHR ''9'', judge_api_key = Some ''secret''\<rparr>, [''TYPESAFE_API_KEY''])"
  by (simp add: resolve_secrets_def example_defs example_lookups is_hexdigit_def is_digit_def)

lemma example_not_serbero:
  "check_not_serbero Some example_config \<lparr>private_key = hex_of CHR ''9'', judge_api_key = a\<rparr> = Inr ()"
  by (simp add: check_not_serbero_def listed_keys_def example_defs ascii_lower_def)

lemma example_settings:
  "settings_parse [''en'', ''es''] (\<lambda>_. True) (\<lambda>_. True) Some example_env example_file example_config =
     Inr (example_config, \<lparr>private_key = hex_of CHR ''9'', judge_api_key = Some ''secret''\<rparr>,
       [''TYPESAFE_API_KEY''])"
  by (simp add: settings_parse_def example_valid example_secrets example_not_serbero)

lemma accepted_settings_witness:
  "\<not> eq_ignore_case (observers example_config ! 0) (observers example_config ! 1)"
proof -
  have "\<forall>i < length (observers example_config). \<forall>j < i.
      \<not> eq_ignore_case (observers example_config ! j) (observers example_config ! i)"
    using accepted_settings [OF example_settings refl] by blast
  moreover have "1 < length (observers example_config)" by (simp add: example_config_def)
  ultimately show ?thesis by (meson zero_less_one)
qed

definition example_disk :: disk where
  "example_disk = \<lparr>disk_stat = \<lambda>_. Some \<lparr>in_regular = True, in_mode = 420\<rparr>,
     disk_open = \<lambda>_. Some (\<lparr>in_regular = True, in_mode = 420\<rparr>, ''secret '')\<rparr>"

lemma secret_has_one_source_witness:
  "lookup_secret example_env (read_from_disk example_disk) ''TYPESAFE_API_KEY'' = Inr (Some \<lparr>f_value = ''secret'', f_warning = True\<rparr>) \<and>
   utf8_len ''secret '' \<le> 4096"
proof -
  have l: "lookup_secret example_env (read_from_disk example_disk) ''TYPESAFE_API_KEY'' = Inr (Some \<lparr>f_value = ''secret'', f_warning = True\<rparr>)"
    by code_simp
  from secret_has_one_source [OF l] l show ?thesis by (auto simp: example_disk_def example_env_def env_set_def)
qed

end
