(* ===== verification/Notifier.thy ===== *)
theory Notifier
  imports Disputes Events Texts Config
begin

text \<open>
  The database and what dispute events do to it: \<open>src/src/notifier/mod.rs\<close> (\<open>record\<close>,
  \<open>transition\<close>, \<open>end_live_session\<close>, \<open>handle_event\<close>, \<open>remind\<close>), \<open>notifier/send.rs\<close>,
  \<open>notifier/text.rs\<close> and \<open>src/src/mostro/dispute_event.rs\<close>. The database \<open>db\<close> holds the tables;
  a transaction is a function to a new database, or an error that changes nothing. The names of
  the statuses are \<open>mostro_core\<close>'s: parameters \<open>st_str\<close> and \<open>st_parse\<close>. A direct message is a
  parameter too: \<open>send key text\<close> is the error of sending it, if any.
\<close>

section \<open>The database\<close>

record db =
  db_disputes :: disputes
  db_sessions :: sessions
  db_messages :: messages
  db_events :: events

fun result_bind :: "'e + 'a \<Rightarrow> ('a \<Rightarrow> 'e + 'b) \<Rightarrow> 'e + 'b" where
  "result_bind (Inl e) f = Inl e"
| "result_bind (Inr x) f = f x"

lemma result_bind_Inr: "result_bind r f = Inr y \<longleftrightarrow> (\<exists>x. r = Inr x \<and> f x = Inr y)"
  by (cases r) auto

definition log_event ::
    "db \<Rightarrow> string \<Rightarrow> string option \<Rightarrow> string \<Rightarrow> json \<Rightarrow> int \<Rightarrow> db result" where
  "log_event s dispute_id session_id k payload now =
     (case append_event (db_events s) \<lparr>ne_dispute_id = dispute_id, ne_session_id = session_id,
          ne_kind = k, ne_payload = payload, ne_now = now\<rparr> of
        Inl e \<Rightarrow> Inl e
      | Inr (_, t) \<Rightarrow> Inr (s\<lparr>db_events := t\<rparr>))"

definition logged :: "db \<Rightarrow> string \<Rightarrow> string option \<Rightarrow> string \<Rightarrow> json \<Rightarrow> int \<Rightarrow> db" where
  "logged s dispute_id session_id k payload now =
     s\<lparr>db_events := db_events s @ [event_row (next_rowid ev_id (db_events s))
        \<lparr>ne_dispute_id = dispute_id, ne_session_id = session_id, ne_kind = k, ne_payload = payload,
         ne_now = now\<rparr>]\<rparr>"

lemma log_event_Inr: "k \<noteq> [] \<Longrightarrow> log_event s d sid k payload now = Inr (logged s d sid k payload now)"
  by (simp add: log_event_def append_event_def logged_def Let_def)

lemma logged_simps [simp]:
  "db_disputes (logged s d sid k payload now) = db_disputes s"
  "db_sessions (logged s d sid k payload now) = db_sessions s"
  "db_messages (logged s d sid k payload now) = db_messages s"
  by (simp_all add: logged_def)

section \<open>Dispute events\<close>

datatype dispute_status = Initiated | InProgress | Released | CooperativelyCanceled | Other_Status string

record dispute_event =
  de_dispute_id :: string
  de_status :: dispute_status
  de_initiator :: initiator
  de_opened_at :: "int option"
  de_revision_at :: int

record nostr_event =
  no_kind :: nat
  no_pubkey :: string
  no_tags :: "string list list"
  no_created_at :: nat

fun tag_value :: "string list list \<Rightarrow> string \<Rightarrow> string option" where
  "tag_value [] name = None"
| "tag_value (t # ts) name =
     (case t of key # v # _ \<Rightarrow> if key = name then Some v else tag_value ts name | _ \<Rightarrow> tag_value ts name)"

definition required_tag :: "string list list \<Rightarrow> string \<Rightarrow> string result" where
  "required_tag tags name =
     (case tag_value tags name of None \<Rightarrow> Inl (InvalidEvent (''missing '' @ name @ '' tag'')) | Some v \<Rightarrow> Inr v)"

definition parse_dispute_event ::
    "nat \<Rightarrow> (string list list \<Rightarrow> string option) \<Rightarrow> (string \<Rightarrow> dispute_status option) \<Rightarrow>
     string \<Rightarrow> nostr_event \<Rightarrow> dispute_event result" where
  "parse_dispute_event dispute_kind identifier st_parse author e =
     (if no_kind e \<noteq> dispute_kind then Inl (InvalidEvent (''expected kind '' @ dec dispute_kind @ '', got '' @ dec (no_kind e)))
      else if no_pubkey e \<noteq> author
        then Inl (InvalidEvent ''dispute event not authored by the configured Mostro node'')
      else if tag_value (no_tags e) ''z'' \<noteq> Some ''dispute'' then Inl (InvalidEvent ''missing tag z=dispute'')
      else case identifier (no_tags e) of
          None \<Rightarrow> Inl (InvalidEvent ''missing d tag'')
        | Some i \<Rightarrow>
           (if i = [] then Inl (InvalidEvent ''missing d tag'')
            else result_bind (required_tag (no_tags e) ''s'') (\<lambda>s.
              case st_parse s of
                None \<Rightarrow> Inl (InvalidEvent (''unknown dispute status '' @ debug_str s))
              | Some st \<Rightarrow> result_bind (required_tag (no_tags e) ''initiator'') (\<lambda>b.
                  case initiator_from_str b of
                    Inl _ \<Rightarrow> Inl (InvalidEvent (''unknown initiator '' @ debug_str b))
                  | Inr ini \<Rightarrow>
                      (case tag_value (no_tags e) ''published_at'' of
                         None \<Rightarrow> Inr \<lparr>de_dispute_id = i, de_status = st, de_initiator = ini,
                           de_opened_at = None, de_revision_at = as_i64_cast (no_created_at e)\<rparr>
                       | Some v \<Rightarrow> (case parse_i64 v of
                             None \<Rightarrow> Inl (InvalidEvent (''published_at tag '' @ debug_str v @ '' is not a timestamp''))
                           | Some n \<Rightarrow> Inr \<lparr>de_dispute_id = i, de_status = st, de_initiator = ini,
                               de_opened_at = Some n, de_revision_at = as_i64_cast (no_created_at e)\<rparr>))))))"

definition is_final :: "dispute_status \<Rightarrow> bool" where
  "is_final st \<longleftrightarrow> st \<noteq> Initiated \<and> st \<noteq> InProgress"

definition resolved_by_parties :: "dispute_status \<Rightarrow> bool" where
  "resolved_by_parties st \<longleftrightarrow> st = Released \<or> st = CooperativelyCanceled"

section \<open>Recording a revision\<close>

datatype change =
    Ch_New
  | Ch_FirstSeen dispute_status
  | Ch_Taken
  | Ch_TakenAgain
  | Ch_Resolved dispute_status
  | Ch_Updated string dispute_status
  | Ch_Unchanged

definition end_live_session ::
    "(dispute_status \<Rightarrow> string) \<Rightarrow> db \<Rightarrow> dispute_event \<Rightarrow> session_state \<Rightarrow> string \<Rightarrow> int \<Rightarrow> db result" where
  "end_live_session st_str s de st k now =
     (case live_for_dispute (db_sessions s) (de_dispute_id de) of
        None \<Rightarrow> Inr s
      | Some ses \<Rightarrow>
          log_event (s\<lparr>db_sessions := snd (set_state (db_sessions s) (s_session_id ses) st now)\<rparr>)
            (de_dispute_id de) (Some (s_session_id ses)) k
            (JObj [(''status'', JStr (st_str (de_status de)))]) now)"

definition move_lifecycle :: "db \<Rightarrow> string \<Rightarrow> lifecycle \<Rightarrow> int \<Rightarrow> db" where
  "move_lifecycle s i l now = s\<lparr>db_disputes := snd (set_lifecycle (db_disputes s) i l now)\<rparr>"

definition transition ::
    "(dispute_status \<Rightarrow> string) \<Rightarrow> db \<Rightarrow> dispute_event \<Rightarrow> dispute \<Rightarrow> int \<Rightarrow> (change \<times> db) result" where
  "transition st_str s de existing now =
     (let i = de_dispute_id de
      in if de_status de = InProgress then
           (let taken_over = (case live_for_dispute (db_sessions s) i of
                None \<Rightarrow> False | Some ses \<Rightarrow> s_opened_at ses < de_revision_at de)
            in result_bind (if taken_over then end_live_session st_str s de Superseded ''session_superseded'' now
                            else Inr s) (\<lambda>s1.
                 case d_lifecycle existing of
                   Lc_New \<Rightarrow> Inr (Ch_Taken, move_lifecycle s1 i Lc_Taken now)
                 | Lc_Notified \<Rightarrow> Inr (Ch_Taken, move_lifecycle s1 i Lc_Taken now)
                 | Lc_Taken \<Rightarrow> Inr (Ch_TakenAgain, s1)
                 | Lc_Resolved \<Rightarrow> Inr (Ch_Updated (d_status existing) (de_status de), s1)))
         else if is_final (de_status de) then
           result_bind (end_live_session st_str (move_lifecycle s i Lc_Resolved now) de Closed ''session_closed'' now)
             (\<lambda>s1. result_bind (log_event s1 i None ''resolved''
                 (JObj [(''status'', JStr (st_str (de_status de))),
                    (''resolved_by'', JStr (if resolved_by_parties (de_status de) then ''parties'' else ''solver'')),
                    (''resolved_at'', JInt (de_revision_at de))]) now)
               (\<lambda>s2. Inr (Ch_Resolved (de_status de), s2)))
         else Inr (Ch_Updated (d_status existing) (de_status de), s))"

definition record_event ::
    "(dispute_status \<Rightarrow> string) \<Rightarrow> db \<Rightarrow> dispute_event \<Rightarrow> int \<Rightarrow> (change \<times> db) result" where
  "record_event st_str s de now =
     (let i = de_dispute_id de; status = st_str (de_status de)
      in case get_dispute (db_disputes s) i of
           None \<Rightarrow>
             (let s1 = s\<lparr>db_disputes := snd (insert_dispute (db_disputes s)
                    \<lparr>nd_dispute_id = i, nd_initiator = de_initiator de, nd_status = status,
                     nd_status_at = de_revision_at de, nd_now = now\<rparr>)\<rparr>;
                  (ch, s2) = (if de_status de = Initiated then (Ch_New, s1)
                     else (Ch_FirstSeen (de_status de),
                           move_lifecycle s1 i (if is_final (de_status de) then Lc_Resolved else Lc_Taken) now))
              in result_bind (log_event s2 i None ''detected''
                   (JObj [(''status'', JStr status), (''initiator'', JStr (initiator_str (de_initiator de)))]) now)
                 (\<lambda>s3. Inr (ch, s3)))
         | Some existing \<Rightarrow>
             (let (upd, t) = apply_status (db_disputes s) i status (de_revision_at de) now
              in case upd of
                   Applied \<Rightarrow>
                     result_bind (log_event (s\<lparr>db_disputes := t\<rparr>) i None ''status_changed''
                       (JObj [(''from'', JStr (d_status existing)), (''to'', JStr status)]) now)
                       (\<lambda>s1. transition st_str s1 de existing now)
                 | _ \<Rightarrow> Inr (Ch_Unchanged, s\<lparr>db_disputes := t\<rparr>)))"

section \<open>Telling the solvers\<close>

record solver =
  so_pubkey :: string
  so_permission :: permission

definition text_new_dispute :: "string \<Rightarrow> initiator \<Rightarrow> string" where
  "text_new_dispute d i = ''Dispute '' @ d @ '' '' @ [CHR 0xB7] @ '' new'' @ [CHR 0x0A] @ ''opened by: '' @ initiator_str i"

definition text_reminder :: "string \<Rightarrow> int \<Rightarrow> string" where
  "text_reminder d unattended_secs =
     ''Dispute '' @ d @ '' '' @ [CHR 0xB7] @ '' unattended ('' @ dec_int (max unattended_secs 0 div 60) @ '' min)''"

definition text_taken :: "string \<Rightarrow> bool \<Rightarrow> string" where
  "text_taken d by_serbero =
     ''Dispute '' @ d @ '' '' @ [CHR 0xB7] @ '' taken'' @ [CHR 0x0A] @ ''taken by: '' @ (if by_serbero then ''Serbero'' else ''a solver'')"

fun notify_loop ::
    "(string \<Rightarrow> string \<Rightarrow> string option) \<Rightarrow> solver list \<Rightarrow> string \<Rightarrow> string \<Rightarrow> string \<Rightarrow> int \<Rightarrow>
     nat \<times> error option \<times> db \<Rightarrow> nat \<times> error option \<times> db" where
  "notify_loop send [] d notification txt now acc = acc"
| "notify_loop send (so # sos) d notification txt now (delivered, record_error, s) =
     (let r = send (so_pubkey so) txt;
          (k, payload) = (case r of
              None \<Rightarrow> (''notification_sent'',
                JObj [(''solver'', JStr (so_pubkey so)), (''notification'', JStr notification)])
            | Some e \<Rightarrow> (''notification_failed'',
                JObj [(''solver'', JStr (so_pubkey so)), (''notification'', JStr notification),
                      (''error'', JStr e)]));
          delivered' = (if r = None then delivered + 1 else delivered)
      in case log_event s d None k payload now of
           Inl e \<Rightarrow> notify_loop send sos d notification txt now
             (delivered', (case record_error of None \<Rightarrow> Some e | Some e0 \<Rightarrow> Some e0), s)
         | Inr s' \<Rightarrow> notify_loop send sos d notification txt now (delivered', record_error, s'))"

definition notify_solvers ::
    "(string \<Rightarrow> string \<Rightarrow> string option) \<Rightarrow> solver list \<Rightarrow> string \<Rightarrow> string \<Rightarrow> string \<Rightarrow> int \<Rightarrow> db \<Rightarrow>
     nat result \<times> db" where
  "notify_solvers send sos d notification txt now s =
     (if sos = [] then (Inr 0, s)
      else case notify_loop send sos d notification txt now (0, None, s) of
          (n, None, s') \<Rightarrow> (Inr n, s')
        | (n, Some e, s') \<Rightarrow> (Inl e, s'))"

section \<open>Handling events and reminding\<close>

datatype hook_call = On_New_Dispute string | On_Resolved string string bool

definition taken_by_serbero :: "string set \<Rightarrow> db \<Rightarrow> string \<Rightarrow> bool" where
  "taken_by_serbero own_takes s d \<longleftrightarrow> d \<in> own_takes \<or> live_for_dispute (db_sessions s) d \<noteq> None"

definition mark :: "db \<Rightarrow> string \<Rightarrow> int \<Rightarrow> db" where
  "mark s d now = s\<lparr>db_disputes := snd (mark_notified (db_disputes s) d now)\<rparr>"

definition notify_new ::
    "(string \<Rightarrow> string \<Rightarrow> string option) \<Rightarrow> solver list \<Rightarrow> dispute_event \<Rightarrow> int \<Rightarrow> db \<Rightarrow> bool result \<times> db" where
  "notify_new send sos de now s =
     (case notify_solvers send sos (de_dispute_id de) ''new_dispute''
          (text_new_dispute (de_dispute_id de) (de_initiator de)) now s of
        (Inl e, s1) \<Rightarrow> (Inl e, s1)
      | (Inr n, s1) \<Rightarrow> (Inr (0 < n), if 0 < n then mark s1 (de_dispute_id de) now else s1))"

definition handle_event ::
    "(dispute_status \<Rightarrow> string) \<Rightarrow> (nostr_event \<Rightarrow> dispute_event result option) \<Rightarrow>
     (string \<Rightarrow> string \<Rightarrow> string option) \<Rightarrow> solver list \<Rightarrow> string set \<Rightarrow> db \<Rightarrow> nostr_event \<Rightarrow> int \<Rightarrow>
     change result \<times> db \<times> hook_call list" where
  "handle_event st_str dispute_of send sos own_takes s e now =
     (case dispute_of e of
        None \<Rightarrow> (Inr Ch_Unchanged, s, [])
      | Some (Inl _) \<Rightarrow> (Inr Ch_Unchanged, s, [])
      | Some (Inr de) \<Rightarrow>
          (case record_event st_str s de now of
             Inl er \<Rightarrow> (Inl er, s, [])
           | Inr (ch, s1) \<Rightarrow>
               (case ch of
                  Ch_New \<Rightarrow>
                    (case notify_new send sos de now s1 of
                       (Inl er, s2) \<Rightarrow> (Inl er, s2, [])
                     | (Inr told, s2) \<Rightarrow> (Inr ch, s2, if told then [On_New_Dispute (de_dispute_id de)] else []))
                | Ch_Taken \<Rightarrow>
                    (case notify_solvers send sos (de_dispute_id de) ''taken''
                        (text_taken (de_dispute_id de) (taken_by_serbero own_takes s1 (de_dispute_id de))) now s1 of
                       (Inl er, s2) \<Rightarrow> (Inl er, s2, [])
                     | (Inr _, s2) \<Rightarrow> (Inr ch, s2, []))
                | Ch_Resolved st \<Rightarrow>
                    (Inr ch, s1, [On_Resolved (de_dispute_id de) (st_str st) (resolved_by_parties st)])
                | _ \<Rightarrow> (Inr ch, s1, []))))"

definition dispute_of ::
    "nat \<Rightarrow> (string list list \<Rightarrow> string option) \<Rightarrow> (string \<Rightarrow> dispute_status option) \<Rightarrow> string \<Rightarrow>
     nostr_event \<Rightarrow> dispute_event result option" where
  "dispute_of dispute_kind identifier st_parse author e =
     (if no_kind e = dispute_kind then Some (parse_dispute_event dispute_kind identifier st_parse author e)
      else None)"

text \<open>
  \<open>remind\<close>: other tasks change the database while it runs; \<open>env n\<close> is what they do before the
  \<open>n\<close>-th look at a dispute and while its messages are being sent. The result is how many disputes
  were processed, or the error of the first failing send, with the hooks called so far.
\<close>

fun remind_each ::
    "(nat \<Rightarrow> db \<Rightarrow> db) \<Rightarrow> (string \<Rightarrow> string \<Rightarrow> string option) \<Rightarrow> solver list \<Rightarrow> int \<Rightarrow> nat \<Rightarrow> dispute list \<Rightarrow>
     nat \<times> hook_call list \<times> db \<Rightarrow> nat result \<times> hook_call list \<times> db" where
  "remind_each env send sos now n [] (processed, hooks, s) = (Inr processed, hooks, s)"
| "remind_each env send sos now n (due # dues) (processed, hooks, s) =
     (let s1 = env n s
      in case get_dispute (db_disputes s1) (d_dispute_id due) of
           None \<Rightarrow> remind_each env send sos now (n + 2) dues (processed, hooks, s1)
         | Some d \<Rightarrow>
             (if \<not> waiting d then remind_each env send sos now (n + 2) dues (processed, hooks, s1)
              else let (notification, txt) = (if d_lifecycle d = Lc_New
                          then (''new_dispute'', text_new_dispute (d_dispute_id d) (d_initiator d))
                          else (''reminder'', text_reminder (d_dispute_id d) (now - d_first_seen_at d)))
                in case notify_solvers send sos (d_dispute_id d) notification txt now s1 of
                     (Inl e, s2) \<Rightarrow> (Inl e, hooks, s2)
                   | (Inr delivered, s2) \<Rightarrow>
                       (let s3 = env (n + 1) s2
                        in if 0 < delivered
                           then remind_each env send sos now (n + 2) dues
                             (processed + 1,
                              hooks @ (if d_lifecycle d = Lc_New then [On_New_Dispute (d_dispute_id d)] else []),
                              mark s3 (d_dispute_id d) now)
                           else remind_each env send sos now (n + 2) dues (processed + 1, hooks, s3))))"

definition remind_solvers ::
    "(nat \<Rightarrow> db \<Rightarrow> db) \<Rightarrow> (string \<Rightarrow> string \<Rightarrow> string option) \<Rightarrow> solver list \<Rightarrow> int \<Rightarrow> int \<Rightarrow> db \<Rightarrow>
     nat result \<times> hook_call list \<times> db" where
  "remind_solvers env send sos after_secs now s =
     remind_each env send sos now 0 (list_awaiting_solver (db_disputes s) (now - after_secs)) (0, [], s)"

section \<open>What recording a revision does\<close>

text \<open>The audit log never refuses the events written here, so a revision is always recorded.\<close>

definition ended :: "(dispute_status \<Rightarrow> string) \<Rightarrow> db \<Rightarrow> dispute_event \<Rightarrow> session_state \<Rightarrow> string \<Rightarrow> int \<Rightarrow> db" where
  "ended st_str s de st k now =
     (case live_for_dispute (db_sessions s) (de_dispute_id de) of
        None \<Rightarrow> s
      | Some ses \<Rightarrow>
          logged (s\<lparr>db_sessions := snd (set_state (db_sessions s) (s_session_id ses) st now)\<rparr>)
            (de_dispute_id de) (Some (s_session_id ses)) k
            (JObj [(''status'', JStr (st_str (de_status de)))]) now)"

lemma end_live_session_Inr: "k \<noteq> [] \<Longrightarrow> end_live_session st_str s de st k now = Inr (ended st_str s de st k now)"
  by (simp add: end_live_session_def ended_def log_event_Inr split: option.splits)

lemma ended_disputes [simp]: "db_disputes (ended st_str s de st k now) = db_disputes s"
  by (simp add: ended_def split: option.splits)

lemma transition_disputes:
  "\<exists>ch s'. transition st_str s de existing now = Inr (ch, s') \<and>
     db_disputes s' =
       (if de_status de = InProgress
        then (if waiting existing then snd (set_lifecycle (db_disputes s) (de_dispute_id de) Lc_Taken now)
              else db_disputes s)
        else if is_final (de_status de)
        then snd (set_lifecycle (db_disputes s) (de_dispute_id de) Lc_Resolved now)
        else db_disputes s)"
  by (auto simp: transition_def Let_def end_live_session_Inr log_event_Inr move_lifecycle_def waiting_def
      split: lifecycle.splits option.splits)

lemma record_total: "\<exists>ch s'. record_event st_str s de now = Inr (ch, s')"
proof (cases "get_dispute (db_disputes s) (de_dispute_id de)")
  case None
  then show ?thesis by (simp add: record_event_def Let_def log_event_Inr case_prod_beta)
next
  case (Some d)
  have "\<exists>ch s'. transition st_str s1 de d now = Inr (ch, s')" for s1
    using transition_disputes by blast
  with Some show ?thesis
    by (cases "fst (apply_status (db_disputes s) (de_dispute_id de) (st_str (de_status de)) (de_revision_at de) now)")
      (simp_all add: record_event_def Let_def log_event_Inr case_prod_beta)
qed

definition recorded_db :: "(dispute_status \<Rightarrow> string) \<Rightarrow> dispute_event \<times> int \<Rightarrow> db \<Rightarrow> db" where
  "recorded_db st_str dn s =
     (case record_event st_str s (fst dn) (snd dn) of Inl _ \<Rightarrow> s | Inr (_, s') \<Rightarrow> s')"

text \<open>The lifecycle after a revision was applied to a known dispute, and of a dispute first seen.\<close>

definition next_lifecycle :: "dispute_status \<Rightarrow> lifecycle \<Rightarrow> lifecycle" where
  "next_lifecycle st l =
     (if st = InProgress then (if l = Lc_New \<or> l = Lc_Notified then Lc_Taken else l)
      else if is_final st then Lc_Resolved else l)"

definition first_lifecycle :: "dispute_status \<Rightarrow> lifecycle" where
  "first_lifecycle st = (if st = Initiated then Lc_New else if is_final st then Lc_Resolved else Lc_Taken)"

text \<open>
  The row of a dispute after one revision: the status columns follow the newest revision, the
  lifecycle the state machine.
\<close>

definition dispute_after :: "(dispute_status \<Rightarrow> string) \<Rightarrow> dispute_event \<Rightarrow> string \<Rightarrow> dispute option \<Rightarrow>
    (string \<times> int \<times> lifecycle) option" where
  "dispute_after st_str de i d =
     (case d of
        None \<Rightarrow> if de_dispute_id de = i
          then Some (st_str (de_status de), de_revision_at de, first_lifecycle (de_status de)) else None
      | Some r \<Rightarrow> if de_dispute_id de = i \<and> d_status_at r < de_revision_at de
          then Some (st_str (de_status de), de_revision_at de, next_lifecycle (de_status de) (d_lifecycle r))
          else Some (d_status r, d_status_at r, d_lifecycle r))"

definition dispute_view :: "dispute \<Rightarrow> string \<times> int \<times> lifecycle" where
  "dispute_view r = (d_status r, d_status_at r, d_lifecycle r)"

lemma recorded_disputes:
  assumes "disputes_ok (db_disputes s)"
  shows "db_disputes (recorded_db st_str (de, now) s) =
    (let i = de_dispute_id de; st = de_status de;
         t = snd (applying.run (de_revision_at de) (st_str st) now i (db_disputes s))
     in case get_dispute (db_disputes s) i of
          None \<Rightarrow>
            (let t0 = snd (insert_dispute (db_disputes s) \<lparr>nd_dispute_id = i, nd_initiator = de_initiator de,
                  nd_status = st_str st, nd_status_at = de_revision_at de, nd_now = now\<rparr>)
             in if st = Initiated then t0
                else snd (set_lifecycle t0 i (first_lifecycle st) now))
        | Some r \<Rightarrow>
            (if \<not> d_status_at r < de_revision_at de then db_disputes s
             else if st = InProgress then (if waiting r then snd (set_lifecycle t i Lc_Taken now) else t)
             else if is_final st then snd (set_lifecycle t i Lc_Resolved now) else t))"
proof (cases "get_dispute (db_disputes s) (de_dispute_id de)")
  case None
  then show ?thesis
    by (simp add: recorded_db_def record_event_def Let_def log_event_Inr move_lifecycle_def first_lifecycle_def)
next
  case (Some r)
  show ?thesis
  proof (cases "d_status_at r < de_revision_at de")
    case True
    let ?t = "snd (applying.run (de_revision_at de) (st_str (de_status de)) now (de_dispute_id de) (db_disputes s))"
    let ?s1 = "logged (s\<lparr>db_disputes := ?t\<rparr>) (de_dispute_id de) None ''status_changed''
        (JObj [(''from'', JStr (d_status r)), (''to'', JStr (st_str (de_status de)))]) now"
    obtain ch s' where tr: "transition st_str ?s1 de r now = Inr (ch, s')"
      and d: "db_disputes s' = (if de_status de = InProgress
        then (if waiting r then snd (set_lifecycle ?t (de_dispute_id de) Lc_Taken now) else ?t)
        else if is_final (de_status de) then snd (set_lifecycle ?t (de_dispute_id de) Lc_Resolved now) else ?t)"
      using transition_disputes [of st_str ?s1 de r now] by auto
    have "record_event st_str s de now = Inr (ch, s')"
      using Some True tr by (simp add: record_event_def apply_status_cases [OF assms] log_event_Inr Let_def)
    with d Some True show ?thesis by (simp add: recorded_db_def Let_def)
  next
    case False
    with Some show ?thesis
      by (simp add: recorded_db_def record_event_def apply_status_cases [OF assms] Let_def)
  qed
qed

lemma recorded_ok:
  assumes "disputes_ok (db_disputes s)"
  shows "disputes_ok (db_disputes (recorded_db st_str (de, now) s))"
proof -
  have "disputes_ok (snd (applying.run (de_revision_at de) st n i (db_disputes s)))" for st n i
    using assms by (simp add: disputes_ok_def applying.keys_run)
  then show ?thesis
    using assms by (auto simp: recorded_disputes [OF assms] Let_def disputes_ok_updates split: option.splits)
qed

text \<open>The view of one dispute after one revision.\<close>

lemma recorded_view:
  assumes "disputes_ok (db_disputes s)"
  shows "map_option dispute_view (get_dispute (db_disputes (recorded_db st_str (de, now) s)) j) =
    dispute_after st_str de j (get_dispute (db_disputes s) j)"
proof (cases "de_dispute_id de = j")
  case True
  show ?thesis
  proof (cases "get_dispute (db_disputes s) j")
    case None
    with True show ?thesis
      by (simp add: recorded_disputes [OF assms] dispute_after_def Let_def get_dispute_insert
          get_dispute_lifecycle dispute_view_def new_dispute_row_def lifecycle_row_def first_lifecycle_def)
  next
    case (Some r)
    with True have "d_dispute_id r = j" by (auto dest: get_dispute_id)
    with True Some show ?thesis
      by (cases "d_lifecycle r")
        (simp_all add: recorded_disputes [OF assms] dispute_after_def Let_def get_dispute_apply
          get_dispute_lifecycle dispute_view_def status_row_def lifecycle_row_def next_lifecycle_def waiting_def is_final_def)
  qed
next
  case False
  have other: "get_dispute (db_disputes s) j = Some r \<Longrightarrow> d_dispute_id r \<noteq> de_dispute_id de" for r
    using False by (auto dest: get_dispute_id)
  show ?thesis
    using False other
    by (cases "get_dispute (db_disputes s) j")
      (auto simp: recorded_disputes [OF assms] dispute_after_def Let_def get_dispute_apply get_dispute_insert
        get_dispute_lifecycle dispute_view_def split: option.splits)
qed

section \<open>Runs of revisions\<close>

definition newest :: "dispute_event list \<Rightarrow> dispute_event option" where
  "newest es = fold (\<lambda>e acc. case acc of None \<Rightarrow> Some e
     | Some a \<Rightarrow> if de_revision_at a < de_revision_at e then Some e else Some a) es None"

lemma newest_snoc:
  "newest (es @ [e]) = (case newest es of None \<Rightarrow> Some e
     | Some a \<Rightarrow> if de_revision_at a < de_revision_at e then Some e else Some a)"
  by (simp add: newest_def)

lemma newest_Some: "newest es = Some a \<Longrightarrow> a \<in> set es \<and> (\<forall>e \<in> set es. de_revision_at e \<le> de_revision_at a)"
proof (induction es arbitrary: a rule: rev_induct)
  case (snoc e es)
  show ?case
  proof (cases "newest es")
    case None
    then have "es = []" by (cases es rule: rev_cases) (auto simp: newest_snoc split: option.splits if_splits)
    with snoc.prems show ?thesis by (simp add: newest_def)
  next
    case (Some b)
    with snoc.IH [OF Some] snoc.prems show ?thesis
      by (auto simp: newest_snoc split: if_splits intro: order.trans less_imp_le)
  qed
qed (simp add: newest_def)

lemma newest_None: "newest es = None \<longleftrightarrow> es = []"
  by (cases es rule: rev_cases) (auto simp: newest_snoc newest_def split: option.splits if_splits)

lemma recorded_run_ok: "disputes_ok (db_disputes s) \<Longrightarrow> disputes_ok (db_disputes (fold (recorded_db st_str) des s))"
proof (induction des arbitrary: s)
  case (Cons dn des)
  then show ?case by (cases dn) (simp add: recorded_ok)
qed simp

lemma recorded_run_status:
  assumes "disputes_ok (db_disputes s)" and "get_dispute (db_disputes s) i = None"
  shows "map_option (\<lambda>d. (d_status d, d_status_at d)) (get_dispute (db_disputes (fold (recorded_db st_str) des s)) i) =
    map_option (\<lambda>e. (st_str (de_status e), de_revision_at e))
      (newest (filter (\<lambda>e. de_dispute_id e = i) (map fst des)))"
proof (induction des rule: rev_induct)
  case Nil
  then show ?case using assms(2) by (simp add: newest_def)
next
  case (snoc dn des)
  obtain de now where dn: "dn = (de, now)" by (cases dn)
  let ?s = "fold (recorded_db st_str) des s"
  have v: "map_option dispute_view (get_dispute (db_disputes (recorded_db st_str (de, now) ?s)) i) =
      dispute_after st_str de i (get_dispute (db_disputes ?s) i)"
    by (rule recorded_view [OF recorded_run_ok [OF assms(1)]])
  have two: "map_option (\<lambda>d. (d_status d, d_status_at d)) d =
      map_option (\<lambda>(a, b, c). (a, b)) (map_option dispute_view d)" for d
    by (cases d) (simp_all add: dispute_view_def)
  show ?case
    using snoc.IH
    by (cases "get_dispute (db_disputes ?s) i";
        cases "newest (filter (\<lambda>e. de_dispute_id e = i) (map fst des))")
      (auto simp: dn two v dispute_after_def newest_snoc dispute_view_def)
qed

text \<open>
  The stored status converges to the newest revision: whatever the order in which the
  relays deliver the revisions of a dispute, with duplicates and revisions of other disputes in
  between, the row ends with the status and time of the newest one.
\<close>

theorem status_converges:
  assumes "disputes_ok (db_disputes s)" and "get_dispute (db_disputes s) i = None"
    and "e \<in> set (map fst des)" and "de_dispute_id e = i"
    and "\<forall>x \<in> set (map fst des). de_dispute_id x = i \<longrightarrow> x = e \<or> de_revision_at x < de_revision_at e"
  shows "\<exists>d. get_dispute (db_disputes (fold (recorded_db st_str) des s)) i = Some d \<and>
    d_status d = st_str (de_status e) \<and> d_status_at d = de_revision_at e"
proof -
  let ?es = "filter (\<lambda>e. de_dispute_id e = i) (map fst des)"
  have e: "e \<in> set ?es" using assms(3,4) by simp
  then have "newest ?es \<noteq> None" unfolding newest_None by (metis empty_iff list.set(1))
  then obtain a where a: "newest ?es = Some a" by blast
  have "a = e"
    using newest_Some [OF a] e assms(5) by (auto simp: not_less [symmetric])
  with a recorded_run_status [OF assms(1,2), of st_str des] show ?thesis by auto
qed

text \<open>What else touches a dispute row: a delivered notification marks it.\<close>

datatype dispute_op = Revision dispute_event int | Mark string int

fun dispute_step :: "(dispute_status \<Rightarrow> string) \<Rightarrow> dispute_op \<Rightarrow> db \<Rightarrow> db" where
  "dispute_step st_str (Revision de now) s = recorded_db st_str (de, now) s"
| "dispute_step st_str (Mark i now) s = mark s i now"

fun lifecycle_rank :: "lifecycle \<Rightarrow> nat" where
  "lifecycle_rank Lc_New = 0" | "lifecycle_rank Lc_Notified = 1"
| "lifecycle_rank Lc_Taken = 2" | "lifecycle_rank Lc_Resolved = 3"

interpretation dispute_machine: kept_by_steps "dispute_step st_str" "\<lambda>s. disputes_ok (db_disputes s)"
  for st_str
proof
  fix s :: db and e
  assume "disputes_ok (db_disputes s)"
  then show "disputes_ok (db_disputes (dispute_step st_str e s))"
    by (cases e) (simp_all add: recorded_ok mark_def disputes_ok_updates)
qed

definition rows_advance :: "db \<Rightarrow> db \<Rightarrow> bool" where
  "rows_advance s s' \<longleftrightarrow>
     (\<forall>i d. get_dispute (db_disputes s) i = Some d \<longrightarrow>
        (\<exists>d'. get_dispute (db_disputes s') i = Some d' \<and>
           lifecycle_rank (d_lifecycle d) \<le> lifecycle_rank (d_lifecycle d') \<and> d_status_at d \<le> d_status_at d'))"

lemma next_lifecycle_rank: "lifecycle_rank l \<le> lifecycle_rank (next_lifecycle st l)"
  by (cases l) (simp_all add: next_lifecycle_def)

lemma dispute_step_advances:
  assumes "disputes_ok (db_disputes s)"
  shows "rows_advance s (dispute_step st_str oper s)"
proof (cases oper)
  case (Revision de now)
  show ?thesis
    unfolding rows_advance_def
  proof (intro allI impI)
    fix i d
    assume d: "get_dispute (db_disputes s) i = Some d"
    let ?s' = "dispute_step st_str oper s"
    have "map_option dispute_view (get_dispute (db_disputes ?s') i) = dispute_after st_str de i (Some d)"
      using recorded_view [OF assms, of st_str de now i] d by (simp add: Revision)
    then show "\<exists>d'. get_dispute (db_disputes ?s') i = Some d' \<and>
        lifecycle_rank (d_lifecycle d) \<le> lifecycle_rank (d_lifecycle d') \<and> d_status_at d \<le> d_status_at d'"
      by (auto simp: dispute_after_def dispute_view_def next_lifecycle_rank split: if_splits)
  qed
next
  case (Mark i now)
  show ?thesis
    unfolding rows_advance_def
    by (auto simp: Mark mark_def get_dispute_notified notified_row_def waiting_def)
qed

text \<open>
  Property C24. A dispute's lifecycle never regresses: over any interleaving of revisions, in any
  order, with notifications that finish late, a taken dispute is never again new or notified, a
  resolved one stays resolved, and the time of the stored revision never goes back.
\<close>

theorem lifecycle_never_regresses:
  assumes "disputes_ok (db_disputes s)" and "get_dispute (db_disputes s) i = Some d"
  shows "\<exists>d'. get_dispute (db_disputes (fold (dispute_step st_str) ops s)) i = Some d' \<and>
    lifecycle_rank (d_lifecycle d) \<le> lifecycle_rank (d_lifecycle d') \<and> d_status_at d \<le> d_status_at d'"
proof -
  have "rows_advance s (fold (dispute_step st_str) ops s)"
  proof (rule dispute_machine.run_rel [OF _ _ _ assms(1)])
    show "rows_advance a a" for a by (auto simp: rows_advance_def)
    show "rows_advance a b \<Longrightarrow> rows_advance b c \<Longrightarrow> rows_advance a c" for a b c
      unfolding rows_advance_def by (meson order.trans)
    show "disputes_ok (db_disputes a) \<Longrightarrow> rows_advance a (dispute_step st_str e a)" for e a
      by (rule dispute_step_advances)
  qed
  with assms(2) show ?thesis by (auto simp: rows_advance_def)
qed

text \<open>
  Replays are harmless: recording the same revision a second time reports no change
  and leaves the whole database, audit log included, as it was.
\<close>

theorem replay_changes_nothing:
  assumes "disputes_ok (db_disputes s)"
  shows "record_event st_str (recorded_db st_str (de, now) s) de later =
    Inr (Ch_Unchanged, recorded_db st_str (de, now) s)"
proof -
  let ?s = "recorded_db st_str (de, now) s" and ?i = "de_dispute_id de"
  have "map_option dispute_view (get_dispute (db_disputes ?s) ?i) =
      dispute_after st_str de ?i (get_dispute (db_disputes s) ?i)"
    by (rule recorded_view [OF assms])
  then obtain d where d: "get_dispute (db_disputes ?s) ?i = Some d" and "\<not> d_status_at d < de_revision_at de"
    by (auto simp: dispute_after_def dispute_view_def split: option.splits if_splits)
  then show ?thesis
    by (simp add: record_event_def apply_status_cases [OF recorded_ok [OF assms]] Let_def)
qed

section \<open>Sessions ended by a revision\<close>

lemma live_unique:
  assumes "sessions_ok t" and "live_for_dispute t i = Some ses"
    and "s \<in> set t" and "s_dispute_id s = i" and "live s"
  shows "s = ses"
proof -
  have ses: "ses \<in> set (filter live t)" "s_dispute_id ses = i"
    using assms(2) by (auto simp: live_for_dispute_def find_Some_iff)
  have "s \<in> set (filter live t)" using assms(3,5) by simp
  with ses assms(1,4) show ?thesis
    by (metis distinct_map inj_onD sessions_ok_def)
qed

lemma live_set_state:
  assumes "sessions_ok t" and "live_for_dispute t i = Some ses" and "is_terminal st"
  shows "live_for_dispute (snd (set_state t (s_session_id ses) st now)) i = None"
    and "get_session (snd (set_state t (s_session_id ses) st now)) (s_session_id ses) =
      Some (set_state_row st now ses)"
proof -
  have ses: "ses \<in> set t" "live ses"
    using assms(2) by (auto simp: live_for_dispute_def find_Some_iff)
  have g: "get_session t (s_session_id ses) = Some ses"
    using assms(1) ses(1) unfolding get_session_def sessions_ok_def by (blast intro: find_eq_some_key)
  show "get_session (snd (set_state t (s_session_id ses) st now)) (s_session_id ses) =
      Some (set_state_row st now ses)"
    using moving.run_hit [of "s_session_id ses" t ses st now] g ses(2)
    by (simp add: set_state_run get_session_def)
  show "live_for_dispute (snd (set_state t (s_session_id ses) st now)) i = None"
    unfolding live_for_dispute_def find_None_iff set_state_run moving.snd_run
    using live_unique [OF assms(1,2)] assms(3)
    by (auto simp: set_state_row_def live_def split: if_splits)
qed

lemma ended_sessions:
  assumes "sessions_ok (db_sessions s)" and "live_for_dispute (db_sessions s) (de_dispute_id de) = Some ses"
    and "is_terminal st"
  shows "live_for_dispute (db_sessions (ended st_str s de st k now)) (de_dispute_id de) = None"
    and "get_session (db_sessions (ended st_str s de st k now)) (s_session_id ses) = Some (set_state_row st now ses)"
  using live_set_state [OF assms] assms(2) by (simp_all add: ended_def)

text \<open>
  Property C28. A newer revision ends Serbero's session exactly when it must: a final status closes
  the live session, an in-progress revision newer than the session's opening (another solver's
  take) supersedes it, and every other revision, a stale one included, leaves the sessions alone.
\<close>

theorem revision_ends_session:
  assumes "disputes_ok (db_disputes s)" and "sessions_ok (db_sessions s)"
    and "get_dispute (db_disputes s) (de_dispute_id de) = Some r"
    and "live_for_dispute (db_sessions s) (de_dispute_id de) = Some ses"
    and "s' = recorded_db st_str (de, now) s"
  shows "if d_status_at r < de_revision_at de \<and>
        (is_final (de_status de) \<or> de_status de = InProgress \<and> s_opened_at ses < de_revision_at de)
    then live_for_dispute (db_sessions s') (de_dispute_id de) = None \<and>
      get_session (db_sessions s') (s_session_id ses) =
        Some (set_state_row (if is_final (de_status de) then Closed else Superseded) now ses)
    else db_sessions s' = db_sessions s"
proof (cases "d_status_at r < de_revision_at de")
  case False
  then show ?thesis
    by (simp add: assms(3,5) recorded_db_def record_event_def apply_status_cases [OF assms(1)] Let_def)
next
  case True
  let ?i = "de_dispute_id de"
  let ?t = "snd (applying.run (de_revision_at de) (st_str (de_status de)) now ?i (db_disputes s))"
  let ?s1 = "logged (s\<lparr>db_disputes := ?t\<rparr>) ?i None ''status_changed''
      (JObj [(''from'', JStr (d_status r)), (''to'', JStr (st_str (de_status de)))]) now"
  have s': "s' = (case transition st_str ?s1 de r now of Inl _ \<Rightarrow> s | Inr (_, s2) \<Rightarrow> s2)"
    using True by (simp add: assms(3,5) recorded_db_def record_event_def
        apply_status_cases [OF assms(1)] log_event_Inr Let_def)
  have live1: "live_for_dispute (db_sessions ?s1) ?i = Some ses" and ok1: "sessions_ok (db_sessions ?s1)"
    using assms(2,4) by simp_all
  show ?thesis
  proof (cases "de_status de = InProgress")
    case ip: True
    then have nf: "\<not> is_final (de_status de)" by (simp add: is_final_def)
    have "db_sessions s' = db_sessions (if s_opened_at ses < de_revision_at de
        then ended st_str ?s1 de Superseded ''session_superseded'' now else ?s1)"
      using live1 ip unfolding s'
      by (cases "d_lifecycle r") (simp_all add: transition_def Let_def end_live_session_Inr move_lifecycle_def)
    with True ip nf ended_sessions [OF ok1 live1, of Superseded st_str "''session_superseded''" now]
    show ?thesis by simp
  next
    case nip: False
    let ?s2 = "move_lifecycle ?s1 ?i Lc_Resolved now"
    have "db_sessions s' = (if is_final (de_status de)
        then db_sessions (ended st_str ?s2 de Closed ''session_closed'' now) else db_sessions s)"
      using nip unfolding s'
      by (simp add: transition_def Let_def end_live_session_Inr log_event_Inr)
    moreover have "sessions_ok (db_sessions ?s2)" and "live_for_dispute (db_sessions ?s2) ?i = Some ses"
      using ok1 live1 by (simp_all add: move_lifecycle_def)
    ultimately show ?thesis
      using True nip ended_sessions [of ?s2 de ses Closed st_str "''session_closed''" now] by simp
  qed
qed

section \<open>Witnesses\<close>

definition example_revision :: "dispute_status \<Rightarrow> int \<Rightarrow> dispute_event" where
  "example_revision st revised = \<lparr>de_dispute_id = ''d1'', de_status = st, de_initiator = InitSeller,
     de_opened_at = None, de_revision_at = revised\<rparr>"

fun example_st_str :: "dispute_status \<Rightarrow> string" where
  "example_st_str Initiated = ''initiated''"
| "example_st_str InProgress = ''in-progress''"
| "example_st_str Released = ''released''"
| "example_st_str CooperativelyCanceled = ''cooperatively-canceled''"
| "example_st_str (Other_Status x) = x"

definition empty_db :: db where
  "empty_db = \<lparr>db_disputes = [], db_sessions = [], db_messages = [], db_events = []\<rparr>"

definition example_db :: db where
  "example_db = \<lparr>db_disputes = [\<lparr>d_dispute_id = ''d1'', d_initiator = InitSeller, d_status = ''in-progress'',
       d_status_at = 90, d_lifecycle = Lc_Taken, d_assigned_solver = None, d_first_seen_at = 80,
       d_last_notified_at = Some 81, d_updated_at = 90\<rparr>],
     db_sessions = [opening_row (example_session ''s1'' ''d1'')], db_messages = [], db_events = []\<rparr>"

lemma status_converges_witness:
  "\<exists>d. get_dispute (db_disputes (fold (recorded_db example_st_str)
       [(example_revision Released 30, 31), (example_revision Initiated 10, 32), (example_revision InProgress 20, 33)]
       empty_db)) ''d1'' = Some d \<and> d_status d = ''released'' \<and> d_status_at d = 30"
  using status_converges [of empty_db "''d1''" "example_revision Released 30"
      "[(example_revision Released 30, 31), (example_revision Initiated 10, 32), (example_revision InProgress 20, 33)]"
      example_st_str]
  by (simp add: empty_db_def example_revision_def disputes_ok_def get_dispute_def)

lemma example_db_ok: "disputes_ok (db_disputes example_db)" "sessions_ok (db_sessions example_db)"
  by (simp_all add: example_db_def disputes_ok_def sessions_ok_def)

lemma lifecycle_never_regresses_witness:
  "\<exists>d'. get_dispute (db_disputes (fold (dispute_step example_st_str)
       [Mark ''d1'' 95, Revision (example_revision Initiated 99) 99] example_db)) ''d1'' = Some d' \<and>
     2 \<le> lifecycle_rank (d_lifecycle d')"
proof -
  obtain d where d: "get_dispute (db_disputes example_db) ''d1'' = Some d"
    and l: "lifecycle_rank (d_lifecycle d) = 2"
    by (simp add: example_db_def get_dispute_def)
  show ?thesis
    using lifecycle_never_regresses [OF example_db_ok(1) d, of example_st_str
        "[Mark ''d1'' 95, Revision (example_revision Initiated 99) 99]"] l by auto
qed

lemma replay_changes_nothing_witness:
  "record_event example_st_str (recorded_db example_st_str (example_revision Released 99, 100) example_db)
     (example_revision Released 99) 200 =
   Inr (Ch_Unchanged, recorded_db example_st_str (example_revision Released 99, 100) example_db)"
  by (rule replay_changes_nothing [OF example_db_ok(1)])

lemma revision_ends_session_witness:
  "live_for_dispute (db_sessions (recorded_db example_st_str (example_revision InProgress 101, 102) example_db)) ''d1'' = None"
proof -
  obtain r where r: "get_dispute (db_disputes example_db) (de_dispute_id (example_revision InProgress 101)) = Some r"
    and at: "d_status_at r = 90"
    by (simp add: example_db_def get_dispute_def example_revision_def)
  have l: "live_for_dispute (db_sessions example_db) (de_dispute_id (example_revision InProgress 101)) =
      Some (opening_row (example_session ''s1'' ''d1''))"
    by (simp add: example_db_def live_for_dispute_def example_revision_def opening_row_def example_session_def live_def)
  show ?thesis
    using revision_ends_session [OF example_db_ok r l refl, of example_st_str 102] at
    by (simp add: example_revision_def opening_row_def example_session_def is_final_def)
qed

end
