(* ===== verification/Judge_Answers.thy ===== *)
theory Judge_Answers
  imports Events
begin

text \<open>
  \<open>src/src/judge/mod.rs\<close>: the provider-neutral judge contract. Questions are typed, answers are
  probabilities only, and everything Serbero derives from them (winner, share, score value,
  confidence) comes from one formula. A \<open>BTreeMap\<close> is its list of entries in strictly increasing
  key order (\<open>btree\<close>). An \<open>f64\<close> is a rational: the arithmetic is exact where the code rounds; the
  values come from JSON, which has no NaN and no infinity. An error text is kept as the value the
  text is formatted from.
\<close>

section \<open>Questions and answers\<close>

definition btree :: "('k::linorder \<times> 'v) list \<Rightarrow> bool" where
  "btree m \<longleftrightarrow> sorted_wrt (<) (map fst m)"

lemma btree_distinct: "btree m \<Longrightarrow> distinct (map fst m)"
  by (simp add: btree_def strict_sorted_iff)

record noul_criteria =
  c_yes :: json
  c_no :: json

datatype question =
    QNoul json "noul_criteria option"
  | QChoice json "(string \<times> json option) list"
  | QScore json "json list"

datatype question_kind = KNoul | KChoice | KScore

fun kind_of_question :: "question \<Rightarrow> question_kind" where
  "kind_of_question (QNoul _ _) = KNoul"
| "kind_of_question (QChoice _ _) = KChoice"
| "kind_of_question (QScore _ _) = KScore"

record question_set =
  q_version :: string
  q_questions :: "(string \<times> question) list"

datatype answer =
    Noul rat
  | Choice "(string \<times> rat) list"
  | Score "rat list"

type_synonym answers = "(string \<times> answer) list"

fun answer_kind :: "answer \<Rightarrow> question_kind" where
  "answer_kind (Noul _) = KNoul"
| "answer_kind (Choice _) = KChoice"
| "answer_kind (Score _) = KScore"

definition sum_tolerance :: rat where "sum_tolerance = 1 / 100"

definition clamp :: "rat \<Rightarrow> rat \<Rightarrow> rat \<Rightarrow> rat" where
  "clamp x lo hi = (if x < lo then lo else if hi < x then hi else x)"

section \<open>What Serbero derives from an answer\<close>

fun better :: "(string \<times> rat) \<Rightarrow> (string \<times> rat) option \<Rightarrow> (string \<times> rat) option" where
  "better (opt, p) best =
     (case best of None \<Rightarrow> Some (opt, p) | Some (_, bp) \<Rightarrow> if bp < p then Some (opt, p) else best)"

fun winner :: "answer \<Rightarrow> string option" where
  "winner (Choice probs) = map_option fst (fold better probs None)"
| "winner _ = None"

fun probability :: "answer \<Rightarrow> string \<Rightarrow> rat" where
  "probability (Choice probs) opt = unwrap_or (map_of probs opt) 0"
| "probability _ opt = 0"

fun share :: "answer \<Rightarrow> string \<Rightarrow> rat" where
  "share (Choice probs) opt =
     (let total = sum_list (map snd probs)
      in if total \<le> 0 then 0 else probability (Choice probs) opt / total)"
| "share _ opt = 0"

definition weighted_levels :: "rat list \<Rightarrow> rat" where
  "weighted_levels probs =
     sum_list (map (\<lambda>(i, p). p * rat_of_nat i / rat_of_nat (length probs - 1))
       (enumerate 0 probs))"

fun score_value :: "answer \<Rightarrow> rat option" where
  "score_value (Score probs) =
     (if length probs < 2 then None
      else let total = sum_list probs
           in if total \<le> 0 then None
              else Some (clamp (weighted_levels probs / total) 0 1))"
| "score_value _ = None"

definition concentration :: "rat list \<Rightarrow> rat" where
  "concentration probs =
     (let (n, peak, tot) = fold (\<lambda>p (n, peak, tot). (n + 1, max peak p, tot + p)) probs (0::nat, 0, 0)
      in if n < 2 then 1
         else if tot \<le> 0 then 0
         else clamp ((rat_of_nat n * peak / tot - 1) / (rat_of_nat n - 1)) 0 1)"

fun confidence :: "answer \<Rightarrow> rat option" where
  "confidence (Noul _) = None"
| "confidence (Choice probs) = Some (concentration (map snd probs))"
| "confidence (Score probs) = Some (concentration probs)"

section \<open>Checking an answer against its question\<close>

datatype answer_error =
    NotInUnit rat
  | SumsTo rat
  | OptionsDoNotMatch "string list" "string list"
  | LevelsDoNotMatch nat nat
  | KindsDoNotMatch question_kind question_kind

definition check_unit :: "rat \<Rightarrow> answer_error + unit" where
  "check_unit p = (if 0 \<le> p \<and> p \<le> 1 then Inr () else Inl (NotInUnit p))"

fun check_units :: "rat list \<Rightarrow> rat \<Rightarrow> answer_error + rat" where
  "check_units [] acc = Inr acc"
| "check_units (p # ps) acc =
     (case check_unit p of Inl e \<Rightarrow> Inl e | Inr _ \<Rightarrow> check_units ps (acc + p))"

definition check_distribution :: "rat list \<Rightarrow> answer_error + unit" where
  "check_distribution probs =
     (case check_units probs 0 of
        Inl e \<Rightarrow> Inl e
      | Inr tot \<Rightarrow> if sum_tolerance < \<bar>tot - 1\<bar> then Inl (SumsTo tot) else Inr ())"

fun check_answer :: "answer \<Rightarrow> question \<Rightarrow> answer_error + unit" where
  "check_answer (Noul p) (QNoul _ _) = check_unit p"
| "check_answer (Choice probs) (QChoice _ options) =
     (let asked = sort (map fst options); answered = map fst probs
      in if answered \<noteq> asked then Inl (OptionsDoNotMatch answered asked)
         else check_distribution (map snd probs))"
| "check_answer (Score probs) (QScore _ levels) =
     (if length probs \<noteq> length levels then Inl (LevelsDoNotMatch (length probs) (length levels))
      else check_distribution probs)"
| "check_answer a q = Inl (KindsDoNotMatch (answer_kind a) (kind_of_question q))"

datatype malformed =
    UnknownQuestion string
  | NoAnswer string
  | BadAnswer string answer_error
  | OtherMalformed string

datatype judge_error =
    Unavailable string
  | Unauthorized string
  | InvalidRequest string
  | Malformed malformed

definition is_retryable :: "judge_error \<Rightarrow> bool" where
  "is_retryable e = (case e of Unavailable _ \<Rightarrow> True | _ \<Rightarrow> False)"

fun check_each :: "(string \<times> question) list \<Rightarrow> answers \<Rightarrow> judge_error + unit" where
  "check_each [] as = Inr ()"
| "check_each ((i, q) # qs) as =
     (case map_of as i of
        None \<Rightarrow> Inl (Malformed (NoAnswer i))
      | Some a \<Rightarrow> (case check_answer a q of
            Inl e \<Rightarrow> Inl (Malformed (BadAnswer i e))
          | Inr _ \<Rightarrow> check_each qs as))"

definition check_answers :: "question_set \<Rightarrow> answers \<Rightarrow> judge_error + unit" where
  "check_answers qs as =
     (case find (\<lambda>i. i \<notin> fst ` set (q_questions qs)) (map fst as) of
        Some extra \<Rightarrow> Inl (Malformed (UnknownQuestion extra))
      | None \<Rightarrow> check_each (q_questions qs) as)"

section \<open>Capabilities\<close>

record capabilities =
  question_kinds :: "question_kind list"
  max_choice_options :: nat
  max_score_levels :: nat
  max_context_tokens :: "nat option"

datatype capability_problem =
    NotSupported string question_kind
  | TooManyOptions string nat nat
  | DuplicateOptions string
  | TooManyLevels string nat nat

fun adjacent_equal :: "'a list \<Rightarrow> bool" where
  "adjacent_equal (x # y # xs) \<longleftrightarrow> x = y \<or> adjacent_equal (y # xs)"
| "adjacent_equal _ \<longleftrightarrow> False"

definition question_problems :: "capabilities \<Rightarrow> string \<times> question \<Rightarrow> capability_problem list" where
  "question_problems c iq = (case iq of (i, q) \<Rightarrow>
     (if kind_of_question q \<notin> set (question_kinds c) then [NotSupported i (kind_of_question q)]
      else (case q of
          QNoul _ _ \<Rightarrow> []
        | QChoice _ options \<Rightarrow>
            (let n = length options
             in (if 2 \<le> n \<and> n \<le> max_choice_options c then []
                 else [TooManyOptions i n (max_choice_options c)]) @
                (if adjacent_equal (sort (map fst options)) then [DuplicateOptions i] else []))
        | QScore _ levels \<Rightarrow>
            (let n = length levels
             in if 2 \<le> n \<and> n \<le> max_score_levels c then []
                else [TooManyLevels i n (max_score_levels c)]))))"

definition capabilities_check :: "capabilities \<Rightarrow> question_set \<Rightarrow> capability_problem list" where
  "capabilities_check c qs = concat (map (question_problems c) (q_questions qs))"

section \<open>The winner\<close>

text \<open>The loop over the options finds the first one whose probability no other exceeds.\<close>

definition top_of :: "(string \<times> rat) list \<Rightarrow> string \<times> rat \<Rightarrow> bool" where
  "top_of probs x \<longleftrightarrow> (\<forall>y \<in> set probs. snd y \<le> snd x)"

lemma top_of_exists: "probs \<noteq> [] \<Longrightarrow> \<exists>y \<in> set probs. top_of probs y"
proof -
  assume "probs \<noteq> []"
  then have "Max (snd ` set probs) \<in> snd ` set probs" by simp
  then obtain y where y: "y \<in> set probs" "snd y = Max (snd ` set probs)" by auto
  have "top_of probs y"
    unfolding top_of_def y(2) by (intro ballI Max_ge) simp_all
  with y(1) show ?thesis by blast
qed

lemma fold_better_find: "fold better probs None = find (top_of probs) probs"
proof (induction probs rule: rev_induct)
  case (snoc a probs)
  obtain x r where a: "a = (x, r)" by (cases a)
  show ?case
  proof (cases "find (top_of probs) probs")
    case None
    have "probs = []"
      using None top_of_exists [of probs] unfolding find_None_iff by blast
    then show ?thesis by (simp add: a top_of_def)
  next
    case (Some best)
    obtain o1 q1 where best: "best = (o1, q1)" by (cases best)
    have top: "top_of probs best" using Some by (auto simp: find_Some_iff)
    show ?thesis
    proof (cases "q1 < r")
      case True
      have "find (top_of (probs @ [a])) probs = None"
        using top True by (force simp: find_None_iff top_of_def a best)
      moreover have "top_of (probs @ [a]) a"
        using top True by (force simp: top_of_def a best)
      ultimately show ?thesis
        using True snoc Some by (simp add: a best find_append)
    next
      case False
      have "find (top_of (probs @ [a])) probs = find (top_of probs) probs"
      proof (rule find_cong [OF refl])
        fix y assume "y \<in> set probs"
        have "top_of probs y \<Longrightarrow> q1 \<le> snd y"
          using Some by (auto simp: top_of_def best find_Some_iff) (metis nth_mem snd_conv)
        with False show "top_of (probs @ [a]) y = top_of probs y"
          by (auto simp: top_of_def a)
      qed
      with False snoc Some show ?thesis by (simp add: a best find_append)
    qed
  qed
qed simp

lemma winner_None [simp]: "winner (Choice probs) = None \<longleftrightarrow> probs = []"
proof
  assume "winner (Choice probs) = None"
  then show "probs = []"
    using top_of_exists [of probs] unfolding winner.simps fold_better_find option.map_disc_iff
      find_None_iff by blast
qed simp

text \<open>
  The winner of a choice does not depend on the provider: it is an option with the
  highest probability, and among options with that probability the first by name.
\<close>

theorem winner_highest_first_name:
  assumes "btree probs"
  shows "winner (Choice probs) = Some w \<longleftrightarrow>
    (\<exists>p. (w, p) \<in> set probs \<and> (\<forall>(o', q) \<in> set probs. q < p \<or> q = p \<and> w \<le> o'))"
proof
  assume "winner (Choice probs) = Some w"
  then obtain p where f: "find (top_of probs) probs = Some (w, p)"
    by (auto simp: fold_better_find)
  then obtain i where i: "i < length probs" "probs ! i = (w, p)" "top_of probs (w, p)"
    and before: "\<forall>j < i. \<not> top_of probs (probs ! j)"
    by (auto simp: find_Some_iff)
  have "q < p \<or> q = p \<and> w \<le> o'" if oq: "(o', q) \<in> set probs" for o' q
  proof -
    from oq obtain j where j: "j < length probs" "probs ! j = (o', q)" by (auto simp: in_set_conv_nth)
    have le: "q \<le> p" using i(3) oq by (auto simp: top_of_def)
    show ?thesis
    proof (cases "q = p")
      case True
      then have "top_of probs (probs ! j)" using i(3) j by (simp add: top_of_def)
      with before have "i \<le> j" by (meson not_less)
      then have "w \<le> o'"
        using assms i j by (auto simp: btree_def sorted_wrt_iff_nth_less le_less)
          (metis fst_conv length_map nth_map order.strict_implies_order)
      with True show ?thesis by simp
    qed (use le in simp)
  qed
  moreover have "(w, p) \<in> set probs" using i by (metis nth_mem)
  ultimately show "\<exists>p. (w, p) \<in> set probs \<and> (\<forall>(o', q) \<in> set probs. q < p \<or> q = p \<and> w \<le> o')"
    by blast
next
  assume "\<exists>p. (w, p) \<in> set probs \<and> (\<forall>(o', q) \<in> set probs. q < p \<or> q = p \<and> w \<le> o')"
  then obtain p where wp: "(w, p) \<in> set probs"
    and best: "\<And>o' q. (o', q) \<in> set probs \<Longrightarrow> q < p \<or> q = p \<and> w \<le> o'" by blast
  then obtain v r where v: "find (top_of probs) probs = Some (v, r)"
    using winner_None [of probs] by (cases "find (top_of probs) probs") (auto simp: fold_better_find)
  then obtain i where i: "i < length probs" "probs ! i = (v, r)" "top_of probs (v, r)"
    and before: "\<forall>j < i. \<not> top_of probs (probs ! j)"
    by (auto simp: find_Some_iff)
  from i have vr: "(v, r) \<in> set probs" by (metis nth_mem)
  have "top_of probs (w, p)" using best by (force simp: top_of_def)
  from wp obtain j where j: "j < length probs" "probs ! j = (w, p)" by (auto simp: in_set_conv_nth)
  with before \<open>top_of probs (w, p)\<close> have "i \<le> j" by (metis not_less)
  then have "v \<le> w"
    using assms i j by (auto simp: btree_def sorted_wrt_iff_nth_less le_less)
      (metis fst_conv length_map nth_map order.strict_implies_order)
  moreover have "w \<le> v" using best [OF vr] i(3) wp by (auto simp: top_of_def)
  ultimately show "winner (Choice probs) = Some w" using v by (simp add: fold_better_find)
qed

lemma winner_highest_first_name_witness:
  "winner (Choice [(''a'', 1/4), (''b'', 3/8), (''c'', 3/8)]) = Some ''b'' \<and>
   btree [(''a'', 1/4 :: rat), (''b'', 3/8), (''c'', 3/8)]"
proof -
  have bt: "btree [(''a'', 1/4 :: rat), (''b'', 3/8), (''c'', 3/8)]" by (simp add: btree_def)
  show ?thesis
    using bt winner_highest_first_name [OF bt, of "''b''"] by auto
qed

section \<open>Shares\<close>

text \<open>What an accepted distribution satisfies: every probability is in the unit interval.\<close>

definition units :: "rat list \<Rightarrow> bool" where
  "units ps \<longleftrightarrow> (\<forall>p \<in> set ps. 0 \<le> p \<and> p \<le> 1)"

lemma sum_list_units_nonneg: "units ps \<Longrightarrow> 0 \<le> sum_list ps"
  by (auto simp: units_def intro: sum_list_nonneg)

lemma map_of_le_sum:
  fixes probs :: "('k \<times> rat) list"
  assumes "units (map snd probs)" and "map_of probs x = Some p"
  shows "p \<le> sum_list (map snd probs)"
  using assms
proof (induction probs)
  case (Cons a probs)
  have tail: "units (map snd probs)" and a: "0 \<le> snd a" using Cons.prems(1) by (auto simp: units_def)
  show ?case
    using Cons.prems(2) Cons.IH [OF tail] sum_list_units_nonneg [OF tail] a
    by (auto split: if_splits)
qed simp

lemma map_of_two_le_sum:
  fixes probs :: "('k \<times> rat) list"
  assumes "units (map snd probs)" and "x \<noteq> y"
    and "map_of probs x = Some p" and "map_of probs y = Some q"
  shows "p + q \<le> sum_list (map snd probs)"
  using assms
proof (induction probs)
  case (Cons a probs)
  have tail: "units (map snd probs)" and a: "0 \<le> snd a" using Cons.prems(1) by (auto simp: units_def)
  show ?case
    using Cons.prems(2-4) Cons.IH [OF tail] map_of_le_sum [OF tail] a
    by (fastforce split: if_splits)
qed simp

lemma share_range:
  assumes "units (map snd probs)"
  shows "0 \<le> share (Choice probs) x \<and> share (Choice probs) x \<le> 1"
proof (cases "map_of probs x")
  case (Some p)
  have "0 \<le> p" using assms Some by (force simp: units_def dest: map_of_SomeD)
  with map_of_le_sum [OF assms Some] Some show ?thesis by (auto simp: Let_def)
qed (auto simp: Let_def)

text \<open>
  Two options of one choice never share more than the whole: comparing shares keeps two different
  options from both reaching a threshold above one half, whatever the accepted distribution sums
  to.
\<close>

lemma two_shares:
  assumes "units (map snd probs)" and "x \<noteq> y"
  shows "share (Choice probs) x + share (Choice probs) y \<le> 1"
proof (cases "sum_list (map snd probs) \<le> 0")
  case False
  then have pos: "0 < sum_list (map snd probs)" by simp
  have "unwrap_or (map_of probs x) 0 + unwrap_or (map_of probs y) 0 \<le> sum_list (map snd probs)"
    using map_of_two_le_sum [OF assms] map_of_le_sum [OF assms(1)] pos
    by (cases "map_of probs x"; cases "map_of probs y") (auto simp: less_imp_le)
  then have "(unwrap_or (map_of probs x) 0 + unwrap_or (map_of probs y) 0) / sum_list (map snd probs) \<le> 1"
    using pos by (simp add: divide_le_eq_1)
  with False show ?thesis by (simp add: Let_def add_divide_distrib)
qed simp

section \<open>Confidence and score\<close>

lemma concentration_fold:
  "fold (\<lambda>p (n, peak, tot). (n + 1, max peak p, tot + p)) ps (n, peak, tot) =
     (n + length ps, fold (\<lambda>p m. max m p) ps peak, tot + sum_list ps)"
  by (induction ps arbitrary: n peak tot) (simp_all add: add.assoc)

lemma concentration_alt:
  "concentration ps =
     (if length ps < 2 then 1 else if sum_list ps \<le> 0 then 0
      else clamp ((rat_of_nat (length ps) * fold (\<lambda>p m. max m p) ps 0 / sum_list ps - 1) /
          (rat_of_nat (length ps) - 1)) 0 1)"
  unfolding concentration_def concentration_fold by simp

lemma fold_max_Max: "fold (\<lambda>p m. max m p) ps (c::rat) = Max (insert c (set ps))"
proof (induction ps arbitrary: c)
  case (Cons a ps)
  have "fold (\<lambda>p m. max m p) (a # ps) c = Max (insert (max c a) (set ps))"
    by (simp add: Cons.IH)
  also have "\<dots> = Max (insert c (set (a # ps)))"
    by (cases "ps = []") (auto simp: max.left_commute max.assoc)
  finally show ?case .
qed simp

lemma peak_eq_Max:
  assumes "units ps" and "ps \<noteq> []"
  shows "fold (\<lambda>p m. max m p) ps 0 = Max (set ps)"
proof -
  have "0 \<le> Max (set ps)"
    using assms by (metis List.finite_set Max_ge list.set_intros(1) neq_Nil_conv order.trans units_def)
  then show ?thesis using assms(2) by (simp add: fold_max_Max del: fold_simps)
qed

lemma sum_list_le_peak:
  fixes ps :: "rat list"
  assumes "\<And>p. p \<in> set ps \<Longrightarrow> p \<le> m"
  shows "sum_list ps \<le> rat_of_nat (length ps) * m"
  using assms
proof (induction ps)
  case (Cons a ps)
  then have "sum_list ps \<le> rat_of_nat (length ps) * m" and "a \<le> m" by auto
  then show ?case by (simp add: algebra_simps)
qed simp

text \<open>
  The clamp in the confidence never bites: for an accepted distribution over at least
  two options with a positive total the confidence is exactly
  \<open>(n * peak / total - 1) / (n - 1)\<close>, which already lies between 0 and 1.
\<close>

theorem confidence_formula:
  assumes "units ps" and "2 \<le> length ps" and "0 < sum_list ps"
  shows "\<exists>c. confidence (Score ps) = Some c \<and> 0 \<le> c \<and> c \<le> 1 \<and>
    c = (rat_of_nat (length ps) * Max (set ps) / sum_list ps - 1) / (rat_of_nat (length ps) - 1)"
proof -
  define n where "n = rat_of_nat (length ps)"
  have ne: "ps \<noteq> []" using assms(2) by auto
  let ?m = "Max (set ps)"
  have n: "1 < n" using assms(2) by (simp add: n_def)
  have "sum_list ps \<le> n * ?m"
    unfolding n_def by (rule sum_list_le_peak) simp
  then have lo: "1 \<le> n * ?m / sum_list ps" using assms(3) by (simp add: le_divide_eq)
  have "?m \<in> set ps" using ne by simp
  then have "?m \<le> sum_list ps"
    using assms(1) by (intro member_le_sum_list) (auto simp: units_def)
  then have hi: "n * ?m / sum_list ps \<le> n"
    using assms(3) n by (simp add: divide_le_eq)
  have low: "0 \<le> (n * ?m / sum_list ps - 1) / (n - 1)"
    and high: "(n * ?m / sum_list ps - 1) / (n - 1) \<le> 1"
    using lo hi n by (simp_all add: divide_le_eq)
  have "confidence (Score ps) = Some ((n * ?m / sum_list ps - 1) / (n - 1))"
    using assms(2,3) low high
    by (simp add: concentration_alt peak_eq_Max [OF assms(1) ne] clamp_def n_def not_less)
  with low high show ?thesis by (simp add: n_def)
qed

lemma confidence_formula_witness:
  "confidence (Score [1/4, 3/4]) = Some (1/2)"
  using confidence_formula [of "[1/4, 3/4]"] by (simp add: units_def)

section \<open>Checked answers\<close>

lemma check_unit_ok [simp]: "check_unit p = Inr u \<longleftrightarrow> 0 \<le> p \<and> p \<le> 1"
  by (simp add: check_unit_def)

lemma check_units_Inr:
  "check_units ps acc = Inr r \<longleftrightarrow> units ps \<and> r = acc + sum_list ps"
proof (induction ps arbitrary: acc)
  case (Cons p ps)
  then show ?case by (auto simp: units_def check_unit_def add.assoc)
qed (auto simp: units_def)

definition distribution :: "rat list \<Rightarrow> bool" where
  "distribution ps \<longleftrightarrow> units ps \<and> \<bar>sum_list ps - 1\<bar> \<le> sum_tolerance"

lemma check_distribution_ok [simp]: "check_distribution ps = Inr u \<longleftrightarrow> distribution ps"
proof (cases "check_units ps 0")
  case (Inl e)
  then have "\<not> units ps" by (metis Inl_Inr_False check_units_Inr)
  then show ?thesis by (simp add: check_distribution_def Inl distribution_def)
next
  case (Inr r)
  then have "units ps" "r = sum_list ps" by (simp_all add: check_units_Inr)
  then show ?thesis by (auto simp: check_distribution_def Inr distribution_def not_less)
qed

text \<open>What it means, without the order of the checks, that an answer fits a question.\<close>

fun fits :: "answer \<Rightarrow> question \<Rightarrow> bool" where
  "fits (Noul p) (QNoul _ _) \<longleftrightarrow> 0 \<le> p \<and> p \<le> 1"
| "fits (Choice probs) (QChoice _ options) \<longleftrightarrow>
     map fst probs = sort (map fst options) \<and> distribution (map snd probs)"
| "fits (Score probs) (QScore _ levels) \<longleftrightarrow> length probs = length levels \<and> distribution probs"
| "fits _ _ \<longleftrightarrow> False"

lemma check_answer_fits: "check_answer a q = Inr u \<longleftrightarrow> fits a q"
  by (cases a; cases q) (auto simp: Let_def)

lemma check_each_ok:
  "check_each qs as = Inr u \<longleftrightarrow> (\<forall>(i, q) \<in> set qs. \<exists>a. map_of as i = Some a \<and> fits a q)"
proof (induction qs)
  case (Cons iq qs)
  obtain i q where iq: "iq = (i, q)" by (cases iq)
  show ?case
  proof (cases "map_of as i")
    case (Some a)
    show ?thesis
    proof (cases "check_answer a q")
      case (Inl e)
      then have "\<not> fits a q" by (metis Inl_Inr_False check_answer_fits)
      with Some Inl iq show ?thesis by simp
    next
      case (Inr v)
      then have "fits a q" by (metis check_answer_fits)
      with Some Inr iq Cons.IH show ?thesis by simp
    qed
  qed (simp add: iq)
qed simp

lemma check_answers_parts:
  "check_answers qs as = Inr u \<longleftrightarrow>
     fst ` set as \<subseteq> fst ` set (q_questions qs) \<and>
     (\<forall>(i, q) \<in> set (q_questions qs). \<exists>a. map_of as i = Some a \<and> fits a q)"
proof (cases "find (\<lambda>i. i \<notin> fst ` set (q_questions qs)) (map fst as)")
  case None
  then have "fst ` set as \<subseteq> fst ` set (q_questions qs)" by (force simp: find_None_iff)
  with None show ?thesis by (simp add: check_answers_def check_each_ok)
next
  case (Some e)
  then have "e \<in> fst ` set as" "e \<notin> fst ` set (q_questions qs)"
    using Some by (metis (mono_tags, lifting) find_Some_iff length_map nth_map nth_mem set_map)+
  with Some show ?thesis by (auto simp: check_answers_def)
qed

text \<open>
  A full answer map passes exactly when there is one fitting answer per question and
  nothing else; every fitting choice has probabilities in the unit interval summing to 1 within the
  tolerance, over exactly the options asked.
\<close>

theorem check_answers_ok:
  "check_answers qs as = Inr u \<longleftrightarrow>
     fst ` set as \<subseteq> fst ` set (q_questions qs) \<and>
     (\<forall>(i, q) \<in> set (q_questions qs). \<exists>a. map_of as i = Some a \<and> fits a q)"
  by (rule check_answers_parts)

lemma check_answers_ok_witness:
  "check_answers \<lparr>q_version = ''qs-1'', q_questions = [(''fraud_signal'', QNoul JNull None)]\<rparr>
     [(''fraud_signal'', Noul (1/3))] = Inr ()"
  using check_answers_ok [of "\<lparr>q_version = ''qs-1'', q_questions = [(''fraud_signal'', QNoul JNull None)]\<rparr>"
      "[(''fraud_signal'', Noul (1/3))]" "()"] by simp

end
