(* ===== verification/Judge_Facts.thy ===== *)
theory Judge_Facts
  imports Judge_Answers Config
begin

text \<open>
  \<open>src/src/judge/facts.rs\<close>: from the answers of one turn to the facts the decision table reads.
  Each fact compares one probability with one threshold of the configuration.
\<close>

section \<open>Facts\<close>

datatype message_kind = Answers | Greeting | AsksLanguage | NotUnderstood | AsksNextStep | Other_Kind

record party_facts =
  wants_human :: bool
  rejects_path :: bool
  pf_language :: "string option"
  message_kind :: message_kind

record facts =
  buyer_sent :: bool
  buyer_not_sent :: bool
  buyer_not_sent_for_guide :: bool
  buyer_has_details :: bool
  seller_received :: bool
  seller_received_for_guide :: bool
  seller_not_received :: bool
  seller_has_checked :: bool
  conflict :: bool
  fraud :: bool
  outside_scope :: bool
  fa_buyer :: "party_facts option"
  fa_seller :: "party_facts option"

definition no_facts :: facts where
  "no_facts = \<lparr>buyer_sent = False, buyer_not_sent = False, buyer_not_sent_for_guide = False,
     buyer_has_details = False, seller_received = False, seller_received_for_guide = False,
     seller_not_received = False, seller_has_checked = False, conflict = False, fraud = False,
     outside_scope = False, fa_buyer = None, fa_seller = None\<rparr>"

definition buyer_payment_unknown :: "facts \<Rightarrow> bool" where
  "buyer_payment_unknown f \<longleftrightarrow> \<not> buyer_sent f \<and> \<not> buyer_not_sent f"

definition seller_receipt_unknown :: "facts \<Rightarrow> bool" where
  "seller_receipt_unknown f \<longleftrightarrow> \<not> seller_received f \<and> \<not> seller_not_received f \<and> \<not> outside_scope f"

fun facts_party :: "facts \<Rightarrow> party \<Rightarrow> party_facts option" where
  "facts_party f Buyer = fa_buyer f"
| "facts_party f Seller = fa_seller f"

section \<open>Reading the answers\<close>

definition language_min_probability :: rat where "language_min_probability = 7 / 10"
definition message_kind_min_confidence :: rat where "message_kind_min_confidence = 1 / 2"

definition outside_scope_topics :: "string list" where
  "outside_scope_topics = [''wrong_amount'', ''wrong_account_or_method'', ''technical_problem'', ''other'']"

definition fact_probability :: "answers \<Rightarrow> string \<Rightarrow> string \<Rightarrow> rat" where
  "fact_probability as i opt = (case map_of as i of None \<Rightarrow> 0 | Some a \<Rightarrow> share a opt)"

definition p_yes :: "answers \<Rightarrow> string \<Rightarrow> rat" where
  "p_yes as i = (case map_of as i of Some (Noul p) \<Rightarrow> p | _ \<Rightarrow> 0)"

definition kind :: "answer \<Rightarrow> message_kind" where
  "kind a =
     (let confident = (case confidence a of None \<Rightarrow> False | Some c \<Rightarrow> message_kind_min_confidence \<le> c)
      in case (if confident then winner a else None) of
           None \<Rightarrow> Answers
         | Some w \<Rightarrow>
             if w = ''greeting'' then Greeting
             else if w = ''asks_language'' then AsksLanguage
             else if w = ''not_understood'' then NotUnderstood
             else if w = ''asks_next_step'' then AsksNextStep
             else if w = ''other'' then Other_Kind
             else Answers)"

definition detected_language :: "answer \<Rightarrow> string list \<Rightarrow> string option" where
  "detected_language a langs =
     (case winner a of
        None \<Rightarrow> None
      | Some w \<Rightarrow> if w \<in> set langs \<and> language_min_probability \<le> share a w then Some w else None)"

definition party_facts_of ::
    "answers \<Rightarrow> party \<Rightarrow> thresholds \<Rightarrow> string list \<Rightarrow> party_facts option" where
  "party_facts_of as p th langs =
     (case map_of as (party_str p @ ''_message_kind'') of
        None \<Rightarrow> None
      | Some mk \<Rightarrow> Some \<lparr>
          wants_human = th_human_request th \<le> p_yes as (party_str p @ ''_wants_human''),
          rejects_path = th_conflict th \<le> p_yes as (party_str p @ ''_rejects_path''),
          pf_language = (case map_of as (party_str p @ ''_language'') of
              None \<Rightarrow> None | Some a \<Rightarrow> detected_language a langs),
          message_kind = kind mk\<rparr>)"

definition from_answers :: "answers \<Rightarrow> thresholds \<Rightarrow> string list \<Rightarrow> facts" where
  "from_answers as th langs =
     (let buyer_payment = fact_probability as ''buyer_payment'';
          seller_receipt = fact_probability as ''seller_receipt'';
          topic_outside = sum_list (map (fact_probability as ''dispute_topic'') outside_scope_topics)
      in \<lparr>buyer_sent = th_fact th \<le> buyer_payment ''says_sent'',
          buyer_not_sent = th_fact th \<le> buyer_payment ''says_not_sent'',
          buyer_not_sent_for_guide = th_guide th \<le> buyer_payment ''says_not_sent'',
          buyer_has_details = th_fact th \<le> p_yes as ''buyer_details'',
          seller_received = th_fact th \<le> seller_receipt ''says_received'',
          seller_received_for_guide = th_guide th \<le> seller_receipt ''says_received'',
          seller_not_received = th_fact th \<le> seller_receipt ''says_not_received'',
          seller_has_checked = th_fact th \<le> p_yes as ''seller_checked'',
          conflict = th_conflict th \<le> p_yes as ''claims_conflict'',
          fraud = th_fraud th \<le> p_yes as ''fraud_signal'',
          outside_scope = th_outside_scope th \<le> topic_outside \<or>
            th_outside_scope th \<le> seller_receipt ''says_received_with_problem'',
          fa_buyer = party_facts_of as Buyer th langs,
          fa_seller = party_facts_of as Seller th langs\<rparr>)"

lemma from_answers_fields:
  "buyer_sent (from_answers as th langs) \<longleftrightarrow> th_fact th \<le> fact_probability as ''buyer_payment'' ''says_sent''"
  "buyer_not_sent (from_answers as th langs) \<longleftrightarrow>
     th_fact th \<le> fact_probability as ''buyer_payment'' ''says_not_sent''"
  "buyer_not_sent_for_guide (from_answers as th langs) \<longleftrightarrow>
     th_guide th \<le> fact_probability as ''buyer_payment'' ''says_not_sent''"
  "seller_received (from_answers as th langs) \<longleftrightarrow>
     th_fact th \<le> fact_probability as ''seller_receipt'' ''says_received''"
  "seller_received_for_guide (from_answers as th langs) \<longleftrightarrow>
     th_guide th \<le> fact_probability as ''seller_receipt'' ''says_received''"
  "seller_not_received (from_answers as th langs) \<longleftrightarrow>
     th_fact th \<le> fact_probability as ''seller_receipt'' ''says_not_received''"
  "fa_buyer (from_answers as th langs) = party_facts_of as Buyer th langs"
  "fa_seller (from_answers as th langs) = party_facts_of as Seller th langs"
  by (simp_all add: from_answers_def Let_def)

section \<open>Properties\<close>

text \<open>What the configuration's validation gives about the thresholds of the active judge.\<close>

definition thresholds_ok :: "thresholds \<Rightarrow> bool" where
  "thresholds_ok th \<longleftrightarrow>
     (\<forall>(n, v) \<in> set (named th). 0 < v \<and> v \<le> 1) \<and> 1/2 < th_fact th \<and> 1/2 < th_guide th"

lemma validated_thresholds:
  assumes "validate available on_curve c = Inr ()" and "active_thresholds (judge c) = Some th"
  shows "thresholds_ok th"
proof -
  have "(judge_key (judge c), th) \<in> set (judge_thresholds (judge c))"
    using assms(2) by (auto simp: active_thresholds_def dest: map_of_SomeD)
  then have "validate_thresholds available (judge_key (judge c), th) = Inr ()"
    using validate_Inr(3) [OF assms(1)] by (auto simp: validate_judge_def Let_def)
  then show ?thesis by (auto simp: validate_thresholds_def thresholds_ok_def not_le)
qed

text \<open>The answers of the turn passed \<open>check_answers\<close>: every one of them is in range.\<close>

lemma checked_choice_units:
  assumes "check_answers qs as = Inr u" and "map_of as i = Some (Choice probs)"
  shows "units (map snd probs)"
proof -
  have i: "i \<in> fst ` set as" using assms(2) by (force dest: map_of_SomeD)
  have "fst ` set as \<subseteq> fst ` set (q_questions qs)"
    and each: "check_each (q_questions qs) as = Inr u"
    using assms(1) unfolding check_answers_def
    by (auto split: option.splits simp: find_None_iff)
  with i obtain q where "(i, q) \<in> set (q_questions qs)" by force
  with each assms(2) have "fits (Choice probs) q"
    by (fastforce simp: check_each_ok)
  then show ?thesis by (cases q) (auto simp: distribution_def)
qed

lemma fact_probability_two:
  assumes "check_answers qs as = Inr u" and "x \<noteq> y"
  shows "fact_probability as i x + fact_probability as i y \<le> 1"
proof (cases "map_of as i")
  case (Some a)
  show ?thesis
  proof (cases a)
    case (Choice probs)
    with Some have "units (map snd probs)" using checked_choice_units [OF assms(1)] by blast
    then have "share (Choice probs) x + share (Choice probs) y \<le> 1"
      using assms(2) by (rule two_shares)
    then show ?thesis by (simp add: fact_probability_def Some Choice del: share.simps)
  qed (simp_all add: fact_probability_def Some)
qed (simp add: fact_probability_def)

text \<open>
  Property C23. Contradictory facts are never both known: under a validated configuration and
  answers that passed the check, the buyer is never known both to have paid and not to have paid
  (not even at the guide threshold), nor the seller both to have received the payment and not.
\<close>

theorem facts_never_contradict:
  assumes "validate available on_curve c = Inr ()" and "active_thresholds (judge c) = Some th"
    and "check_answers qs as = Inr u" and "f = from_answers as th langs"
  shows "\<not> (buyer_sent f \<and> (buyer_not_sent f \<or> buyer_not_sent_for_guide f)) \<and>
    \<not> (seller_not_received f \<and> (seller_received f \<or> seller_received_for_guide f))"
proof -
  have th: "1/2 < th_fact th" "1/2 < th_guide th"
    using validated_thresholds [OF assms(1,2)] by (auto simp: thresholds_ok_def)
  have "fact_probability as ''buyer_payment'' ''says_sent'' +
      fact_probability as ''buyer_payment'' ''says_not_sent'' \<le> 1"
    and "fact_probability as ''seller_receipt'' ''says_received'' +
      fact_probability as ''seller_receipt'' ''says_not_received'' \<le> 1"
    by (rule fact_probability_two [OF assms(3)], simp)+
  with th show ?thesis by (auto simp: assms(4) from_answers_fields)
qed

text \<open>
  No fact is known by default: if the turn's answers hold nothing, every fact is
  false and neither party has facts of its own, whatever the validated thresholds and languages.
\<close>

theorem no_fact_by_default:
  assumes "validate available on_curve c = Inr ()" and "active_thresholds (judge c) = Some th"
  shows "from_answers [] th langs = no_facts"
  using validated_thresholds [OF assms]
  by (simp add: thresholds_ok_def named_def from_answers_def no_facts_def fact_probability_def
      p_yes_def party_facts_of_def outside_scope_topics_def not_le)

lemma facts_never_contradict_witness:
  "let f = from_answers [(''buyer_payment'', Choice [(''says_not_sent'', 1/4), (''says_sent'', 3/4)])]
     example_thresholds [''en'']
   in buyer_sent f \<and> \<not> buyer_not_sent f \<and> \<not> buyer_not_sent_for_guide f"
proof -
  let ?as = "[(''buyer_payment'', Choice [(''says_not_sent'', 1/4), (''says_sent'', 3/4)])]"
  let ?qs = "\<lparr>q_version = ''qs-1'', q_questions =
     [(''buyer_payment'', QChoice JNull [(''says_sent'', None), (''says_not_sent'', None)])]\<rparr>"
  have c: "check_answers ?qs ?as = Inr ()"
    by (simp add: check_answers_def check_distribution_def check_unit_def sum_tolerance_def)
  have th: "active_thresholds (judge example_config) = Some example_thresholds"
    by (simp add: active_thresholds_def judge_key_def example_config_def default_judge_def)
  show ?thesis
    using facts_never_contradict [OF example_valid th c refl, of "[''en'']"]
    by (simp add: Let_def from_answers_fields fact_probability_def example_thresholds_def)
qed

lemma no_fact_by_default_witness: "from_answers [] example_thresholds [''en''] = no_facts"
  by (rule no_fact_by_default [OF example_valid])
    (simp add: active_thresholds_def judge_key_def example_config_def default_judge_def)

text \<open>
  A detected language is the judge's clear choice among the enabled ones: it is
  enabled, it wins the party's language question with a share of at least 0.7, and every other
  option's share is at most 0.3.
\<close>

theorem detected_language_clear:
  assumes "check_answers qs as = Inr u"
    and "facts_party (from_answers as th langs) p = Some pf" and "pf_language pf = Some l"
  shows "l \<in> set langs \<and> 7/10 \<le> fact_probability as (party_str p @ ''_language'') l \<and>
    (\<forall>x. x = l \<or> fact_probability as (party_str p @ ''_language'') x \<le> 3/10)"
proof -
  have pf: "party_facts_of as p th langs = Some pf"
    using assms(2) by (cases p) (simp_all add: from_answers_fields)
  then obtain a where a: "map_of as (party_str p @ ''_language'') = Some a"
      and d: "detected_language a langs = Some l"
    using assms(3) by (auto simp: party_facts_of_def split: option.splits)
  have l: "l \<in> set langs" and s: "7/10 \<le> fact_probability as (party_str p @ ''_language'') l"
    using d by (auto simp: detected_language_def language_min_probability_def fact_probability_def a
        split: option.splits if_splits)
  have "fact_probability as (party_str p @ ''_language'') x \<le> 3/10" if "x \<noteq> l" for x
    using fact_probability_two [OF assms(1) that, of "party_str p @ ''_language''"] s by linarith
  with l s show ?thesis by blast
qed

lemma detected_language_clear_witness:
  "(7/10 :: rat) \<le> fact_probability [(''buyer_message_kind'', Choice [(''answers'', 1)]),
      (''buyer_language'', Choice [(''en'', 1/5), (''es'', 4/5)])] ''buyer_language'' ''es''"
proof -
  let ?as = "[(''buyer_message_kind'', Choice [(''answers'', 1)]),
      (''buyer_language'', Choice [(''en'', 1/5), (''es'', 4/5)])]"
  let ?qs = "\<lparr>q_version = ''qs-1'', q_questions =
     [(''buyer_language'', QChoice JNull [(''en'', None), (''es'', None)]),
      (''buyer_message_kind'', QChoice JNull [(''answers'', None)])]\<rparr>"
  have c: "check_answers ?qs ?as = Inr ()"
    by (simp add: check_answers_def check_distribution_def check_unit_def sum_tolerance_def)
  obtain pf where pf: "facts_party (from_answers ?as example_thresholds [''en'', ''es'']) Buyer = Some pf"
    and l: "pf_language pf = Some ''es''"
    by (simp add: from_answers_fields party_facts_of_def detected_language_def
        language_min_probability_def)
  show ?thesis using detected_language_clear [OF c pf l] by simp
qed

end
