(* ===== verification/Policy.thy ===== *)
theory Policy
  imports Judge_Facts
begin

text \<open>
  \<open>src/src/policy/mod.rs\<close>: the templates the policy refers to, the actions with their stored
  names, and the decision table, a pure function from the facts of a turn and the session's
  history to one action. A \<open>BTreeSet\<close> of template ids is a set of strings.
\<close>

section \<open>Templates\<close>

definition ASK_BUYER_SENT :: string where [str_defs]: "ASK_BUYER_SENT = ''ask_buyer_sent''"
definition ASK_BUYER_SENT_SIMPLE :: string where
  [str_defs]: "ASK_BUYER_SENT_SIMPLE = ''ask_buyer_sent_simple''"
definition ASK_BUYER_DETAILS :: string where [str_defs]: "ASK_BUYER_DETAILS = ''ask_buyer_details''"
definition ASK_SELLER_RECEIVED :: string where
  [str_defs]: "ASK_SELLER_RECEIVED = ''ask_seller_received''"
definition ASK_SELLER_RECEIVED_SIMPLE :: string where
  [str_defs]: "ASK_SELLER_RECEIVED_SIMPLE = ''ask_seller_received_simple''"
definition ASK_SELLER_CHECK_ACCOUNT :: string where
  [str_defs]: "ASK_SELLER_CHECK_ACCOUNT = ''ask_seller_check_account''"
definition WHAT_HAPPENS_NEXT :: string where [str_defs]: "WHAT_HAPPENS_NEXT = ''what_happens_next''"
definition THANKS_WAITING :: string where [str_defs]: "THANKS_WAITING = ''thanks_waiting''"
definition WAITING_OTHER_PARTY :: string where
  [str_defs]: "WAITING_OTHER_PARTY = ''waiting_other_party''"
definition REMINDER :: string where [str_defs]: "REMINDER = ''reminder''"

definition question_templates :: "string list" where
  "question_templates = [ASK_BUYER_SENT, ASK_BUYER_SENT_SIMPLE, ASK_BUYER_DETAILS,
     ASK_SELLER_RECEIVED, ASK_SELLER_RECEIVED_SIMPLE, ASK_SELLER_CHECK_ACCOUNT]"

definition is_question :: "string \<Rightarrow> bool" where
  "is_question t \<longleftrightarrow> t \<in> set question_templates"

definition resendable_templates :: "string list" where
  "resendable_templates = [ASK_BUYER_SENT, ASK_BUYER_SENT_SIMPLE, ASK_BUYER_DETAILS,
     ASK_SELLER_RECEIVED, ASK_SELLER_RECEIVED_SIMPLE, ASK_SELLER_CHECK_ACCOUNT,
     WHAT_HAPPENS_NEXT, THANKS_WAITING, WAITING_OTHER_PARTY, REMINDER]"

definition resendable :: "string \<Rightarrow> string option" where
  "resendable i = find (\<lambda>t. t = i) resendable_templates"

definition simple_variant :: "string \<Rightarrow> string option" where
  "simple_variant i =
     (if i = ASK_BUYER_SENT then Some ASK_BUYER_SENT_SIMPLE
      else if i = ASK_SELLER_RECEIVED then Some ASK_SELLER_RECEIVED_SIMPLE
      else None)"

lemma templates_distinct: "distinct resendable_templates" "distinct (rev resendable_templates)"
  by (simp_all add: resendable_templates_def str_defs)

lemmas template_neqs [simp] = templates_distinct [unfolded resendable_templates_def, simplified]

lemma is_question_simps [simp]:
  "is_question ASK_BUYER_SENT" "is_question ASK_BUYER_SENT_SIMPLE" "is_question ASK_BUYER_DETAILS"
  "is_question ASK_SELLER_RECEIVED" "is_question ASK_SELLER_RECEIVED_SIMPLE"
  "is_question ASK_SELLER_CHECK_ACCOUNT" "\<not> is_question WHAT_HAPPENS_NEXT"
  "\<not> is_question THANKS_WAITING" "\<not> is_question WAITING_OTHER_PARTY" "\<not> is_question REMINDER"
  by (simp_all add: is_question_def question_templates_def)

section \<open>Actions and their names\<close>

datatype path = PaymentArrived | PaymentNotSent

datatype handoff_reason =
    SelfResolutionStalled | FactsGathered | ConflictingClaims | FraudSignal | HumanRequested
  | OutsideScope | Unresponsive | RoundLimit | Uncertain | JudgeUnavailable | Flood | OpeningFailed

datatype action =
    Ask "string list" "string list"
  | Guide path
  | Handoff handoff_reason
  | Hold
  | Wait

fun path_str :: "path \<Rightarrow> string" where
  "path_str PaymentArrived = ''payment_arrived''"
| "path_str PaymentNotSent = ''payment_not_sent''"

definition path_parse :: "string \<Rightarrow> path option" where
  "path_parse name = find (\<lambda>p. path_str p = name) [PaymentArrived, PaymentNotSent]"

fun handoff_reason_str :: "handoff_reason \<Rightarrow> string" where
  "handoff_reason_str SelfResolutionStalled = ''self_resolution_stalled''"
| "handoff_reason_str FactsGathered = ''facts_gathered''"
| "handoff_reason_str ConflictingClaims = ''conflicting_claims''"
| "handoff_reason_str FraudSignal = ''fraud_signal''"
| "handoff_reason_str HumanRequested = ''human_requested''"
| "handoff_reason_str OutsideScope = ''outside_scope''"
| "handoff_reason_str Unresponsive = ''unresponsive''"
| "handoff_reason_str RoundLimit = ''round_limit''"
| "handoff_reason_str Uncertain = ''uncertain''"
| "handoff_reason_str JudgeUnavailable = ''judge_unavailable''"
| "handoff_reason_str Flood = ''flood''"
| "handoff_reason_str OpeningFailed = ''opening_failed''"

definition handoff_reasons :: "handoff_reason list" where
  "handoff_reasons = [SelfResolutionStalled, FactsGathered, ConflictingClaims, FraudSignal,
     HumanRequested, OutsideScope, Unresponsive, RoundLimit, Uncertain, JudgeUnavailable, Flood,
     OpeningFailed]"

definition handoff_reason_parse :: "string \<Rightarrow> handoff_reason option" where
  "handoff_reason_parse name = find (\<lambda>r. handoff_reason_str r = name) handoff_reasons"

interpretation path_text: text_codec path_str path_parse
proof
  show "path_parse (path_str x) = Some x" for x by (cases x) (simp_all add: path_parse_def)
  show "path_parse s = Some x \<Longrightarrow> s = path_str x" for s x
    by (auto simp: path_parse_def split: if_splits)
qed

interpretation reason_text: text_codec handoff_reason_str handoff_reason_parse
proof
  show "handoff_reason_parse (handoff_reason_str x) = Some x" for x
    by (cases x) (simp_all add: handoff_reason_parse_def handoff_reasons_def)
  show "handoff_reason_parse s = Some x \<Longrightarrow> s = handoff_reason_str x" for s x
    by (auto simp: handoff_reason_parse_def find_Some_iff)
qed

section \<open>What a decision reads\<close>

datatype phase = Phase_Gathering | Phase_Guiding

record asked =
  asked_buyer :: "string set"
  asked_seller :: "string set"

fun sent :: "asked \<Rightarrow> party \<Rightarrow> string \<Rightarrow> bool" where
  "sent a Buyer t \<longleftrightarrow> t \<in> asked_buyer a"
| "sent a Seller t \<longleftrightarrow> t \<in> asked_seller a"

record next_questions =
  nq_buyer :: "string list"
  nq_seller :: "string list"
  buyer_resend :: bool
  seller_resend :: bool

fun nq_of :: "next_questions \<Rightarrow> party \<Rightarrow> string list" where
  "nq_of n Buyer = nq_buyer n"
| "nq_of n Seller = nq_seller n"

fun resend_of :: "next_questions \<Rightarrow> party \<Rightarrow> bool" where
  "resend_of n Buyer = buyer_resend n"
| "resend_of n Seller = seller_resend n"

definition asks :: "next_questions \<Rightarrow> party \<Rightarrow> bool" where
  "asks n p \<longleftrightarrow> \<not> resend_of n p \<and> list_ex is_question (nq_of n p)"

definition counts_as_round :: "next_questions \<Rightarrow> bool" where
  "counts_as_round n \<longleftrightarrow> asks n Buyer \<or> asks n Seller"

record turn =
  t_phase :: phase
  t_facts :: facts
  buyer_language :: string
  seller_language :: string
  t_validated_languages :: "string list"
  t_buyer_rounds :: nat
  t_seller_rounds :: nat
  t_max_rounds :: nat
  t_asked :: asked
  t_next :: next_questions
  buyer_heard :: bool
  seller_heard :: bool
  held :: bool
  t_handoff_grace :: duration

section \<open>The decision table\<close>

definition any_party :: "facts \<Rightarrow> (party_facts \<Rightarrow> bool) \<Rightarrow> bool" where
  "any_party f check \<longleftrightarrow>
     (\<exists>p \<in> {Buyer, Seller}. case facts_party f p of None \<Rightarrow> False | Some pf \<Rightarrow> check pf)"

definition facts_gathered :: "turn \<Rightarrow> action option" where
  "facts_gathered t =
     (if \<not> (buyer_heard t \<and> seller_heard t) then None
      else Some (if held t then Wait
                 else if t_handoff_grace t = 0 then Handoff FactsGathered
                 else Hold))"

definition validated :: "turn \<Rightarrow> string \<Rightarrow> bool" where
  "validated t l \<longleftrightarrow> l \<in> set (t_validated_languages t)"

definition guide_or_hold :: "turn \<Rightarrow> path \<Rightarrow> action option" where
  "guide_or_hold t p =
     (if validated t (buyer_language t) \<and> validated t (seller_language t) then Some (Guide p)
      else facts_gathered t)"

definition conflict_with_both_sides_answered :: "turn \<Rightarrow> bool" where
  "conflict_with_both_sides_answered t \<longleftrightarrow>
     (let f = t_facts t;
          details = buyer_has_details f \<or> sent (t_asked t) Buyer ASK_BUYER_DETAILS;
          checked = seller_has_checked f \<or> sent (t_asked t) Seller ASK_SELLER_CHECK_ACCOUNT
      in buyer_sent f \<and> seller_not_received f \<and> conflict f \<and> details \<and> checked)"

definition unknown_after_both_variants :: "turn \<Rightarrow> bool" where
  "unknown_after_both_variants t \<longleftrightarrow>
     (let both_sent = (\<lambda>p normal simple. sent (t_asked t) p normal \<and> sent (t_asked t) p simple)
      in buyer_payment_unknown (t_facts t) \<and> both_sent Buyer ASK_BUYER_SENT ASK_BUYER_SENT_SIMPLE
         \<or> seller_receipt_unknown (t_facts t)
           \<and> both_sent Seller ASK_SELLER_RECEIVED ASK_SELLER_RECEIVED_SIMPLE)"

text \<open>\<open>if c && let Some(action) = f { return action; }\<close>.\<close>

definition return_if :: "bool \<Rightarrow> action option \<Rightarrow> action \<Rightarrow> action" where
  "return_if c r rest = (if c then (case r of Some a \<Rightarrow> a | None \<Rightarrow> rest) else rest)"

definition decide :: "turn \<Rightarrow> action" where
  "decide t =
     (let f = t_facts t; guiding = (t_phase t = Phase_Guiding); n = t_next t
      in if any_party f wants_human then Handoff HumanRequested
         else if fraud f then Handoff FraudSignal
         else if outside_scope f then Handoff OutsideScope
         else if guiding \<and> any_party f rejects_path then Handoff SelfResolutionStalled
         else if guiding then Wait
         else return_if (seller_received_for_guide f) (guide_or_hold t PaymentArrived)
             (return_if (buyer_not_sent_for_guide f) (guide_or_hold t PaymentNotSent)
             (if conflict_with_both_sides_answered t then Handoff ConflictingClaims
              else if t_max_rounds t \<le> max (t_buyer_rounds t) (t_seller_rounds t) then Handoff RoundLimit
              else if list_ex is_question (nq_buyer n @ nq_seller n) then Ask (nq_buyer n) (nq_seller n)
              else if unknown_after_both_variants t then Handoff Uncertain
              else return_if (\<not> buyer_payment_unknown f \<and> \<not> seller_receipt_unknown f) (facts_gathered t)
                (if nq_buyer n = [] \<and> nq_seller n = [] then Wait
                 else Ask (nq_buyer n) (nq_seller n)))))"

section \<open>The table as rows\<close>

text \<open>
  \<open>docs/judgments.md\<close> section 4: the rows in order, each a condition and an action, the first row
  that applies deciding. The facts are gathered when both parties wrote, and then the action is
  the same in every row that finds them so.
\<close>

definition both_heard :: "turn \<Rightarrow> bool" where
  "both_heard t \<longleftrightarrow> buyer_heard t \<and> seller_heard t"

definition both_validated :: "turn \<Rightarrow> bool" where
  "both_validated t \<longleftrightarrow> validated t (buyer_language t) \<and> validated t (seller_language t)"

definition gathered_action :: "turn \<Rightarrow> action" where
  "gathered_action t =
     (if held t then Wait else if t_handoff_grace t = 0 then Handoff FactsGathered else Hold)"

definition decision_rows :: "turn \<Rightarrow> (bool \<times> action) list" where
  "decision_rows t =
     (let f = t_facts t; n = t_next t; guiding = (t_phase t = Phase_Guiding)
      in [(any_party f wants_human, Handoff HumanRequested),
          (fraud f, Handoff FraudSignal),
          (outside_scope f, Handoff OutsideScope),
          (guiding \<and> any_party f rejects_path, Handoff SelfResolutionStalled),
          (guiding, Wait),
          (seller_received_for_guide f \<and> both_validated t, Guide PaymentArrived),
          (seller_received_for_guide f \<and> both_heard t, gathered_action t),
          (buyer_not_sent_for_guide f \<and> both_validated t, Guide PaymentNotSent),
          (buyer_not_sent_for_guide f \<and> both_heard t, gathered_action t),
          (conflict_with_both_sides_answered t, Handoff ConflictingClaims),
          (t_max_rounds t \<le> t_buyer_rounds t \<or> t_max_rounds t \<le> t_seller_rounds t, Handoff RoundLimit),
          (list_ex is_question (nq_buyer n) \<or> list_ex is_question (nq_seller n), Ask (nq_buyer n) (nq_seller n)),
          (unknown_after_both_variants t, Handoff Uncertain),
          (\<not> buyer_payment_unknown f \<and> \<not> seller_receipt_unknown f \<and> both_heard t, gathered_action t),
          (nq_buyer n \<noteq> [] \<or> nq_seller n \<noteq> [], Ask (nq_buyer n) (nq_seller n)),
          (True, Wait)])"

text \<open>
  Property C12. The policy is its documented table: \<open>decide\<close> returns the action of the first row
  of \<open>docs/judgments.md\<close> section 4 whose condition holds.
\<close>

theorem decide_is_first_row: "find fst (decision_rows t) = Some (True, decide t)"
proof -
  have g: "facts_gathered t = (if both_heard t then Some (gathered_action t) else None)"
    by (simp add: facts_gathered_def both_heard_def gathered_action_def)
  have h: "guide_or_hold t p = (if both_validated t then Some (Guide p)
      else if both_heard t then Some (gathered_action t) else None)" for p
    by (simp add: guide_or_hold_def both_validated_def g)
  show ?thesis
    by (simp add: decide_def decision_rows_def return_if_def g h Let_def le_max_iff_disj list_ex_append)
qed

section \<open>What the decision guarantees\<close>

lemma return_if_eq:
  "return_if c r rest = a \<longleftrightarrow> (if c \<and> r \<noteq> None then r = Some a else rest = a)"
  by (auto simp: return_if_def split: option.splits)

lemma facts_gathered_cases:
  "facts_gathered t = Some a \<longleftrightarrow> both_heard t \<and> a = gathered_action t"
  "facts_gathered t = None \<longleftrightarrow> \<not> both_heard t"
  by (auto simp: facts_gathered_def both_heard_def gathered_action_def)

lemma guide_or_hold_cases:
  "guide_or_hold t p = Some a \<longleftrightarrow>
     (if both_validated t then a = Guide p else both_heard t \<and> a = gathered_action t)"
  "guide_or_hold t p = None \<longleftrightarrow> \<not> both_validated t \<and> \<not> both_heard t"
  by (auto simp: guide_or_hold_def both_validated_def facts_gathered_cases)

lemma gathered_action_cases:
  "gathered_action t \<noteq> Guide p" "Guide p \<noteq> gathered_action t"
  "gathered_action t \<noteq> Ask b s" "Ask b s \<noteq> gathered_action t"
  "gathered_action t = Wait \<longleftrightarrow> held t" "Wait = gathered_action t \<longleftrightarrow> held t"
  "gathered_action t = Handoff r \<longleftrightarrow> \<not> held t \<and> t_handoff_grace t = 0 \<and> r = FactsGathered"
  by (auto simp: gathered_action_def)

lemmas decision_cases = decide_def return_if_eq guide_or_hold_cases facts_gathered_cases
  gathered_action_cases Let_def

lemma decide_guide:
  assumes "decide t = Guide p"
  shows "t_phase t = Phase_Gathering \<and> both_validated t \<and> \<not> any_party (t_facts t) wants_human \<and>
    \<not> fraud (t_facts t) \<and> \<not> outside_scope (t_facts t) \<and>
    (p = PaymentArrived \<longleftrightarrow> seller_received_for_guide (t_facts t)) \<and>
    (p = PaymentNotSent \<longrightarrow> buyer_not_sent_for_guide (t_facts t))"
  using assms by (cases "t_phase t") (auto simp: decision_cases split: if_splits)

text \<open>
  Property C1. Guidance follows the actor's own word. When the policy tells the parties about a
  self-resolution path, the session was gathering, both languages are validated, nobody asked for
  a human, and no fraud and nothing outside the scope is known; the payment-arrived path needs the
  judge to give the seller's own "received" at least the guide threshold, which is above one half,
  while "not received" then stays below one half; likewise for the buyer's own "not sent".
\<close>

theorem guidance_follows_own_word:
  assumes "validate available on_curve c = Inr ()" and "active_thresholds (judge c) = Some th"
    and "check_answers qs as = Inr u" and "t_facts t = from_answers as th langs"
    and "decide t = Guide p"
  shows "t_phase t = Phase_Gathering \<and> both_validated t \<and>
    (\<forall>q pf. facts_party (t_facts t) q = Some pf \<longrightarrow> \<not> wants_human pf) \<and>
    \<not> fraud (t_facts t) \<and> \<not> outside_scope (t_facts t) \<and> 1/2 < th_guide th \<and>
    (case p of
       PaymentArrived \<Rightarrow> th_guide th \<le> fact_probability as ''seller_receipt'' ''says_received'' \<and>
         fact_probability as ''seller_receipt'' ''says_not_received'' < 1/2
     | PaymentNotSent \<Rightarrow> th_guide th \<le> fact_probability as ''buyer_payment'' ''says_not_sent'' \<and>
         fact_probability as ''buyer_payment'' ''says_sent'' < 1/2)"
proof -
  note d = decide_guide [OF assms(5)]
  have g: "1/2 < th_guide th"
    using validated_thresholds [OF assms(1,2)] by (simp add: thresholds_ok_def)
  have s: "fact_probability as ''seller_receipt'' ''says_received'' +
      fact_probability as ''seller_receipt'' ''says_not_received'' \<le> 1"
    and b: "fact_probability as ''buyer_payment'' ''says_not_sent'' +
      fact_probability as ''buyer_payment'' ''says_sent'' \<le> 1"
    by (rule fact_probability_two [OF assms(3)], simp)+
  have h: "\<not> wants_human pf" if "facts_party (t_facts t) q = Some pf" for q pf
    using d that by (cases q) (auto simp: any_party_def)
  have own: "case p of
       PaymentArrived \<Rightarrow> th_guide th \<le> fact_probability as ''seller_receipt'' ''says_received''
     | PaymentNotSent \<Rightarrow> th_guide th \<le> fact_probability as ''buyer_payment'' ''says_not_sent''"
    using d by (cases p) (simp_all add: assms(4) from_answers_fields)
  show ?thesis
    using d g h own s b by (cases p) auto
qed

definition example_answers :: answers where
  "example_answers = [(''seller_receipt'', Choice [(''not_stated'', 1/20), (''says_received'', 19/20)])]"

definition example_turn :: turn where
  "example_turn = \<lparr>t_phase = Phase_Gathering,
     t_facts = from_answers example_answers example_thresholds [''en'', ''es''],
     buyer_language = ''en'', seller_language = ''es'', t_validated_languages = [''en'', ''es''],
     t_buyer_rounds = 1, t_seller_rounds = 1, t_max_rounds = 4,
     t_asked = \<lparr>asked_buyer = {}, asked_seller = {}\<rparr>,
     t_next = \<lparr>nq_buyer = [], nq_seller = [], buyer_resend = False, seller_resend = False\<rparr>,
     buyer_heard = True, seller_heard = True, held = False, t_handoff_grace = 1800\<rparr>"

lemma example_active: "active_thresholds (judge example_config) = Some example_thresholds"
  by (simp add: active_thresholds_def judge_key_def example_config_def default_judge_def)

lemma guidance_follows_own_word_witness:
  "decide example_turn = Guide PaymentArrived \<and>
   th_guide example_thresholds \<le> fact_probability example_answers ''seller_receipt'' ''says_received''"
proof -
  let ?qs = "\<lparr>q_version = ''qs-1'', q_questions =
     [(''seller_receipt'', QChoice JNull [(''says_received'', None), (''not_stated'', None)])]\<rparr>"
  have c: "check_answers ?qs example_answers = Inr ()"
    by (simp add: check_answers_def check_distribution_def check_unit_def sum_tolerance_def
        example_answers_def)
  have g: "decide example_turn = Guide PaymentArrived"
    by (simp add: decide_def return_if_def example_turn_def from_answers_def any_party_def
        party_facts_of_def example_answers_def p_yes_def fact_probability_def
        outside_scope_topics_def example_thresholds_def guide_or_hold_def validated_def Let_def)
  show ?thesis
    using guidance_follows_own_word [OF example_valid example_active c _ g, of "[''en'', ''es'']"] g
    by (simp add: example_turn_def)
qed

lemma decide_ask_nonempty: "decide t \<noteq> Ask [] []"
  by (simp add: decision_cases)

lemma decide_wait:
  assumes "decide t = Wait" and "t_phase t \<noteq> Phase_Guiding" and "\<not> (held t \<and> both_heard t)"
  shows "nq_buyer (t_next t) = [] \<and> nq_seller (t_next t) = [] \<and> \<not> unknown_after_both_variants t \<and>
      max (t_buyer_rounds t) (t_seller_rounds t) < t_max_rounds t \<and>
      (\<not> both_heard t \<or> buyer_payment_unknown (t_facts t) \<or> seller_receipt_unknown (t_facts t))"
  using assms by (auto simp: decision_cases split: if_splits)

text \<open>
  The policy never lets a session go quiet while it could move. It only waits while a
  timer runs for it (guiding, or already holding with both parties heard), or when there is
  nothing to send and either a party was never heard or a payment fact is still unknown; and it
  never sends an empty \<open>Ask\<close>.
\<close>

theorem decide_never_stalls:
  "decide t \<noteq> Ask [] [] \<and>
   (decide t = Wait \<longrightarrow>
      t_phase t = Phase_Guiding \<or> held t \<and> both_heard t \<or>
      nq_buyer (t_next t) = [] \<and> nq_seller (t_next t) = [] \<and>
      max (t_buyer_rounds t) (t_seller_rounds t) < t_max_rounds t \<and>
      (\<not> both_heard t \<or> buyer_payment_unknown (t_facts t) \<or> seller_receipt_unknown (t_facts t)))"
  using decide_ask_nonempty decide_wait by blast

lemma decide_never_stalls_witness:
  "decide (example_turn\<lparr>t_facts := no_facts\<lparr>buyer_sent := True\<rparr>, seller_heard := False\<rparr>) = Wait \<and>
   nq_buyer (t_next (example_turn\<lparr>t_facts := no_facts\<lparr>buyer_sent := True\<rparr>, seller_heard := False\<rparr>)) = []"
proof -
  let ?t = "example_turn\<lparr>t_facts := no_facts\<lparr>buyer_sent := True\<rparr>, seller_heard := False\<rparr>"
  have w: "decide ?t = Wait"
    by (simp add: decide_def return_if_def example_turn_def no_facts_def any_party_def
        conflict_with_both_sides_answered_def unknown_after_both_variants_def
        buyer_payment_unknown_def seller_receipt_unknown_def Let_def)
  with decide_never_stalls [of ?t] show ?thesis by (simp add: example_turn_def both_heard_def)
qed

end
