(* ===== verification/Policy_Next.thy ===== *)
theory Policy_Next
  imports Policy
begin

text \<open>
  \<open>src/src/policy/next.rs\<close>: which templates each party gets this turn, from the facts and what
  was already sent. The closure \<open>sent\<close> is the set of template ids the party already got.
\<close>

section \<open>The next templates\<close>

record party_history =
  last_template :: "string option"
  last_question :: "string option"
  outstanding :: bool
  language_changed :: bool

record history =
  h_asked :: asked
  h_buyer :: party_history
  h_seller :: party_history

fun history_of :: "history \<Rightarrow> party \<Rightarrow> party_history" where
  "history_of h Buyer = h_buyer h"
| "history_of h Seller = h_seller h"

fun question_rows :: "party \<Rightarrow> facts \<Rightarrow> (bool \<times> string) list" where
  "question_rows Buyer f =
     [(buyer_payment_unknown f, ASK_BUYER_SENT),
      (buyer_payment_unknown f, ASK_BUYER_SENT_SIMPLE),
      (buyer_sent f \<and> \<not> buyer_has_details f, ASK_BUYER_DETAILS)]"
| "question_rows Seller f =
     [(seller_receipt_unknown f, ASK_SELLER_RECEIVED),
      (seller_receipt_unknown f, ASK_SELLER_RECEIVED_SIMPLE),
      (seller_not_received f \<and> \<not> seller_has_checked f, ASK_SELLER_CHECK_ACCOUNT)]"

definition needed_question :: "party \<Rightarrow> facts \<Rightarrow> (string \<Rightarrow> bool) \<Rightarrow> string option" where
  "needed_question p f was_sent =
     map_option snd (find (\<lambda>(needed, q). needed \<and> \<not> was_sent q) (question_rows p f))"

fun nothing_needed :: "party \<Rightarrow> facts \<Rightarrow> bool" where
  "nothing_needed Buyer f \<longleftrightarrow> \<not> buyer_payment_unknown f \<and> \<not> (buyer_sent f \<and> \<not> buyer_has_details f)"
| "nothing_needed Seller f \<longleftrightarrow>
     \<not> seller_receipt_unknown f \<and> \<not> (seller_not_received f \<and> \<not> seller_has_checked f)"

definition language_resend :: "party_history \<Rightarrow> string option" where
  "language_resend own =
     (let last' = (if last_template own = Some REMINDER then last_question own else last_template own)
      in case last' of None \<Rightarrow> None | Some t \<Rightarrow> resendable t)"

definition option_list :: "'a option \<Rightarrow> 'a list" where
  "option_list x = (case x of None \<Rightarrow> [] | Some y \<Rightarrow> [y])"

definition unused_simple :: "party_history \<Rightarrow> (string \<Rightarrow> bool) \<Rightarrow> string option" where
  "unused_simple own was_sent =
     (case last_question own of
        None \<Rightarrow> None
      | Some q \<Rightarrow> (case simple_variant q of
            None \<Rightarrow> None
          | Some s \<Rightarrow> if was_sent s then None else Some s))"

definition needed_templates :: "party \<Rightarrow> facts \<Rightarrow> (string \<Rightarrow> bool) \<Rightarrow> message_kind \<Rightarrow> string list" where
  "needed_templates p f was_sent mk =
     (if mk = AsksNextStep \<and> \<not> was_sent WHAT_HAPPENS_NEXT then [WHAT_HAPPENS_NEXT] else []) @
     (case needed_question p f was_sent of
        Some q \<Rightarrow> [q]
      | None \<Rightarrow> if nothing_needed p f \<and> \<not> was_sent THANKS_WAITING then [THANKS_WAITING] else [])"

definition for_party :: "party \<Rightarrow> facts \<Rightarrow> history \<Rightarrow> string list \<times> bool" where
  "for_party p f h =
     (let own = history_of h p; was_sent = sent (h_asked h) p
      in case facts_party f p of
           None \<Rightarrow>
             (if outstanding own then ([], False)
              else (option_list (needed_question p f was_sent), False))
         | Some pf \<Rightarrow>
             (let answered = (message_kind pf = Answers \<or> message_kind pf = AsksNextStep)
              in case (if language_changed own \<and> \<not> answered then language_resend own else None) of
                   Some l \<Rightarrow> ([l], True)
                 | None \<Rightarrow>
                     (case (if message_kind pf = NotUnderstood then unused_simple own was_sent else None) of
                        Some s \<Rightarrow> ([s], False)
                      | None \<Rightarrow> (needed_templates p f was_sent (message_kind pf), False))))"

fun party_unknown :: "facts \<Rightarrow> party \<Rightarrow> bool" where
  "party_unknown f Buyer = buyer_payment_unknown f"
| "party_unknown f Seller = seller_receipt_unknown f"

fun other_party :: "party \<Rightarrow> party" where
  "other_party Buyer = Seller"
| "other_party Seller = Buyer"

definition waits_for_other :: "party \<Rightarrow> facts \<Rightarrow> history \<Rightarrow> string list \<Rightarrow> string list \<Rightarrow> bool" where
  "waits_for_other p f h own others \<longleftrightarrow>
     (let other_owes = outstanding (history_of h (other_party p)) \<or> list_ex is_question others
      in facts_party f p \<noteq> None \<and> own = [] \<and> \<not> party_unknown f p \<and> other_owes \<and>
         \<not> sent (h_asked h) p WAITING_OTHER_PARTY)"

definition next_questions :: "facts \<Rightarrow> history \<Rightarrow> next_questions" where
  "next_questions f h =
     (let (buyer, b_resend) = for_party Buyer f h;
          (seller, s_resend) = for_party Seller f h;
          b_waits = waits_for_other Buyer f h buyer seller;
          s_waits = waits_for_other Seller f h seller buyer
      in \<lparr>nq_buyer = buyer @ (if b_waits then [WAITING_OTHER_PARTY] else []),
          nq_seller = seller @ (if s_waits then [WAITING_OTHER_PARTY] else []),
          buyer_resend = b_resend, seller_resend = s_resend\<rparr>)"

section \<open>Facts about one party's templates\<close>

lemma next_questions_of:
  "nq_of (next_questions f h) p = fst (for_party p f h) @
     (if waits_for_other p f h (fst (for_party p f h)) (fst (for_party (other_party p) f h))
      then [WAITING_OTHER_PARTY] else [])"
  "resend_of (next_questions f h) p = snd (for_party p f h)"
  by (cases p; simp add: next_questions_def Let_def case_prod_beta)+

fun party_questions :: "party \<Rightarrow> string list" where
  "party_questions Buyer = [ASK_BUYER_SENT, ASK_BUYER_SENT_SIMPLE, ASK_BUYER_DETAILS]"
| "party_questions Seller = [ASK_SELLER_RECEIVED, ASK_SELLER_RECEIVED_SIMPLE, ASK_SELLER_CHECK_ACCOUNT]"

lemma party_questions_are_questions: "set question_templates = set (party_questions Buyer) \<union> set (party_questions Seller)"
  by (auto simp: question_templates_def)

lemma needed_question_Some:
  assumes "needed_question p f was_sent = Some q"
  shows "q \<in> set (party_questions p) \<and> \<not> was_sent q"
  using assms by (cases p) (auto simp: needed_question_def split: if_splits)

lemma needed_question_None:
  assumes "needed_question p f was_sent = None" and "party_unknown f p"
  shows "was_sent (party_questions p ! 0) \<and> was_sent (party_questions p ! 1)"
  using assms by (cases p) (auto simp: needed_question_def numeral_eq_Suc split: if_splits)

lemma unused_simple_Some:
  "unused_simple own was_sent = Some s \<Longrightarrow>
     (s = ASK_BUYER_SENT_SIMPLE \<or> s = ASK_SELLER_RECEIVED_SIMPLE) \<and> \<not> was_sent s \<and>
     last_question own \<noteq> None \<and> simple_variant (the (last_question own)) = Some s"
  by (auto simp: unused_simple_def simple_variant_def split: option.splits if_splits)

lemma needed_templates_in:
  "t \<in> set (needed_templates p f was_sent mk) \<Longrightarrow>
     (t \<in> set (party_questions p) \<or> t = WHAT_HAPPENS_NEXT \<or> t = THANKS_WAITING) \<and> \<not> was_sent t"
  by (auto simp: needed_templates_def split: option.splits if_splits dest: needed_question_Some)

text \<open>The questions already asked of a party are its own, as the templates table requires.\<close>

definition history_ok :: "history \<Rightarrow> bool" where
  "history_ok h \<longleftrightarrow> (\<forall>p q. last_question (history_of h p) = Some q \<longrightarrow> q \<in> set (party_questions p))"

lemma for_party_fresh:
  assumes "for_party p f h = (ts, False)" and "t \<in> set ts"
  shows "\<not> sent (h_asked h) p t \<and>
    (history_ok h \<longrightarrow> t \<in> set (party_questions p) \<or> t = WHAT_HAPPENS_NEXT \<or> t = THANKS_WAITING)"
proof -
  consider (silent) "needed_question p f (sent (h_asked h) p) = Some t"
    | (simple) "unused_simple (history_of h p) (sent (h_asked h) p) = Some t"
    | (needed) mk where "t \<in> set (needed_templates p f (sent (h_asked h) p) mk)"
    using assms by (auto simp: for_party_def Let_def option_list_def split: option.splits if_splits)
  then show ?thesis
  proof cases
    case simple
    then obtain q where q: "last_question (history_of h p) = Some q" "simple_variant q = Some t"
      and n: "\<not> sent (h_asked h) p t" by (auto dest: unused_simple_Some)
    have "t \<in> set (party_questions p)" if "history_ok h"
    proof -
      have "q \<in> set (party_questions p)" using that q(1) by (auto simp: history_ok_def)
      with q(2) show ?thesis by (cases p) (auto simp: simple_variant_def)
    qed
    with n show ?thesis by blast
  qed (auto dest: needed_question_Some needed_templates_in)
qed

lemma for_party_resend:
  assumes "for_party p f h = (ts, True)"
  shows "\<exists>t pf. ts = [t] \<and> language_resend (history_of h p) = Some t \<and>
    facts_party f p = Some pf \<and> language_changed (history_of h p) \<and> message_kind pf \<noteq> Answers"
  using assms by (auto simp: for_party_def Let_def split: option.splits if_splits)

lemma for_party_empty:
  assumes "facts_party f p \<noteq> None" and "fst (for_party p f h) = []"
  shows "needed_question p f (sent (h_asked h) p) = None"
proof -
  obtain pf where pf: "facts_party f p = Some pf" using assms(1) by blast
  have "needed_templates p f (sent (h_asked h) p) (message_kind pf) = []"
    using assms(2) unfolding for_party_def pf by (simp add: Let_def split: option.splits if_splits)
  then show ?thesis by (simp add: needed_templates_def split: option.splits)
qed

section \<open>Properties\<close>


text \<open>
  Templates go to the right party: with a history that holds only the party's own
  questions, everything the policy picks for a party is one of that party's three questions or a
  courtesy template, and nothing is picked for a silent party that still owes an answer.
\<close>

theorem templates_addressed:
  assumes "history_ok h" and "n = next_questions f h"
  shows "(\<not> resend_of n p \<longrightarrow> set (nq_of n p) \<subseteq>
      set (party_questions p) \<union> {WHAT_HAPPENS_NEXT, THANKS_WAITING, WAITING_OTHER_PARTY}) \<and>
    (facts_party f p = None \<longrightarrow>
      (if outstanding (history_of h p) then nq_of n p = []
       else length (nq_of n p) \<le> 1 \<and> set (nq_of n p) \<subseteq> set (party_questions p)))"
proof (intro conjI impI)
  assume "\<not> resend_of n p"
  then have fp: "for_party p f h = (fst (for_party p f h), False)"
    by (metis assms(2) next_questions_of(2) prod.collapse)
  show "set (nq_of n p) \<subseteq>
      set (party_questions p) \<union> {WHAT_HAPPENS_NEXT, THANKS_WAITING, WAITING_OTHER_PARTY}"
    using for_party_fresh [OF fp] assms(1) by (auto simp: assms(2) next_questions_of split: if_splits)
next
  assume "facts_party f p = None"
  then show "if outstanding (history_of h p) then nq_of n p = []
       else length (nq_of n p) \<le> 1 \<and> set (nq_of n p) \<subseteq> set (party_questions p)"
    by (auto simp: assms(2) next_questions_of waits_for_other_def for_party_def Let_def option_list_def
        split: option.splits dest: needed_question_Some)
qed

text \<open>
  A conversation: the turns in order, each with the facts it found and the history it read. It is
  \<open>recorded\<close> when each turn's history has at least what the turns before it sent.
\<close>

fun asked_of :: "asked \<Rightarrow> party \<Rightarrow> string set" where
  "asked_of a Buyer = asked_buyer a"
| "asked_of a Seller = asked_seller a"

lemma sent_asked_of: "sent a p t \<longleftrightarrow> t \<in> asked_of a p"
  by (cases p) simp_all

fun recorded :: "(facts \<times> history) list \<Rightarrow> bool" where
  "recorded ((f, h) # (f', h') # rest) \<longleftrightarrow>
     (\<forall>p \<in> {Buyer, Seller}. asked_of (h_asked h) p \<union> set (nq_of (next_questions f h) p)
        \<subseteq> asked_of (h_asked h') p) \<and> recorded ((f', h') # rest)"
| "recorded _ \<longleftrightarrow> True"

lemma asks_new_question:
  assumes "history_ok h" and "asks (next_questions f h) p"
  shows "\<exists>q \<in> set (party_questions p). q \<notin> asked_of (h_asked h) p \<and> q \<in> set (nq_of (next_questions f h) p)"
proof -
  have fp: "for_party p f h = (fst (for_party p f h), False)"
    using assms(2) by (metis asks_def next_questions_of(2) prod.collapse)
  obtain q where q: "q \<in> set (nq_of (next_questions f h) p)" "is_question q"
    using assms(2) by (auto simp: asks_def list_ex_iff)
  then have "q \<in> set (fst (for_party p f h))"
    by (auto simp: next_questions_of split: if_splits)
  with for_party_fresh [OF fp] assms(1) have "q \<notin> asked_of (h_asked h) p"
    and "q \<in> set (party_questions p) \<or> q = WHAT_HAPPENS_NEXT \<or> q = THANKS_WAITING"
    by (auto simp: sent_asked_of)
  with q show ?thesis by auto
qed

lemma rounds_left:
  "recorded ((f, h) # rest) \<Longrightarrow> \<forall>(f, h) \<in> set ((f, h) # rest). history_ok h \<Longrightarrow>
     length (filter (\<lambda>(f, h). asks (next_questions f h) p) ((f, h) # rest))
       \<le> card (set (party_questions p) - asked_of (h_asked h) p)"
proof (induction rest arbitrary: f h)
  case Nil
  have "1 \<le> card (set (party_questions p) - asked_of (h_asked h) p)"
    if "asks (next_questions f h) p"
    using asks_new_question [OF _ that] Nil by (auto simp: Suc_le_eq card_gt_0_iff)
  then show ?case by simp
next
  case (Cons fh rest)
  obtain f' h' where fh: "fh = (f', h')" by (cases fh)
  let ?left = "\<lambda>h. set (party_questions p) - asked_of (h_asked h) p"
  have sub: "asked_of (h_asked h) p \<union> set (nq_of (next_questions f h) p) \<subseteq> asked_of (h_asked h') p"
    using Cons.prems(1) by (cases p) (simp_all add: fh)
  have IH: "length (filter (\<lambda>(f, h). asks (next_questions f h) p) (fh # rest)) \<le> card (?left h')"
    using Cons by (simp add: fh)
  have le: "card (?left h') \<le> card (?left h)" using sub by (intro card_mono) auto
  have less: "card (?left h') < card (?left h)" if "asks (next_questions f h) p"
  proof (rule psubset_card_mono)
    show "?left h' \<subset> ?left h"
      using asks_new_question [OF _ that] Cons.prems(2) sub by auto
  qed simp
  show ?case using IH le less by (cases "asks (next_questions f h) p") auto
qed

text \<open>
  The conversation is bounded: over any recorded sequence of turns, at most three
  turns count as a round of a party, one per question it can be asked; so with the default limit
  of four rounds a session never hands off for its rounds.
\<close>

theorem rounds_bounded:
  assumes "recorded turns" and "\<forall>(f, h) \<in> set turns. history_ok h"
  shows "length (filter (\<lambda>(f, h). asks (next_questions f h) p) turns) \<le> 3 \<and>
    3 < max_rounds (default_mediation available)"
proof -
  have "card (set (party_questions p) - A) \<le> 3" for A
  proof -
    have "card (set (party_questions p) - A) \<le> card (set (party_questions p))" by (intro card_mono) auto
    also have "\<dots> \<le> length (party_questions p)" by (rule card_length)
    also have "\<dots> = 3" by (cases p) simp_all
    finally show ?thesis .
  qed
  moreover have "length (filter (\<lambda>(f, h). asks (next_questions f h) p) turns)
      \<le> card (set (party_questions p) - (case turns of [] \<Rightarrow> {} | (f, h) # _ \<Rightarrow> asked_of (h_asked h) p))"
  proof (cases turns)
    case (Cons fh rest)
    obtain f h where "fh = (f, h)" by (cases fh)
    with Cons rounds_left [of f h rest p] assms show ?thesis by simp
  qed simp
  ultimately have "length (filter (\<lambda>(f, h). asks (next_questions f h) p) turns) \<le> 3"
    using order_trans by blast
  then show ?thesis by (simp add: default_mediation_def)
qed

text \<open>
  A party who wrote and whose payment fact is still unknown is never left waiting: in
  a gathering session that does not hold, the policy asks, guides, holds or hands the session
  to a human (as uncertain, once both variants of the question were used).
\<close>

theorem unknown_fact_moves_on:
  assumes "t_phase t = Phase_Gathering" and "\<not> held t"
    and "t_next t = next_questions (t_facts t) h" and "t_asked t = h_asked h"
    and "facts_party (t_facts t) p \<noteq> None" and "party_unknown (t_facts t) p"
  shows "decide t \<noteq> Wait"
proof
  assume "decide t = Wait"
  then have "nq_buyer (t_next t) = [] \<and> nq_seller (t_next t) = []"
    and u: "\<not> unknown_after_both_variants t"
    using decide_wait assms(1,2) by auto
  then have "fst (for_party p (t_facts t) h) = []"
    using next_questions_of(1) [of "t_facts t" h p] assms(3) by (cases p) auto
  then have "needed_question p (t_facts t) (sent (h_asked h) p) = None"
    using assms(5) for_party_empty by blast
  then have "sent (h_asked h) p (party_questions p ! 0) \<and> sent (h_asked h) p (party_questions p ! 1)"
    using assms(6) by (rule needed_question_None)
  then have "unknown_after_both_variants t"
    using assms(4,6) by (cases p) (auto simp: unknown_after_both_variants_def)
  with u show False by blast
qed

section \<open>Witnesses\<close>

definition example_party_history :: party_history where
  "example_party_history = \<lparr>last_template = Some ASK_BUYER_SENT, last_question = Some ASK_BUYER_SENT,
     outstanding = False, language_changed = False\<rparr>"

definition example_history :: history where
  "example_history = \<lparr>h_asked = \<lparr>asked_buyer = {ASK_BUYER_SENT}, asked_seller = {ASK_SELLER_RECEIVED}\<rparr>,
     h_buyer = example_party_history,
     h_seller = \<lparr>last_template = Some ASK_SELLER_RECEIVED, last_question = Some ASK_SELLER_RECEIVED,
       outstanding = True, language_changed = False\<rparr>\<rparr>"

definition vague_buyer :: facts where
  "vague_buyer = no_facts\<lparr>fa_buyer := Some \<lparr>wants_human = False, rejects_path = False,
     pf_language = None, message_kind = NotUnderstood\<rparr>\<rparr>"

lemma example_history_ok: "history_ok example_history"
  by (auto simp: history_ok_def party_all example_history_def example_party_history_def)

lemma example_next:
  "next_questions vague_buyer example_history =
     \<lparr>nq_buyer = [ASK_BUYER_SENT_SIMPLE], nq_seller = [], buyer_resend = False, seller_resend = False\<rparr>"
  by (simp add: next_questions_def for_party_def waits_for_other_def vague_buyer_def no_facts_def
      example_history_def example_party_history_def unused_simple_def simple_variant_def Let_def)


lemma templates_addressed_witness:
  "set (nq_of (next_questions vague_buyer example_history) Buyer) \<subseteq>
     set (party_questions Buyer) \<union> {WHAT_HAPPENS_NEXT, THANKS_WAITING, WAITING_OTHER_PARTY} \<and>
   nq_of (next_questions vague_buyer example_history) Seller = []"
proof -
  have "facts_party vague_buyer Seller = None" and "outstanding (history_of example_history Seller)"
    by (simp_all add: vague_buyer_def no_facts_def example_history_def)
  then show ?thesis
    using templates_addressed [OF example_history_ok refl, of vague_buyer Buyer]
      templates_addressed [OF example_history_ok refl, of vague_buyer Seller]
    by (simp add: example_next)
qed

lemma rounds_bounded_witness:
  "length (filter (\<lambda>(f, h). asks (next_questions f h) Buyer) [(vague_buyer, example_history)]) \<le> 3 \<and>
   asks (next_questions vague_buyer example_history) Buyer"
  using rounds_bounded [of "[(vague_buyer, example_history)]" Buyer]
  by (simp add: example_history_ok example_next asks_def)

lemma unknown_fact_moves_on_witness:
  "decide (example_turn\<lparr>t_facts := vague_buyer, t_next := next_questions vague_buyer example_history,
     t_asked := h_asked example_history\<rparr>) \<noteq> Wait"
  by (rule unknown_fact_moves_on [where p = Buyer and h = example_history])
    (simp_all add: example_turn_def vague_buyer_def no_facts_def buyer_payment_unknown_def)

end
