(* ===== verification/Policy_Timers.thy ===== *)
theory Policy_Timers
  imports Policy
begin

text \<open>
  \<open>src/src/policy/timers.rs\<close>: the timers as pure functions of a session's clocks. Times are
  \<open>i64\<close> seconds; every deadline is a saturating addition.
\<close>

section \<open>Clocks and timers\<close>

record party_clock =
  question_at :: "int option"
  replied_at :: "int option"
  reminded_at :: "int option"

record clocks =
  c_phase :: phase
  c_now :: int
  c_buyer :: party_clock
  c_seller :: party_clock
  guided_at :: "int option"
  held_at :: "int option"

record timeouts =
  to_response :: duration
  to_self_resolution :: duration
  to_handoff_grace :: duration

datatype timer = Timer_Handoff handoff_reason | Remind "party list" | Nothing

datatype response = Waiting | Response_Remind | Response_Unresponsive

definition flood_strikes :: nat where "flood_strikes = 2"

definition secs :: "duration \<Rightarrow> int" where
  "secs d = (if int d \<le> i64_max then int d else i64_max)"

definition past :: "int \<Rightarrow> int option \<Rightarrow> int \<Rightarrow> bool" where
  "past now since d \<longleftrightarrow> (case since of None \<Rightarrow> False | Some x \<Rightarrow> saturating_add x d \<le> now)"

definition response_of :: "party_clock \<Rightarrow> int \<Rightarrow> int \<Rightarrow> response" where
  "response_of c now timeout =
     (case question_at c of
        None \<Rightarrow> Waiting
      | Some q \<Rightarrow>
          (if (case replied_at c of None \<Rightarrow> False | Some r \<Rightarrow> q \<le> r) then Waiting
           else case reminded_at c of
               Some m \<Rightarrow>
                 (if q \<le> m
                  then (if saturating_add m timeout \<le> now then Response_Unresponsive else Waiting)
                  else if saturating_add q timeout \<le> now then Response_Unresponsive else Waiting)
             | None \<Rightarrow> (if saturating_add q timeout \<le> now then Response_Remind else Waiting)))"

fun remind_loop :: "(party \<times> party_clock) list \<Rightarrow> int \<Rightarrow> int \<Rightarrow> party list \<Rightarrow> timer" where
  "remind_loop [] now timeout remind = (if remind = [] then Nothing else Remind remind)"
| "remind_loop ((p, c) # rest) now timeout remind =
     (case response_of c now timeout of
        Response_Unresponsive \<Rightarrow> Timer_Handoff Unresponsive
      | Response_Remind \<Rightarrow> remind_loop rest now timeout (remind @ [p])
      | Waiting \<Rightarrow> remind_loop rest now timeout remind)"

definition check_timers :: "clocks \<Rightarrow> timeouts \<Rightarrow> timer" where
  "check_timers c to =
     (if c_phase c = Phase_Guiding
      then (if past (c_now c) (guided_at c) (secs (to_self_resolution to))
            then Timer_Handoff SelfResolutionStalled else Nothing)
      else if past (c_now c) (held_at c) (secs (to_handoff_grace to)) then Timer_Handoff FactsGathered
      else remind_loop [(Buyer, c_buyer c), (Seller, c_seller c)] (c_now c) (secs (to_response to)) [])"

definition over_limit :: "nat \<Rightarrow> nat \<Rightarrow> bool" where
  "over_limit messages_in_turn max_per_turn \<longleftrightarrow> max_per_turn < messages_in_turn"

definition is_flood :: "nat \<Rightarrow> bool" where
  "is_flood strikes \<longleftrightarrow> flood_strikes \<le> strikes"

section \<open>Lemmas\<close>

declare remind_loop.simps [simp del]

lemma secs_range: "0 \<le> secs d \<and> is_i64 (secs d)"
  by (auto simp: secs_def is_i64_def i64_max_def i64_min_def)

lemma past_mono: "past now since d \<Longrightarrow> now \<le> now' \<Longrightarrow> past now' since d"
  by (auto simp: past_def split: option.splits)

fun clock_of :: "clocks \<Rightarrow> party \<Rightarrow> party_clock" where
  "clock_of c Buyer = c_buyer c"
| "clock_of c Seller = c_seller c"

lemma remind_loop_handoff:
  "remind_loop cs now d ps = Timer_Handoff r \<longleftrightarrow>
     r = Unresponsive \<and> (\<exists>(p, c) \<in> set cs. response_of c now d = Response_Unresponsive)"
  by (induction cs now d ps rule: remind_loop.induct) (auto simp: remind_loop.simps split: response.splits)

lemma remind_loop_remind:
  "remind_loop cs now d ps = Remind qs \<longleftrightarrow> qs \<noteq> [] \<and>
     (\<forall>(p, c) \<in> set cs. response_of c now d \<noteq> Response_Unresponsive) \<and>
     qs = ps @ map fst (filter (\<lambda>(p, c). response_of c now d = Response_Remind) cs)"
  by (induction cs now d ps rule: remind_loop.induct) (auto simp: remind_loop.simps split: response.splits)

lemma check_handoff:
  "check_timers c to = Timer_Handoff r \<longleftrightarrow>
     (if c_phase c = Phase_Guiding
      then r = SelfResolutionStalled \<and> past (c_now c) (guided_at c) (secs (to_self_resolution to))
      else if past (c_now c) (held_at c) (secs (to_handoff_grace to)) then r = FactsGathered
      else r = Unresponsive \<and> (\<exists>p. response_of (clock_of c p) (c_now c) (secs (to_response to)) = Response_Unresponsive))"
  by (auto simp: check_timers_def remind_loop_handoff party_all not_all [symmetric] simp del: not_all)
    (metis clock_of.simps party.exhaust)+

lemma check_remind:
  "check_timers c to = Remind ps \<longleftrightarrow>
     c_phase c = Phase_Gathering \<and> \<not> past (c_now c) (held_at c) (secs (to_handoff_grace to)) \<and> ps \<noteq> [] \<and>
     (\<forall>p. response_of (clock_of c p) (c_now c) (secs (to_response to)) \<noteq> Response_Unresponsive) \<and>
     ps = filter (\<lambda>p. response_of (clock_of c p) (c_now c) (secs (to_response to)) = Response_Remind)
       [Buyer, Seller]"
  by (cases "c_phase c") (auto simp: check_timers_def remind_loop_remind party_all)

lemma response_unresponsive_mono:
  "response_of c now d = Response_Unresponsive \<Longrightarrow> now \<le> now' \<Longrightarrow> response_of c now' d = Response_Unresponsive"
  by (auto simp: response_of_def split: option.splits if_splits)

lemma response_remind:
  "response_of c now d = Response_Remind \<longleftrightarrow>
     reminded_at c = None \<and> (\<exists>q. question_at c = Some q \<and> saturating_add q d \<le> now \<and>
       (\<forall>r. replied_at c = Some r \<longrightarrow> r < q))"
  by (auto simp: response_of_def split: option.splits if_splits)

section \<open>Properties\<close>

text \<open>
  A handoff that is due stays due: waiting longer on the same clocks never turns a
  timer handoff into a reminder or into nothing, and never changes what ended a guiding session.
\<close>

theorem timer_handoff_stays_due:
  assumes "check_timers c to = Timer_Handoff r" and "c_now c \<le> now'"
  shows "\<exists>r'. check_timers (c\<lparr>c_now := now'\<rparr>) to = Timer_Handoff r' \<and>
    (r' = r \<or> r = Unresponsive \<and> r' = FactsGathered)"
proof -
  have cl: "clock_of (c\<lparr>c_now := now'\<rparr>) p = clock_of c p" for p by (cases p) simp_all
  show ?thesis
  proof (cases "c_phase c = Phase_Guiding \<or> past now' (held_at c) (secs (to_handoff_grace to))")
    case True
    with assms show ?thesis
      unfolding check_handoff cl
      by (auto simp: intro: past_mono split: if_splits)
  next
    case False
    with assms(2) have "\<not> past (c_now c) (held_at c) (secs (to_handoff_grace to))"
      using past_mono by blast
    with assms False show ?thesis
      unfolding check_handoff cl by (auto intro: response_unresponsive_mono)
  qed
qed

text \<open>
  A reminder is sent at most once per session, and only for silence: when the timers
  ask for reminders the session is gathering and not past its grace, and the reminded parties are
  exactly those never reminded before whose last question is unanswered for at least the response
  timeout; nobody is listed twice.
\<close>

theorem reminder_only_for_silence:
  assumes "check_timers c to = Remind ps"
  shows "c_phase c = Phase_Gathering \<and> distinct ps \<and>
    (\<forall>p. p \<in> set ps \<longleftrightarrow> reminded_at (clock_of c p) = None \<and>
       (\<exists>q. question_at (clock_of c p) = Some q \<and> saturating_add q (secs (to_response to)) \<le> c_now c \<and>
          (\<forall>r. replied_at (clock_of c p) = Some r \<longrightarrow> r < q)))"
proof -
  have ps: "ps = filter (\<lambda>p. response_of (clock_of c p) (c_now c) (secs (to_response to)) = Response_Remind)
       [Buyer, Seller]" and g: "c_phase c = Phase_Gathering"
    using assms unfolding check_remind by blast+
  have "p \<in> set ps \<longleftrightarrow> response_of (clock_of c p) (c_now c) (secs (to_response to)) = Response_Remind" for p
    unfolding ps by (cases p) simp_all
  moreover have "distinct ps" by (simp add: ps)
  ultimately show ?thesis using g by (simp add: response_remind)
qed

text \<open>
  A tick of the timer task: the clocks at \<open>now\<close>, and the reminder time noted for the parties it
  reminds.
\<close>

fun note_reminder :: "int \<Rightarrow> party \<Rightarrow> clocks \<Rightarrow> clocks" where
  "note_reminder now Buyer c = c\<lparr>c_buyer := (c_buyer c)\<lparr>reminded_at := Some now\<rparr>\<rparr>"
| "note_reminder now Seller c = c\<lparr>c_seller := (c_seller c)\<lparr>reminded_at := Some now\<rparr>\<rparr>"

definition tick :: "timeouts \<Rightarrow> int \<Rightarrow> clocks \<Rightarrow> timer \<times> clocks" where
  "tick to now c =
     (let c' = c\<lparr>c_now := now\<rparr>; t = check_timers c' to
      in (t, case t of Remind ps \<Rightarrow> fold (note_reminder now) ps c' | _ \<Rightarrow> c'))"

lemma note_reminder_one:
  "clock_of (note_reminder now a c) p =
      (if p = a then (clock_of c p)\<lparr>reminded_at := Some now\<rparr> else clock_of c p)"
  "c_phase (note_reminder now a c) = c_phase c"
  by (cases a; cases p; simp)+

lemma note_reminders_clock:
  "clock_of (fold (note_reminder now) ps c) p =
     (if p \<in> set ps then (clock_of c p)\<lparr>reminded_at := Some now\<rparr> else clock_of c p)"
  by (induction ps arbitrary: c) (auto simp: note_reminder_one)

lemma note_reminders_phase: "c_phase (fold (note_reminder now) ps c) = c_phase c"
  by (induction ps arbitrary: c) (auto simp: note_reminder_one)

lemmas note_reminders = note_reminders_clock note_reminders_phase

lemma clock_of_now [simp]: "clock_of (c\<lparr>c_now := n\<rparr>) p = clock_of c p"
  by (cases p) simp_all

lemma tick_clocks:
  assumes "\<nexists>r. fst (tick to now c) = Timer_Handoff r" and "c_phase c = Phase_Gathering"
  shows "response_of (clock_of c p) now (secs (to_response to)) \<noteq> Response_Unresponsive"
    and "c_phase (snd (tick to now c)) = Phase_Gathering"
    and "clock_of (snd (tick to now c)) p =
      (if response_of (clock_of c p) now (secs (to_response to)) = Response_Remind
       then (clock_of c p)\<lparr>reminded_at := Some now\<rparr> else clock_of c p)"
proof -
  let ?c = "c\<lparr>c_now := now\<rparr>" and ?d = "secs (to_response to)"
  have n: "check_timers ?c to \<noteq> Timer_Handoff r" for r using assms(1) by (auto simp: tick_def Let_def)
  have h: "\<not> past now (held_at c) (secs (to_handoff_grace to))"
    using n [of FactsGathered] assms(2) by (auto simp: check_handoff)
  have u: "response_of (clock_of c q) now ?d \<noteq> Response_Unresponsive" for q
    using n [of Unresponsive] assms(2) h by (auto simp: check_handoff)
  then show "response_of (clock_of c p) now ?d \<noteq> Response_Unresponsive" .
  show "c_phase (snd (tick to now c)) = Phase_Gathering"
    using assms(2) by (simp add: tick_def Let_def note_reminders split: timer.splits)
  let ?ps = "filter (\<lambda>p. response_of (clock_of c p) now ?d = Response_Remind) [Buyer, Seller]"
  have mem: "p \<in> set ?ps \<longleftrightarrow> response_of (clock_of c p) now ?d = Response_Remind" by (cases p) simp_all
  show "clock_of (snd (tick to now c)) p =
      (if response_of (clock_of c p) now ?d = Response_Remind
       then (clock_of c p)\<lparr>reminded_at := Some now\<rparr> else clock_of c p)"
  proof (cases "check_timers ?c to")
    case (Remind ps)
    then have "ps = ?ps" using check_remind [of ?c to ps] by simp
    with Remind mem show ?thesis by (simp add: tick_def note_reminders)
  next
    case Nothing
    then have "?ps = []"
      using check_remind [of ?c to ?ps] assms(2) h u by auto
    with mem Nothing show ?thesis by (simp add: tick_def)
  qed (use n in blast)
qed

text \<open>
  An unanswered question ends in a human's hands: in a gathering session whose
  party's last question stays unanswered, if the timer task runs once after the response timeout
  and once more a response timeout later, one of the two runs hands the session off.
\<close>

theorem unanswered_question_hands_off:
  assumes "c_phase c = Phase_Gathering" and "question_at (clock_of c p) = Some q"
    and "\<forall>r. replied_at (clock_of c p) = Some r \<longrightarrow> r < q"
    and "\<forall>m. reminded_at (clock_of c p) = Some m \<longrightarrow> m \<le> t1"
    and "is_i64 q" and "saturating_add q (secs (to_response to)) \<le> t1"
    and "saturating_add t1 (secs (to_response to)) \<le> t2"
  shows "(\<exists>r. fst (tick to t1 c) = Timer_Handoff r) \<or>
    (\<exists>r. fst (tick to t2 (snd (tick to t1 c))) = Timer_Handoff r)"
proof (rule disjCI, rule ccontr)
  let ?d = "secs (to_response to)" and ?c2 = "snd (tick to t1 c)"
  assume n2: "\<nexists>r. fst (tick to t2 ?c2) = Timer_Handoff r" and n1: "\<nexists>r. fst (tick to t1 c) = Timer_Handoff r"
  note first = tick_clocks(1) [OF n1 assms(1), of p] tick_clocks(2) [OF n1 assms(1)]
    tick_clocks(3) [OF n1 assms(1), of p]
  have late: "q \<le> t1" using assms(5,6) saturating_add_ge [of q ?d] secs_range [of "to_response to"] by simp
  have "\<exists>m. clock_of ?c2 p = (clock_of c p)\<lparr>reminded_at := Some m\<rparr> \<and> q \<le> m \<and> m \<le> t1"
  proof (cases "reminded_at (clock_of c p)")
    case None
    then have "response_of (clock_of c p) t1 ?d = Response_Remind"
      using assms(2,3,6) by (simp add: response_remind)
    with first(3) late show ?thesis by auto
  next
    case (Some m)
    then have "q \<le> m" and r: "response_of (clock_of c p) t1 ?d \<noteq> Response_Remind"
      using first(1) assms(2,3,6) by (auto simp: response_of_def split: option.splits if_splits)
    with first(3) Some assms(4) have "clock_of ?c2 p = (clock_of c p)\<lparr>reminded_at := Some m\<rparr>" by simp
    with \<open>q \<le> m\<close> Some assms(4) show ?thesis by blast
  qed
  then obtain m where m: "clock_of ?c2 p = (clock_of c p)\<lparr>reminded_at := Some m\<rparr>" "q \<le> m" "m \<le> t1"
    by blast
  have "saturating_add m ?d \<le> t2" using m(3) assms(7) by (auto simp: saturating_add_def)
  then have "response_of (clock_of ?c2 p) t2 ?d = Response_Unresponsive"
    using m(1,2) assms(2,3) by (auto simp: response_of_def split: option.splits)
  with tick_clocks(1) [OF n2 first(2), of p] show False by simp
qed

section \<open>Witnesses\<close>

definition example_clocks :: clocks where
  "example_clocks = \<lparr>c_phase = Phase_Gathering, c_now = 2000,
     c_buyer = \<lparr>question_at = Some 100, replied_at = None, reminded_at = None\<rparr>,
     c_seller = \<lparr>question_at = Some 100, replied_at = Some 150, reminded_at = None\<rparr>,
     guided_at = None, held_at = None\<rparr>"

definition example_timeouts :: timeouts where
  "example_timeouts = \<lparr>to_response = 1800, to_self_resolution = 7200, to_handoff_grace = 1800\<rparr>"

lemmas timer_example_defs = example_clocks_def example_timeouts_def check_timers_def past_def remind_loop.simps
  response_of_def secs_def saturating_add_def i64_max_def i64_min_def

lemma example_reminds: "check_timers example_clocks example_timeouts = Remind [Buyer]"
  by (simp add: timer_example_defs)

lemma reminder_only_for_silence_witness: "distinct [Buyer] \<and> Buyer \<in> set [Buyer]"
  using reminder_only_for_silence [OF example_reminds] by simp

lemma timer_handoff_stays_due_witness:
  "\<exists>r'. check_timers (example_clocks\<lparr>held_at := Some 100, c_now := 9000\<rparr>) example_timeouts = Timer_Handoff r'"
  using timer_handoff_stays_due [of "example_clocks\<lparr>held_at := Some 100\<rparr>" example_timeouts FactsGathered 9000]
  by (auto simp: timer_example_defs)

lemma unanswered_question_hands_off_witness:
  "(\<exists>r. fst (tick example_timeouts 2000 example_clocks) = Timer_Handoff r) \<or>
   (\<exists>r. fst (tick example_timeouts 3800 (snd (tick example_timeouts 2000 example_clocks))) = Timer_Handoff r)"
  by (rule unanswered_question_hands_off [of example_clocks Buyer 100])
    (simp_all add: timer_example_defs is_i64_def)

end
