(* ===== verification/Chat.thy ===== *)
theory Chat
  imports Notifier
begin

text \<open>
  \<open>src/src/chat/inbound.rs\<close> and \<open>src/src/chat/mod.rs\<close>: accepting a party's message and sending
  one. The \<open>HashMap\<close> of channels is an association list with one entry per author; an \<open>Instant\<close>
  is its seconds, a rational. Parameters: \<open>author_of\<close>, the channel key derived for a trade key;
  \<open>unwrap\<close>, \<open>mostro_core\<close>'s validation and decryption of an envelope; \<open>json_of\<close>, the JSON
  parser; the outcome of wrapping a message and of the relay round trip.
\<close>

section \<open>Rate limit and recent ids\<close>

definition rate_per_minute :: rat where "rate_per_minute = 30"
definition rate_burst :: rat where "rate_burst = 60"
definition seen_outer_capacity :: nat where "seen_outer_capacity = 4096"

record token_bucket =
  tokens :: rat
  refilled :: rat

definition new_bucket :: "rat \<Rightarrow> token_bucket" where
  "new_bucket now = \<lparr>tokens = rate_burst, refilled = now\<rparr>"

definition bucket_take :: "token_bucket \<Rightarrow> rat \<Rightarrow> bool \<times> token_bucket" where
  "bucket_take b now =
     (let elapsed = max 0 (now - refilled b);
          level = min (tokens b + elapsed * rate_per_minute / 60) rate_burst
      in if 1 \<le> level then (True, \<lparr>tokens = level - 1, refilled = now\<rparr>)
         else (False, \<lparr>tokens = level, refilled = now\<rparr>))"

record seen_set =
  seen_ids :: "string set"
  seen_order :: "string list"

definition empty_seen :: seen_set where "empty_seen = \<lparr>seen_ids = {}, seen_order = []\<rparr>"

definition seen_insert :: "seen_set \<Rightarrow> string \<Rightarrow> bool \<times> seen_set" where
  "seen_insert s i =
     (if i \<in> seen_ids s then (False, s)
      else let ids = insert i (seen_ids s); order = seen_order s @ [i]
        in if seen_outer_capacity < length order
           then (True, \<lparr>seen_ids = ids - {hd order}, seen_order = tl order\<rparr>)
           else (True, \<lparr>seen_ids = ids, seen_order = order\<rparr>))"

section \<open>The inbox\<close>

record received =
  rc_session_id :: string
  rc_party :: party
  rc_content :: string
  rc_attachments :: nat
  rc_created_at :: int

datatype rejected = UnknownAuthor | DuplicateOuter | RateLimited | Invalid string | DuplicateInner
  | Rejected_SessionEnded

record channel =
  ch_session_id :: string
  ch_party :: party
  ch_trade_pubkey :: string
  ch_bucket :: token_bucket

record inbox =
  channels :: "(string \<times> channel) list"
  seen_outer :: seen_set
  inbox_max_chars :: nat

record outer_event =
  oe_id :: string
  oe_pubkey :: string
  oe_created_at :: nat

record inner_message =
  im_inner_event_id :: string
  im_content :: string
  im_created_at :: nat

definition new_inbox :: "nat \<Rightarrow> inbox" where
  "new_inbox max_chars = \<lparr>channels = [], seen_outer = empty_seen, inbox_max_chars = max_chars\<rparr>"

definition put_channel :: "string \<Rightarrow> channel \<Rightarrow> (string \<times> channel) list \<Rightarrow> (string \<times> channel) list" where
  "put_channel a c cs = (a, c) # filter (\<lambda>ac. fst ac \<noteq> a) cs"

definition new_channel :: "session \<Rightarrow> party \<Rightarrow> rat \<Rightarrow> channel" where
  "new_channel s p now = \<lparr>ch_session_id = s_session_id s, ch_party = p,
     ch_trade_pubkey = trade_pubkey s p, ch_bucket = new_bucket now\<rparr>"

definition since_cursor :: "session \<Rightarrow> int" where
  "since_cursor s =
     min (max 0 (unwrap_or (s_buyer_chat_cursor s) (s_opened_at s)))
         (max 0 (unwrap_or (s_seller_chat_cursor s) (s_opened_at s)))"

text \<open>
  \<open>add_session\<close> returns the authors and the \<open>since\<close> of the subscription; a key that cannot be
  parsed or derived stops it, with the channels before it registered.
\<close>

definition add_session ::
    "(string \<Rightarrow> string result) \<Rightarrow> inbox \<Rightarrow> session \<Rightarrow> rat \<Rightarrow> (string list \<times> int) result \<times> inbox" where
  "add_session author_of ib s now =
     (case author_of (trade_pubkey s Buyer) of
        Inl e \<Rightarrow> (Inl e, ib)
      | Inr b \<Rightarrow>
          (let ib1 = ib\<lparr>channels := put_channel b (new_channel s Buyer now) (channels ib)\<rparr>
           in case author_of (trade_pubkey s Seller) of
                Inl e \<Rightarrow> (Inl e, ib1)
              | Inr a \<Rightarrow>
                  (Inr ([b, a], since_cursor s),
                   ib1\<lparr>channels := put_channel a (new_channel s Seller now) (channels ib1)\<rparr>)))"

definition has_session :: "inbox \<Rightarrow> string \<Rightarrow> bool" where
  "has_session ib sid \<longleftrightarrow> (\<exists>ac \<in> set (channels ib). ch_session_id (snd ac) = sid)"

definition remove_session :: "inbox \<Rightarrow> string \<Rightarrow> inbox" where
  "remove_session ib sid = ib\<lparr>channels := filter (\<lambda>ac. ch_session_id (snd ac) \<noteq> sid) (channels ib)\<rparr>"

definition describe :: "(string \<Rightarrow> json option) \<Rightarrow> string \<Rightarrow> string \<times> nat" where
  "describe json_of content =
     (case json_of content of
        None \<Rightarrow> (content, 0)
      | Some v \<Rightarrow>
          (case as_str (jget v ''type'') of
             None \<Rightarrow> (content, 0)
           | Some t \<Rightarrow>
               (if t = ''image_encrypted'' then (''[image attachment]'', 1)
                else if t = ''file_encrypted''
                then (''['' @ unwrap_or (as_str (jget v ''file_type'')) ''file'' @ '' attachment]'', 1)
                else (content, 0))))"

definition truncate_text :: "string \<Rightarrow> nat \<Rightarrow> string" where
  "truncate_text t n = (if n < length t then take n t else t)"

definition session_ended :: "db \<Rightarrow> string \<Rightarrow> bool" where
  "session_ended s sid =
     (case get_session (db_sessions s) sid of None \<Rightarrow> True | Some ses \<Rightarrow> is_terminal (s_state ses))"

definition session_ids :: "db \<Rightarrow> string list" where
  "session_ids s = map s_session_id (db_sessions s)"

definition handle_inbound ::
    "(channel \<Rightarrow> outer_event \<Rightarrow> nat \<Rightarrow> string + inner_message) \<Rightarrow> (string \<Rightarrow> json option) \<Rightarrow>
     inbox \<Rightarrow> db \<Rightarrow> outer_event \<Rightarrow> nat \<Rightarrow> rat \<Rightarrow> (rejected + received) result \<times> inbox \<times> db" where
  "handle_inbound unwrap json_of ib s e local_now now =
     (case map_of (channels ib) (oe_pubkey e) of
        None \<Rightarrow> (Inr (Inl UnknownAuthor), ib, s)
      | Some ch \<Rightarrow>
          (let sid = ch_session_id ch
           in if session_ended s sid then (Inr (Inl Rejected_SessionEnded), remove_session ib sid, s)
              else let (fresh, seen) = seen_insert (seen_outer ib) (oe_id e); ib1 = ib\<lparr>seen_outer := seen\<rparr>
                in if \<not> fresh then (Inr (Inl DuplicateOuter), ib1, s)
                   else let (allowed, b) = bucket_take (ch_bucket ch) now;
                            ch1 = ch\<lparr>ch_bucket := b\<rparr>;
                            ib2 = ib1\<lparr>channels := put_channel (oe_pubkey e) ch1 (channels ib1)\<rparr>
                     in if \<not> allowed then (Inr (Inl RateLimited), ib2, s)
                        else case unwrap ch1 e local_now of
                            Inl er \<Rightarrow> (Inr (Inl (Invalid er)), ib2, s)
                          | Inr im \<Rightarrow>
                              (let (described, attachments) = describe json_of (im_content im);
                                   content = truncate_text described (inbox_max_chars ib);
                                   created_at = as_i64_cast (im_created_at im)
                               in case insert_message (session_ids s) (db_messages s)
                                    \<lparr>nm_session_id = sid, nm_direction = In, nm_party = ch_party ch,
                                     nm_template_id = None, nm_lang = None, nm_content = content,
                                     nm_attachments = attachments,
                                     nm_inner_event_id = im_inner_event_id im,
                                     nm_created_at = created_at\<rparr> of
                                    Inl er \<Rightarrow> (Inl er, ib2, s)
                                  | Inr (False, _) \<Rightarrow> (Inr (Inl DuplicateInner), ib2, s)
                                  | Inr (True, t) \<Rightarrow>
                                      (let cursor = min (as_i64_cast (oe_created_at e)) (as_i64_cast local_now)
                                       in (Inr (Inr \<lparr>rc_session_id = sid, rc_party = ch_party ch,
                                              rc_content = content, rc_attachments = attachments,
                                              rc_created_at = created_at\<rparr>), ib2,
                                           s\<lparr>db_messages := t,
                                             db_sessions := advance_chat_cursor (db_sessions s) sid
                                               (ch_party ch) cursor (as_i64_cast local_now)\<rparr>)))))"

section \<open>Sending\<close>

record outbound =
  ob_party :: party
  ob_text :: string
  ob_template_id :: "string option"
  ob_lang :: "string option"

datatype send_outcome =
    Sent string int
  | Cannot_Wrap string
  | Relay_Error string
  | No_Relay_Accepted string int

text \<open>
  \<open>send_when\<close>: the message is wrapped, then the session's state is read again under the gate, and
  only then does it go to the relays. \<open>env\<close> is what other tasks do to the database during the
  relay round trip. The second result says whether the relays were given the message.
\<close>

definition send_when ::
    "(session_state \<Rightarrow> bool) \<Rightarrow> (db \<Rightarrow> db) \<Rightarrow> send_outcome \<Rightarrow> session \<Rightarrow> outbound \<Rightarrow> db \<Rightarrow>
     string result \<times> bool \<times> db" where
  "send_when allowed env outcome ses msg s =
     (case outcome of
        Cannot_Wrap er \<Rightarrow> (Inl (Nostr er), False, s)
      | _ \<Rightarrow>
          (case get_session (db_sessions s) (s_session_id ses) of
             None \<Rightarrow> (Inl (SessionEnded (s_session_id ses)), False, s)
           | Some current \<Rightarrow>
               (if \<not> allowed (s_state current) then (Inl (SessionEnded (s_session_id ses)), False, s)
                else let s1 = env s
                  in case outcome of
                       Relay_Error er \<Rightarrow> (Inl (Nostr er), True, s1)
                     | No_Relay_Accepted _ _ \<Rightarrow> (Inl (Nostr ''no relay accepted the chat message''), True, s1)
                     | Cannot_Wrap er \<Rightarrow> (Inl (Nostr er), False, s)
                     | Sent inner at_time \<Rightarrow>
                         (case insert_message (session_ids s1) (db_messages s1)
                            \<lparr>nm_session_id = s_session_id ses, nm_direction = Out, nm_party = ob_party msg,
                             nm_template_id = ob_template_id msg, nm_lang = ob_lang msg,
                             nm_content = ob_text msg, nm_attachments = 0, nm_inner_event_id = inner,
                             nm_created_at = at_time\<rparr> of
                            Inl er \<Rightarrow> (Inl er, True, s1)
                          | Inr (_, t) \<Rightarrow> (Inr inner, True, s1\<lparr>db_messages := t\<rparr>)))))"

definition send_to_party ::
    "(db \<Rightarrow> db) \<Rightarrow> send_outcome \<Rightarrow> session \<Rightarrow> outbound \<Rightarrow> db \<Rightarrow> string result \<times> bool \<times> db" where
  "send_to_party = send_when (\<lambda>st. \<not> is_terminal st)"

definition send_while_mediating ::
    "(db \<Rightarrow> db) \<Rightarrow> send_outcome \<Rightarrow> session \<Rightarrow> outbound \<Rightarrow> db \<Rightarrow> string result \<times> bool \<times> db" where
  "send_while_mediating = send_when mediating"

definition send_after_close ::
    "(db \<Rightarrow> db) \<Rightarrow> send_outcome \<Rightarrow> session \<Rightarrow> outbound \<Rightarrow> db \<Rightarrow> string result \<times> bool \<times> db" where
  "send_after_close = send_when (\<lambda>st. st = Closed)"

section \<open>Rate\<close>

lemma bucket_range:
  assumes "0 \<le> tokens b" and "tokens b \<le> rate_burst"
  shows "0 \<le> tokens (snd (bucket_take b now)) \<and> tokens (snd (bucket_take b now)) \<le> rate_burst"
  using assms by (auto simp: bucket_take_def Let_def rate_per_minute_def rate_burst_def)

fun bucket_run :: "token_bucket \<Rightarrow> rat list \<Rightarrow> nat \<times> token_bucket" where
  "bucket_run b [] = (0, b)"
| "bucket_run b (t # ts) =
     (let (took, b1) = bucket_take b t; (n, b2) = bucket_run b1 ts in ((if took then n + 1 else n), b2))"

lemma bucket_run_bound:
  assumes "sorted (refilled b # ts)"
  shows "rat_of_nat (fst (bucket_run b ts)) + tokens (snd (bucket_run b ts))
    \<le> tokens b + (last (refilled b # ts) - refilled b) / 2"
  using assms
proof (induction ts arbitrary: b)
  case (Cons t ts)
  let ?b1 = "snd (bucket_take b t)"
  have r: "refilled ?b1 = t" by (simp add: bucket_take_def Let_def)
  have le: "refilled b \<le> t" using Cons.prems by simp
  have IH: "rat_of_nat (fst (bucket_run ?b1 ts)) + tokens (snd (bucket_run ?b1 ts))
      \<le> tokens ?b1 + (last (t # ts) - t) / 2"
    using Cons.IH [of ?b1] Cons.prems by (simp add: r)
  have step: "tokens ?b1 + (if fst (bucket_take b t) then 1 else 0) \<le> tokens b + (t - refilled b) / 2"
    using le by (auto simp: bucket_take_def Let_def rate_per_minute_def)
  show ?case using IH step le
    by (cases "fst (bucket_take b t)") (auto simp: Let_def case_prod_beta field_simps)
qed simp

text \<open>
  A channel is rate limited: from its opening on, over any sequence of attempts at
  times that do not go back, at most 60 messages plus one every two seconds get past the limit.
\<close>

theorem channel_rate_bounded:
  assumes "sorted (start # ts)"
  shows "rat_of_nat (fst (bucket_run (new_bucket start) ts)) \<le> 60 + (last (start # ts) - start) / 2"
proof -
  have pos: "0 \<le> tokens b \<and> tokens b \<le> rate_burst \<Longrightarrow> 0 \<le> tokens (snd (bucket_run b ts))" for b
  proof (induction ts arbitrary: b)
    case (Cons t ts)
    then show ?case using bucket_range [of b t] by (simp add: Let_def case_prod_beta)
  qed simp
  have "0 \<le> tokens (snd (bucket_run (new_bucket start) ts))"
    by (rule pos) (simp add: new_bucket_def rate_burst_def)
  with bucket_run_bound [of "new_bucket start" ts] assms show ?thesis
    by (simp add: new_bucket_def rate_burst_def)
qed

lemma channel_rate_bounded_witness:
  "rat_of_nat (fst (bucket_run (new_bucket 10) [10, 10, 14])) \<le> 62"
  using channel_rate_bounded [of 10 "[10, 10, 14]"] by simp

section \<open>Recent ids\<close>

definition seen_ok :: "seen_set \<Rightarrow> bool" where
  "seen_ok s \<longleftrightarrow> seen_ids s = set (seen_order s) \<and> distinct (seen_order s) \<and>
     length (seen_order s) \<le> seen_outer_capacity"

lemma seen_ok_empty: "seen_ok empty_seen"
  by (simp add: seen_ok_def empty_seen_def)

lemma seen_ok_insert: "seen_ok s \<Longrightarrow> seen_ok (snd (seen_insert s i))"
  by (cases "seen_order s") (auto simp: seen_ok_def seen_insert_def Let_def seen_outer_capacity_def)

interpretation seen_machine: kept_by_steps "\<lambda>i s. snd (seen_insert s i)" seen_ok
  by unfold_locales (rule seen_ok_insert)

lemma seen_insert_keeps:
  assumes "seen_ok s" and "seen_order s = ys @ i # zs" and "length zs + 1 < seen_outer_capacity"
  shows "\<exists>ys' zs'. seen_order (snd (seen_insert s j)) = ys' @ i # zs' \<and> length zs' \<le> length zs + 1"
proof (cases "j \<in> seen_ids s")
  case True
  then have "seen_order (snd (seen_insert s j)) = ys @ i # zs" using assms(2) by (simp add: seen_insert_def)
  then show ?thesis by (metis le_add1)
next
  case False
  show ?thesis
  proof (cases ys)
    case Nil
    have "seen_order (snd (seen_insert s j)) = i # (zs @ [j])"
      using False assms(2,3) by (simp add: seen_insert_def Let_def Nil)
    then show ?thesis by (metis append_Nil length_append_singleton order_refl Suc_eq_plus1)
  next
    case (Cons y ys')
    have "seen_order (snd (seen_insert s j)) = (y # ys') @ i # (zs @ [j]) \<or>
        seen_order (snd (seen_insert s j)) = ys' @ i # (zs @ [j])"
      using False assms(2) by (simp add: seen_insert_def Let_def Cons)
    then show ?thesis by (metis length_append_singleton order_refl Suc_eq_plus1)
  qed
qed

text \<open>
  A relay's repeat of an envelope is dropped cheaply: once a new outer id was inserted,
  it is recognised as a duplicate until at least 4096 further deliveries came in, while the memory
  never holds more than 4096 ids. (Ids leave in the order they came; a repeat does not refresh one.)
\<close>

theorem outer_duplicate_recognised:
  assumes "seen_ok s" and "fst (seen_insert s i)" and "length js < seen_outer_capacity"
    and "s' = fold (\<lambda>j s. snd (seen_insert s j)) js (snd (seen_insert s i))"
  shows "\<not> fst (seen_insert s' i) \<and> card (seen_ids s') \<le> seen_outer_capacity"
proof -
  let ?s1 = "snd (seen_insert s i)"
  have ok1: "seen_ok ?s1" by (rule seen_ok_insert [OF assms(1)])
  have step: "\<exists>ys zs. seen_order (fold (\<lambda>j s. snd (seen_insert s j)) js u) = ys @ i # zs"
    if "seen_ok u" "seen_order u = ys @ i # zs" "length zs + length js < seen_outer_capacity" for u ys zs
    using that
  proof (induction js arbitrary: u ys zs)
    case (Cons j js)
    obtain ys' zs' where "seen_order (snd (seen_insert u j)) = ys' @ i # zs'" "length zs' \<le> length zs + 1"
      using seen_insert_keeps [OF Cons.prems(1,2), of j] Cons.prems(3) by auto
    then show ?case
      using Cons.IH [OF seen_ok_insert [OF Cons.prems(1), of j], of ys' zs'] Cons.prems(3) by simp
  qed auto
  have ok': "seen_ok s'" unfolding assms(4) by (rule seen_machine.run_inv [OF ok1])
  then have "card (seen_ids s') \<le> seen_outer_capacity"
    by (simp add: seen_ok_def distinct_card)
  moreover have "i \<in> seen_ids s'"
  proof -
    have "i \<notin> seen_ids s" using assms(2) by (auto simp: seen_insert_def)
    then have "seen_order ?s1 = seen_order s @ [i] \<or> seen_order ?s1 = tl (seen_order s @ [i]) \<and> seen_order s \<noteq> []"
      by (auto simp: seen_insert_def Let_def seen_outer_capacity_def)
    then obtain ys where "seen_order ?s1 = ys @ i # []" by (metis tl_append2)
    with step [OF ok1, of ys "[]"] assms(3) obtain ys zs where "seen_order s' = ys @ i # zs"
      unfolding assms(4) by auto
    with ok' show ?thesis by (simp add: seen_ok_def)
  qed
  ultimately show ?thesis by (simp add: seen_insert_def)
qed

lemma outer_duplicate_recognised_witness:
  "\<not> fst (seen_insert (fold (\<lambda>j s. snd (seen_insert s j)) [''b'', ''c''] (snd (seen_insert empty_seen ''a''))) ''a'')"
  using outer_duplicate_recognised [OF seen_ok_empty _ _ refl, of "''a''" "[''b'', ''c'']"]
  by (simp add: seen_insert_def empty_seen_def seen_outer_capacity_def)

section \<open>Inbound messages\<close>

lemma get_session_cursor:
  assumes "get_session t sid = Some ses"
  shows "\<exists>ses'. get_session (advance_chat_cursor t sid p c now) sid = Some ses' \<and>
    chat_cursor ses' p = Some (max (unwrap_or (chat_cursor ses p) 0) c) \<and>
    s_state ses' = s_state ses"
proof -
  have "s_session_id ses = sid" using assms by (auto simp: get_session_def dest: find_key_some)
  have "get_session (map (\<lambda>s. if s_session_id s = sid
      then (with_cursor p c s)\<lparr>s_updated_at := now\<rparr> else s) t) sid =
      map_option (\<lambda>s. if s_session_id s = sid then (with_cursor p c s)\<lparr>s_updated_at := now\<rparr> else s)
        (get_session t sid)"
    by (induction t) (cases p; auto simp: get_session_def)+
  then have "get_session (advance_chat_cursor t sid p c now) sid = Some ((with_cursor p c ses)\<lparr>s_updated_at := now\<rparr>)"
    unfolding advance_chat_cursor_def snd_upd_where
    using assms \<open>s_session_id ses = sid\<close> by simp
  then show ?thesis by (cases p) simp_all
qed

lemma handle_inbound_accepted:
  assumes "handle_inbound unwrap json_of ib s e local_now now = (Inr (Inr rc), ib', s')"
  obtains ch :: channel and im :: inner_message and t where "map_of (channels ib) (oe_pubkey e) = Some ch"
    and "\<not> session_ended s (ch_session_id ch)"
    and "insert_message (session_ids s) (db_messages s)
        \<lparr>nm_session_id = ch_session_id ch, nm_direction = In, nm_party = ch_party ch,
         nm_template_id = None, nm_lang = None,
         nm_content = truncate_text (fst (describe json_of (im_content im))) (inbox_max_chars ib),
         nm_attachments = snd (describe json_of (im_content im)), nm_inner_event_id = im_inner_event_id im,
         nm_created_at = as_i64_cast (im_created_at im)\<rparr> = Inr (True, t)"
    and "rc_session_id rc = ch_session_id ch \<and> rc_party rc = ch_party ch"
    and "s' = s\<lparr>db_messages := t, db_sessions := advance_chat_cursor (db_sessions s) (ch_session_id ch)
        (ch_party ch) (min (as_i64_cast (oe_created_at e)) (as_i64_cast local_now)) (as_i64_cast local_now)\<rparr>"
proof (cases "map_of (channels ib) (oe_pubkey e)")
  case None
  with assms show thesis by (simp add: handle_inbound_def)
next
  case (Some ch)
  let ?ch = "ch\<lparr>ch_bucket := snd (bucket_take (ch_bucket ch) now)\<rparr>"
  have live: "\<not> session_ended s (ch_session_id ch)"
    using assms Some by (auto simp: handle_inbound_def Let_def)
  have pass: "fst (seen_insert (seen_outer ib) (oe_id e))" "fst (bucket_take (ch_bucket ch) now)"
    using assms Some live
    by (auto simp: handle_inbound_def Let_def case_prod_beta split: if_splits)
  show thesis
  proof (cases "unwrap ?ch e local_now")
    case (Inl er)
    with assms Some live pass show thesis by (simp add: handle_inbound_def Let_def case_prod_beta)
  next
    case (Inr im)
    let ?m = "\<lparr>nm_session_id = ch_session_id ch, nm_direction = In, nm_party = ch_party ch,
         nm_template_id = None, nm_lang = None,
         nm_content = truncate_text (fst (describe json_of (im_content im))) (inbox_max_chars ib),
         nm_attachments = snd (describe json_of (im_content im)), nm_inner_event_id = im_inner_event_id im,
         nm_created_at = as_i64_cast (im_created_at im)\<rparr>"
    show thesis
    proof (cases "insert_message (session_ids s) (db_messages s) ?m")
      case err: (Inl er)
      with assms Some live pass Inr show thesis by (simp add: handle_inbound_def Let_def case_prod_beta)
    next
      case res: (Inr bt)
      obtain b t where bt: "bt = (b, t)" by (cases bt)
      have b: "b" and out: "rc_session_id rc = ch_session_id ch \<and> rc_party rc = ch_party ch"
        "s' = s\<lparr>db_messages := t, db_sessions := advance_chat_cursor (db_sessions s) (ch_session_id ch)
        (ch_party ch) (min (as_i64_cast (oe_created_at e)) (as_i64_cast local_now)) (as_i64_cast local_now)\<rparr>"
        using assms Some live pass Inr res
        by (auto simp: handle_inbound_def Let_def case_prod_beta bt split: bool.splits)
      with Some live res bt show thesis by (intro that [of ch im t]) simp_all
    qed
  qed
qed


definition example_inbox :: inbox where
  "example_inbox = (new_inbox 4)\<lparr>channels := [(''author'', \<lparr>ch_session_id = ''s1'', ch_party = Buyer,
     ch_trade_pubkey = ''b'', ch_bucket = new_bucket 0\<rparr>)]\<rparr>"

definition example_chat_db :: db where
  "example_chat_db = example_db\<lparr>db_sessions := [opening_row (example_session ''s1'' ''d1'')], db_messages := []\<rparr>"

definition example_inbound :: "(rejected + received) result \<times> inbox \<times> db" where
  "example_inbound = handle_inbound (\<lambda>_ _ _. Inr \<lparr>im_inner_event_id = ''i1'', im_content = ''hello'',
     im_created_at = 6\<rparr>) (\<lambda>_. None) example_inbox example_chat_db
     \<lparr>oe_id = ''o1'', oe_pubkey = ''author'', oe_created_at = 7\<rparr> 9 1"


section \<open>The gates\<close>

lemma send_when_gate:
  assumes "send_when allowed env outcome ses msg s = (r, given, s')"
  shows "(given \<longrightarrow> (\<exists>cur. get_session (db_sessions s) (s_session_id ses) = Some cur \<and> allowed (s_state cur))) \<and>
    (\<not> given \<longrightarrow> s' = s) \<and>
    (case r of
       Inl _ \<Rightarrow> db_messages s' = db_messages (if given then env s else s)
     | Inr inner \<Rightarrow> given \<and> (\<exists>m \<in> set (db_messages s'). message_key m = (s_session_id ses, Out, ob_party msg, inner)))"
  using assms
  by (cases outcome; cases "get_session (db_sessions s) (s_session_id ses)")
    (auto simp: send_when_def Let_def insert_message_def new_message_key_def split: if_splits)

text \<open>
  Property C15. What each sender lets through. A message reaches the relays only if the session,
  read again at that moment, is in a state the sender allows: not over (\<open>send_to_party\<close>), still
  mediated by Serbero (\<open>send_while_mediating\<close>), or resolved by the parties (\<open>send_after_close\<close>).
  So nothing is ever sent to a superseded session, whatever row the caller held. A message that
  was not given to the relays changes nothing, and one reported as sent is stored as outbound.
\<close>

theorem senders_are_gated:
  assumes "(f, may) \<in> {(send_to_party, \<lambda>st. st \<noteq> Closed \<and> st \<noteq> Superseded),
      (send_while_mediating, \<lambda>st. st \<in> {Opening, Active, Guiding}),
      (send_after_close, \<lambda>st. st = Closed)}"
    and "f env outcome ses msg s = (r, given, s')"
  shows "(given \<longrightarrow> (\<exists>cur. get_session (db_sessions s) (s_session_id ses) = Some cur \<and>
        may (s_state cur) \<and> s_state cur \<noteq> Superseded)) \<and>
    (\<not> given \<longrightarrow> s' = s) \<and>
    (\<forall>inner. r = Inr inner \<longrightarrow> given \<and>
       (\<exists>m \<in> set (db_messages s'). message_key m = (s_session_id ses, Out, ob_party msg, inner)))"
proof -
  have *: "(given \<longrightarrow> (\<exists>cur. get_session (db_sessions s) (s_session_id ses) = Some cur \<and> allowed (s_state cur))) \<and>
      (\<not> given \<longrightarrow> s' = s) \<and>
      (\<forall>inner. r = Inr inner \<longrightarrow> given \<and>
         (\<exists>m \<in> set (db_messages s'). message_key m = (s_session_id ses, Out, ob_party msg, inner)))"
    if "send_when allowed env outcome ses msg s = (r, given, s')" for allowed
    using send_when_gate [OF that] by auto
  have cover: "is_terminal st \<longleftrightarrow> st = Closed \<or> st = Superseded"
    "mediating st \<longleftrightarrow> st = Opening \<or> st = Active \<or> st = Guiding" for st
    by (cases st; simp add: mediating_def)+
  consider "f = send_to_party \<and> may = (\<lambda>st. st \<noteq> Closed \<and> st \<noteq> Superseded)"
    | "f = send_while_mediating \<and> may = (\<lambda>st. st \<in> {Opening, Active, Guiding})"
    | "f = send_after_close \<and> may = (\<lambda>st. st = Closed)"
    using assms(1) by auto
  then show ?thesis
  proof cases
    case 1
    with assms(2) * [of "\<lambda>st. \<not> is_terminal st"] show ?thesis
      by (auto simp: send_to_party_def cover)
  next
    case 2
    with assms(2) * [of mediating] show ?thesis
      by (auto simp: send_while_mediating_def cover)
  next
    case 3
    with assms(2) * [of "\<lambda>st. st = Closed"] show ?thesis
      by (auto simp: send_after_close_def)
  qed
qed

lemma senders_are_gated_witness:
  "snd (send_after_close (\<lambda>s. s) (Sent ''i1'' 5) (opening_row (example_session ''s1'' ''d1''))
     \<lparr>ob_party = Buyer, ob_text = ''hi'', ob_template_id = None, ob_lang = None\<rparr> example_chat_db) =
   (False, example_chat_db)"
proof -
  obtain r given s' where eq: "send_after_close (\<lambda>s. s) (Sent ''i1'' 5) (opening_row (example_session ''s1'' ''d1''))
     \<lparr>ob_party = Buyer, ob_text = ''hi'', ob_template_id = None, ob_lang = None\<rparr> example_chat_db = (r, given, s')"
    by (metis prod_cases3)
  have "\<not> (\<exists>cur. get_session (db_sessions example_chat_db) (s_session_id (opening_row (example_session ''s1'' ''d1''))) =
      Some cur \<and> s_state cur = Closed)"
    by (simp add: example_chat_db_def get_session_def opening_row_def)
  with senders_are_gated [of send_after_close "\<lambda>st. st = Closed", OF _ eq]
  show ?thesis unfolding eq by auto
qed

end
