(* ===== verification/Session_View.thy ===== *)
theory Session_View
  imports Notifier Policy_Next Policy_Timers
begin

text \<open>
  What mediation reads from a session's stored messages and events: what was sent to each party
  (\<open>src/src/mediation/history.rs\<close>), the current hold (\<open>src/src/mediation/hold.rs\<close>), the clocks and
  the briefs still to be delivered (\<open>src/src/mediation/timers.rs\<close>), the newest message the solvers
  saw (\<open>last_seen\<close> of \<open>src/src/mediation/handoff.rs\<close>). Messages come as \<open>list_for_session\<close> returns
  them, events as \<open>list_for_dispute\<close> does.
\<close>

section \<open>History\<close>

definition last_opt :: "'a list \<Rightarrow> 'a option" where
  "last_opt xs = (if xs = [] then None else Some (last xs))"

fun note_sent :: "message \<Rightarrow> asked \<Rightarrow> asked" where
  "note_sent m a =
     (case m_template_id m of
        None \<Rightarrow> a
      | Some t \<Rightarrow>
          (case m_party m of
             Buyer \<Rightarrow> a\<lparr>asked_buyer := insert t (asked_buyer a)\<rparr>
           | Seller \<Rightarrow> a\<lparr>asked_seller := insert t (asked_seller a)\<rparr>))"

text \<open>\<open>party_history\<close>: positions are in arrival order, the order of the row ids.\<close>

definition party_history_of :: "message list \<Rightarrow> party \<Rightarrow> party_history" where
  "party_history_of ms p =
     (let theirs = filter (\<lambda>(i, m). m_party m = p) (enumerate 0 (sort_key m_id ms));
          templated = List.map_filter (\<lambda>(i, m). map_option (Pair i) (m_template_id m))
            (filter (\<lambda>(i, m). m_direction m = Out) theirs);
          last_q = find_last (\<lambda>(i, t). is_question t) templated;
          last_reply = last_opt (map fst (filter (\<lambda>(i, m). m_direction m = In) theirs))
      in \<lparr>last_template = map_option snd (last_opt templated),
          last_question = map_option snd last_q,
          outstanding = (case last_q of
              None \<Rightarrow> False
            | Some (asked_at, _) \<Rightarrow> (case last_reply of None \<Rightarrow> True | Some r \<Rightarrow> r < asked_at)),
          language_changed = False\<rparr>)"

definition from_messages :: "message list \<Rightarrow> asked \<times> party_history \<times> party_history" where
  "from_messages ms =
     (fold note_sent (filter (\<lambda>m. m_direction m = Out) ms) \<lparr>asked_buyer = {}, asked_seller = {}\<rparr>,
      party_history_of ms Buyer, party_history_of ms Seller)"

definition needs_intro :: "message list \<Rightarrow> party \<Rightarrow> string \<Rightarrow> bool" where
  "needs_intro ms p lang \<longleftrightarrow>
     (let to_party = filter (\<lambda>m. m_direction m = Out \<and> m_party m = p) ms
      in to_party \<noteq> [] \<and> (\<forall>m \<in> set to_party. m_lang m \<noteq> Some lang))"

section \<open>The hold\<close>

definition HOLD_NOTICE :: string where [str_defs]: "HOLD_NOTICE = ''hold_notice''"
definition HANDOFF_NOTICE :: string where [str_defs]: "HANDOFF_NOTICE = ''handoff_notice''"

definition retry_grace_secs :: int where "retry_grace_secs = 120"

record hold =
  hold_at :: int
  hold_cutoff :: int

definition retry_after :: "duration \<Rightarrow> int" where
  "retry_after grace = min retry_grace_secs (secs (grace div 2))"

definition of_session :: "session \<Rightarrow> event \<Rightarrow> bool" where
  "of_session ses e \<longleftrightarrow> ev_session_id e = Some (s_session_id ses)"

definition asked_after :: "int \<Rightarrow> message \<Rightarrow> bool" where
  "asked_after cutoff m \<longleftrightarrow> m_direction m = Out \<and> cutoff < m_id m \<and>
     (case m_template_id m of None \<Rightarrow> False | Some t \<Rightarrow> is_question t)"

definition current_hold :: "session \<Rightarrow> event list \<Rightarrow> message list \<Rightarrow> hold option" where
  "current_hold ses evs ms =
     (case max_by_key (\<lambda>e. (ev_created_at e, ev_id e))
             (filter (\<lambda>e. of_session ses e \<and> ev_kind e = ''held'') evs) of
        None \<Rightarrow> None
      | Some e \<Rightarrow>
          (let h = \<lparr>hold_at = ev_created_at e,
                 hold_cutoff = unwrap_or (as_i64 (jget (ev_payload e) ''last_message_id'')) i64_max\<rparr>
           in if list_ex (asked_after (hold_cutoff h)) ms then None else Some h))"

text \<open>The recording half of \<open>hold\<close>: the cutoff, and the database with the \<open>held\<close> event.\<close>

definition start_hold :: "db \<Rightarrow> session \<Rightarrow> int \<Rightarrow> (int \<times> db) result" where
  "start_hold s ses now =
     (let cutoff = max_or 0 m_id (messages_for_session (db_messages s) (s_session_id ses))
      in result_bind
           (log_event s (s_dispute_id ses) (Some (s_session_id ses)) ''held''
              (JObj [(''reason'', JStr (handoff_reason_str FactsGathered)),
                     (''last_message_id'', JInt cutoff)]) now)
           (\<lambda>s'. Inr (cutoff, s')))"

definition received_after :: "db \<Rightarrow> session \<Rightarrow> party \<Rightarrow> string \<Rightarrow> int \<Rightarrow> bool" where
  "received_after s ses p template cutoff \<longleftrightarrow>
     list_ex (\<lambda>m. m_direction m = Out \<and> m_party m = p \<and> cutoff < m_id m \<and> m_template_id m = Some template)
       (messages_for_session (db_messages s) (s_session_id ses))"

section \<open>Clocks\<close>

definition last_sent :: "message list \<Rightarrow> party \<Rightarrow> (string \<Rightarrow> bool) \<Rightarrow> message option" where
  "last_sent ms p pick =
     max_by_key m_id
       (filter (\<lambda>m. case m_template_id m of None \<Rightarrow> False | Some t \<Rightarrow> pick t)
         (filter (\<lambda>m. m_direction m = Out) (filter (\<lambda>m. m_party m = p) ms)))"

definition party_clock_of :: "message list \<Rightarrow> party \<Rightarrow> party_clock" where
  "party_clock_of ms p =
     (let question = last_sent ms p is_question;
          replied = (case question of
              None \<Rightarrow> False
            | Some q \<Rightarrow> list_ex (\<lambda>m. m_direction m = In \<and> m_id q < m_id m) (filter (\<lambda>m. m_party m = p) ms))
      in \<lparr>question_at = map_option m_created_at question,
          replied_at = (if replied then map_option m_created_at question else None),
          reminded_at = map_option m_created_at (last_sent ms p (\<lambda>t. t = REMINDER))\<rparr>)"

definition clocks_of :: "session \<Rightarrow> message list \<Rightarrow> event list \<Rightarrow> int \<Rightarrow> clocks" where
  "clocks_of ses ms evs now =
     \<lparr>c_phase = (if s_state ses = Guiding then Phase_Guiding else Phase_Gathering),
      c_now = now,
      c_buyer = party_clock_of ms Buyer,
      c_seller = party_clock_of ms Seller,
      guided_at = max_key ev_created_at (filter (\<lambda>e. of_session ses e \<and> ev_kind e = ''guided'') evs),
      held_at = map_option hold_at (current_hold ses evs ms)\<rparr>"

section \<open>Pending briefs\<close>

datatype subject = Subject_Handoff handoff_reason | Subject_Guide path

definition subject_of :: "json \<Rightarrow> subject option" where
  "subject_of payload =
     (case as_str (jget payload ''reason'') of
        Some reason \<Rightarrow> map_option Subject_Handoff (handoff_reason_parse reason)
      | None \<Rightarrow>
          (case as_str (jget payload ''path'') of
             None \<Rightarrow> None
           | Some p \<Rightarrow> map_option Subject_Guide (path_parse p)))"

definition pending_briefs :: "session \<Rightarrow> event list \<Rightarrow> (int \<times> subject) list" where
  "pending_briefs ses evs =
     (let ours = filter (of_session ses) evs
      in List.map_filter (\<lambda>e. map_option (Pair (ev_id e)) (subject_of (ev_payload e)))
           (filter (\<lambda>e. \<not> list_ex (\<lambda>b. ev_kind b = ''brief_sent'' \<and>
                as_i64 (jget (ev_payload b) ''pending'') = Some (ev_id e)) ours)
             (filter (\<lambda>e. ev_kind e = ''brief_pending'') ours)))"

section \<open>What the solvers have seen\<close>

definition last_seen :: "event list \<Rightarrow> string \<Rightarrow> int" where
  "last_seen evs sid =
     max_or 0 id
       (List.map_filter (\<lambda>e. as_i64 (jget (ev_payload e) ''last_message_id''))
         (filter (\<lambda>e. ev_kind e = ''handoff'' \<or> ev_kind e = ''update_sent'')
           (filter (\<lambda>e. ev_session_id e = Some sid) evs)))"

section \<open>Arrival order\<close>

lemma find_last_filter: "find_last P (filter R xs) = find_last (\<lambda>x. R x \<and> P x) xs"
  by (induction xs rule: rev_induct) auto

lemma find_last_map: "find_last P (map f xs) = map_option f (find_last (\<lambda>x. P (f x)) xs)"
  by (induction xs rule: rev_induct) auto

lemma last_opt_find: "last_opt xs = find_last (\<lambda>_. True) xs"
  by (induction xs rule: rev_induct) (auto simp: last_opt_def)

lemma find_last_split:
  "find_last P xs = Some x \<Longrightarrow> \<exists>ys zs. xs = ys @ x # zs \<and> P x \<and> (\<forall>z \<in> set zs. \<not> P z)"
proof (induction xs rule: rev_induct)
  case (snoc y xs)
  show ?case
  proof (cases "P y")
    case True
    with snoc.prems show ?thesis by (intro exI [of _ xs] exI [of _ "[]"]) auto
  next
    case False
    with snoc obtain ys zs where "xs = ys @ x # zs" "P x" "\<forall>z \<in> set zs. \<not> P z" by auto
    with False show ?thesis by (intro exI [of _ ys] exI [of _ "zs @ [y]"]) auto
  qed
qed simp

abbreviation arrived :: "message list \<Rightarrow> (nat \<times> message) list" where
  "arrived ms \<equiv> enumerate 0 (sort_key m_id ms)"

lemma arrived_order:
  assumes "distinct (map m_id ms)" and "(i, m) \<in> set (arrived ms)" and "(j, m') \<in> set (arrived ms)"
  shows "i < j \<longleftrightarrow> m_id m < m_id m'"
proof -
  let ?a = "sort_key m_id ms"
  have "distinct (map m_id ?a)" using assms(1) by (simp add: distinct_map)
  then have s: "sorted_wrt (<) (map m_id ?a)" by (simp add: strict_sorted_iff)
  then have less: "m_id (?a ! x) < m_id (?a ! y)" if "x < y" "y < length ?a" for x y
    using sorted_wrt_nth_less [OF s, of x y] that by simp
  have i: "i < length ?a" "?a ! i = m" and j: "j < length ?a" "?a ! j = m'"
    using assms(2,3) by (auto simp: in_set_enumerate_eq)
  show ?thesis
    using less [of i j] less [of j i] i j by (cases i j rule: linorder_cases) auto
qed

lemma arrived_set: "m \<in> set ms \<longleftrightarrow> (\<exists>i. (i, m) \<in> set (arrived ms))"
proof -
  have "set ms = snd ` set (arrived ms)"
    by (metis list.set_map map_snd_enumerate set_sort)
  then show ?thesis by force
qed

lemma find_last_arrived:
  assumes "distinct (map m_id ms)" and "find_last (\<lambda>(i, m). P m) (arrived ms) = Some (i, m)"
  shows "(i, m) \<in> set (arrived ms) \<and> max_by_key m_id (filter P ms) = Some m"
proof -
  obtain ys zs where sp: "arrived ms = ys @ (i, m) # zs" and P: "P m" and no: "\<forall>(j, x) \<in> set zs. \<not> P x"
    using find_last_split [OF assms(2)] by force
  have mem: "(i, m) \<in> set (arrived ms)" using sp by simp
  have "max_by_key m_id (filter P ms) = Some m"
  proof (rule max_by_key_unique)
    show "m \<in> set (filter P ms)" using mem P arrived_set by auto
    fix x assume x: "x \<in> set (filter P ms)" "x \<noteq> m"
    then obtain j where j: "(j, x) \<in> set (arrived ms)" using arrived_set by auto
    with x no sp have "(j, x) \<in> set ys" by auto
    moreover have "sorted_wrt (<) (map fst (arrived ms))" by simp
    ultimately have "j < i" unfolding sp by (force simp: sorted_wrt_append)
    with arrived_order [OF assms(1) j mem] show "m_id x < m_id m" by simp
  qed
  with mem show ?thesis by simp
qed

lemma find_last_arrived_None:
  "find_last (\<lambda>(i, m). P m) (arrived ms) = None \<Longrightarrow> filter P ms = []"
  by (auto simp: find_last_None filter_empty_conv arrived_set)

definition asks_party :: "party \<Rightarrow> message \<Rightarrow> bool" where
  "asks_party p m \<longleftrightarrow> m_party m = p \<and> m_direction m = Out \<and>
     (case m_template_id m of None \<Rightarrow> False | Some t \<Rightarrow> is_question t)"

definition reply_of :: "party \<Rightarrow> message \<Rightarrow> bool" where
  "reply_of p m \<longleftrightarrow> m_party m = p \<and> m_direction m = In"

lemma last_sent_question: "last_sent ms p is_question = max_by_key m_id (filter (asks_party p) ms)"
proof -
  have "(\<lambda>m. m_party m = p \<and> m_direction m = Out \<and> (case m_template_id m of None \<Rightarrow> False | Some t \<Rightarrow> is_question t))
      = asks_party p" by (auto simp: asks_party_def)
  then show ?thesis by (simp add: last_sent_def)
qed

lemma templated_questions:
  "find_last (\<lambda>(i, t). is_question t) (List.map_filter (\<lambda>(i, m). map_option (Pair i) (m_template_id m))
       (filter (\<lambda>(i, m). m_direction m = Out) (filter (\<lambda>(i, m). m_party m = p) xs))) =
   map_option (\<lambda>(i, m). (i, the (m_template_id m))) (find_last (\<lambda>(i, m). asks_party p m) xs)"
  by (induction xs rule: rev_induct)
    (auto simp: List.map_filter_def asks_party_def split: option.splits)

lemma reply_positions:
  "last_opt (map fst (filter (\<lambda>(i, m). m_direction m = In) (filter (\<lambda>(i, m). m_party m = p) xs))) =
   map_option fst (find_last (\<lambda>(i, m). reply_of p m) xs)"
  by (induction xs rule: rev_induct) (auto simp: last_opt_find reply_of_def)

lemma party_history_eq:
  "last_question (party_history_of ms p) =
     map_option (\<lambda>(i, m). the (m_template_id m)) (find_last (\<lambda>(i, m). asks_party p m) (arrived ms))"
  "outstanding (party_history_of ms p) \<longleftrightarrow>
     (case find_last (\<lambda>(i, m). asks_party p m) (arrived ms) of
        None \<Rightarrow> False
      | Some (i, _) \<Rightarrow>
          (case find_last (\<lambda>(i, m). reply_of p m) (arrived ms) of None \<Rightarrow> True | Some (r, _) \<Rightarrow> r < i))"
  unfolding party_history_of_def Let_def templated_questions reply_positions
  by (auto simp: map_option_case split: option.splits prod.splits)

lemma history_question:
  assumes "distinct (map m_id ms)"
  shows "last_question (party_history_of ms p) =
      (case last_sent ms p is_question of None \<Rightarrow> None | Some q \<Rightarrow> m_template_id q)"
proof (cases "find_last (\<lambda>(i, m). asks_party p m) (arrived ms)")
  case None
  then show ?thesis
    using find_last_arrived_None [OF None]
    by (simp add: party_history_eq last_sent_question)
next
  case (Some im)
  obtain i m where im: "im = (i, m)" by (cases im)
  from find_last_arrived [OF assms Some [unfolded im]]
  have "max_by_key m_id (filter (asks_party p) ms) = Some m" by simp
  moreover from this have "asks_party p m" by (auto dest: max_by_key_in)
  ultimately show ?thesis
    using Some
    by (auto simp: party_history_eq last_sent_question im asks_party_def
        split: option.splits)
qed

text \<open>
  The turn and the timers read the same conversation. For stored messages, whatever
  the parties' own clocks say, a party's question is outstanding for the policy exactly when the
  timers see an unanswered question, and both take the same message to be the last question.
\<close>

theorem turn_and_timers_agree:
  assumes "messages_ok t" and "ms = messages_for_session t sid"
  shows "(outstanding (party_history_of ms p) \<longleftrightarrow>
       question_at (party_clock_of ms p) \<noteq> None \<and> replied_at (party_clock_of ms p) = None) \<and>
    (last_question (party_history_of ms p) = None \<longleftrightarrow> question_at (party_clock_of ms p) = None)"
proof -
  have d: "distinct (map m_id ms)" unfolding assms(2) by (rule messages_for_session_ids [OF assms(1)])
  have "outstanding (party_history_of ms p) \<longleftrightarrow>
       question_at (party_clock_of ms p) \<noteq> None \<and> replied_at (party_clock_of ms p) = None"
  proof (cases "find_last (\<lambda>(i, m). asks_party p m) (arrived ms)")
    case None
    then show ?thesis
      using find_last_arrived_None [OF None]
      by (simp add: party_history_eq party_clock_of_def last_sent_question)
  next
    case (Some im)
    obtain i q where im: "im = (i, q)" by (cases im)
    note q = find_last_arrived [OF d Some [unfolded im]]
    have clock: "replied_at (party_clock_of ms p) = None \<longleftrightarrow> (\<forall>m \<in> set ms. reply_of p m \<longrightarrow> m_id m \<le> m_id q)"
      "question_at (party_clock_of ms p) \<noteq> None"
      using q by (auto simp: party_clock_of_def Let_def last_sent_question list_ex_iff reply_of_def)
    have hist: "outstanding (party_history_of ms p) \<longleftrightarrow>
        (case find_last (\<lambda>(i, m). reply_of p m) (arrived ms) of None \<Rightarrow> True | Some (r, _) \<Rightarrow> r < i)"
      using Some
      by (auto simp: party_history_eq im split: option.splits)
    show ?thesis
    proof (cases "find_last (\<lambda>(i, m). reply_of p m) (arrived ms)")
      case none: None
      with find_last_arrived_None [OF none] hist clock show ?thesis by (auto simp: filter_empty_conv)
    next
      case some: (Some rm)
      obtain r m where rm: "rm = (r, m)" by (cases rm)
      note m = find_last_arrived [OF d some [unfolded rm]]
      have "reply_of p m" "asks_party p q" using m q by (auto dest!: max_by_key_in)
      then have neq: "m \<noteq> q" by (auto simp: reply_of_def asks_party_def)
      have "r < i \<longleftrightarrow> m_id m < m_id q" using arrived_order [OF d] m q by blast
      moreover have "m \<in> set ms" "q \<in> set ms" using m q by (auto dest!: max_by_key_in)
      moreover have "m_id m \<noteq> m_id q"
        using d neq \<open>m \<in> set ms\<close> \<open>q \<in> set ms\<close> by (auto simp: distinct_map inj_on_def)
      moreover have "m_id x \<le> m_id m" if "x \<in> set ms" "reply_of p x" for x
        using max_by_key_ge [of m_id "filter (reply_of p) ms" m x] m that by simp
      ultimately show ?thesis
        using hist clock some \<open>reply_of p m\<close> by (force simp: rm)
    qed
  qed
  moreover have "last_question (party_history_of ms p) = None \<longleftrightarrow> question_at (party_clock_of ms p) = None"
  proof (cases "last_sent ms p is_question")
    case None
    then show ?thesis using history_question [OF d, of p] by (simp add: party_clock_of_def)
  next
    case (Some q)
    then have "asks_party p q" by (auto simp: last_sent_question dest: max_by_key_in)
    then have "m_template_id q \<noteq> None" by (auto simp: asks_party_def split: option.splits)
    with Some show ?thesis using history_question [OF d, of p] by (simp add: party_clock_of_def)
  qed
  ultimately show ?thesis by simp
qed

section \<open>Holding for the parties\<close>

lemma message_step_append:
  assumes "messages_ok t"
  shows "\<exists>new. fold (message_step sids) ns t = t @ new \<and> (\<forall>m \<in> set new. \<forall>m' \<in> set t. m_id m' < m_id m) \<and>
    (\<forall>m \<in> set new. 0 < m_id m)"
proof -
  have ex: "\<exists>new. fold (message_step sids) ns t = t @ new"
  proof (induction ns rule: rev_induct)
    case (snoc n ns)
    then show ?case
      by (auto simp: message_step_def insert_message_def split: sum.splits if_splits)
  qed simp
  then obtain new where new: "fold (message_step sids) ns t = t @ new" by blast
  have "messages_ok (t @ new)"
    unfolding new [symmetric] by (rule message_log.run_inv [OF assms])
  with new show ?thesis
    by (intro exI [of _ new]) (auto simp: messages_ok_def sorted_wrt_append)
qed

lemma start_hold_event:
  assumes "start_hold s ses now = Inr (cutoff, s')"
  shows "cutoff = max_or 0 m_id (messages_for_session (db_messages s) (s_session_id ses))"
    "db_events s' = db_events s @ [\<lparr>ev_id = next_rowid ev_id (db_events s), ev_dispute_id = s_dispute_id ses,
       ev_session_id = Some (s_session_id ses), ev_kind = ''held'',
       ev_payload = JObj [(''reason'', JStr (handoff_reason_str FactsGathered)), (''last_message_id'', JInt cutoff)],
       ev_created_at = now\<rparr>]"
    "db_messages s' = db_messages s" "db_sessions s' = db_sessions s"
  using assms by (auto simp: start_hold_def Let_def log_event_Inr logged_def event_row_def)

lemma current_hold_started:
  assumes "start_hold s ses now = Inr (cutoff, s')"
    and "\<forall>e \<in> set (db_events s). ev_created_at e \<le> now"
    and "\<forall>e \<in> set es. ev_kind e \<noteq> ''held''"
  shows "current_hold ses (events_for_dispute (db_events s' @ es) (s_dispute_id ses)) ms =
    (if list_ex (asked_after cutoff) ms then None else Some \<lparr>hold_at = now, hold_cutoff = cutoff\<rparr>)"
proof -
  note ev = start_hold_event [OF assms(1)]
  let ?e = "last (db_events s')"
  let ?F = "filter (\<lambda>e. of_session ses e \<and> ev_kind e = ''held'')
      (events_for_dispute (db_events s' @ es) (s_dispute_id ses))"
  have "max_by_key (\<lambda>e. (ev_created_at e, ev_id e)) ?F = Some ?e"
  proof (rule max_by_key_unique)
    show "?e \<in> set ?F" by (simp add: ev events_for_dispute_def of_session_def)
    fix x assume "x \<in> set ?F" "x \<noteq> ?e"
    then have "x \<in> set (db_events s)" using assms(3) by (auto simp: ev events_for_dispute_def split: if_splits)
    then show "(ev_created_at x, ev_id x) < (ev_created_at ?e, ev_id ?e)"
      using assms(2) next_rowid_greater [of x "db_events s" ev_id] by (auto simp: ev)
  qed
  then show ?thesis by (simp add: current_hold_def Let_def ev(2))
qed

lemma questions_after_hold:
  assumes "messages_ok (db_messages s)" and "start_hold s ses now = Inr (cutoff, s')"
    and "t = fold (message_step sids) ns (db_messages s')"
  shows "list_ex (asked_after cutoff) (messages_for_session t (s_session_id ses)) \<longleftrightarrow>
    (\<exists>m \<in> set t - set (db_messages s). m_session_id m = s_session_id ses \<and> (\<exists>p. asks_party p m))"
proof -
  note ev = start_hold_event [OF assms(2)]
  obtain new where new: "t = db_messages s @ new" "\<forall>m \<in> set new. \<forall>m' \<in> set (db_messages s). m_id m' < m_id m"
    "\<forall>m \<in> set new. 0 < m_id m"
    using message_step_append [OF assms(1), of sids ns] assms(3) ev(3) by auto
  have old: "m_id m \<le> cutoff" if "m \<in> set (db_messages s)" "m_session_id m = s_session_id ses" for m
    unfolding ev(1) by (rule max_or_ge) (simp add: that)
  have lt: "cutoff < m_id m" if "m \<in> set new" for m
    using max_or_in [of 0 m_id "messages_for_session (db_messages s) (s_session_id ses)"] new(2,3) that
    by (auto simp: ev(1))
  have ask: "asked_after cutoff m \<longleftrightarrow> cutoff < m_id m \<and> (\<exists>p. asks_party p m)" for m
    by (auto simp: asked_after_def asks_party_def)
  show ?thesis
    using old lt by (fastforce simp: list_ex_iff ask new(1))
qed

text \<open>
  A hold lasts until a question ends it. After \<open>hold\<close> is recorded, whatever messages
  are stored and events recorded next (short of another hold), the session holds since that moment
  exactly as long as no question was sent to a party after it: replies, courtesies, reminders and
  the notices themselves do not end it.
\<close>

theorem hold_lasts_until_asked:
  assumes "messages_ok (db_messages s)" and "\<forall>e \<in> set (db_events s). ev_created_at e \<le> now"
    and "start_hold s ses now = Inr (cutoff, s')"
    and "\<forall>e \<in> set es. ev_kind e \<noteq> ''held''"
    and "t = fold (message_step sids) ns (db_messages s')"
  shows "current_hold ses (events_for_dispute (db_events s' @ es) (s_dispute_id ses))
      (messages_for_session t (s_session_id ses)) =
    (if \<exists>m \<in> set t - set (db_messages s). m_session_id m = s_session_id ses \<and> (\<exists>p. asks_party p m)
     then None else Some \<lparr>hold_at = now, hold_cutoff = cutoff\<rparr>)"
  unfolding current_hold_started [OF assms(3,2,4)] questions_after_hold [OF assms(1,3,5)] ..

text \<open>
  A hold ends in the handoff it announced. If no question is asked after it, then
  whatever else is stored, the timers of a session still gathering facts report \<open>facts_gathered\<close>
  at every check from the end of \<open>handoff_grace\<close> on, even if a party is silent or due a reminder.
\<close>

theorem hold_ends_in_handoff:
  assumes "messages_ok (db_messages s)" and "\<forall>e \<in> set (db_events s). ev_created_at e \<le> now"
    and "start_hold s ses now = Inr (cutoff, s')"
    and "\<forall>e \<in> set es. ev_kind e \<noteq> ''held''"
    and "t = fold (message_step sids) ns (db_messages s')"
    and "\<forall>m \<in> set t - set (db_messages s). m_session_id m = s_session_id ses \<longrightarrow> \<not> (\<exists>p. asks_party p m)"
    and "s_state ses \<noteq> Guiding" and "now + secs (to_handoff_grace to) \<le> later" and "is_i64 later" and "is_i64 now"
  shows "check_timers (clocks_of ses (messages_for_session t (s_session_id ses))
      (events_for_dispute (db_events s' @ es) (s_dispute_id ses)) later) to = Timer_Handoff FactsGathered"
proof -
  have "current_hold ses (events_for_dispute (db_events s' @ es) (s_dispute_id ses))
      (messages_for_session t (s_session_id ses)) = Some \<lparr>hold_at = now, hold_cutoff = cutoff\<rparr>"
    unfolding current_hold_started [OF assms(3,2,4)] questions_after_hold [OF assms(1,3,5)]
    using assms(6) by auto
  moreover have "saturating_add now (secs (to_handoff_grace to)) = now + secs (to_handoff_grace to)"
    using assms(8-10) secs_range [of "to_handoff_grace to"]
    by (intro saturating_add_exact) (auto simp: is_i64_def)
  ultimately show ?thesis
    using assms(7,8) by (simp add: check_timers_def clocks_of_def past_def)
qed

definition example_ask :: "party \<Rightarrow> string \<Rightarrow> int \<Rightarrow> string \<Rightarrow> new_message" where
  "example_ask p i c template = \<lparr>nm_session_id = ''s1'', nm_direction = Out, nm_party = p,
     nm_template_id = Some template, nm_lang = None, nm_content = ''?'', nm_attachments = 0,
     nm_inner_event_id = i, nm_created_at = c\<rparr>"

text \<open>A reply whose sender's clock is behind: it arrives after the question but sorts before it.\<close>

lemma turn_and_timers_agree_witness:
  "let t = [message_row 1 (example_ask Buyer ''e1'' 100 ASK_BUYER_SENT), message_row 2 (example_in Buyer ''e2'')]
   in \<not> outstanding (party_history_of (messages_for_session t ''s1'') Buyer)"
proof -
  let ?t = "[message_row 1 (example_ask Buyer ''e1'' 100 ASK_BUYER_SENT), message_row 2 (example_in Buyer ''e2'')]"
  have ok: "messages_ok ?t"
    by (simp add: messages_ok_def example_ask_def example_in_def new_message_key_def)
  have "replied_at (party_clock_of (messages_for_session ?t ''s1'') Buyer) = Some 100"
    by (simp add: party_clock_of_def last_sent_def messages_for_session_def message_row_def example_ask_def
        example_in_def)
  then show ?thesis
    using turn_and_timers_agree [OF ok refl, of "''s1''" Buyer] by (simp add: Let_def)
qed

definition example_held :: "int \<times> db" where
  "example_held = (case start_hold empty_db (opening_row (example_session ''s1'' ''d1'')) 50 of Inr r \<Rightarrow> r | Inl _ \<Rightarrow> (0, empty_db))"

lemma example_held: "start_hold empty_db (opening_row (example_session ''s1'' ''d1'')) 50 = Inr (0, snd example_held)"
  "db_messages (snd example_held) = []"
  by (simp_all add: example_held_def start_hold_def log_event_Inr logged_def messages_for_session_def max_or_def
      max_key_def empty_db_def)

lemma hold_lasts_until_asked_witness:
  "current_hold (opening_row (example_session ''s1'' ''d1''))
     (events_for_dispute (db_events (snd example_held)) ''d1'')
     (messages_for_session [message_row 1 (example_ask Buyer ''e1'' 60 ASK_BUYER_SENT)] ''s1'') = None"
proof -
  let ?ses = "opening_row (example_session ''s1'' ''d1'')"
  let ?m = "message_row 1 (example_ask Buyer ''e1'' 60 ASK_BUYER_SENT)"
  have t: "[?m] = fold (message_step [''s1'']) [example_ask Buyer ''e1'' 60 ASK_BUYER_SENT] (db_messages (snd example_held))"
    by (simp add: example_held message_step_def insert_message_def example_ask_def next_rowid_def max_or_def max_key_def)
  have ok: "messages_ok (db_messages empty_db)" and ev: "\<forall>e \<in> set (db_events empty_db). ev_created_at e \<le> 50"
    by (simp_all add: empty_db_def messages_ok_def)
  have "?m \<in> set [?m] - set (db_messages empty_db) \<and> m_session_id ?m = s_session_id ?ses \<and> asks_party Buyer ?m"
    by (simp add: empty_db_def example_ask_def message_row_def asks_party_def opening_row_def example_session_def)
  then have asked: "\<exists>m \<in> set [?m] - set (db_messages empty_db). m_session_id m = s_session_id ?ses \<and>
      (\<exists>p. asks_party p m)" by blast
  have none: "\<forall>e \<in> set []. ev_kind e \<noteq> ''held''" by simp
  from hold_lasts_until_asked [OF ok ev example_held(1) none t] asked
  have "current_hold ?ses (events_for_dispute (db_events (snd example_held) @ []) (s_dispute_id ?ses))
      (messages_for_session [?m] (s_session_id ?ses)) = None"
    by (simp only: if_True simp_thms)
  then show ?thesis by (simp add: opening_row_def example_session_def)
qed

lemma hold_ends_in_handoff_witness:
  "check_timers (clocks_of (opening_row (example_session ''s1'' ''d1'')) (messages_for_session [] ''s1'')
      (events_for_dispute (db_events (snd example_held)) ''d1'') 2000) example_timeouts = Timer_Handoff FactsGathered"
  using hold_ends_in_handoff [of empty_db 50 "opening_row (example_session ''s1'' ''d1'')" 0 "snd example_held" "[]"
      "[]" "[]" "[]" example_timeouts 2000, OF _ _ example_held(1)]
  by (simp add: example_held empty_db_def messages_ok_def opening_row_def example_session_def example_timeouts_def
      secs_def i64_max_def is_i64_def i64_min_def)

end
