(* ===== verification/Observers.thy ===== *)
theory Observers
  imports Notifier
begin

text \<open>
  \<open>src/src/notifier/observers.rs\<close>: notices for observers are queued as events of the audit log in
  the transaction that records what they report, and delivered by one task with backoff. An
  observer is its public key in hex; \<open>send\<close> is the outcome of a DM, \<open>None\<close> when a relay took it
  in time, and else the error's text.
\<close>

section \<open>Definitions\<close>

definition retry_window_secs :: int where "retry_window_secs = 24 * 3600"
definition retry_base_secs :: int where "retry_base_secs = 60"
definition retry_max_secs :: int where "retry_max_secs = 3600"

definition observer_header :: "string \<Rightarrow> string \<Rightarrow> string" where
  "observer_header d sub = ''Dispute '' @ d @ '' '' @ [CHR 0xB7] @ '' '' @ sub"

definition is_one_token :: "string \<Rightarrow> bool" where
  "is_one_token i \<longleftrightarrow> i \<noteq> [] \<and> list_all (\<lambda>c. is_alphanumeric c \<or> c = CHR ''-'') i"

definition notice_payload :: "string \<Rightarrow> string \<Rightarrow> json" where
  "notice_payload ob sub = JObj [(''observer'', JStr ob), (''subject'', JStr sub)]"

fun queue_each :: "string list \<Rightarrow> string \<Rightarrow> string \<Rightarrow> int \<Rightarrow> bool \<times> db \<Rightarrow> (bool \<times> db) result" where
  "queue_each [] d sub now (queued, s) = Inr (queued, s)"
| "queue_each (ob # obs) d sub now (queued, s) =
     (if observer_queued (db_events s) d ob sub then queue_each obs d sub now (queued, s)
      else case log_event s d None ''observer_pending'' (notice_payload ob sub) now of
             Inl e \<Rightarrow> Inl e
           | Inr s' \<Rightarrow> queue_each obs d sub now (True, s'))"

definition queue_observers :: "string list \<Rightarrow> db \<Rightarrow> string \<Rightarrow> string \<Rightarrow> int \<Rightarrow> (bool \<times> db) result" where
  "queue_observers obs s d sub now =
     (if obs = [] then Inr (False, s)
      else if \<not> is_one_token d then Inr (False, s)
      else queue_each obs d sub now (False, s))"

definition notice_due :: "nat \<Rightarrow> int option \<Rightarrow> int \<Rightarrow> bool" where
  "notice_due failures last_failure now =
     (let doublings = min (failures - 1) 6; wait = min (retry_base_secs * 2 ^ doublings) retry_max_secs
      in case last_failure of None \<Rightarrow> True | Some t \<Rightarrow> wait \<le> now - t)"

fun deliver_each ::
    "(string \<Rightarrow> string \<Rightarrow> string option) \<Rightarrow> string list \<Rightarrow> int \<Rightarrow> observer_notice list \<Rightarrow> nat \<times> db \<Rightarrow>
     nat result \<times> db" where
  "deliver_each send obs now [] (delivered, s) = (Inr delivered, s)"
| "deliver_each send obs now (n # ns) (delivered, s) =
     (if on_observer n \<notin> set obs then deliver_each send obs now ns (delivered, s)
      else if \<not> notice_due (on_failures n) (on_last_failure n) now
      then deliver_each send obs now ns (delivered, s)
      else let r = send (on_observer n) (observer_header (on_dispute_id n) (on_subject n));
               (k, payload) = (case r of
                   None \<Rightarrow> (''observer_notified'', notice_payload (on_observer n) (on_subject n))
                 | Some e \<Rightarrow> (''observer_failed'',
                     JObj [(''observer'', JStr (on_observer n)), (''subject'', JStr (on_subject n)),
                           (''error'', JStr e)]))
           in case log_event s (on_dispute_id n) None k payload now of
                Inl e \<Rightarrow> (Inl e, s)
              | Inr s' \<Rightarrow> deliver_each send obs now ns ((if r = None then delivered + 1 else delivered), s'))"

definition deliver_due ::
    "(string \<Rightarrow> string \<Rightarrow> string option) \<Rightarrow> string list \<Rightarrow> int \<Rightarrow> db \<Rightarrow> nat result \<times> db" where
  "deliver_due send obs now s =
     deliver_each send obs now (pending_observer_notices (db_events s) (now - retry_window_secs)) (0, s)"

section \<open>Queueing\<close>

text \<open>\<open>logged\<close>, the effect of \<open>log_event\<close>, seen from the log.\<close>

lemma logged_events:
  "\<exists>i. db_events (logged s d sid k payload now) = db_events s @ [\<lparr>ev_id = i, ev_dispute_id = d, ev_session_id = sid,
     ev_kind = k, ev_payload = payload, ev_created_at = now\<rparr>]"
  by (simp add: logged_def event_row_def)

definition notice_key :: "event \<Rightarrow> string \<times> string option \<times> string option" where
  "notice_key e = (ev_dispute_id e, as_str (jget (ev_payload e) ''observer''), as_str (jget (ev_payload e) ''subject''))"

lemma about_observer_key: "about_observer d ob sub e \<longleftrightarrow> notice_key e = (d, Some ob, Some sub)"
  by (simp add: about_observer_def notice_key_def)

abbreviation of_kind :: "string \<Rightarrow> events \<Rightarrow> event list" where
  "of_kind k t \<equiv> filter (\<lambda>e. ev_kind e = k) t"

text \<open>
  Each notice is queued at most once and recorded as delivered at most once, the latter never
  before it was queued.
\<close>

definition observers_ok :: "events \<Rightarrow> bool" where
  "observers_ok t \<longleftrightarrow> distinct (map notice_key (of_kind ''observer_pending'' t)) \<and>
     distinct (map notice_key (of_kind ''observer_notified'' t)) \<and>
     (\<forall>e \<in> set (of_kind ''observer_notified'' t). \<exists>p \<in> set (of_kind ''observer_pending'' t).
        notice_key p = notice_key e \<and> ev_created_at p \<le> ev_created_at e)"

lemma queue_each_spec:
  "\<exists>b s'. queue_each obs d sub now (q, s) = Inr (b, s') \<and>
     (\<forall>ob \<in> set obs. observer_queued (db_events s') d ob sub) \<and>
     (\<exists>new. db_events s' = db_events s @ new \<and>
        (\<forall>e \<in> set new. ev_kind e = ''observer_pending'' \<and> ev_created_at e = now)) \<and>
     (observers_ok (db_events s) \<longrightarrow> observers_ok (db_events s')) \<and>
     ((\<forall>ob \<in> set obs. observer_queued (db_events s) d ob sub) \<longrightarrow> b = q \<and> s' = s) \<and>
     db_disputes s' = db_disputes s \<and> db_sessions s' = db_sessions s \<and> db_messages s' = db_messages s"
proof (induction obs arbitrary: q s)
  case (Cons ob obs)
  show ?case
  proof (cases "observer_queued (db_events s) d ob sub")
    case True
    from Cons.IH [of q s] obtain b s' new where
      r: "queue_each obs d sub now (q, s) = Inr (b, s')" "\<forall>ob \<in> set obs. observer_queued (db_events s') d ob sub"
      "db_events s' = db_events s @ new" "\<forall>e \<in> set new. ev_kind e = ''observer_pending'' \<and> ev_created_at e = now"
      "observers_ok (db_events s) \<longrightarrow> observers_ok (db_events s')"
      "(\<forall>ob \<in> set obs. observer_queued (db_events s) d ob sub) \<longrightarrow> b = q \<and> s' = s"
      "db_disputes s' = db_disputes s" "db_sessions s' = db_sessions s" "db_messages s' = db_messages s" by blast
    moreover have "observer_queued (db_events s') d ob sub"
      using True r(3) by (auto simp: observer_queued_def)
    ultimately show ?thesis using True by simp
  next
    case False
    let ?s1 = "logged s d None ''observer_pending'' (notice_payload ob sub) now"
    obtain i where e: "db_events ?s1 = db_events s @ [\<lparr>ev_id = i, ev_dispute_id = d, ev_session_id = None,
        ev_kind = ''observer_pending'', ev_payload = notice_payload ob sub, ev_created_at = now\<rparr>]"
      using logged_events by blast
    have q1: "observer_queued (db_events ?s1) d ob sub"
      unfolding observer_queued_def e by (simp add: about_observer_def notice_payload_def)
    have "observers_ok (db_events ?s1)" if "observers_ok (db_events s)"
      using that False
      by (auto simp: observers_ok_def e observer_queued_def about_observer_key)
        (auto simp: notice_key_def notice_payload_def)
    moreover from Cons.IH [of True ?s1] obtain b s' new where
      r: "queue_each obs d sub now (True, ?s1) = Inr (b, s')" "\<forall>ob \<in> set obs. observer_queued (db_events s') d ob sub"
      "db_events s' = db_events ?s1 @ new" "\<forall>e \<in> set new. ev_kind e = ''observer_pending'' \<and> ev_created_at e = now"
      "observers_ok (db_events ?s1) \<longrightarrow> observers_ok (db_events s')"
      "db_disputes s' = db_disputes ?s1" "db_sessions s' = db_sessions ?s1" "db_messages s' = db_messages ?s1" by blast
    moreover note r(6-8) [unfolded logged_simps]
    moreover have "observer_queued (db_events s') d ob sub"
      using q1 r(3) by (auto simp: observer_queued_def)
    moreover have "\<exists>new'. db_events s' = db_events s @ new' \<and>
        (\<forall>e \<in> set new'. ev_kind e = ''observer_pending'' \<and> ev_created_at e = now)"
      using r(3,4) by (auto simp: e)
    moreover have "queue_each (ob # obs) d sub now (q, s) = Inr (b, s')"
      using False r(1) by (simp add: log_event_Inr)
    moreover have "\<not> (\<forall>o' \<in> set (ob # obs). observer_queued (db_events s) d o' sub)" using False by simp
    ultimately show ?thesis
      by (intro exI [of _ b] exI [of _ s'] conjI impI) (simp_all only: list.set ball_simps simp_thms)
  qed
qed simp

text \<open>
  Queueing a notice is idempotent. Unless there is no observer or the dispute id is
  not a single token (then nothing is queued), every configured observer has the notice queued
  afterwards, nothing but pending notices is written, and queueing it again, for instance when a
  transaction is retried after a restart, queues nothing.
\<close>

theorem observers_queued_once:
  "\<exists>b s'. queue_observers obs s d sub now = Inr (b, s') \<and>
     (is_one_token d \<longrightarrow> (\<forall>ob \<in> set obs. observer_queued (db_events s') d ob sub)) \<and>
     (\<exists>new. s' = s\<lparr>db_events := db_events s @ new\<rparr> \<and> (\<forall>e \<in> set new. ev_kind e = ''observer_pending'')) \<and>
     queue_observers obs s' d sub later = Inr (False, s')"
proof (cases "obs = [] \<or> \<not> is_one_token d")
  case True
  then show ?thesis
    by (intro exI [of _ False] exI [of _ s]) (auto simp: queue_observers_def intro!: exI [of _ "[]"])
next
  case False
  obtain b s' where r: "queue_each obs d sub now (False, s) = Inr (b, s')"
    "\<forall>ob \<in> set obs. observer_queued (db_events s') d ob sub"
    "\<exists>new. db_events s' = db_events s @ new \<and> (\<forall>e \<in> set new. ev_kind e = ''observer_pending'')"
    "db_disputes s' = db_disputes s" "db_sessions s' = db_sessions s" "db_messages s' = db_messages s"
    using queue_each_spec [of obs d sub now False s] by blast
  have "queue_each obs d sub later (False, s') = Inr (False, s')"
    using queue_each_spec [of obs d sub later False s'] r(2) by auto
  with False r show ?thesis by (auto simp: queue_observers_def intro!: db.equality)
qed

section \<open>Delivering\<close>

definition on_key :: "observer_notice \<Rightarrow> string \<times> string option \<times> string option" where
  "on_key n = (on_dispute_id n, Some (on_observer n), Some (on_subject n))"

lemma distinct_map_filter_keys:
  assumes "distinct (map f xs)" and "\<And>x y. g x = Some y \<Longrightarrow> h y = f x"
  shows "distinct (map h (List.map_filter g xs))"
  using assms(1)
proof (induction xs)
  case (Cons x xs)
  have "f x \<notin> h ` set (List.map_filter g xs)"
    using Cons.prems assms(2) by (force simp: List.map_filter_def)
  with Cons assms(2) show ?case by (auto simp: List.map_filter_simps split: option.splits)
qed (simp add: List.map_filter_simps)

lemma pending_notices_keys:
  assumes "observers_ok t"
  shows "distinct (map on_key (pending_observer_notices t since))" (is ?d)
    and "\<And>n. n \<in> set (pending_observer_notices t since) \<Longrightarrow>
      (\<exists>p \<in> set (of_kind ''observer_pending'' t). notice_key p = on_key n) \<and>
      \<not> (\<exists>e \<in> set (of_kind ''observer_notified'' t). notice_key e = on_key n)"
proof -
  let ?rec = "filter (\<lambda>e. since \<le> ev_created_at e) t"
  let ?notice = "\<lambda>q. case (as_str (jget (ev_payload q) ''observer''), as_str (jget (ev_payload q) ''subject'')) of
              (Some ob, Some su) \<Rightarrow>
                (let about = about_observer (ev_dispute_id q) ob su;
                     failed = filter (\<lambda>a. ev_kind a = ''observer_failed'' \<and> about a) ?rec
                 in if \<exists>a \<in> set ?rec. ev_kind a = ''observer_notified'' \<and> about a then None
                    else Some \<lparr>on_dispute_id = ev_dispute_id q, on_observer = ob, on_subject = su,
                      on_failures = length failed, on_last_failure = max_key ev_created_at failed\<rparr>)
            | _ \<Rightarrow> None"
  have eq: "pending_observer_notices t since = List.map_filter ?notice (of_kind ''observer_pending'' ?rec)"
    by (simp add: pending_observer_notices_def Let_def)
  have some: "on_key n = notice_key q \<and> \<not> (\<exists>a \<in> set ?rec. ev_kind a = ''observer_notified'' \<and> notice_key a = on_key n)"
    if "?notice q = Some n" for q n
    using that
    by (auto simp: on_key_def notice_key_def about_observer_def Let_def split: option.splits if_splits)
  have "of_kind ''observer_pending'' ?rec = filter (\<lambda>e. since \<le> ev_created_at e) (of_kind ''observer_pending'' t)"
    by (simp add: conj_commute)
  then have "distinct (map notice_key (of_kind ''observer_pending'' ?rec))"
    using assms unfolding observers_ok_def by (metis distinct_map_filter)
  then show ?d
    unfolding eq by (rule distinct_map_filter_keys) (use some in blast)
  fix n assume "n \<in> set (pending_observer_notices t since)"
  then obtain q where q: "q \<in> set (of_kind ''observer_pending'' ?rec)" and n: "?notice q = Some n"
    unfolding eq by (auto simp: List.map_filter_def)
  have "e \<in> set ?rec" if e: "e \<in> set (of_kind ''observer_notified'' t)" "notice_key e = on_key n" for e
  proof -
    obtain p where p: "p \<in> set (of_kind ''observer_pending'' t)" "notice_key p = notice_key e"
      "ev_created_at p \<le> ev_created_at e"
      using assms e(1) by (auto simp: observers_ok_def)
    have "p = q"
      using assms p(1,2) q e(2) some [OF n] by (auto simp: observers_ok_def distinct_map inj_on_def)
    with q p(3) e(1) show ?thesis by auto
  qed
  with some [OF n] q show "(\<exists>p \<in> set (of_kind ''observer_pending'' t). notice_key p = on_key n) \<and>
      \<not> (\<exists>e \<in> set (of_kind ''observer_notified'' t). notice_key e = on_key n)"
    by auto
qed

lemma deliver_each_spec:
  assumes "observers_ok (db_events s)" and "\<forall>e \<in> set (db_events s). ev_created_at e \<le> now"
    and "distinct (map on_key ns)"
    and "\<forall>n \<in> set ns. (\<exists>p \<in> set (of_kind ''observer_pending'' (db_events s)). notice_key p = on_key n) \<and>
      \<not> (\<exists>e \<in> set (of_kind ''observer_notified'' (db_events s)). notice_key e = on_key n)"
  shows "\<exists>d s' new. deliver_each send obs now ns (k, s) = (Inr (k + d), s') \<and> observers_ok (db_events s') \<and>
    db_events s' = db_events s @ new \<and> (\<forall>e \<in> set new. ev_created_at e = now) \<and>
    length (of_kind ''observer_notified'' new) = d"
  using assms
proof (induction ns arbitrary: k s)
  case Nil
  then show ?case by simp
next
  case (Cons n ns)
  show ?case
  proof (cases "on_observer n \<in> set obs \<and> notice_due (on_failures n) (on_last_failure n) now")
    case False
    from Cons.IH [of s k] Cons.prems obtain d s' new where
      "deliver_each send obs now ns (k, s) = (Inr (k + d), s')" "observers_ok (db_events s')"
      "db_events s' = db_events s @ new" "\<forall>e \<in> set new. ev_created_at e = now"
      "length (of_kind ''observer_notified'' new) = d" by auto
    with False show ?thesis by auto
  next
    case True
    let ?r = "send (on_observer n) (observer_header (on_dispute_id n) (on_subject n))"
    let ?k = "if ?r = None then ''observer_notified'' else ''observer_failed''"
    obtain payload where pl: "(case ?r of None \<Rightarrow> (''observer_notified'', notice_payload (on_observer n) (on_subject n))
          | Some e \<Rightarrow> (''observer_failed'', JObj [(''observer'', JStr (on_observer n)),
              (''subject'', JStr (on_subject n)), (''error'', JStr e)])) = (?k, payload)"
      "as_str (jget payload ''observer'') = Some (on_observer n)" "as_str (jget payload ''subject'') = Some (on_subject n)"
      by (cases ?r) (auto simp: notice_payload_def)
    let ?s1 = "logged s (on_dispute_id n) None ?k payload now"
    obtain i where e: "db_events ?s1 = db_events s @ [\<lparr>ev_id = i, ev_dispute_id = on_dispute_id n,
        ev_session_id = None, ev_kind = ?k, ev_payload = payload, ev_created_at = now\<rparr>]"
      using logged_events by blast
    let ?e = "last (db_events ?s1)"
    have key: "notice_key ?e = on_key n" by (simp add: e notice_key_def on_key_def pl)
    have le: "\<forall>p \<in> set (of_kind ''observer_pending'' (db_events s)). ev_created_at p \<le> now"
      using Cons.prems(2) by simp
    have ok1: "observers_ok (db_events ?s1)"
      using Cons.prems(1,4) key le
      by (auto simp: observers_ok_def e)
    have other: "\<forall>m \<in> set ns. on_key m \<noteq> on_key n" using Cons.prems(3) by (auto simp: image_iff)
    have rest: "\<forall>m \<in> set ns. (\<exists>p \<in> set (of_kind ''observer_pending'' (db_events ?s1)). notice_key p = on_key m) \<and>
      \<not> (\<exists>e \<in> set (of_kind ''observer_notified'' (db_events ?s1)). notice_key e = on_key m)"
    proof
      fix m assume m: "m \<in> set ns"
      have "notice_key ?e \<noteq> on_key m" using other m key by metis
      with m Cons.prems(4) show "(\<exists>p \<in> set (of_kind ''observer_pending'' (db_events ?s1)). notice_key p = on_key m) \<and>
        \<not> (\<exists>e \<in> set (of_kind ''observer_notified'' (db_events ?s1)). notice_key e = on_key m)"
        by (auto simp: e)
    qed
    from Cons.IH [of ?s1 "if ?r = None then k + 1 else k"] ok1 rest Cons.prems(2,3)
    obtain d s' new where r: "deliver_each send obs now ns (if ?r = None then k + 1 else k, ?s1) =
        (Inr ((if ?r = None then k + 1 else k) + d), s')" "observers_ok (db_events s')"
      "db_events s' = db_events ?s1 @ new" "\<forall>e \<in> set new. ev_created_at e = now"
      "length (of_kind ''observer_notified'' new) = d" by (auto simp: e)
    have "deliver_each send obs now (n # ns) (k, s) = (Inr (k + (if ?r = None then d + 1 else d)), s')"
      using True r(1) pl(1) by (simp add: Let_def log_event_Inr)
    moreover have "db_events s' = db_events s @ (?e # new)" using r(3) by (simp add: e)
    moreover have "length (of_kind ''observer_notified'' (?e # new)) = (if ?r = None then d + 1 else d)"
      using r(5) by (simp add: e)
    moreover have "\<forall>x \<in> set (?e # new). ev_created_at x = now" using r(4) by (simp add: e)
    ultimately show ?thesis using r(2) by blast
  qed
qed

datatype observer_op =
    Queue_Notice "string list" string string
  | Deliver "string \<Rightarrow> string \<Rightarrow> string option" "string list"
  | Log_Other new_event

text \<open>One task at a time changes the log; other components write other kinds of events.\<close>

definition observer_step :: "observer_op \<times> int \<Rightarrow> db \<Rightarrow> db" where
  "observer_step x s =
     (case fst x of
        Queue_Notice obs d sub \<Rightarrow> (case queue_observers obs s d sub (snd x) of Inl _ \<Rightarrow> s | Inr (_, s') \<Rightarrow> s')
      | Deliver send obs \<Rightarrow> snd (deliver_due send obs (snd x) s)
      | Log_Other n \<Rightarrow> (case log_event s (ne_dispute_id n) (ne_session_id n) (ne_kind n) (ne_payload n) (snd x) of
           Inl _ \<Rightarrow> s | Inr s' \<Rightarrow> s'))"

definition other_kind :: "observer_op \<Rightarrow> bool" where
  "other_kind x \<longleftrightarrow> (case x of Log_Other n \<Rightarrow> ne_kind n \<notin> {''observer_pending'', ''observer_notified''} | _ \<Rightarrow> True)"

lemma deliver_due_spec:
  assumes "observers_ok (db_events s)" and "\<forall>e \<in> set (db_events s). ev_created_at e \<le> now"
  shows "\<exists>d s' new. deliver_due send obs now s = (Inr d, s') \<and> observers_ok (db_events s') \<and>
    db_events s' = db_events s @ new \<and> (\<forall>e \<in> set new. ev_created_at e = now) \<and>
    length (of_kind ''observer_notified'' new) = d"
  using deliver_each_spec [OF assms pending_notices_keys(1) [OF assms(1)], of "now - retry_window_secs" send obs 0]
    pending_notices_keys(2) [OF assms(1)]
  by (simp add: deliver_due_def)

lemma observer_step_ok:
  assumes "observers_ok (db_events s)" and "\<forall>e \<in> set (db_events s). ev_created_at e \<le> now" and "other_kind x"
  shows "observers_ok (db_events (observer_step (x, now) s)) \<and>
    (\<forall>e \<in> set (db_events (observer_step (x, now) s)). ev_created_at e \<le> now)"
proof (cases x)
  case (Queue_Notice obs d sub)
  show ?thesis
    using assms queue_each_spec [of obs d sub now False s]
    by (auto simp: observer_step_def Queue_Notice queue_observers_def)
next
  case (Deliver send obs)
  show ?thesis
    using deliver_due_spec [OF assms(1,2), of send obs] assms(2)
    by (auto simp: observer_step_def Deliver)
next
  case (Log_Other n)
  obtain i where e: "db_events (logged s (ne_dispute_id n) (ne_session_id n) (ne_kind n) (ne_payload n) now) =
      db_events s @ [\<lparr>ev_id = i, ev_dispute_id = ne_dispute_id n, ev_session_id = ne_session_id n,
        ev_kind = ne_kind n, ev_payload = ne_payload n, ev_created_at = now\<rparr>]"
    using logged_events by blast
  show ?thesis
  proof (cases "ne_kind n = []")
    case True
    then show ?thesis using assms by (simp add: observer_step_def Log_Other log_event_def append_event_def)
  next
    case False
    then show ?thesis
      using assms e by (simp add: observer_step_def Log_Other log_event_Inr observers_ok_def other_kind_def)
  qed
qed

text \<open>
  No observer is told the same thing twice. Over any sequence of queueing, delivery
  passes with any outcomes and other events, at clock readings that do not go back, at most one
  delivery of a subject about a dispute to an observer is ever recorded; and a pass reports
  exactly the number of deliveries it recorded.
\<close>

theorem observer_told_once:
  assumes "observers_ok (db_events s)" and "\<forall>e \<in> set (db_events s). ev_created_at e \<le> start"
    and "sorted (start # map snd xs)" and "\<forall>x \<in> set xs. other_kind (fst x)"
    and "s' = fold observer_step xs s" and "last (start # map snd xs) \<le> now"
  shows "length (filter (\<lambda>e. ev_kind e = ''observer_notified'' \<and> about_observer d ob sub e) (db_events s')) \<le> 1 \<and>
    (\<exists>n s''. deliver_due send obs now s' = (Inr n, s'') \<and>
       length (of_kind ''observer_notified'' (db_events s'')) = length (of_kind ''observer_notified'' (db_events s')) + n)"
proof -
  have "observers_ok (db_events s') \<and> (\<forall>e \<in> set (db_events s'). ev_created_at e \<le> last (start # map snd xs))"
    using assms(1-4) unfolding assms(5)
  proof (induction xs arbitrary: s start)
    case (Cons x xs)
    obtain y t where x: "x = (y, t)" by (cases x)
    have "observers_ok (db_events (observer_step x s)) \<and> (\<forall>e \<in> set (db_events (observer_step x s)). ev_created_at e \<le> t)"
      unfolding x by (rule observer_step_ok) (use Cons.prems x in force)+
    with Cons.IH [of "observer_step x s" t] Cons.prems show ?case by (simp add: x)
  qed simp
  then have ok: "observers_ok (db_events s')" and le: "\<forall>e \<in> set (db_events s'). ev_created_at e \<le> now"
    using assms(6) by force+
  have "length (filter (\<lambda>e. ev_kind e = ''observer_notified'' \<and> about_observer d ob sub e) (db_events s')) \<le> 1"
    using filter_key_le_one [of notice_key "of_kind ''observer_notified'' (db_events s')" "(d, Some ob, Some sub)" "\<lambda>_. True"] ok
    by (simp add: observers_ok_def about_observer_key conj_commute)
  moreover have "\<exists>n s''. deliver_due send obs now s' = (Inr n, s'') \<and>
       length (of_kind ''observer_notified'' (db_events s'')) = length (of_kind ''observer_notified'' (db_events s')) + n"
    using deliver_due_spec [OF ok le, of send obs] by auto
  ultimately show ?thesis by simp
qed

lemma observer_told_once_witness:
  "length (filter (\<lambda>e. ev_kind e = ''observer_notified'' \<and> about_observer ''d1'' ''ob'' ''mediating'' e)
     (db_events (fold observer_step [(Queue_Notice [''ob''] ''d1'' ''mediating'', 10), (Deliver (\<lambda>_ _. None) [''ob''], 20),
       (Queue_Notice [''ob''] ''d1'' ''mediating'', 30), (Deliver (\<lambda>_ _. None) [''ob''], 40)] empty_db))) \<le> 1"
  using observer_told_once [of empty_db 0 "[(Queue_Notice [''ob''] ''d1'' ''mediating'', 10),
      (Deliver (\<lambda>_ _. None) [''ob''], 20), (Queue_Notice [''ob''] ''d1'' ''mediating'', 30),
      (Deliver (\<lambda>_ _. None) [''ob''], 40)]" _ 40 "''d1''" "''ob''" "''mediating''", OF _ _ _ _ refl]
  by (simp add: empty_db_def observers_ok_def other_kind_def)

lemma observers_queued_once_witness:
  "\<exists>b s'. queue_observers [''ob''] empty_db ''d1'' ''mediating'' 10 = Inr (b, s') \<and>
     observer_queued (db_events s') ''d1'' ''ob'' ''mediating''"
proof -
  have "is_one_token ''d1''" by code_simp
  with observers_queued_once [of "[''ob'']" empty_db "''d1''" "''mediating''" 10 20] show ?thesis by auto
qed

end
