(* ===== verification/Judge_State.thy ===== *)
theory Judge_State
  imports Chat
begin

text \<open>
  \<open>src/src/judge/state.rs\<close>: the JSON the judge reads, built from a session and its messages, with
  short message ids and Nostr identifiers redacted. \<open>nip19\<close> is the parameter for
  \<open>Nip19::from_bech32(..).is_ok()\<close>. JSON objects are lists of fields in insertion order; every
  reader looks fields up by name. A \<open>&str\<close> cut at \<open>max\<close> characters is \<open>truncate_text\<close>, as for
  inbound messages.
\<close>

section \<open>Redaction\<close>

definition REDACTED :: string where "REDACTED = ''[redacted]''"

definition is_nostr_identifier :: "(string \<Rightarrow> bool) \<Rightarrow> string \<Rightarrow> bool" where
  "is_nostr_identifier nip19 w \<longleftrightarrow>
     (if length w = 64 \<and> list_all is_hexdigit w then True
      else let lower = map ascii_lower w in starts_with ''n'' lower \<and> nip19 lower)"

definition flush_word :: "(string \<Rightarrow> bool) \<Rightarrow> string \<Rightarrow> string" where
  "flush_word nip19 w = (if w = [] then [] else if is_nostr_identifier nip19 w then REDACTED else w)"

fun redact_from :: "(string \<Rightarrow> bool) \<Rightarrow> string \<Rightarrow> string \<Rightarrow> string" where
  "redact_from nip19 w [] = flush_word nip19 w"
| "redact_from nip19 w (c # cs) =
     (if is_alphanumeric c then redact_from nip19 (w @ [c]) cs
      else flush_word nip19 w @ c # redact_from nip19 [] cs)"

definition redact :: "(string \<Rightarrow> bool) \<Rightarrow> string \<Rightarrow> string" where
  "redact nip19 t = redact_from nip19 [] t"

section \<open>The state\<close>

definition ROLE_BUYER :: string where
  "ROLE_BUYER = ''Pays the fiat money to the seller outside Mostro, then waits for the bitcoin.''"
definition ROLE_SELLER :: string where
  "ROLE_SELLER = ''Has bitcoin locked in Mostro escrow and must confirm the fiat arrived before the trade can finish.''"
definition ROLE_SERBERO :: string where
  "ROLE_SERBERO = ''Automated assistant that asks both parties questions for the human solver. It cannot move funds or decide the dispute.''"

record judge_state =
  st_value :: json
  st_message_ids :: "int list"

text \<open>\<open>str::parse::<usize>\<close> (64 bits): an optional plus sign, digits, no overflow.\<close>

definition parse_usize :: "string \<Rightarrow> nat option" where
  "parse_usize s =
     (let ds = (case s of c # cs \<Rightarrow> if c = CHR ''+'' then cs else s | [] \<Rightarrow> [])
      in if ds = [] \<or> \<not> list_all is_digit ds then None
         else if number_from 0 ds < 2 ^ 64 then Some (number_from 0 ds) else None)"

definition message_id :: "judge_state \<Rightarrow> string \<Rightarrow> int option" where
  "message_id st short_id =
     (case short_id of
        [] \<Rightarrow> None
      | c # cs \<Rightarrow>
          (if c \<noteq> CHR ''m'' then None
           else case parse_usize cs of
                  None \<Rightarrow> None
                | Some i \<Rightarrow>
                    (if i = 0 then None
                     else if i - 1 < length (st_message_ids st) then Some (st_message_ids st ! (i - 1))
                     else None)))"

definition short_id :: "nat \<Rightarrow> string" where
  "short_id i = ''m'' @ dec (i + 1)"

definition state_entry :: "(string \<Rightarrow> bool) \<Rightarrow> nat \<Rightarrow> nat \<Rightarrow> message \<Rightarrow> json" where
  "state_entry nip19 max_chars i m =
     JObj ([(''id'', JStr (short_id i))] @
       (case m_direction m of
          Out \<Rightarrow> [(''from'', JStr ''serbero''), (''to'', JStr (party_str (m_party m)))]
        | In \<Rightarrow> [(''from'', JStr (party_str (m_party m)))]) @
       [(''text'', JStr (truncate_text (redact nip19 (m_content m)) max_chars))] @
       (if 0 < m_attachments m then [(''attachments'', JInt (int (m_attachments m)))] else []))"

definition update_latest :: "nat \<Rightarrow> message \<Rightarrow> party \<Rightarrow> string list \<Rightarrow> string list" where
  "update_latest i m p latest =
     (if m_party m = p then (case m_direction m of Out \<Rightarrow> [] | In \<Rightarrow> latest @ [short_id i]) else latest)"

fun build_loop ::
    "(string \<Rightarrow> bool) \<Rightarrow> nat \<Rightarrow> nat \<Rightarrow> message list \<Rightarrow> json list \<times> string list \<times> string list \<Rightarrow>
     json list \<times> string list \<times> string list" where
  "build_loop nip19 max_chars i [] acc = acc"
| "build_loop nip19 max_chars i (m # ms) (transcript, buyer, seller) =
     build_loop nip19 max_chars (i + 1) ms
       (transcript @ [state_entry nip19 max_chars i m],
        update_latest i m Buyer buyer, update_latest i m Seller seller)"

definition order_json :: "session \<Rightarrow> initiator \<Rightarrow> json" where
  "order_json ses opened_by =
     JObj (List.map_filter (\<lambda>(name, value). map_option (\<lambda>v. (name, JStr v)) value)
         [(''fiat_amount'', s_fiat_amount ses), (''fiat_code'', s_fiat_code ses),
          (''payment_method'', s_payment_method ses)] @
       (if opened_by \<noteq> InitUnknown then [(''dispute_opened_by'', JStr (initiator_str opened_by))] else []))"

definition build_state ::
    "(string \<Rightarrow> bool) \<Rightarrow> session \<Rightarrow> initiator \<Rightarrow> message list \<Rightarrow> nat \<Rightarrow> judge_state" where
  "build_state nip19 ses opened_by ms max_chars =
     (let (transcript, buyer, seller) = build_loop nip19 max_chars 0 ms ([], [], [])
      in \<lparr>st_value = JObj
            [(''roles'', JObj [(''buyer'', JStr ROLE_BUYER), (''seller'', JStr ROLE_SELLER),
                (''serbero'', JStr ROLE_SERBERO)]),
             (''order'', order_json ses opened_by),
             (''transcript'', JArr transcript),
             (''latest'', JObj [(''buyer'', JArr (map JStr buyer)), (''seller'', JArr (map JStr seller))])],
          st_message_ids = map m_id ms\<rparr>)"

section \<open>No identifier is left\<close>

text \<open>The words of a text: its maximal runs of ASCII letters and digits.\<close>

fun words_from :: "string \<Rightarrow> string \<Rightarrow> string list" where
  "words_from w [] = (if w = [] then [] else [w])"
| "words_from w (c # cs) =
     (if is_alphanumeric c then words_from (w @ [c]) cs
      else (if w = [] then [] else [w]) @ words_from [] cs)"

lemma words_from_run: "list_all is_alphanumeric xs \<Longrightarrow> words_from w (xs @ ys) = words_from (w @ xs) ys"
  by (induction xs arbitrary: w) auto

lemma words_from_break:
  "ys = [] \<or> \<not> is_alphanumeric (hd ys) \<Longrightarrow>
    set (words_from w (xs @ ys)) = set (words_from w xs) \<union> set (words_from [] ys)"
proof (induction xs arbitrary: w)
  case Nil
  then show ?case by (cases ys) auto
qed auto

lemma words_redacted: "set (words_from [] REDACTED) = {''redacted''}"
  by (simp add: REDACTED_def is_alphanumeric_def is_digit_def)

lemma redacted_not_identifier: "\<not> is_nostr_identifier nip19 ''redacted''"
  by (simp add: is_nostr_identifier_def ascii_lower_def starts_with_def)

lemma flush_word_clean:
  "list_all is_alphanumeric w \<Longrightarrow> v \<in> set (words_from [] (flush_word nip19 w)) \<Longrightarrow> \<not> is_nostr_identifier nip19 v"
  using words_from_run [of w "[]" "[]"]
  by (auto simp: flush_word_def words_redacted redacted_not_identifier split: if_splits)

lemma redact_from_clean:
  "list_all is_alphanumeric w \<Longrightarrow> v \<in> set (words_from [] (redact_from nip19 w t)) \<Longrightarrow> \<not> is_nostr_identifier nip19 v"
proof (induction t arbitrary: w)
  case Nil
  then show ?case by (simp add: flush_word_clean)
next
  case (Cons c cs)
  show ?case
  proof (cases "is_alphanumeric c")
    case True
    with Cons.prems Cons.IH [of "w @ [c]"] show ?thesis by simp
  next
    case False
    then have "set (words_from [] (redact_from nip19 w (c # cs))) =
        set (words_from [] (flush_word nip19 w)) \<union> set (words_from [] (redact_from nip19 [] cs))"
      using words_from_break [of "c # redact_from nip19 [] cs" "[]" "flush_word nip19 w"] by simp
    with Cons.prems Cons.IH [of "[]"] flush_word_clean [OF Cons.prems(1)] show ?thesis by auto
  qed
qed

lemma redact_length:
  assumes "\<And>w. nip19 w \<Longrightarrow> 10 \<le> length w"
  shows "length (redact nip19 t) \<le> length t"
proof -
  have f: "length (flush_word nip19 w) \<le> length w" for w
    using assms [of "map ascii_lower w"]
    by (auto simp: flush_word_def is_nostr_identifier_def REDACTED_def Let_def split: if_splits)
  have "length (redact_from nip19 w t) \<le> length w + length t" for w
  proof (induction t arbitrary: w)
    case (Cons c cs)
    show ?case using Cons [of "w @ [c]"] Cons [of "[]"] f [of w] by auto
  qed (simp add: f)
  from this [of "[]"] show ?thesis by (simp add: redact_def)
qed

section \<open>The loop\<close>

lemma build_loop_transcript:
  "build_loop nip19 max_chars i ms (tr, b, s) =
     (tr @ map (\<lambda>(j, m). state_entry nip19 max_chars j m) (enumerate i ms),
      fold (\<lambda>(j, m). update_latest j m Buyer) (enumerate i ms) b,
      fold (\<lambda>(j, m). update_latest j m Seller) (enumerate i ms) s)"
  by (induction ms arbitrary: i tr b s) simp_all

lemma latest_fold:
  "fold (\<lambda>(j, m). update_latest j m p) (enumerate i ms) [] =
     map (\<lambda>(j, m). short_id j)
       (filter (\<lambda>(j, m). m_party m = p \<and> m_direction m = In \<and>
          (\<forall>m' \<in> set (drop (j - i) ms). m_party m' = p \<longrightarrow> m_direction m' = In)) (enumerate i ms))"
proof (induction ms rule: rev_induct)
  case (snoc m ms)
  have eq: "enumerate i (ms @ [m]) = enumerate i ms @ [(i + length ms, m)]"
    by (simp add: enumerate_append_eq)
  have idx: "j - i < length ms \<and> j - (i + length ms) = 0" if "(j, x) \<in> set (enumerate i ms)" for j x
    using that by (auto simp: in_set_enumerate_eq)
  show ?case
  proof (cases "m_party m = p \<and> m_direction m = Out")
    case True
    then show ?thesis using idx by (auto simp: eq update_latest_def filter_empty_conv)
  next
    case False
    have "filter (\<lambda>(j, x). m_party x = p \<and> m_direction x = In \<and>
          (\<forall>m' \<in> set (drop (j - i) (ms @ [m])). m_party m' = p \<longrightarrow> m_direction m' = In)) (enumerate i ms) =
        filter (\<lambda>(j, x). m_party x = p \<and> m_direction x = In \<and>
          (\<forall>m' \<in> set (drop (j - i) ms). m_party m' = p \<longrightarrow> m_direction m' = In)) (enumerate i ms)"
      using False idx by (intro filter_cong) (auto, (metis direction.exhaust)+)
    with False snoc show ?thesis
      by (cases "m_direction m") (auto simp: eq update_latest_def)
  qed
qed simp

lemma enumerate_upt: "enumerate 0 xs = map (\<lambda>j. (j, xs ! j)) [0..<length xs]"
  by (rule nth_equalityI) (simp_all add: nth_enumerate_eq)

definition awaiting :: "message list \<Rightarrow> party \<Rightarrow> nat \<Rightarrow> bool" where
  "awaiting ms p i \<longleftrightarrow> m_party (ms ! i) = p \<and> m_direction (ms ! i) = In \<and>
     (\<forall>m \<in> set (drop i ms). m_party m = p \<longrightarrow> m_direction m = In)"

lemma built_transcript:
  "jget (st_value (build_state nip19 ses opened_by ms max_chars)) ''transcript'' =
     JArr (map (\<lambda>i. state_entry nip19 max_chars i (ms ! i)) [0..<length ms])"
  by (simp add: build_state_def build_loop_transcript enumerate_upt comp_def)

lemma built_latest:
  "jget (jget (st_value (build_state nip19 ses opened_by ms max_chars)) ''latest'') (party_str p) =
     JArr (map (\<lambda>i. JStr (short_id i)) (filter (awaiting ms p) [0..<length ms]))"
proof -
  have eq: "(\<lambda>j. m_party (ms ! j) = p \<and> m_direction (ms ! j) = In \<and>
      (\<forall>m' \<in> set (drop j ms). m_party m' = p \<longrightarrow> m_direction m' = In)) = awaiting ms p" for p
    by (auto simp: awaiting_def)
  show ?thesis
    by (cases p) (simp_all add: build_state_def build_loop_transcript latest_fold, simp_all add: enumerate_upt
        filter_map comp_def case_prod_beta eq)
qed

lemma state_entry_fields:
  "jget (state_entry nip19 max_chars i m) ''id'' = JStr (short_id i)"
  "jget (state_entry nip19 max_chars i m) ''from'' =
     JStr (case m_direction m of Out \<Rightarrow> ''serbero'' | In \<Rightarrow> party_str (m_party m))"
  "jget (state_entry nip19 max_chars i m) ''text'' = JStr (truncate_text (redact nip19 (m_content m)) max_chars)"
  by (cases "m_direction m"; simp add: state_entry_def)+

lemma message_id_short:
  assumes "length ms < 2 ^ 64" and "i < length ms"
  shows "message_id (build_state nip19 ses opened_by ms max_chars) (short_id i) = Some (m_id (ms ! i))"
proof -
  have ids: "st_message_ids (build_state nip19 ses opened_by ms max_chars) = map m_id ms"
    by (simp add: build_state_def case_prod_beta)
  have "hd (dec (i + 1)) \<noteq> CHR ''+''"
    using dec_digits [of "i + 1"] dec_nonempty [of "i + 1"] by (cases "dec (i + 1)") (auto simp: is_digit_def)
  then have "parse_usize (dec (i + 1)) = Some (i + 1)"
    using dec_digits [of "i + 1"] dec_nonempty [of "i + 1"] number_from_dec [of "i + 1"] assms
    by (cases "dec (i + 1)") (auto simp: parse_usize_def)
  then show ?thesis using assms(2) by (simp add: message_id_def short_id_def ids)
qed


text \<open>
  Short ids are the only link from answers to stored messages, and a faithful one: the
  i-th transcript entry carries the id that \<open>message_id\<close> maps back to the i-th stored message and
  names who wrote it, and \<open>latest\<close> lists for each party exactly its messages that Serbero has not
  answered yet, in order.
\<close>

theorem short_ids_resolve:
  assumes "length ms < 2 ^ 64" and "st = build_state nip19 ses opened_by ms max_chars"
  shows "\<exists>tr. jget (st_value st) ''transcript'' = JArr tr \<and> length tr = length ms \<and>
    (\<forall>i < length ms. \<exists>s. jget (tr ! i) ''id'' = JStr s \<and> message_id st s = Some (m_id (ms ! i)) \<and>
       jget (tr ! i) ''from'' = JStr (case m_direction (ms ! i) of Out \<Rightarrow> ''serbero'' | In \<Rightarrow> party_str (m_party (ms ! i)))) \<and>
    (\<forall>p. \<exists>is. jget (jget (st_value st) ''latest'') (party_str p) = JArr (map (\<lambda>i. JStr (short_id i)) is) \<and>
       is = filter (awaiting ms p) [0..<length ms] \<and> map (message_id st) (map short_id is) = map (\<lambda>i. Some (m_id (ms ! i))) is)"
  unfolding assms(2) built_transcript built_latest
  using message_id_short [OF assms(1)] by (auto simp: state_entry_fields)

definition example_nip19 :: "string \<Rightarrow> bool" where
  "example_nip19 w \<longleftrightarrow> starts_with ''npub1'' w \<and> 10 \<le> length w"


lemma short_ids_resolve_witness:
  "message_id (build_state example_nip19 (opening_row (example_session ''s1'' ''d1'')) InitBuyer
     [message_row 7 (example_in Buyer ''e1'')] 4000) ''m1'' = Some 7"
proof -
  have "short_id 0 = ''m1''" by code_simp
  then show ?thesis
    using short_ids_resolve [of "[message_row 7 (example_in Buyer ''e1'')]" _ example_nip19
        "opening_row (example_session ''s1'' ''d1'')" InitBuyer 4000, OF _ refl]
    by (auto simp: built_transcript state_entry_fields)
qed

end
