(* ===== verification/Judge_Questions.thy ===== *)
theory Judge_Questions
  imports Judge_State Judge_Facts
begin

text \<open>
  \<open>src/src/judge/questions.rs\<close>: the turn question set, its subset for one turn, and its identifier.
  A \<open>BTreeMap\<close> is an association list sorted by key. \<open>digest\<close> is the parameter for the hexadecimal
  SHA-256 of a JSON value's text, as \<open>serde_json\<close> writes it.
\<close>

section \<open>Maps sorted by key\<close>

fun btree_insert :: "'k::linorder \<Rightarrow> 'v \<Rightarrow> ('k \<times> 'v) list \<Rightarrow> ('k \<times> 'v) list" where
  "btree_insert k v [] = [(k, v)]"
| "btree_insert k v ((a, b) # xs) =
     (if k < a then (k, v) # (a, b) # xs else if k = a then (k, v) # xs else (a, b) # btree_insert k v xs)"

definition btree_extend :: "('k::linorder \<times> 'v) list \<Rightarrow> ('k \<times> 'v) list \<Rightarrow> ('k \<times> 'v) list" where
  "btree_extend kvs xs = fold (\<lambda>(k, v). btree_insert k v) kvs xs"

definition btree_of :: "('k::linorder \<times> 'v) list \<Rightarrow> ('k \<times> 'v) list" where
  "btree_of kvs = btree_extend kvs []"

section \<open>Questions\<close>

definition QUESTION_SET_VERSION :: string where "QUESTION_SET_VERSION = ''qs-1''"
definition HASH_CHARS :: nat where "HASH_CHARS = 8"
definition PER_PARTY :: "string list" where
  "PER_PARTY = [''message_kind'', ''language'', ''wants_human'']"
definition GUIDING :: string where "GUIDING = ''rejects_path''"
definition LANGUAGE_OTHER :: string where "LANGUAGE_OTHER = ''other''"
definition LANGUAGE_UNKNOWN :: string where "LANGUAGE_UNKNOWN = ''unknown''"

record language =
  l_code :: string
  l_name :: string

definition question_key :: "party \<Rightarrow> string \<Rightarrow> string" where
  "question_key p suffix = party_str p @ ''_'' @ suffix"

definition strip_prefix :: "string \<Rightarrow> string \<Rightarrow> string option" where
  "strip_prefix pre s = (if starts_with pre s then Some (drop (length pre) s) else None)"

definition party_suffix :: "string \<Rightarrow> party \<Rightarrow> (party \<times> string) option" where
  "party_suffix i p =
     (case strip_prefix (party_str p @ ''_'') i of
        None \<Rightarrow> None
      | Some suffix \<Rightarrow> (if suffix \<in> set PER_PARTY \<or> suffix = GUIDING then Some (p, suffix) else None))"

definition split_party :: "string \<Rightarrow> (party \<times> string) option" where
  "split_party i =
     (case party_suffix i Buyer of Some r \<Rightarrow> Some r | None \<Rightarrow> party_suffix i Seller)"

definition noul_question :: "string \<Rightarrow> string \<Rightarrow> string \<Rightarrow> question" where
  "noul_question instructions yes no = QNoul (JStr instructions) (Some \<lparr>c_yes = JStr yes, c_no = JStr no\<rparr>)"

definition choice_question :: "string \<Rightarrow> (string \<times> string) list \<Rightarrow> question" where
  "choice_question instructions options =
     QChoice (JStr instructions) (map (\<lambda>(name, d). (name, Some (JStr d))) options)"

definition case_facts :: "(string \<times> question) list" where
  "case_facts = btree_of
    [(''buyer_payment'', choice_question ''Across the whole `transcript`, what has the buyer said about sending the fiat payment for this order?''
        [(''says_sent'', ''The buyer states they already sent or completed the fiat payment.''),
         (''says_not_sent'', ''The buyer states they have not sent the payment, or not yet.''),
         (''not_stated'', ''The buyer has not said either way, or their messages are too vague to tell.'')]),
     (''buyer_details'', noul_question ''Has the buyer given at least one concrete, checkable detail about the fiat payment they say they sent, such as the time, the exact amount, a transaction reference, the account or app used, or a receipt attached to their message?''
         ''At least one specific detail about the transfer is present in the buyer's messages.''
         ''The buyer only claims to have paid, or has given no payment details.''),
     (''seller_receipt'', choice_question ''Across the whole `transcript`, what has the seller said about receiving the fiat payment for this order?''
        [(''says_received'', ''The seller states the full fiat payment arrived in their account and raises no problem with it.''),
         (''says_received_with_problem'', ''The seller states a payment arrived but objects to it, for example a different amount, a sender other than the buyer, or a payment later reversed or charged back.''),
         (''says_not_received'', ''The seller states the fiat payment has not arrived.''),
         (''not_stated'', ''The seller has not said either way, or their messages are too vague to tell.'')]),
     (''seller_checked'', noul_question ''Does the seller say they checked the account or app where the payment should arrive?''
         ''The seller describes having looked at their bank account, app, or statement for this payment.''
         ''The seller has not said they checked.''),
     (''claims_conflict'', noul_question ''Do the buyer and the seller make factual claims about the payment that cannot both be true?''
         ''For example, the buyer says the payment was sent and completed while the seller says nothing arrived in the account.''
         ''Their accounts are compatible, or at least one party has not made a claim yet.''),
     (''fraud_signal'', noul_question ''Does anything in the `transcript` suggest deliberate bad faith by either party?''
         ''Signs such as an admitted or described altered receipt, a payment from a third party's account, a reversed or charged-back payment, asking to move the conversation or the trade to another app or contact (for example a Telegram or WhatsApp username, or a phone number), pointing to a supposed Mostro support or administrator outside this chat, requests for passwords, seed words or private keys, or threats.''
         ''Nothing beyond an ordinary disagreement or delay.''),
     (''dispute_topic'', choice_question ''What is this dispute mainly about, based on the `transcript`?''
        [(''payment_not_confirmed'', ''Whether the fiat payment was sent or received.''),
         (''wrong_amount'', ''The fiat payment arrived but for a different amount.''),
         (''wrong_account_or_method'', ''The payment was sent to a different account, person, or payment method than agreed.''),
         (''counterpart_unresponsive'', ''One party stopped answering during the trade.''),
         (''technical_problem'', ''An app, wallet, invoice, or Lightning problem rather than a payment disagreement.''),
         (''other'', ''Something else.''),
         (''not_yet_clear'', ''The parties have not said enough to tell.'')])]"

definition per_party :: "party \<Rightarrow> language list \<Rightarrow> (string \<times> question) list" where
  "per_party p langs = btree_of
    [(question_key p ''message_kind'', choice_question (''Look only at the '' @ party_str p @ [CHR 0x27] @ ''s messages listed in `latest.'' @ party_str p @ ''`. What are they mainly doing?'')
        [(''answers'', ''Giving information about the trade or the payment.''),
         (''greeting'', ''Only greeting, saying hello, or calling for attention.''),
         (''asks_language'', ''Asking whether Serbero speaks a particular language, or asking to switch language.''),
         (''not_understood'', ''Saying they do not understand the question or the situation.''),
         (''asks_next_step'', ''Asking what they should do or what happens next.''),
         (''other'', ''Anything else.'')]),
     (question_key p ''language'', choice_question (''Which language does the '' @ party_str p @ '' want to be addressed in? Use the language they write in, unless they explicitly ask for another one.'')
        (map (\<lambda>l. (l_code l, l_name l)) langs @
         [(LANGUAGE_OTHER, ''Another language''), (LANGUAGE_UNKNOWN, ''The messages are too short or mixed to tell.'')])),
     (question_key p ''wants_human'', noul_question (''In the messages listed in `latest.'' @ party_str p @ ''`, does the '' @ party_str p @ '' explicitly ask to talk to a human person, a solver, an administrator, or support staff instead of the automated assistant?'')
        ''A direct request for a person, such as 'I want a human' or 'let me talk to someone from support'.''
        ''No such request. Impatience or frustration alone is not a request.'')]"

definition rejects_path_question :: "party \<Rightarrow> question" where
  "rejects_path_question p = noul_question
     (''In the messages listed in `latest.'' @ party_str p @ ''`, does the '' @ party_str p @ '' reject the way forward Serbero described, or deny what the other party reported?'')
     ''For example, the buyer says they never got the bitcoin and disagrees, the seller says the payment did not actually arrive, or a party refuses to cancel.''
     ''The party agrees, asks a practical question, or says nothing against it.''"

section \<open>The set and its identifier\<close>

definition canonical_question :: "question \<Rightarrow> json" where
  "canonical_question q =
     (case q of
        QNoul instructions criteria \<Rightarrow>
          JObj (btree_of ([(''type'', JStr ''noul''), (''instructions'', instructions)] @
            (case criteria of
               None \<Rightarrow> []
             | Some c \<Rightarrow> [(''criteria'', JObj (btree_of [(''true'', c_yes c), (''false'', c_no c)]))])))
      | QChoice instructions options \<Rightarrow>
          JObj (btree_of [(''type'', JStr ''choice''), (''instructions'', instructions),
            (''criteria'', JObj (btree_of (map (\<lambda>(name, d). (name, unwrap_or d JNull)) options)))])
      | QScore instructions levels \<Rightarrow>
          JObj (btree_of [(''type'', JStr ''score''), (''instructions'', instructions), (''criteria'', JArr levels)]))"

definition canonical_json :: "(string \<times> question) list \<Rightarrow> json" where
  "canonical_json qs = JObj (btree_of (map (\<lambda>(i, q). (i, canonical_question q)) qs))"

definition short_hash :: "(json \<Rightarrow> string) \<Rightarrow> (string \<times> question) list \<Rightarrow> string" where
  "short_hash digest qs = take HASH_CHARS (digest (canonical_json qs))"

definition turn_questions :: "(json \<Rightarrow> string) \<Rightarrow> language list \<Rightarrow> question_set" where
  "turn_questions digest langs =
     (let qs = fold (\<lambda>p qs. btree_insert (question_key p GUIDING) (rejects_path_question p)
            (btree_extend (per_party p langs) qs)) [Buyer, Seller] case_facts
      in \<lparr>q_version = QUESTION_SET_VERSION @ ''-'' @ short_hash digest qs, q_questions = qs\<rparr>)"

definition for_turn :: "question_set \<Rightarrow> party list \<Rightarrow> bool \<Rightarrow> question_set" where
  "for_turn all with_new_messages guiding =
     \<lparr>q_version = q_version all,
      q_questions = filter (\<lambda>(i, _). case split_party i of
          None \<Rightarrow> True
        | Some (p, suffix) \<Rightarrow> p \<in> set with_new_messages \<and> (suffix \<noteq> GUIDING \<or> guiding)) (q_questions all)\<rparr>"

section \<open>Lemmas on sorted maps\<close>

fun key_insert :: "'k::linorder \<Rightarrow> 'k list \<Rightarrow> 'k list" where
  "key_insert k [] = [k]"
| "key_insert k (a # xs) = (if k < a then k # a # xs else if k = a then k # xs else a # key_insert k xs)"

lemma btree_insert_keys: "map fst (btree_insert k v xs) = key_insert k (map fst xs)"
  by (induction k v xs rule: btree_insert.induct) auto

lemma btree_extend_keys: "map fst (btree_extend kvs xs) = fold key_insert (map fst kvs) (map fst xs)"
  by (induction kvs arbitrary: xs) (auto simp: btree_extend_def btree_insert_keys)

lemma btree_of_keys: "map fst (btree_of kvs) = fold key_insert (map fst kvs) []"
  by (simp add: btree_of_def btree_extend_keys)

lemma set_key_insert [simp]: "set (key_insert k xs) = insert k (set xs)"
  by (induction k xs rule: key_insert.induct) auto

lemma sorted_key_insert: "sorted_wrt (<) xs \<Longrightarrow> sorted_wrt (<) (key_insert k xs)"
  by (induction k xs rule: key_insert.induct) auto

lemma sorted_key_fold: "sorted_wrt (<) xs \<Longrightarrow> sorted_wrt (<) (fold key_insert ks xs)"
  by (induction ks arbitrary: xs) (auto simp: sorted_key_insert)

lemma map_of_btree_insert: "sorted_wrt (<) (map fst xs) \<Longrightarrow> map_of (btree_insert k v xs) = (map_of xs)(k \<mapsto> v)"
  by (induction k v xs rule: btree_insert.induct) (auto simp: fun_eq_iff)

lemma map_of_btree_extend:
  "sorted_wrt (<) (map fst xs) \<Longrightarrow> map_of (btree_extend kvs xs) = map_of xs ++ map_of (rev kvs)"
proof (induction kvs arbitrary: xs)
  case (Cons kv kvs)
  obtain k v where kv: "kv = (k, v)" by (cases kv)
  have "sorted_wrt (<) (map fst (btree_insert k v xs))"
    using Cons.prems by (simp add: btree_insert_keys sorted_key_insert)
  then have "map_of (btree_extend kvs (btree_insert k v xs)) = map_of (btree_insert k v xs) ++ map_of (rev kvs)"
    by (rule Cons.IH)
  then show ?case
    using Cons.prems by (auto simp: btree_extend_def kv map_of_btree_insert map_add_def fun_eq_iff split: option.splits)
qed (simp add: btree_extend_def)

lemma map_of_btree_of: "map_of (btree_of kvs) = map_of (rev kvs)"
  by (simp add: btree_of_def map_of_btree_extend)

lemma sorted_btree_of: "sorted_wrt (<) (map fst (btree_of kvs))"
  unfolding btree_of_keys by (rule sorted_key_fold) simp

lemma sorted_maps_equal:
  fixes xs ys :: "('k::linorder \<times> 'v) list"
  assumes "sorted_wrt (<) (map fst xs)" and "sorted_wrt (<) (map fst ys)" and "map_of xs = map_of ys"
  shows "xs = ys"
proof -
  have d: "distinct (map fst xs)" "distinct (map fst ys)"
    using assms(1,2) unfolding strict_sorted_iff by blast+
  have srt: "sorted (map fst xs)" "sorted (map fst ys)"
    using assms(1,2) unfolding strict_sorted_iff by blast+
  have eq: "set xs = set ys" using d assms(3) by (simp add: map_of_inject_set)
  have "inj_on fst (set xs \<union> set ys)" using d(1) by (simp add: eq [symmetric] distinct_map)
  then show ?thesis
    using srt eq d by (intro map_sorted_distinct_set_unique [of fst]) simp_all
qed

section \<open>What a turn asks\<close>

definition case_ids :: "string list" where
  "case_ids = [''buyer_details'', ''buyer_payment'', ''claims_conflict'', ''dispute_topic'', ''fraud_signal'',
     ''seller_checked'', ''seller_receipt'']"

lemma case_facts_keys: "map fst case_facts = case_ids"
proof -
  have "map fst case_facts = fold key_insert [''buyer_payment'', ''buyer_details'', ''seller_receipt'',
      ''seller_checked'', ''claims_conflict'', ''fraud_signal'', ''dispute_topic''] []"
    unfolding case_facts_def btree_of_keys by (simp only: list.map fst_conv)
  also have "\<dots> = case_ids" by code_simp
  finally show ?thesis .
qed

lemma per_party_keys: "map fst (per_party p langs) = map (question_key p) [''language'', ''message_kind'', ''wants_human'']"
proof -
  have "map fst (per_party p langs) = fold key_insert
      [question_key p ''message_kind'', question_key p ''language'', question_key p ''wants_human''] []"
    unfolding per_party_def btree_of_keys by (simp only: list.map fst_conv)
  also have "\<dots> = map (question_key p) [''language'', ''message_kind'', ''wants_human'']"
    by (cases p; hypsubst, code_simp)
  finally show ?thesis .
qed

lemma turn_question_keys:
  "set (map fst (q_questions (turn_questions digest langs))) =
     set case_ids \<union> {question_key p suffix | p suffix. suffix \<in> insert GUIDING (set PER_PARTY)}"
proof -
  have "map fst (q_questions (turn_questions digest langs)) =
      fold (\<lambda>p ks. key_insert (question_key p GUIDING)
        (fold key_insert (map (question_key p) [''language'', ''message_kind'', ''wants_human'']) ks)) [Buyer, Seller] case_ids"
    by (simp only: turn_questions_def Let_def question_set.select_convs fold.simps comp_def id_def
        btree_insert_keys btree_extend_keys per_party_keys case_facts_keys)
  then have "set (map fst (q_questions (turn_questions digest langs))) =
      set case_ids \<union> {question_key p suffix | p suffix. p \<in> {Buyer, Seller} \<and> suffix \<in> insert GUIDING (set PER_PARTY)}"
    by (auto simp: PER_PARTY_def)
  moreover have "p \<in> {Buyer, Seller}" for p by (cases p) auto
  ultimately show ?thesis by simp
qed

lemma split_party_case: "i \<in> set case_ids \<Longrightarrow> split_party i = None"
proof -
  have "list_all (\<lambda>i. split_party i = None) case_ids" by code_simp
  then show "i \<in> set case_ids \<Longrightarrow> split_party i = None" by (simp add: list_all_iff)
qed

lemma split_party_key:
  "suffix \<in> insert GUIDING (set PER_PARTY) \<Longrightarrow> split_party (question_key p suffix) = Some (p, suffix)"
proof -
  have "list_all (\<lambda>(p, suffix). split_party (question_key p suffix) = Some (p, suffix))
      (List.product [Buyer, Seller] (GUIDING # PER_PARTY))" by code_simp
  then have "\<forall>p \<in> {Buyer, Seller}. \<forall>suffix \<in> insert GUIDING (set PER_PARTY).
      split_party (question_key p suffix) = Some (p, suffix)"
    unfolding list_all_iff set_product by auto
  moreover have "p \<in> {Buyer, Seller}" by (cases p) auto
  ultimately show "suffix \<in> insert GUIDING (set PER_PARTY) \<Longrightarrow> split_party (question_key p suffix) = Some (p, suffix)"
    by blast
qed

text \<open>
  A turn asks what it should. Whatever languages are enabled, the questions of a turn
  are the seven case facts, the three per-party questions of exactly the parties who wrote, and
  \<open>rejects_path\<close> for those while guiding; each is the question of the full set, asked under the
  full set's identifier, so a judge that can express the full set can express every turn.
\<close>

theorem turn_asks_the_right_questions:
  assumes "all = turn_questions digest langs"
  shows "q_version (for_turn all wrote guiding) = q_version all \<and>
    set (q_questions (for_turn all wrote guiding)) \<subseteq> set (q_questions all) \<and>
    set (map fst (q_questions (for_turn all wrote guiding))) =
      set case_ids \<union> {question_key p suffix | p suffix. p \<in> set wrote \<and>
        (suffix \<in> set PER_PARTY \<or> guiding \<and> suffix = GUIDING)} \<and>
    (capabilities_check c all = [] \<longrightarrow> capabilities_check c (for_turn all wrote guiding) = [])"
proof -
  let ?P = "\<lambda>i. case split_party i of None \<Rightarrow> True
      | Some (p, suffix) \<Rightarrow> p \<in> set wrote \<and> (suffix \<noteq> GUIDING \<or> guiding)"
  have f: "for_turn all wrote guiding = \<lparr>q_version = q_version all, q_questions = filter (\<lambda>(i, _). ?P i) (q_questions all)\<rparr>"
    by (simp add: for_turn_def)
  have "set (map fst (q_questions (for_turn all wrote guiding))) = {i \<in> set (map fst (q_questions all)). ?P i}"
    unfolding f by force
  also have "{i \<in> set (map fst (q_questions all)). ?P i} =
      set case_ids \<union> {question_key p suffix | p suffix. p \<in> set wrote \<and>
        (suffix \<in> set PER_PARTY \<or> guiding \<and> suffix = GUIDING)}"
    (is "?L = ?R")
  proof (rule set_eqI)
    fix i
    consider "i \<in> set case_ids" | p suffix where "i = question_key p suffix" "suffix \<in> insert GUIDING (set PER_PARTY)"
        "split_party i = Some (p, suffix)" | "i \<notin> set case_ids"
        "\<forall>p suffix. suffix \<in> insert GUIDING (set PER_PARTY) \<longrightarrow> i \<noteq> question_key p suffix"
      using split_party_key by blast
    then show "i \<in> ?L \<longleftrightarrow> i \<in> ?R"
    proof cases
      case 1
      then show ?thesis unfolding assms turn_question_keys by (simp add: split_party_case)
    next
      case 2
      have G: "GUIDING \<notin> set PER_PARTY" by code_simp
      have "(\<exists>q s. i = question_key q s \<and> q \<in> set wrote \<and> (s \<in> set PER_PARTY \<or> guiding \<and> s = GUIDING)) \<longleftrightarrow>
          p \<in> set wrote \<and> (suffix \<in> set PER_PARTY \<or> guiding \<and> suffix = GUIDING)"
        using 2 split_party_key by (metis insertCI option.inject prod.inject)
      moreover have "i \<notin> set case_ids" using 2(3) split_party_case by force
      ultimately show ?thesis
        using 2 G unfolding assms turn_question_keys by auto
    next
      case 3
      then show ?thesis unfolding assms turn_question_keys by blast
    qed
  qed
  finally have keys: "set (map fst (q_questions (for_turn all wrote guiding))) = ?R" .
  show ?thesis
    using keys by (auto simp: f capabilities_check_def)
qed

definition example_caps :: capabilities where
  "example_caps = \<lparr>question_kinds = [KNoul, KChoice, KScore], max_choice_options = 255, max_score_levels = 10,
     max_context_tokens = None\<rparr>"

lemma turn_asks_the_right_questions_witness:
  "set (map fst (q_questions (for_turn (turn_questions (\<lambda>_. ''0123456789'') [\<lparr>l_code = ''en'', l_name = ''English''\<rparr>])
      [Seller] False))) = set (case_ids @ map (question_key Seller) PER_PARTY)"
  using turn_asks_the_right_questions [OF refl, of "\<lambda>_. ''0123456789''" "[\<lparr>l_code = ''en'', l_name = ''English''\<rparr>]"
      "[Seller]" False example_caps] by (auto simp: PER_PARTY_def)

section \<open>The identifier\<close>

lemma btree_insert_map: "map (\<lambda>(i, q). (i, f q)) (btree_insert k v xs) = btree_insert k (f v) (map (\<lambda>(i, q). (i, f q)) xs)"
  by (induction k v xs rule: btree_insert.induct) auto

lemma btree_extend_map:
  "map (\<lambda>(i, q). (i, f q)) (btree_extend kvs xs) = btree_extend (map (\<lambda>(i, q). (i, f q)) kvs) (map (\<lambda>(i, q). (i, f q)) xs)"
  by (induction kvs arbitrary: xs) (auto simp: btree_extend_def btree_insert_map)

lemma btree_of_map: "map (\<lambda>(i, q). (i, f q)) (btree_of kvs) = btree_of (map (\<lambda>(i, q). (i, f q)) kvs)"
  by (simp add: btree_of_def btree_extend_map)

lemma btree_of_cong:
  fixes xs ys :: "('k::linorder \<times> 'v) list"
  shows "map_of (rev xs) = map_of (rev ys) \<Longrightarrow> btree_of xs = btree_of ys"
  by (rule sorted_maps_equal [OF sorted_btree_of sorted_btree_of]) (simp add: map_of_btree_of)

lemma canonical_language_options:
  assumes "set langs = set langs'" and "distinct (map l_code langs)" and "distinct (map l_code langs')"
  shows "canonical_question (choice_question ins (map (\<lambda>l. (l_code l, l_name l)) langs @ rest)) =
    canonical_question (choice_question ins (map (\<lambda>l. (l_code l, l_name l)) langs' @ rest))"
proof -
  let ?o = "\<lambda>ls. map (\<lambda>l. (l_code l, JStr (l_name l))) ls"
  have "map_of (rev (?o langs)) = map_of (rev (?o langs'))"
  proof (rule map_of_eqI)
    show "set (map fst (rev (?o langs))) = set (map fst (rev (?o langs')))" using assms(1) by (simp add: image_image)
    show "\<forall>k \<in> set (map fst (rev (?o langs))). map_of (rev (?o langs)) k = map_of (rev (?o langs')) k"
    proof
      fix k assume "k \<in> set (map fst (rev (?o langs)))"
      then obtain l where l: "l \<in> set langs" "k = l_code l" by auto
      have "map_of (rev (?o ls)) k = Some (JStr (l_name l))" if "set ls = set langs" "distinct (map l_code ls)" for ls
        by (rule map_of_is_SomeI) (use that l in \<open>auto simp: comp_def rev_map [symmetric]\<close>)
      then show "map_of (rev (?o langs)) k = map_of (rev (?o langs')) k" using assms by simp
    qed
  qed
  then have "btree_of (?o langs @ map (\<lambda>(n, d). (n, JStr d)) rest) = btree_of (?o langs' @ map (\<lambda>(n, d). (n, JStr d)) rest)"
    by (intro btree_of_cong) simp
  then show ?thesis
    by (simp add: canonical_question_def choice_question_def comp_def case_prod_unfold)
qed

abbreviation canonical :: "(string \<times> question) list \<Rightarrow> (string \<times> json) list" where
  "canonical qs \<equiv> map (\<lambda>(i, q). (i, canonical_question q)) qs"

lemma canonical_per_party:
  assumes "set langs = set langs'" and "distinct (map l_code langs)" and "distinct (map l_code langs')"
  shows "canonical (per_party p langs) = canonical (per_party p langs')"
  unfolding per_party_def btree_of_map list.map prod.case canonical_language_options [OF assms] ..

text \<open>
  The identifier of the question set depends on which languages are enabled, not on
  the order they are listed in: two configurations with the same languages, each code once, share
  recordings and calibration.
\<close>

theorem version_ignores_language_order:
  assumes "set langs = set langs'" and "distinct (map l_code langs)" and "distinct (map l_code langs')"
  shows "q_version (turn_questions digest langs) = q_version (turn_questions digest langs')"
proof -
  have "canonical (q_questions (turn_questions digest langs)) = canonical (q_questions (turn_questions digest langs'))"
    by (simp only: turn_questions_def Let_def question_set.select_convs fold.simps comp_def id_def
        btree_insert_map btree_extend_map canonical_per_party [OF assms])
  then have "canonical_json (q_questions (turn_questions digest langs)) = canonical_json (q_questions (turn_questions digest langs'))"
    by (simp add: canonical_json_def)
  then show ?thesis by (simp add: turn_questions_def Let_def short_hash_def)
qed

lemma version_ignores_language_order_witness:
  "q_version (turn_questions (\<lambda>_. ''0123456789'') [\<lparr>l_code = ''en'', l_name = ''English''\<rparr>, \<lparr>l_code = ''es'', l_name = ''Spanish''\<rparr>]) =
   q_version (turn_questions (\<lambda>_. ''0123456789'') [\<lparr>l_code = ''es'', l_name = ''Spanish''\<rparr>, \<lparr>l_code = ''en'', l_name = ''English''\<rparr>])"
  by (rule version_ignores_language_order) auto

end
