(* ===== verification/Judge_Brief.thy ===== *)
theory Judge_Brief
  imports Judge_Questions
begin

text \<open>
  \<open>src/src/judge/brief.rs\<close>: the questions of the brief request over one state, and the reading of
  their answers.
\<close>

section \<open>Definitions\<close>

definition QUOTE_BUYER_PAYMENT :: string where "QUOTE_BUYER_PAYMENT = ''quote_buyer_payment''"
definition QUOTE_BUYER_DETAILS :: string where "QUOTE_BUYER_DETAILS = ''quote_buyer_details''"
definition QUOTE_SELLER_RECEIPT :: string where "QUOTE_SELLER_RECEIPT = ''quote_seller_receipt''"
definition QUOTE_CONCERN :: string where "QUOTE_CONCERN = ''quote_concern''"
definition EVIDENCE_BALANCE :: string where "EVIDENCE_BALANCE = ''evidence_balance''"
definition NONE :: string where "NONE = ''none''"
definition MAX_QUOTE_OPTIONS :: nat where "MAX_QUOTE_OPTIONS = 100"

datatype quoted = Quoted_Buyer | Quoted_Seller | Quoted_Parties

fun quoted_includes :: "quoted \<Rightarrow> string \<Rightarrow> bool" where
  "quoted_includes Quoted_Buyer from = (from = ''buyer'')"
| "quoted_includes Quoted_Seller from = (from = ''seller'')"
| "quoted_includes Quoted_Parties from = (from = ''buyer'' \<or> from = ''seller'')"

record quote_spec =
  qt_id :: string
  qt_quoted :: quoted
  qt_instructions :: string
  qt_none :: string

definition QUOTES :: "quote_spec list" where
  "QUOTES =
    [\<lparr>qt_id = QUOTE_BUYER_PAYMENT, qt_quoted = Quoted_Buyer,
      qt_instructions = ''Which message in `transcript` is the buyer's clearest statement about whether they sent the fiat payment?'',
      qt_none = ''No buyer message addresses this.''\<rparr>,
     \<lparr>qt_id = QUOTE_BUYER_DETAILS, qt_quoted = Quoted_Buyer,
      qt_instructions = ''Which message in `transcript` contains the buyer's most specific payment details?'',
      qt_none = ''No buyer message contains payment details.''\<rparr>,
     \<lparr>qt_id = QUOTE_SELLER_RECEIPT, qt_quoted = Quoted_Seller,
      qt_instructions = ''Which message in `transcript` is the seller's clearest statement about whether the fiat payment arrived?'',
      qt_none = ''No seller message addresses this.''\<rparr>,
     \<lparr>qt_id = QUOTE_CONCERN, qt_quoted = Quoted_Parties,
      qt_instructions = ''Which message in `transcript` is the strongest sign of bad faith, contradiction, or a problem a human should read first?'',
      qt_none = ''Nothing stands out.''\<rparr>]"

definition EVIDENCE_INSTRUCTIONS :: string where
  "EVIDENCE_INSTRUCTIONS = ''Considering only what the parties wrote in `transcript`, how strongly does the conversation indicate that the buyer actually sent the fiat payment?''"

definition EVIDENCE_LEVELS :: "string list" where
  "EVIDENCE_LEVELS =
    [''The buyer says they did not pay, or the conversation clearly indicates no payment was made.'',
     ''The buyer's claim to have paid is vague or contradicted and unsupported by details.'',
     ''There is not enough information to lean either way.'',
     ''The buyer gives specific, consistent payment details, but the seller has not confirmed receipt.'',
     ''The seller confirms the payment arrived.'']"

definition quote_question :: "quote_spec \<Rightarrow> string list \<Rightarrow> question" where
  "quote_question q ids =
     QChoice (JStr (qt_instructions q)) (map (\<lambda>i. (i, None)) ids @ [(NONE, Some (JStr (qt_none q)))])"

definition evidence_question :: question where
  "evidence_question = QScore (JStr EVIDENCE_INSTRUCTIONS) (map JStr EVIDENCE_LEVELS)"

fun as_array :: "json \<Rightarrow> json list option" where
  "as_array (JArr xs) = Some xs"
| "as_array _ = None"

definition quotable_ids :: "json \<Rightarrow> quoted \<Rightarrow> string list" where
  "quotable_ids state q =
     (let ids = List.map_filter (\<lambda>m. as_str (jget m ''id''))
            (filter (\<lambda>m. case as_str (jget m ''from'') of None \<Rightarrow> False | Some from \<Rightarrow> quoted_includes q from)
              (unwrap_or (as_array (jget state ''transcript'')) []))
      in drop (length ids - MAX_QUOTE_OPTIONS) ids)"

definition brief_questions_id :: "(json \<Rightarrow> string) \<Rightarrow> string" where
  "brief_questions_id digest =
     QUESTION_SET_VERSION @ ''-'' @
       short_hash digest (btree_of (map (\<lambda>q. (qt_id q, quote_question q [])) QUOTES @
         [(EVIDENCE_BALANCE, evidence_question)]))"

definition brief_for_state :: "(json \<Rightarrow> string) \<Rightarrow> json \<Rightarrow> question_set" where
  "brief_for_state digest state =
     (let quotes = btree_of (List.map_filter (\<lambda>q. let ids = quotable_ids state (qt_quoted q)
            in if ids = [] then None else Some (qt_id q, quote_question q ids)) QUOTES)
      in \<lparr>q_version = brief_questions_id digest,
          q_questions = btree_insert EVIDENCE_BALANCE evidence_question quotes\<rparr>)"

record evidence_balance =
  eb_value :: rat
  eb_distribution :: "rat list"

record brief =
  quote_buyer_payment :: "string option"
  quote_buyer_details :: "string option"
  quote_seller_receipt :: "string option"
  quote_concern :: "string option"
  br_evidence_balance :: "evidence_balance option"

definition default_brief :: brief where
  "default_brief = \<lparr>quote_buyer_payment = None, quote_buyer_details = None, quote_seller_receipt = None,
     quote_concern = None, br_evidence_balance = None\<rparr>"

definition kept_quote :: "json \<Rightarrow> answers \<Rightarrow> thresholds \<Rightarrow> string \<Rightarrow> string option" where
  "kept_quote state as th i =
     (case find (\<lambda>q. qt_id q = i) QUOTES of
        None \<Rightarrow> None
      | Some spec \<Rightarrow>
          (case map_of as i of
             None \<Rightarrow> None
           | Some a \<Rightarrow>
               (case winner a of
                  None \<Rightarrow> None
                | Some w \<Rightarrow>
                    (if w \<noteq> NONE \<and> th_fact th \<le> share a w \<and> w \<in> set (quotable_ids state (qt_quoted spec))
                     then Some w else None))))"

definition brief_from_answers :: "json \<Rightarrow> answers \<Rightarrow> thresholds \<Rightarrow> brief" where
  "brief_from_answers state as th =
     \<lparr>quote_buyer_payment = kept_quote state as th QUOTE_BUYER_PAYMENT,
      quote_buyer_details = kept_quote state as th QUOTE_BUYER_DETAILS,
      quote_seller_receipt = kept_quote state as th QUOTE_SELLER_RECEIPT,
      quote_concern = kept_quote state as th QUOTE_CONCERN,
      br_evidence_balance = (case map_of as EVIDENCE_BALANCE of
          Some (Score probabilities) \<Rightarrow>
            map_option (\<lambda>v. \<lparr>eb_value = v, eb_distribution = probabilities\<rparr>) (score_value (Score probabilities))
        | _ \<Rightarrow> None)\<rparr>"

section \<open>Who is quoted\<close>

fun quoted_party :: "quoted \<Rightarrow> party \<Rightarrow> bool" where
  "quoted_party Quoted_Buyer p = (p = Buyer)"
| "quoted_party Quoted_Seller p = (p = Seller)"
| "quoted_party Quoted_Parties p = True"

lemma quoted_includes_from:
  "quoted_includes q (case d of Out \<Rightarrow> ''serbero'' | In \<Rightarrow> party_str p) \<longleftrightarrow> d = In \<and> quoted_party q p"
  by (cases q; cases d; cases p) simp_all

lemma map_filter_map_Some: "List.map_filter (\<lambda>x. Some (f x)) xs = map f xs"
  by (induction xs) (simp_all add: List.map_filter_simps)

lemma quotable_ids_built:
  "quotable_ids (st_value (build_state nip19 ses opened_by ms max_chars)) q =
     (let is = filter (\<lambda>i. m_direction (ms ! i) = In \<and> quoted_party q (m_party (ms ! i))) [0..<length ms]
      in map short_id (drop (length is - MAX_QUOTE_OPTIONS) is))"
proof -
  have "List.map_filter (\<lambda>m. as_str (jget m ''id''))
      (filter (\<lambda>m. case as_str (jget m ''from'') of None \<Rightarrow> False | Some from \<Rightarrow> quoted_includes q from)
        (map (\<lambda>i. state_entry nip19 max_chars i (ms ! i)) xs)) =
      map short_id (filter (\<lambda>i. m_direction (ms ! i) = In \<and> quoted_party q (m_party (ms ! i))) xs)" for xs
    by (induction xs) (simp_all add: state_entry_fields quoted_includes_from List.map_filter_simps)
  then show ?thesis
    unfolding quotable_ids_def built_transcript by (simp add: Let_def unwrap_or_def drop_map)
qed

lemma short_id_inject: "short_id i = short_id j \<longleftrightarrow> i = j"
  by (simp add: short_id_def dec_inject)

lemma quotable_message:
  assumes "length ms < 2 ^ 64" and "w \<in> set (quotable_ids (st_value st) q)"
    and "st = build_state nip19 ses opened_by ms max_chars"
  shows "\<exists>m \<in> set ms. message_id st w = Some (m_id m) \<and> m_direction m = In \<and> quoted_party q (m_party m)"
proof -
  obtain i where "i < length ms" "w = short_id i" "m_direction (ms ! i) = In" "quoted_party q (m_party (ms ! i))"
    using assms(2) unfolding assms(3) quotable_ids_built by (auto simp: Let_def dest!: in_set_dropD)
  then show ?thesis
    using message_id_short [OF assms(1), of i nip19 ses opened_by max_chars] by (auto simp: assms(3))
qed

lemma quote_ids_distinct: "distinct (map qt_id QUOTES)"
  by code_simp

text \<open>
  A quote in the brief is a message the right party wrote. Whatever the judge answered,
  checked or not, each quote kept resolves to a stored inbound message: the buyer's for the payment
  and its details, the seller's for the receipt, either party's for the concern; never a message
  of Serbero's and never an invented id. Its share of the probability reaches the \<open>fact\<close> threshold.
\<close>

theorem quotes_are_party_messages:
  assumes "length ms < 2 ^ 64" and "st = build_state nip19 ses opened_by ms max_chars"
    and "br = brief_from_answers (st_value st) as th"
    and "(field, q, i) \<in> {(quote_buyer_payment, Quoted_Buyer, QUOTE_BUYER_PAYMENT),
      (quote_buyer_details, Quoted_Buyer, QUOTE_BUYER_DETAILS),
      (quote_seller_receipt, Quoted_Seller, QUOTE_SELLER_RECEIPT), (quote_concern, Quoted_Parties, QUOTE_CONCERN)}"
    and "field br = Some w"
  shows "(\<exists>m \<in> set ms. message_id st w = Some (m_id m) \<and> m_direction m = In \<and> quoted_party q (m_party m)) \<and>
    (\<exists>a. map_of as i = Some a \<and> winner a = Some w \<and> th_fact th \<le> share a w)"
proof -
  have spec: "find (\<lambda>s. qt_id s = QUOTE_BUYER_PAYMENT) QUOTES = Some (QUOTES ! 0)"
    "find (\<lambda>s. qt_id s = QUOTE_BUYER_DETAILS) QUOTES = Some (QUOTES ! 1)"
    "find (\<lambda>s. qt_id s = QUOTE_SELLER_RECEIPT) QUOTES = Some (QUOTES ! 2)"
    "find (\<lambda>s. qt_id s = QUOTE_CONCERN) QUOTES = Some (QUOTES ! 3)"
    and party: "qt_quoted (QUOTES ! 0) = Quoted_Buyer" "qt_quoted (QUOTES ! 1) = Quoted_Buyer"
    "qt_quoted (QUOTES ! 2) = Quoted_Seller" "qt_quoted (QUOTES ! 3) = Quoted_Parties"
    using quote_ids_distinct by (simp_all add: QUOTES_def eval_nat_numeral)
  have "kept_quote (st_value st) as th i = Some w" "\<exists>s. find (\<lambda>s. qt_id s = i) QUOTES = Some s \<and> qt_quoted s = q"
    using assms(3-5) spec party by (auto simp: brief_from_answers_def)
  then have "w \<in> set (quotable_ids (st_value st) q)"
    and "\<exists>a. map_of as i = Some a \<and> winner a = Some w \<and> th_fact th \<le> share a w"
    by (auto simp: kept_quote_def split: option.splits if_splits)
  with quotable_message [OF assms(1) _ assms(2)] show ?thesis by blast
qed

definition brief_thresholds :: thresholds where
  "brief_thresholds = \<lparr>th_guide = 9 / 10, th_fact = 7 / 10, th_human_request = 7 / 10, th_fraud = 7 / 10,
     th_conflict = 7 / 10, th_outside_scope = 7 / 10, validated_languages = [''en'']\<rparr>"

lemma quotes_are_party_messages_witness:
  "\<exists>m \<in> set [message_row 7 (example_in Buyer ''e1'')].
     message_id (build_state example_nip19 (opening_row (example_session ''s1'' ''d1'')) InitBuyer
       [message_row 7 (example_in Buyer ''e1'')] 4000) (short_id 0) = Some (m_id m) \<and> m_party m = Buyer"
proof -
  let ?ms = "[message_row 7 (example_in Buyer ''e1'')]"
  let ?st = "build_state example_nip19 (opening_row (example_session ''s1'' ''d1'')) InitBuyer ?ms 4000"
  let ?as = "[(QUOTE_BUYER_PAYMENT, Choice [(short_id 0, 1), (NONE, 0)])]"
  have n: "short_id 0 \<noteq> NONE" by (simp add: short_id_def NONE_def)
  have spec: "find (\<lambda>s. qt_id s = QUOTE_BUYER_PAYMENT) QUOTES = Some (QUOTES ! 0)" "qt_quoted (QUOTES ! 0) = Quoted_Buyer"
    by (simp_all add: QUOTES_def)
  have "quote_buyer_payment (brief_from_answers (st_value ?st) ?as brief_thresholds) = Some (short_id 0)"
    unfolding brief_from_answers_def kept_quote_def quotable_ids_built
    using n by (simp add: spec brief_thresholds_def Let_def message_row_def example_in_def MAX_QUOTE_OPTIONS_def)
  from quotes_are_party_messages [where ms = ?ms and st = ?st and field = quote_buyer_payment and q = Quoted_Buyer and
      i = QUOTE_BUYER_PAYMENT, OF _ refl refl _ this] show ?thesis by simp
qed

section \<open>What is asked\<close>

lemma not_adjacent_equal: "distinct xs \<Longrightarrow> \<not> adjacent_equal xs"
  by (induction xs rule: adjacent_equal.induct) auto

lemma quotable_ids_facts:
  assumes "st = build_state nip19 ses opened_by ms max_chars"
  shows "distinct (quotable_ids (st_value st) q @ [NONE])" "length (quotable_ids (st_value st) q) \<le> MAX_QUOTE_OPTIONS"
proof -
  show "length (quotable_ids (st_value st) q) \<le> MAX_QUOTE_OPTIONS"
    by (simp add: assms quotable_ids_built Let_def)
  have "distinct (map short_id xs)" if "distinct xs" for xs
    using that by (simp add: distinct_map inj_on_def short_id_inject)
  moreover have "NONE \<noteq> short_id i" for i by (simp add: short_id_def NONE_def)
  ultimately show "distinct (quotable_ids (st_value st) q @ [NONE])"
    by (auto simp: assms quotable_ids_built Let_def distinct_drop)
qed

lemma set_btree_insert: "set (btree_insert k v xs) \<subseteq> insert (k, v) (set xs)"
  by (induction k v xs rule: btree_insert.induct) auto

lemma set_btree_of: "set (btree_of kvs) \<subseteq> set kvs"
proof -
  have "set (btree_extend kvs xs) \<subseteq> set kvs \<union> set xs" for xs
  proof (induction kvs arbitrary: xs)
    case (Cons kv kvs)
    obtain k v where kv: "kv = (k, v)" by (cases kv)
    have "btree_extend (kv # kvs) xs = btree_extend kvs (btree_insert k v xs)" by (simp add: btree_extend_def kv)
    with Cons.IH [of "btree_insert k v xs"] set_btree_insert [of k v xs] show ?case by (auto simp: kv)
  qed (simp add: btree_extend_def)
  then show ?thesis by (force simp: btree_of_def)
qed

text \<open>
  The brief request is always expressible and asks only about real messages. Over any
  built state, a quote question is asked only when there is a message to quote, offers at most the
  hundred newest of their messages plus \<open>none\<close>, each once, all under the same identifier; a judge
  that supports choices of 101 options and scores of five levels finds no problem with it.
\<close>

theorem brief_asks_about_real_messages:
  assumes "st = build_state nip19 ses opened_by ms max_chars" and "qs = brief_for_state digest (st_value st)"
    and "length ms < 2 ^ 64"
  shows "q_version qs = brief_questions_id digest \<and>
    (\<forall>(i, q) \<in> set (q_questions qs). (i, q) = (EVIDENCE_BALANCE, evidence_question) \<or>
       (\<exists>spec \<in> set QUOTES. \<exists>ids. i = qt_id spec \<and> q = quote_question spec ids \<and> ids \<noteq> [] \<and>
          length ids \<le> MAX_QUOTE_OPTIONS \<and> distinct ids \<and>
          (\<forall>w \<in> set ids. \<exists>m \<in> set ms. message_id st w = Some (m_id m) \<and> m_direction m = In \<and>
             quoted_party (qt_quoted spec) (m_party m)))) \<and>
    ({KChoice, KScore} \<subseteq> set (question_kinds c) \<and> MAX_QUOTE_OPTIONS + 1 \<le> max_choice_options c \<and>
       5 \<le> max_score_levels c \<longrightarrow> capabilities_check c qs = [])"
proof -
  let ?ok = "\<lambda>(i, q). (i, q) = (EVIDENCE_BALANCE, evidence_question) \<or>
      (\<exists>spec \<in> set QUOTES. let ids = quotable_ids (st_value st) (qt_quoted spec)
         in i = qt_id spec \<and> q = quote_question spec ids \<and> ids \<noteq> [])"
  have mem: "\<forall>iq \<in> set (q_questions qs). ?ok iq"
    using set_btree_insert [of EVIDENCE_BALANCE evidence_question] set_btree_of
    by (fastforce simp: assms(2) brief_for_state_def Let_def List.map_filter_def split: if_splits)
  have "\<forall>(i, q) \<in> set (q_questions qs). (i, q) = (EVIDENCE_BALANCE, evidence_question) \<or>
       (\<exists>spec \<in> set QUOTES. \<exists>ids. i = qt_id spec \<and> q = quote_question spec ids \<and> ids \<noteq> [] \<and>
          length ids \<le> MAX_QUOTE_OPTIONS \<and> distinct ids \<and>
          (\<forall>w \<in> set ids. \<exists>m \<in> set ms. message_id st w = Some (m_id m) \<and> m_direction m = In \<and>
             quoted_party (qt_quoted spec) (m_party m)))"
    using mem quotable_ids_facts [OF assms(1)] quotable_message [OF assms(3) _ assms(1)]
    by (fastforce simp: Let_def)
  moreover have "question_problems c iq = []" if iq: "iq \<in> set (q_questions qs)"
    and c: "{KChoice, KScore} \<subseteq> set (question_kinds c)" "MAX_QUOTE_OPTIONS + 1 \<le> max_choice_options c"
      "5 \<le> max_score_levels c" for iq
  proof (cases iq)
    case (Pair i q)
    with mem iq consider "q = evidence_question"
      | spec where "q = quote_question spec (quotable_ids (st_value st) (qt_quoted spec))"
          "quotable_ids (st_value st) (qt_quoted spec) \<noteq> []"
      by (fastforce simp: Let_def)
    then show ?thesis
    proof cases
      case 1
      with c show ?thesis by (simp add: Pair question_problems_def evidence_question_def EVIDENCE_LEVELS_def)
    next
      case 2
      let ?ids = "quotable_ids (st_value st) (qt_quoted spec)"
      have "\<not> adjacent_equal (sort (?ids @ [NONE]))"
        using quotable_ids_facts(1) [OF assms(1)] by (intro not_adjacent_equal) (metis distinct_sort)
      moreover have "2 \<le> length (?ids @ [NONE])" "length (?ids @ [NONE]) \<le> max_choice_options c"
        using 2(2) quotable_ids_facts(2) [OF assms(1), of "qt_quoted spec"] c(2) by (cases ?ids, simp_all)
      ultimately show ?thesis
        using c(1) 2(1) by (simp add: Pair question_problems_def quote_question_def comp_def)
    qed
  qed
  ultimately show ?thesis
    by (auto simp: capabilities_check_def assms(2) brief_for_state_def Let_def)
qed

lemma brief_asks_about_real_messages_witness:
  "capabilities_check example_caps (brief_for_state (\<lambda>_. ''0123456789'')
     (st_value (build_state example_nip19 (opening_row (example_session ''s1'' ''d1'')) InitBuyer
       [message_row 7 (example_in Buyer ''e1'')] 4000))) = []"
  using brief_asks_about_real_messages [OF refl refl, of "[message_row 7 (example_in Buyer ''e1'')]" "\<lambda>_. ''0123456789''"
      example_nip19 "opening_row (example_session ''s1'' ''d1'')" InitBuyer 4000 example_caps]
  by (simp add: example_caps_def MAX_QUOTE_OPTIONS_def)

end
