(* ===== verification/Solver_Text.thy ===== *)
theory Solver_Text
  imports Judge_Brief Session_View
begin

text \<open>
  \<open>src/src/solver/mod.rs\<close>: the texts sent to solvers. HOL's characters are the first 256 code
  points; the em dash of the reading lines and the arrow of the transcript lie outside them, and two
  control characters no text contains stand for them. A probability is printed with two decimals,
  rounded half to even as Rust rounds an exact tie. \<open>chunk\<close> loops without end for a zero budget, so
  its model is a partial function with \<open>None\<close> for that, and for the subtraction that would
  underflow in its callers.
\<close>

section \<open>Formatting\<close>

definition EM_DASH :: char where "EM_DASH = CHR 0x97"
definition ARROW :: char where "ARROW = CHR 0x92"
definition DOT :: char where "DOT = CHR 0xB7"
definition NL :: char where "NL = CHR 0x0A"
definition QUOTE_MARK :: char where "QUOTE_MARK = CHR 0x22"

fun join :: "string \<Rightarrow> string list \<Rightarrow> string" where
  "join sep [] = []"
| "join sep [x] = x"
| "join sep (x # y # xs) = x @ sep @ join sep (y # xs)"

definition round_half_even :: "rat \<Rightarrow> int" where
  "round_half_even x =
     (let f = \<lfloor>x\<rfloor>; r = x - of_int f
      in if r < 1 / 2 then f else if 1 / 2 < r then f + 1 else if even f then f else f + 1)"

definition pad_left :: "nat \<Rightarrow> string \<Rightarrow> string" where
  "pad_left n s = replicate (n - length s) CHR ''0'' @ s"

definition decimals :: "nat \<Rightarrow> rat \<Rightarrow> string" where
  "decimals k v =
     (let n = nat (round_half_even (\<bar>v\<bar> * 10 ^ k))
      in (if v < 0 then ''-'' else []) @ dec (n div 10 ^ k) @ ''.'' @ pad_left k (dec (n mod 10 ^ k)))"

definition percent :: "rat \<Rightarrow> string" where "percent v = decimals 2 v"

definition duration_text :: "int \<Rightarrow> string" where
  "duration_text s =
     (let minutes = max s 0 div 60
      in if minutes < 60 then dec_int minutes @ '' min''
         else dec_int (minutes div 60) @ '' h '' @ dec_int (minutes mod 60) @ '' min'')"

definition clock_text :: "int \<Rightarrow> string" where
  "clock_text t =
     (let day = t mod 86400
      in pad_left 2 (dec_int (day div 3600)) @ '':'' @ pad_left 2 (dec_int (day mod 3600 div 60)))"

definition upper_char :: "char \<Rightarrow> char" where
  "upper_char c = (if 97 \<le> (of_char c :: nat) \<and> (of_char c :: nat) \<le> 122
     then char_of ((of_char c :: nat) - 32) else c)"

fun capitalize :: "string \<Rightarrow> string" where
  "capitalize [] = []"
| "capitalize (c # cs) = upper_char c # cs"

definition attachments_note :: "nat \<Rightarrow> string" where
  "attachments_note n = (if n = 0 then [] else if n = 1 then ''  [1 attachment]''
     else ''  ['' @ dec n @ '' attachments]'')"

definition verbatim :: "(string \<Rightarrow> bool) \<Rightarrow> string \<Rightarrow> string" where
  "verbatim nip19 t = concat (map (\<lambda>c. if c = NL then [NL] @ ''  '' else [c]) (redact nip19 t))"

section \<open>The brief\<close>

definition MEDIATING :: string where "MEDIATING = ''mediating''"
definition OPENING_FAILED :: string where "OPENING_FAILED = ''mediation could not start''"

fun subject_text :: "subject \<Rightarrow> string" where
  "subject_text (Subject_Handoff reason) = ''handed off: '' @ handoff_reason_str reason"
| "subject_text (Subject_Guide p) = ''guidance sent: '' @ path_str p"

record order_facts =
  of_amount :: "string option"
  of_currency :: "string option"
  of_payment_method :: "string option"
  of_created_before :: "int option"

record reading =
  rd_state :: json
  rd_answers :: answers
  rd_facts :: facts
  rd_brief :: brief

record brief_input =
  bi_dispute_id :: string
  bi_subject :: subject
  bi_rounds :: nat
  bi_duration_secs :: int
  bi_order :: order_facts
  bi_buyer_language :: string
  bi_seller_language :: string
  bi_reading :: "reading option"
  bi_transcript_messages :: nat

definition dispute_line :: "string \<Rightarrow> string \<Rightarrow> string" where
  "dispute_line d rest = ''Dispute '' @ d @ '' '' @ [DOT] @ '' '' @ rest"

definition separated :: "string list \<Rightarrow> string" where
  "separated xs = join ('' '' @ [DOT] @ '' '') xs"

definition brief_header :: "brief_input \<Rightarrow> string" where
  "brief_header i = dispute_line (bi_dispute_id i) (subject_text (bi_subject i))"

definition topic_text :: "answers \<Rightarrow> string" where
  "topic_text as =
     (case map_of as ''dispute_topic'' of
        None \<Rightarrow> ''not_yet_clear''
      | Some a \<Rightarrow>
          (let w = unwrap_or (winner a) ''not_yet_clear'' in w @ '' ('' @ percent (share a w) @ '')''))"

definition trim_start :: "string \<Rightarrow> string" where "trim_start s = dropWhile is_white s"

definition order_line :: "order_facts \<Rightarrow> string option" where
  "order_line ord =
     (let amount = (case (of_amount ord, of_currency ord) of
              (Some a, Some c) \<Rightarrow> Some (a @ '' '' @ c)
            | _ \<Rightarrow> None);
          what0 = unwrap_or amount [];
          what = (case of_payment_method ord of
              None \<Rightarrow> what0
            | Some m \<Rightarrow> trim_start (what0 @ '' via '' @ m));
          parts = (if what = [] then [] else [what]) @
            (case of_created_before ord of
               None \<Rightarrow> []
             | Some b \<Rightarrow> [''created '' @ duration_text b @ '' before the dispute''])
      in if parts = [] then None else Some (''Order: '' @ separated parts))"

definition language_text :: "brief_input \<Rightarrow> party \<Rightarrow> string \<Rightarrow> string" where
  "language_text i p addressed_in =
     (let other = (case bi_reading i of
            None \<Rightarrow> False
          | Some r \<Rightarrow>
              (case map_of (rd_answers r) (party_str p @ ''_language'') of
                 None \<Rightarrow> False
               | Some a \<Rightarrow> winner a = Some ''other''))
      in if other then party_str p @ '' other (not enabled; addressed in '' @ addressed_in @ '')''
         else party_str p @ '' '' @ addressed_in)"

definition languages_line :: "brief_input \<Rightarrow> string" where
  "languages_line i = ''Languages: '' @
     separated [language_text i Buyer (bi_buyer_language i), language_text i Seller (bi_seller_language i)]"

definition claim_text :: "answers \<Rightarrow> string \<Rightarrow> string" where
  "claim_text as i =
     (case map_of as i of
        None \<Rightarrow> ''has not said''
      | Some a \<Rightarrow>
          (let w = unwrap_or (winner a) ''not_stated'';
               txt = (if w = ''says_sent'' then ''says sent''
                 else if w = ''says_not_sent'' then ''says not sent''
                 else if w = ''says_received'' then ''says received''
                 else if w = ''says_received_with_problem'' then ''says a payment arrived with a problem''
                 else if w = ''says_not_received'' then ''says not received''
                 else ''has not said'')
           in txt @ '' ('' @ percent (share a w) @ '')''))"

definition p_yes_of :: "answers \<Rightarrow> string \<Rightarrow> rat" where
  "p_yes_of as i = (case map_of as i of Some (Noul p) \<Rightarrow> p | _ \<Rightarrow> 0)"

definition noul_line :: "answers \<Rightarrow> string \<Rightarrow> string \<Rightarrow> string \<Rightarrow> string" where
  "noul_line as i yes no =
     (let p = p_yes_of as i
      in if 1 / 2 \<le> p then yes @ '' ('' @ percent p @ '')'' else no @ '' ('' @ percent (1 - p) @ '')'')"

definition signals_line :: "reading \<Rightarrow> string" where
  "signals_line r =
     (let human = (\<exists>p \<in> {Buyer, Seller}. case facts_party (rd_facts r) p of None \<Rightarrow> False | Some f \<Rightarrow> wants_human f)
      in ''Signals: '' @ separated
           [''conflict '' @ percent (p_yes_of (rd_answers r) ''claims_conflict''),
            ''fraud '' @ percent (p_yes_of (rd_answers r) ''fraud_signal''),
            ''human requested: '' @ (if human then ''yes'' else ''no'')])"

definition evidence_line :: "evidence_balance \<Rightarrow> string" where
  "evidence_line b =
     (let top = length (eb_distribution b) - 1
      in ''  evidence that fiat was sent: '' @ decimals 1 (eb_value b * of_nat top) @ '' / '' @ dec top @ ''  ['' @
         join '' '' (map (\<lambda>(i, q). dec i @ '':'' @ percent q) (enumerate 0 (eb_distribution b))) @ '']'')"

fun as_u64 :: "json \<Rightarrow> nat option" where
  "as_u64 (JInt i) = (if 0 \<le> i then Some (nat i) else None)"
| "as_u64 _ = None"

definition quoted_message :: "json \<Rightarrow> string \<Rightarrow> (string \<times> nat) option" where
  "quoted_message state i =
     (case as_array (jget state ''transcript'') of
        None \<Rightarrow> None
      | Some entries \<Rightarrow>
          (case find (\<lambda>m. as_str (jget m ''id'') = Some i) entries of
             None \<Rightarrow> None
           | Some entry \<Rightarrow>
               map_option (\<lambda>t. (t, unwrap_or (as_u64 (jget entry ''attachments'')) 0)) (as_str (jget entry ''text''))))"

definition quote_line :: "(string \<Rightarrow> bool) \<Rightarrow> json \<Rightarrow> string \<Rightarrow> string list" where
  "quote_line nip19 state i =
     (case quoted_message state i of
        None \<Rightarrow> []
      | Some (t, attachments) \<Rightarrow>
          [''  '' @ [QUOTE_MARK] @ verbatim nip19 t @ [QUOTE_MARK] @ attachments_note attachments])"

definition reading_lines :: "(string \<Rightarrow> bool) \<Rightarrow> reading \<Rightarrow> string list" where
  "reading_lines nip19 r =
     (let as = rd_answers r; br = rd_brief r;
          shown = first_occurrences (option_list (quote_buyer_payment br) @ option_list (quote_buyer_details br))
      in [''Buyer '' @ [EM_DASH] @ '' '' @ claim_text as ''buyer_payment'' @ '', '' @
            noul_line as ''buyer_details'' ''details given'' ''no details given''] @
         concat (map (quote_line nip19 (rd_state r)) shown) @
         [''Seller '' @ [EM_DASH] @ '' '' @ claim_text as ''seller_receipt'' @ '', '' @
            noul_line as ''seller_checked'' ''checked account'' ''has not said they checked''] @
         concat (map (quote_line nip19 (rd_state r)) (option_list (quote_seller_receipt br))) @
         [[], signals_line r] @
         (case quote_concern br of
            None \<Rightarrow> []
          | Some i \<Rightarrow>
              (case quoted_message (rd_state r) i of
                 None \<Rightarrow> []
               | Some (t, _) \<Rightarrow> [''First to read: '' @ [QUOTE_MARK] @ verbatim nip19 t @ [QUOTE_MARK]])) @
         (case br_evidence_balance br of
            None \<Rightarrow> []
          | Some b \<Rightarrow> [[], ''Reading of the conversation (advisory, not a verdict):'', evidence_line b]))"

definition brief_text :: "(string \<Rightarrow> bool) \<Rightarrow> brief_input \<Rightarrow> string" where
  "brief_text nip19 i =
     (let summary = separated [''rounds: '' @ dec (bi_rounds i), ''duration: '' @ duration_text (bi_duration_secs i)]
      in join [NL]
           ([brief_header i,
             (case bi_reading i of
                Some r \<Rightarrow> separated [''Topic: '' @ topic_text (rd_answers r), summary]
              | None \<Rightarrow> capitalize summary)] @
            option_list (order_line (bi_order i)) @
            [languages_line i, []] @
            (case bi_reading i of
               Some r \<Rightarrow> reading_lines nip19 r
             | None \<Rightarrow> [''Automated reading unavailable'']) @
            [[], ''Transcript ('' @ dec (bi_transcript_messages i) @ '' messages) follows in the next message.'']))"

section \<open>Transcripts and updates\<close>

datatype speaker = Speaker_Party party | Speaker_Serbero party

record line =
  ln_at :: int
  ln_speaker :: speaker
  ln_text :: string
  ln_attachments :: nat

definition MAX_DM_CHARS :: nat where "MAX_DM_CHARS = 30000"

definition speaker_text :: "speaker \<Rightarrow> string" where
  "speaker_text who = (case who of Speaker_Party p \<Rightarrow> party_str p
     | Speaker_Serbero p \<Rightarrow> ''serbero '' @ [ARROW] @ '' '' @ party_str p)"

definition transcript_line :: "(string \<Rightarrow> bool) \<Rightarrow> line \<Rightarrow> string" where
  "transcript_line nip19 l =
     ''['' @ clock_text (ln_at l) @ ''] '' @ speaker_text (ln_speaker l) @ '': '' @ verbatim nip19 (ln_text l) @
     attachments_note (ln_attachments l)"

text \<open>
  \<open>chunk\<close>: the inner loop places one line, \<open>rest\<close> being what is left of it; \<open>used\<close> is the number
  of characters in the body being filled.
\<close>

partial_function (option) place_line ::
    "nat \<Rightarrow> string list \<Rightarrow> string \<Rightarrow> nat \<Rightarrow> string \<Rightarrow> (string list \<times> string \<times> nat) option" where
  "place_line budget chunks current used rest =
     (let separator = (if 0 < used then 1 else 0); room = budget - (used + separator)
      in if room = 0 \<or> (0 < used \<and> room < length rest \<and> length rest \<le> budget)
         then place_line budget (chunks @ [current]) [] 0 rest
         else let current1 = (if separator = 1 then current @ [NL] else current);
                  used1 = used + separator;
                  n = min (length rest) room;
                  current2 = current1 @ take n rest; used2 = used1 + n; rest2 = drop n rest
              in if rest2 = [] then Some (chunks, current2, used2)
                 else place_line budget chunks current2 used2 rest2)"

declare place_line.simps [code]

fun place_lines :: "nat \<Rightarrow> string list \<Rightarrow> string list \<times> string \<times> nat \<Rightarrow> (string list \<times> string \<times> nat) option" where
  "place_lines budget [] acc = Some acc"
| "place_lines budget (l # ls) (chunks, current, used) =
     (case place_line budget chunks current used l of
        None \<Rightarrow> None
      | Some acc \<Rightarrow> place_lines budget ls acc)"

definition chunk :: "string list \<Rightarrow> nat \<Rightarrow> string list option" where
  "chunk ls budget =
     (case place_lines budget ls ([], [], 0) of
        None \<Rightarrow> None
      | Some (chunks, current, _) \<Rightarrow> Some (chunks @ [current]))"

definition checked_sub :: "nat \<Rightarrow> nat \<Rightarrow> nat option" where
  "checked_sub a b = (if b \<le> a then Some (a - b) else None)"

definition transcript_header :: "string \<Rightarrow> nat \<Rightarrow> (nat \<times> nat) option \<Rightarrow> string" where
  "transcript_header d count part =
     dispute_line d (''transcript ('' @ dec count @ '' messages, times UTC'' @
       (case part of None \<Rightarrow> [] | Some (i, n) \<Rightarrow> '', part '' @ dec i @ ''/'' @ dec n) @ '')'')"

definition transcript :: "(string \<Rightarrow> bool) \<Rightarrow> string \<Rightarrow> line list \<Rightarrow> string list option" where
  "transcript nip19 d ls =
     (let rendered = map (transcript_line nip19) ls;
          single = join [NL] (transcript_header d (length ls) None # rendered)
      in if length single \<le> MAX_DM_CHARS then Some [single]
         else case checked_sub MAX_DM_CHARS (length (transcript_header d (length ls) (Some (999, 999)))) of
             None \<Rightarrow> None
           | Some budget \<Rightarrow>
               (case chunk rendered budget of
                  None \<Rightarrow> None
                | Some chunks \<Rightarrow>
                    Some (map (\<lambda>(i, body). transcript_header d (length ls) (Some (i + 1, length chunks)) @ [NL] @ body)
                      (enumerate 0 chunks))))"

definition update_header :: "string \<Rightarrow> nat \<Rightarrow> string" where
  "update_header d count = dispute_line d (''new messages since handoff ('' @ dec count @ '')'')"

definition update_text :: "(string \<Rightarrow> bool) \<Rightarrow> string \<Rightarrow> line list \<Rightarrow> string list option" where
  "update_text nip19 d ls =
     (let header = update_header d (length ls)
      in case checked_sub MAX_DM_CHARS (length header + 1) of
           None \<Rightarrow> None
         | Some budget \<Rightarrow>
             map_option (map (\<lambda>body. header @ [NL] @ body)) (chunk (map (transcript_line nip19) ls) budget))"

section \<open>Notices and reports\<close>

definition mediation_started :: "string \<Rightarrow> string" where
  "mediation_started d = dispute_line d MEDIATING @ [NL] @
     ''Serbero is mediating this dispute. You can take it over at any time; Serbero stops as soon as you do.''"

definition opening_failed_text :: "string \<Rightarrow> string" where
  "opening_failed_text d = dispute_line d OPENING_FAILED @ [NL] @
     ''Serbero took this dispute but could not start mediation. Please take it over; Serbero will not write to the parties.''"

datatype outcome = NotMediated | SelfResolved | OutcomeHandedOff handoff_reason | OutcomeSuperseded

definition final_report :: "string \<Rightarrow> string \<Rightarrow> outcome \<Rightarrow> nat \<Rightarrow> int \<Rightarrow> string" where
  "final_report d status oc rounds duration_secs =
     (let first = dispute_line d (''resolved: '' @ status)
      in case oc of
           NotMediated \<Rightarrow> first @ [NL] @ ''mediation: no''
         | _ \<Rightarrow>
             first @ [NL] @ separated
               [''mediation: yes'',
                ''outcome: '' @ (case oc of SelfResolved \<Rightarrow> ''self_resolved''
                   | OutcomeHandedOff reason \<Rightarrow> ''handed_off ('' @ handoff_reason_str reason @ '')''
                   | _ \<Rightarrow> ''superseded''),
                ''rounds: '' @ dec rounds,
                ''duration: '' @ duration_text duration_secs])"

section \<open>Splitting\<close>

lemma join_snoc: "join sep (xs @ [x]) = (if xs = [] then x else join sep xs @ sep @ x)"
proof (induction xs)
  case (Cons a xs)
  then show ?case by (cases xs) auto
qed simp

text \<open>A line no longer than the budget is never split: it goes into the body, or starts the next.\<close>

lemma place_short_line:
  assumes "0 < budget" and "length l \<le> budget" and "used = length current" and "used \<le> budget"
  shows "place_line budget chunks current used l =
    (if used = 0 then Some (chunks, current @ l, length l)
     else if used + 1 + length l \<le> budget \<and> used + 1 < budget then Some (chunks, current @ [NL] @ l, used + 1 + length l)
     else Some (chunks @ [current], l, length l))"
proof -
  have empty: "place_line budget cs [] 0 l = Some (cs, l, length l)" for cs
    using assms(1,2) by (subst place_line.simps) (simp add: Let_def)
  show ?thesis
  proof (cases "used = 0")
    case True
    with empty assms(3) show ?thesis by simp
  next
    case False
    show ?thesis
    proof (cases "used + 1 + length l \<le> budget \<and> used + 1 < budget")
      case True
      with False show ?thesis by (subst place_line.simps) (auto simp: Let_def)
    next
      case no: False
      then have "place_line budget chunks current used l = place_line budget (chunks @ [current]) [] 0 l"
        using False assms by (subst place_line.simps) (auto simp: Let_def)
      with no False show ?thesis by (simp add: empty)
    qed
  qed
qed

definition plain :: "string \<Rightarrow> string" where "plain s = filter (\<lambda>c. c \<noteq> NL) s"

lemma plain_simps [simp]: "plain [] = []" "plain (xs @ ys) = plain xs @ plain ys" "plain (NL # xs) = plain xs"
  by (simp_all add: plain_def)

lemma place_line_total:
  assumes "0 < budget" and "used = length current" and "used \<le> budget"
  shows "\<exists>new current'. place_line budget chunks current used rest = Some (chunks @ new, current', length current') \<and>
    length current' \<le> budget \<and> (\<forall>c \<in> set new. length c \<le> budget) \<and>
    plain (concat new @ current') = plain current @ plain rest"
  using assms
proof (induction "2 * length rest + (if 0 < used then 1 else 0)" arbitrary: chunks current used rest rule: less_induct)
  case less
  let ?sep = "if 0 < used then 1 else 0 :: nat"
  let ?room = "budget - (used + ?sep)"
  show ?case
  proof (cases "?room = 0 \<or> (0 < used \<and> ?room < length rest \<and> length rest \<le> budget)")
    case True
    then have used: "0 < used" using less.prems(1) by (auto split: if_splits)
    then obtain new current' where r: "place_line budget (chunks @ [current]) [] 0 rest =
          Some ((chunks @ [current]) @ new, current', length current')"
      "length current' \<le> budget" "\<forall>c \<in> set new. length c \<le> budget" "plain (concat new @ current') = plain rest"
      using less.hyps [of rest 0 "[]" "chunks @ [current]"] less.prems(1) by auto
    have "place_line budget chunks current used rest = place_line budget (chunks @ [current]) [] 0 rest"
      using True by (subst place_line.simps) (simp add: Let_def)
    with r less.prems show ?thesis
      by (intro exI [of _ "current # new"] exI [of _ current']) simp
  next
    case False
    define cur2 where "cur2 = (if 0 < used then current @ [NL] else current) @ take (min (length rest) ?room) rest"
    define rest2 where "rest2 = drop (min (length rest) ?room) rest"
    have len: "length cur2 = used + ?sep + min (length rest) ?room" "length cur2 \<le> budget"
      using False less.prems by (auto simp: cur2_def)
    have pl: "plain cur2 @ plain rest2 = plain current @ plain rest"
      by (simp add: cur2_def rest2_def) (simp add: plain_def flip: filter_append)
    have step: "place_line budget chunks current used rest =
        (if rest2 = [] then Some (chunks, cur2, length cur2) else place_line budget chunks cur2 (length cur2) rest2)"
      using False len(1) by (subst place_line.simps) (auto simp: Let_def cur2_def rest2_def)
    show ?thesis
    proof (cases "rest2 = []")
      case True
      with step len(2) pl show ?thesis by (intro exI [of _ "[]"] exI [of _ cur2]) simp
    next
      case rest: False
      then have "2 * length rest2 + (if 0 < length cur2 then 1 else 0) < 2 * length rest + ?sep"
        using False by (auto simp: rest2_def split: if_splits)
      from less.hyps [OF this less.prems(1) refl len(2), of chunks] step rest pl show ?thesis by auto
    qed
  qed
qed

lemma place_lines_total:
  assumes "0 < budget" and "used = length current" and "used \<le> budget"
  shows "\<exists>new current'. place_lines budget ls (chunks, current, used) = Some (chunks @ new, current', length current') \<and>
    length current' \<le> budget \<and> (\<forall>c \<in> set new. length c \<le> budget) \<and>
    plain (concat new @ current') = plain current @ concat (map plain ls)"
  using assms
proof (induction ls arbitrary: chunks current used)
  case (Cons l ls)
  from place_line_total [OF Cons.prems, of chunks l] obtain new cur1 where
    1: "place_line budget chunks current used l = Some (chunks @ new, cur1, length cur1)" "length cur1 \<le> budget"
    "\<forall>c \<in> set new. length c \<le> budget" "plain (concat new @ cur1) = plain current @ plain l" by blast
  from Cons.IH [OF Cons.prems(1) refl 1(2), of "chunks @ new"] obtain new2 cur2 where
    2: "place_lines budget ls (chunks @ new, cur1, length cur1) = Some ((chunks @ new) @ new2, cur2, length cur2)"
    "length cur2 \<le> budget" "\<forall>c \<in> set new2. length c \<le> budget"
    "plain (concat new2 @ cur2) = plain cur1 @ concat (map plain ls)" by blast
  have "plain (concat (new @ new2) @ cur2) = plain current @ concat (map plain (l # ls))"
    using 1(4) 2(4) by (simp flip: append_assoc) (metis append_assoc)
  then show ?case
    using 1 2 by (intro exI [of _ "new @ new2"] exI [of _ cur2]) auto
qed simp

lemma chunk_total:
  assumes "0 < budget"
  shows "\<exists>cs. chunk ls budget = Some cs \<and> cs \<noteq> [] \<and> (\<forall>c \<in> set cs. length c \<le> budget) \<and>
    plain (concat cs) = concat (map plain ls)"
  using place_lines_total [OF assms refl, of "[]" ls "[]"] by (auto simp: chunk_def)

lemma place_lines_groups:
  assumes "0 < budget" and "\<forall>l \<in> set ls. l \<noteq> [] \<and> length l \<le> budget" and "\<forall>l \<in> set g. l \<noteq> []"
    and "length (join [NL] g) \<le> budget"
  shows "\<exists>gs' g'. place_lines budget ls (map (join [NL]) gs, join [NL] g, length (join [NL] g)) =
      Some (map (join [NL]) gs', join [NL] g', length (join [NL] g')) \<and> concat (gs' @ [g']) = concat (gs @ [g]) @ ls"
  using assms(2-)
proof (induction ls arbitrary: gs g)
  case (Cons l ls)
  have ne: "join [NL] g = [] \<longleftrightarrow> g = []" using Cons.prems(2) by (cases g; cases "tl g") auto
  note place = place_short_line [OF assms(1) _ refl Cons.prems(3), of l "map (join [NL]) gs"]
  show ?case
  proof (cases "g = []")
    case True
    have "place_line budget (map (join [NL]) gs) (join [NL] g) (length (join [NL] g)) l =
        Some (map (join [NL]) gs, join [NL] [l], length (join [NL] [l]))"
      using place Cons.prems(1) True by simp
    with Cons.IH [of "[l]" gs] Cons.prems(1) True show ?thesis by auto
  next
    case False
    show ?thesis
    proof (cases "length (join [NL] g) + 1 + length l \<le> budget \<and> length (join [NL] g) + 1 < budget")
      case True
      have "place_line budget (map (join [NL]) gs) (join [NL] g) (length (join [NL] g)) l =
          Some (map (join [NL]) gs, join [NL] (g @ [l]), length (join [NL] (g @ [l])))"
        using place Cons.prems(1) True False ne by (simp add: join_snoc)
      moreover have "length (join [NL] (g @ [l])) \<le> budget" using True False by (simp add: join_snoc)
      ultimately show ?thesis
        using Cons.IH [of "g @ [l]" gs] Cons.prems by auto
    next
      case no: False
      have "place_line budget (map (join [NL]) gs) (join [NL] g) (length (join [NL] g)) l =
          Some (map (join [NL]) (gs @ [g]), join [NL] [l], length (join [NL] [l]))"
        using place Cons.prems(1) no False ne by simp
      with Cons.IH [of "[l]" "gs @ [g]"] Cons.prems(1) show ?thesis by auto
    qed
  qed
qed auto

text \<open>
  Splitting loses nothing and ends. For any positive budget \<open>chunk\<close> returns, no body
  is longer than the budget, and the bodies hold all the characters of the lines in order, line
  breaks aside. If no line is longer than the budget, no line is split: the bodies are consecutive
  groups of whole lines.
\<close>

theorem chunks_complete:
  assumes "0 < budget"
  shows "\<exists>cs. chunk ls budget = Some cs \<and> (\<forall>c \<in> set cs. length c \<le> budget) \<and>
    plain (concat cs) = concat (map plain ls) \<and>
    ((\<forall>l \<in> set ls. l \<noteq> [] \<and> length l \<le> budget) \<longrightarrow>
      (\<exists>groups. cs = map (join [NL]) groups \<and> concat groups = ls))"
proof -
  obtain cs where cs: "chunk ls budget = Some cs" "\<forall>c \<in> set cs. length c \<le> budget" "plain (concat cs) = concat (map plain ls)"
    using chunk_total [OF assms] by blast
  have "\<exists>groups. cs = map (join [NL]) groups \<and> concat groups = ls" if short: "\<forall>l \<in> set ls. l \<noteq> [] \<and> length l \<le> budget"
  proof -
    from place_lines_groups [OF assms short, of "[]" "[]"] obtain gs g where
      "place_lines budget ls ([], [], 0) = Some (map (join [NL]) gs, join [NL] g, length (join [NL] g))"
      "concat (gs @ [g]) = ls" by auto
    with cs(1) show ?thesis by (intro exI [of _ "gs @ [g]"]) (auto simp: chunk_def)
  qed
  with cs show ?thesis by blast
qed

lemma chunks_complete_witness:
  "\<exists>groups. chunk [''ab'', ''cde'', ''f''] 6 = Some (map (join [NL]) groups) \<and> concat groups = [''ab'', ''cde'', ''f'']"
  using chunks_complete [of 6 "[''ab'', ''cde'', ''f'']"] by auto

lemma length_dec: "0 < k \<Longrightarrow> n < 10 ^ k \<Longrightarrow> length (dec n) \<le> k"
proof (induction k arbitrary: n)
  case (Suc k)
  show ?case
  proof (cases "n < 10")
    case True
    then show ?thesis by (subst dec.simps) simp
  next
    case False
    then have "0 < k" using Suc.prems by (cases k) auto
    moreover have "n div 10 < 10 ^ k" using Suc.prems by (simp add: less_mult_imp_div_less mult.commute)
    ultimately show ?thesis using Suc.IH [of "n div 10"] False by (subst dec.simps) simp
  qed
qed simp

lemma length_transcript_header:
  "length (transcript_header d count (Some (i, n))) = length (transcript_header d count None) + 8 + length (dec i) + length (dec n)"
  by (simp add: transcript_header_def dispute_line_def)

lemma length_dec_999: "length (dec 999) = 3"
  by (simp add: dec.simps)

text \<open>
  Property C37. Every solver message fits the limit, and nothing is left out. If the fixed header
  fits, an update always returns, each of its parts is at most 30000 characters, and the parts hold
  all the lines; so does a transcript, of at most 99 parts or in one (with 100 to 999 parts a part
  can be one character over, as the budget leaves no room for the line break after the header).
\<close>

theorem solver_messages_fit:
  assumes "length (update_header d (length ls)) + 1 < MAX_DM_CHARS"
    and "length (transcript_header d (length ls) (Some (999, 999))) < MAX_DM_CHARS"
    and "rendered = map (transcript_line nip19) ls" and "ls \<noteq> []"
  shows "(\<exists>bodies. update_text nip19 d ls = Some (map (\<lambda>b. update_header d (length ls) @ [NL] @ b) bodies) \<and>
       (\<forall>b \<in> set bodies. length (update_header d (length ls) @ [NL] @ b) \<le> MAX_DM_CHARS) \<and>
       plain (concat bodies) = concat (map plain rendered)) \<and>
    (\<exists>parts. transcript nip19 d ls = Some parts \<and> parts \<noteq> [] \<and>
       (length parts < 100 \<longrightarrow> (\<forall>part \<in> set parts. length part \<le> MAX_DM_CHARS)) \<and>
       (length parts < 1000 \<longrightarrow> (\<forall>part \<in> set parts. length part \<le> MAX_DM_CHARS + 1)) \<and>
       (\<exists>headers bodies. parts = map2 (\<lambda>h b. h @ [NL] @ b) headers bodies \<and> length headers = length bodies \<and>
          plain (concat bodies) = concat (map plain rendered)))"
proof
  let ?h = "update_header d (length ls)"
  let ?b = "MAX_DM_CHARS - (length ?h + 1)"
  obtain cs where cs: "chunk rendered ?b = Some cs" "\<forall>c \<in> set cs. length c \<le> ?b"
    "plain (concat cs) = concat (map plain rendered)"
    using chunk_total [of ?b rendered] assms(1) by auto
  then show "\<exists>bodies. update_text nip19 d ls = Some (map (\<lambda>b. ?h @ [NL] @ b) bodies) \<and>
       (\<forall>b \<in> set bodies. length (?h @ [NL] @ b) \<le> MAX_DM_CHARS) \<and>
       plain (concat bodies) = concat (map plain rendered)"
    using assms(1) by (intro exI [of _ cs]) (force simp: update_text_def checked_sub_def Let_def assms(3) [symmetric])
next
  let ?h = "\<lambda>part. transcript_header d (length ls) part"
  let ?single = "join [NL] (?h None # rendered)"
  show "\<exists>parts. transcript nip19 d ls = Some parts \<and> parts \<noteq> [] \<and>
       (length parts < 100 \<longrightarrow> (\<forall>part \<in> set parts. length part \<le> MAX_DM_CHARS)) \<and>
       (length parts < 1000 \<longrightarrow> (\<forall>part \<in> set parts. length part \<le> MAX_DM_CHARS + 1)) \<and>
       (\<exists>headers bodies. parts = map2 (\<lambda>h b. h @ [NL] @ b) headers bodies \<and> length headers = length bodies \<and>
          plain (concat bodies) = concat (map plain rendered))"
  proof (cases "length ?single \<le> MAX_DM_CHARS")
    case True
    have "plain (join [NL] xs) = concat (map plain xs)" for xs
      by (induction "[NL] :: string" xs rule: join.induct) simp_all
    moreover have "?single = ?h None @ [NL] @ join [NL] rendered" using assms(3,4) by (cases rendered) auto
    ultimately have "\<exists>headers bodies. [?single] = map2 (\<lambda>h b. h @ [NL] @ b) headers bodies \<and>
        length headers = length bodies \<and> plain (concat bodies) = concat (map plain rendered)"
      by (intro exI [of _ "[?h None]"] exI [of _ "[join [NL] rendered]"]) simp
    moreover have "transcript nip19 d ls = Some [?single]" using True by (simp add: transcript_def Let_def assms(3))
    ultimately show ?thesis using True by (intro exI [of _ "[?single]"]) simp
  next
    case False
    let ?b = "MAX_DM_CHARS - length (?h (Some (999, 999)))"
    obtain cs where cs: "chunk rendered ?b = Some cs" "\<forall>c \<in> set cs. length c \<le> ?b"
      "plain (concat cs) = concat (map plain rendered)" "cs \<noteq> []"
      using chunk_total [of ?b rendered] assms(2) by auto
    let ?hs = "map (\<lambda>i. ?h (Some (i + 1, length cs))) [0..<length cs]"
    let ?parts = "map2 (\<lambda>h b. h @ [NL] @ b) ?hs cs"
    have "transcript nip19 d ls = Some (map (\<lambda>(i, body). ?h (Some (i + 1, length cs)) @ [NL] @ body) (enumerate 0 cs))"
      using False cs(1) assms(2) by (simp add: transcript_def Let_def assms(3) [symmetric] checked_sub_def)
    also have "map (\<lambda>(i, body). ?h (Some (i + 1, length cs)) @ [NL] @ body) (enumerate 0 cs) = ?parts"
      by (rule nth_equalityI) (simp_all add: nth_enumerate_eq)
    finally have "transcript nip19 d ls = Some ?parts" .
    moreover have "length part \<le> MAX_DM_CHARS + 1 - 2 * (3 - k)" if "part \<in> set ?parts" "length cs < 10 ^ k" "0 < k" "k \<le> 3" for part k
    proof -
      note prem = that
      obtain i where i: "i < length cs" "part = ?h (Some (i + 1, length cs)) @ [NL] @ cs ! i"
        using prem(1) by (force simp: in_set_conv_nth)
      have "length (dec (i + 1)) \<le> k" "length (dec (length cs)) \<le> k"
        using length_dec [OF that(3), of "i + 1"] length_dec [OF that(3) that(2)] i(1) that(2) by simp_all
      moreover have "length (cs ! i) \<le> ?b" using cs(2) i(1) by simp
      ultimately show ?thesis
        using that(4) assms(2) by (simp add: i(2) length_transcript_header length_dec_999)
    qed
    from this [of _ 2] this [of _ 3]
    have "length cs < 100 \<Longrightarrow> \<forall>part \<in> set ?parts. length part \<le> MAX_DM_CHARS"
      "length cs < 1000 \<Longrightarrow> \<forall>part \<in> set ?parts. length part \<le> MAX_DM_CHARS + 1"
      by fastforce+
    moreover have "\<exists>headers bodies. ?parts = map2 (\<lambda>h b. h @ [NL] @ b) headers bodies \<and>
        length headers = length bodies \<and> plain (concat bodies) = concat (map plain rendered)"
      by (intro exI [of _ ?hs] exI [of _ cs]) (simp add: cs(3))
    moreover have "?parts \<noteq> []" using cs(4) by simp
    moreover have "length ?parts = length cs" by simp
    ultimately show ?thesis by metis
  qed
qed

definition example_line :: line where
  "example_line = \<lparr>ln_at = 1700000100, ln_speaker = Speaker_Party Buyer, ln_text = ''hola'', ln_attachments = 0\<rparr>"

lemma solver_messages_fit_witness:
  "\<exists>parts. transcript example_nip19 ''d1'' [example_line] = Some parts \<and> parts \<noteq> []"
proof -
  have "length (update_header ''d1'' 1) + 1 < MAX_DM_CHARS"
    "length (transcript_header ''d1'' 1 (Some (999, 999))) < MAX_DM_CHARS"
    by (simp_all add: update_header_def transcript_header_def dispute_line_def MAX_DM_CHARS_def dec.simps)
  then show ?thesis
    using solver_messages_fit [of "''d1''" "[example_line]" _ example_nip19, OF _ _ refl] by auto
qed

section \<open>No identifier reaches a solver\<close>

lemma words_from_subset: "v \<in> set (words_from w s) \<Longrightarrow> set v \<subseteq> set w \<union> set s \<and> length v \<le> length w + length s"
  by (induction s arbitrary: w) (force split: if_splits)+

lemma short_word_clean:
  assumes "length v < 64" and "CHR ''n'' \<notin> set v" and "CHR ''N'' \<notin> set v"
  shows "\<not> is_nostr_identifier nip19 v"
proof -
  have "ascii_lower c = CHR ''n'' \<Longrightarrow> c = CHR ''n'' \<or> c = CHR ''N''" for c
  proof -
    assume n: "ascii_lower c = CHR ''n''"
    show ?thesis
    proof (cases "65 \<le> (of_char c :: nat) \<and> (of_char c :: nat) \<le> 90")
      case True
      with n have "(of_char (char_of ((of_char c :: nat) + 32)) :: nat) = 110" by (simp add: ascii_lower_def)
      with True have "(of_char c :: nat) = of_char (CHR ''N'')" by simp
      then have "c = CHR ''N''" by (simp only: of_char_eq_iff)
      then show ?thesis by blast
    next
      case False
      with n have "c = CHR ''n''" by (auto simp: ascii_lower_def split: if_splits)
      then show ?thesis by blast
    qed
  qed
  then show ?thesis
    using assms by (cases v) (auto simp: is_nostr_identifier_def starts_with_def)
qed

definition clean :: "(string \<Rightarrow> bool) \<Rightarrow> string \<Rightarrow> bool" where
  "clean nip19 s \<longleftrightarrow> (\<forall>w \<in> set (words_from [] s). \<not> is_nostr_identifier nip19 w)"

lemma clean_break: "\<not> is_alphanumeric c \<Longrightarrow> clean nip19 (a @ c # b) \<longleftrightarrow> clean nip19 a \<and> clean nip19 b"
  using words_from_break [of "c # b" "[]" a] by (auto simp: clean_def)

lemma clean_skip: "\<not> is_alphanumeric c \<Longrightarrow> clean nip19 (c # b) \<longleftrightarrow> clean nip19 b"
  using clean_break [of c nip19 "[]" b] by (simp add: clean_def)

lemma clean_short:
  assumes "length s < 64" and "CHR ''n'' \<notin> set s" and "CHR ''N'' \<notin> set s"
  shows "clean nip19 s"
  unfolding clean_def
proof
  fix w assume "w \<in> set (words_from [] s)"
  then have "set w \<subseteq> set s" "length w \<le> length s" using words_from_subset [of w "[]" s] by simp_all
  with assms show "\<not> is_nostr_identifier nip19 w" by (intro short_word_clean) auto
qed

lemma words_verbatim: "words_from w (concat (map (\<lambda>c. if c = NL then [NL] @ ''  '' else [c]) s)) = words_from w s"
  by (induction s arbitrary: w) (simp_all add: NL_def is_alphanumeric_def is_digit_def)

lemma clean_verbatim: "clean nip19 (verbatim nip19 t)"
  using redact_from_clean [of "[]" _ nip19 t] by (simp add: clean_def verbatim_def words_verbatim redact_def)

lemma digits_clean: "list_all is_digit s \<Longrightarrow> length s < 64 \<Longrightarrow> clean nip19 s"
  by (rule clean_short) (auto simp: list_all_iff is_digit_def)

lemma two_digits: "0 \<le> x \<Longrightarrow> x < 100 \<Longrightarrow> list_all is_digit (pad_left 2 (dec_int x)) \<and> length (pad_left 2 (dec_int x)) = 2"
proof -
  assume x: "0 \<le> x" "x < 100"
  then have "nat x < 10 ^ 2" by simp
  then have "length (dec (nat x)) \<le> 2" by (intro length_dec) simp_all
  then show ?thesis
    using x dec_digits [of "nat x"] by (auto simp: pad_left_def dec_int_def list_all_iff is_digit_def)
qed

lemma clean_clock: "clean nip19 (clock_text t)"
proof -
  let ?d = "t mod 86400"
  have "?d div 3600 \<le> 86399 div 3600" by (rule zdiv_mono1) (use pos_mod_bound [of 86400 t] in linarith, simp)
  moreover have "?d mod 3600 div 60 \<le> 3599 div 60"
    by (rule zdiv_mono1) (use pos_mod_bound [of 3600 ?d] in linarith, simp)
  ultimately have "0 \<le> ?d div 3600" "?d div 3600 < 100" "0 \<le> ?d mod 3600 div 60" "?d mod 3600 div 60 < 100"
    by (simp_all add: pos_imp_zdiv_nonneg_iff)
  then have "clean nip19 (pad_left 2 (dec_int (?d div 3600)))" "clean nip19 (pad_left 2 (dec_int (?d mod 3600 div 60)))"
    using two_digits by (auto intro!: digits_clean)
  then show ?thesis
    by (simp add: clock_text_def Let_def clean_break is_alphanumeric_def is_digit_def)
qed

lemma clean_speaker: "clean nip19 (speaker_text who)"
proof -
  have "clean nip19 (party_str p)" for p by (cases p) (auto intro: clean_short)
  moreover have "clean nip19 ''serbero''" by (rule clean_short) auto
  ultimately show ?thesis
    by (cases who)
      (simp_all add: speaker_text_def clean_break clean_skip is_alphanumeric_def is_digit_def ARROW_def
        clean_break [of "CHR '' ''" nip19 "''serbero''", simplified])
qed

lemma breaks: "\<not> is_alphanumeric (CHR '' '')" "\<not> is_alphanumeric (CHR ''['')" "\<not> is_alphanumeric (CHR '']'')"
    "\<not> is_alphanumeric (CHR '':'')"
  by (simp_all add: is_alphanumeric_def is_digit_def)

lemma clean_note: "n < 2 ^ 32 \<Longrightarrow> clean nip19 (attachments_note n)"
proof -
  assume n: "n < 2 ^ 32"
  then have "n < 10 ^ 10" by simp
  then have "length (dec n) \<le> 10" by (intro length_dec) simp_all
  then have "clean nip19 (dec n)" using dec_digits by (intro digits_clean) simp_all
  moreover have "clean nip19 ''attachments''" "clean nip19 ''attachment''" "clean nip19 ''1''" "clean nip19 []"
    by (simp_all add: clean_def is_alphanumeric_def is_digit_def is_nostr_identifier_def starts_with_def ascii_lower_def)
  ultimately have "clean nip19 (CHR '' '' # CHR '' '' # CHR ''['' # (''1'' @ CHR '' '' # (''attachment'' @ CHR '']'' # [])))"
    "clean nip19 (CHR '' '' # CHR '' '' # CHR ''['' # (dec n @ CHR '' '' # (''attachments'' @ CHR '']'' # [])))"
    "clean nip19 []"
    by (simp_all only: clean_skip [OF breaks(1)] clean_skip [OF breaks(2)] clean_break [OF breaks(1)]
        clean_break [OF breaks(3)])
  then show ?thesis by (simp add: attachments_note_def)
qed

text \<open>
  No Nostr identifier a party pasted reaches a solver: no word of any line of a
  transcript or update is a 64-digit hex string or parses as NIP-19, whoever wrote it and whatever
  the text is.
\<close>

theorem transcripts_hide_identifiers:
  assumes "ln_attachments l < 2 ^ 32"
  shows "\<forall>w \<in> set (words_from [] (transcript_line nip19 l)). \<not> is_nostr_identifier nip19 w"
proof -
  have note_break: "clean nip19 (t @ attachments_note n) \<longleftrightarrow> clean nip19 t \<and> clean nip19 (attachments_note n)" for t n
  proof -
    have "attachments_note n = [] \<or> \<not> is_alphanumeric (hd (attachments_note n))"
      using breaks(1) by (simp add: attachments_note_def)
    from words_from_break [OF this, of "[]" t] show ?thesis unfolding clean_def by blast
  qed
  have "transcript_line nip19 l = CHR ''['' # (clock_text (ln_at l) @ CHR '']'' # CHR '' '' #
      (speaker_text (ln_speaker l) @ CHR '':'' # CHR '' '' # (verbatim nip19 (ln_text l) @ attachments_note (ln_attachments l))))"
    by (simp add: transcript_line_def)
  moreover have "clean nip19 (CHR ''['' # (clock_text (ln_at l) @ CHR '']'' # CHR '' '' #
      (speaker_text (ln_speaker l) @ CHR '':'' # CHR '' '' # (verbatim nip19 (ln_text l) @ attachments_note (ln_attachments l)))))"
    unfolding clean_skip [OF breaks(2)] clean_break [OF breaks(3)] clean_skip [OF breaks(1)] clean_break [OF breaks(4)] note_break
    using clean_clock clean_speaker clean_verbatim clean_note [OF assms] by blast
  ultimately have "clean nip19 (transcript_line nip19 l)" by (simp only:)
  then show ?thesis by (simp add: clean_def)
qed

lemma transcripts_hide_identifiers_witness:
  "list_all (\<lambda>w. \<not> is_nostr_identifier example_nip19 w)
     (words_from [] (transcript_line example_nip19 (example_line\<lparr>ln_text := ''npub1qqqqqqqqqq''\<rparr>)))"
  unfolding list_all_iff by (rule transcripts_hide_identifiers) (simp add: example_line_def)

end
