(* ===== verification/Catalogs.thy ===== *)
theory Catalogs
  imports Solver_Text
begin

text \<open>
  \<open>src/src/catalog/mod.rs\<close> and \<open>src/src/catalog/rules.rs\<close>: the message catalogs, their checks, and
  rendering. A \<open>BTreeMap\<close> is an association list sorted by key. Decoding TOML is the parameter
  \<open>toml\<close>; the embedded files are made by the build. A rule violation is a datatype in place of its
  message. Case and letter tests are Unicode's, on the first 256 code points.
\<close>

section \<open>Texts\<close>

definition contains :: "string \<Rightarrow> string \<Rightarrow> bool" where
  "contains pat t \<longleftrightarrow> (\<exists>i \<in> set [0..<length t + 1]. starts_with pat (drop i t))"

text \<open>\<open>str::replace\<close> for a pattern that is not empty: left to right, without overlaps.\<close>

function replace_all :: "string \<Rightarrow> string \<Rightarrow> string \<Rightarrow> string" where
  "replace_all pat with t =
     (if t = [] \<or> pat = [] then t
      else if starts_with pat t then with @ replace_all pat with (drop (length pat) t)
      else hd t # replace_all pat with (tl t))"
  by pat_completeness auto
termination by (relation "measure (\<lambda>(_, _, t). length t)") auto

declare replace_all.simps [simp del]

definition ends_with :: "string \<Rightarrow> string \<Rightarrow> bool" where
  "ends_with suf s \<longleftrightarrow> length suf \<le> length s \<and> drop (length s - length suf) s = suf"

section \<open>Catalogs\<close>

definition AMOUNT :: string where "AMOUNT = ''{amount}''"
definition NO_AMOUNT_SUFFIX :: string where "NO_AMOUNT_SUFFIX = ''_noamount''"
definition INTRO :: string where "INTRO = ''intro''"

definition TEMPLATE_IDS :: "string list" where
  "TEMPLATE_IDS = [INTRO, ''ask_buyer_sent'', ''ask_buyer_sent_simple'', ''ask_buyer_details'',
     ''ask_seller_received'', ''ask_seller_received_simple'', ''ask_seller_check_account'',
     ''what_happens_next'', ''thanks_waiting'', ''waiting_other_party'', ''reminder'',
     ''guide_arrived_seller'', ''guide_arrived_buyer'', ''guide_not_sent_buyer'', ''guide_not_sent_seller'',
     ''resolved_thanks'', ''hold_notice'', ''handoff_notice'']"

record amount =
  am_value :: string
  am_currency :: string

record number_format =
  thousands_separator :: string
  decimal_separator :: string

record word_lists =
  fund_action :: "string list"
  verdict :: "string list"

record catalog =
  cat_code :: string
  cat_name :: string
  cat_format :: number_format
  cat_words :: word_lists
  cat_templates :: "(string \<times> string) list"

definition catalog_error :: "catalog \<Rightarrow> string \<Rightarrow> error" where
  "catalog_error c what = Catalog (''messages/'' @ cat_code c @ ''.toml: '' @ what)"

definition check_template :: "catalog \<Rightarrow> string \<times> string \<Rightarrow> error option" where
  "check_template c it = (case it of (i, t) \<Rightarrow>
     (if trim t = [] then Some (catalog_error c (''template '' @ i @ '' is empty''))
      else let without_amount = replace_all AMOUNT [] t
        in if CHR ''{'' \<in> set without_amount \<or> CHR ''}'' \<in> set without_amount
           then Some (catalog_error c (''template '' @ i @ '' uses a placeholder other than '' @ AMOUNT))
           else if ends_with NO_AMOUNT_SUFFIX i
           then (if contains AMOUNT t then Some (catalog_error c (''template '' @ i @ '' must not use '' @ AMOUNT))
                 else None)
           else if contains AMOUNT t \<and> map_of (cat_templates c) (i @ NO_AMOUNT_SUFFIX) = None
           then Some (catalog_error c (''template '' @ i @ '' uses '' @ AMOUNT @ '' but has no '' @ i @ NO_AMOUNT_SUFFIX))
           else None))"

definition catalog_check :: "catalog \<Rightarrow> error option" where
  "catalog_check c =
     (if trim (cat_name c) = [] then Some (catalog_error c ''name is empty'')
      else case find (\<lambda>it. check_template c it \<noteq> None) (cat_templates c) of
             None \<Rightarrow> None
           | Some it \<Rightarrow> check_template c it)"

definition catalog_parse :: "(string \<Rightarrow> string + catalog) \<Rightarrow> string \<Rightarrow> string \<Rightarrow> catalog result" where
  "catalog_parse toml code t =
     (case toml t of
        Inl e \<Rightarrow> Inl (Catalog (''messages/'' @ code @ ''.toml: '' @ e))
      | Inr c0 \<Rightarrow>
          (let c = c0\<lparr>cat_code := code\<rparr>
           in case catalog_check c of Some e \<Rightarrow> Inl e | None \<Rightarrow> Inr c))"

definition template_ids :: "catalog \<Rightarrow> string list" where
  "template_ids c = map fst (cat_templates c)"

definition all_digits :: "string \<Rightarrow> bool" where
  "all_digits s \<longleftrightarrow> s \<noteq> [] \<and> list_all is_digit s"

fun split_once :: "char \<Rightarrow> string \<Rightarrow> (string \<times> string) option" where
  "split_once d [] = None"
| "split_once d (c # cs) = (if c = d then Some ([], cs) else map_option (\<lambda>(a, b). (c # a, b)) (split_once d cs))"

fun group_digits :: "string \<Rightarrow> nat \<Rightarrow> nat \<Rightarrow> string \<Rightarrow> string" where
  "group_digits sep n i [] = []"
| "group_digits sep n i (c # cs) =
     (if 0 < i \<and> (n - i) mod 3 = 0 then sep else []) @ c # group_digits sep n (i + 1) cs"

definition format_amount :: "catalog \<Rightarrow> amount \<Rightarrow> string" where
  "format_amount c a =
     (let (whole, fraction) = (case split_once (CHR ''.'') (am_value a) of
            None \<Rightarrow> (am_value a, None)
          | Some (w, f) \<Rightarrow> (w, Some f))
      in if \<not> all_digits whole \<or> (case fraction of None \<Rightarrow> False | Some f \<Rightarrow> \<not> all_digits f)
         then am_value a @ '' '' @ am_currency a
         else group_digits (thousands_separator (cat_format c)) (length whole) 0 whole @
           (case fraction of None \<Rightarrow> [] | Some f \<Rightarrow> decimal_separator (cat_format c) @ f) @
           '' '' @ am_currency a)"

text \<open>\<open>render\<close> calls itself with a longer id as long as that template exists, so it ends.\<close>

lemma template_id_length:
  "map_of ts i = Some t \<Longrightarrow> length i \<le> foldr (\<lambda>it m. max (length (fst it)) m) ts 0"
  by (induction ts) (auto split: if_splits)

function render :: "catalog \<Rightarrow> string \<Rightarrow> amount option \<Rightarrow> string result" where
  "render c i a =
     (case map_of (cat_templates c) i of
        None \<Rightarrow> Inl (Catalog (cat_code c @ '': no template '' @ i))
      | Some t \<Rightarrow>
          (if \<not> contains AMOUNT t then Inr t
           else case a of
                  Some am \<Rightarrow> Inr (replace_all AMOUNT (format_amount c am) t)
                | None \<Rightarrow> render c (i @ NO_AMOUNT_SUFFIX) None))"
  by pat_completeness auto
termination
  by (relation "measure (\<lambda>(c, i, _). Suc (foldr (\<lambda>it m. max (length (fst it)) m) (cat_templates c) 0) - length i)")
    (auto dest: template_id_length simp: NO_AMOUNT_SUFFIX_def)

declare render.simps [simp del]

definition render_opening :: "catalog \<Rightarrow> string \<Rightarrow> amount option \<Rightarrow> string result" where
  "render_opening c question_id a =
     result_bind (render c INTRO None) (\<lambda>intro. result_bind (render c question_id a)
       (\<lambda>question. Inr (intro @ [NL, NL] @ question)))"

type_synonym catalogs = "(string \<times> catalog) list"

fun parse_all :: "(string \<Rightarrow> string + catalog) \<Rightarrow> (string \<times> string) list \<Rightarrow> catalogs \<Rightarrow> catalogs result" where
  "parse_all toml [] by_code = Inr by_code"
| "parse_all toml ((code, t) # files) by_code =
     (case catalog_parse toml code t of
        Inl e \<Rightarrow> Inl e
      | Inr c \<Rightarrow> parse_all toml files (btree_insert code c by_code))"

definition from_sources :: "(string \<Rightarrow> string + catalog) \<Rightarrow> (string \<times> string) list \<Rightarrow> catalogs result" where
  "from_sources toml files =
     (case parse_all toml files [] of
        Inl e \<Rightarrow> Inl e
      | Inr by_code \<Rightarrow> (if by_code = [] then Inl (Catalog ''no message catalog found'') else Inr by_code))"

section \<open>Rules\<close>

definition GUIDE_PREFIX :: string where "GUIDE_PREFIX = ''guide_''"
definition MAX_CHARS :: nat where "MAX_CHARS = 450"
definition LONGEST_AMOUNT :: amount where
  "LONGEST_AMOUNT = \<lparr>am_value = ''18446744073709551615.99'', am_currency = ''XXX''\<rparr>"

definition lower_char :: "char \<Rightarrow> char" where
  "lower_char c = (let n = (of_char c :: nat)
     in if 65 \<le> n \<and> n \<le> 90 \<or> 192 \<le> n \<and> n \<le> 222 \<and> n \<noteq> 215 then char_of (n + 32) else c)"

definition is_letter_or_number :: "char \<Rightarrow> bool" where
  "is_letter_or_number c = (let n = (of_char c :: nat)
     in is_alphanumeric c \<or> n \<in> {170, 178, 179, 181, 185, 186, 188, 189, 190} \<or> 192 \<le> n \<and> n \<noteq> 215 \<and> n \<noteq> 247)"

text \<open>Whether some match, searched left to right without overlaps, starts a word; \<open>prev\<close> is the
  character before the rest of the text.\<close>

function match_starts_word :: "string \<Rightarrow> char option \<Rightarrow> string \<Rightarrow> bool" where
  "match_starts_word pat prev t =
     (if t = [] \<or> pat = [] then False
      else if starts_with pat t
        then (case prev of None \<Rightarrow> True | Some c \<Rightarrow> \<not> is_letter_or_number c) \<or>
             match_starts_word pat (Some (last pat)) (drop (length pat) t)
      else match_starts_word pat (Some (hd t)) (tl t))"
  by pat_completeness auto
termination by (relation "measure (\<lambda>(_, _, t). length t)") auto

declare match_starts_word.simps [simp del]

definition contains_word :: "string \<Rightarrow> string \<Rightarrow> bool" where
  "contains_word t w =
     (let t' = map lower_char t; w' = map lower_char w
      in if w' = [] then False else match_starts_word w' None t')"

datatype violation =
    MissingTemplate string string
  | UnknownTemplate string string
  | NoFundWords string
  | NoVerdictWords string
  | BlankWord string
  | FundActionOutsideGuidance string string string
  | VerdictWord string string string
  | TemplateTooLong string string nat

definition base_id :: "string \<Rightarrow> string" where
  "base_id i = (if ends_with NO_AMOUNT_SUFFIX i then take (length i - length NO_AMOUNT_SUFFIX) i else i)"

definition has_words :: "string list \<Rightarrow> bool" where
  "has_words ws \<longleftrightarrow> list_ex (\<lambda>w. trim w \<noteq> []) ws"

definition check_text :: "catalog \<Rightarrow> string \<times> string \<Rightarrow> violation list" where
  "check_text c it = (case it of (i, t) \<Rightarrow>
     (if starts_with GUIDE_PREFIX i then []
      else map (FundActionOutsideGuidance (cat_code c) i) (filter (contains_word t) (fund_action (cat_words c)))) @
     map (VerdictWord (cat_code c) i) (filter (contains_word t) (verdict (cat_words c))) @
     (case render c i (if ends_with NO_AMOUNT_SUFFIX i then None else Some LONGEST_AMOUNT) of
        Inl _ \<Rightarrow> []
      | Inr rendered \<Rightarrow> (if MAX_CHARS < length rendered then [TemplateTooLong (cat_code c) i (length rendered)] else [])))"

definition check_one :: "catalog \<Rightarrow> violation list" where
  "check_one c =
     map (MissingTemplate (cat_code c)) (filter (\<lambda>i. map_of (cat_templates c) i = None) TEMPLATE_IDS) @
     map (UnknownTemplate (cat_code c)) (filter (\<lambda>i. base_id i \<notin> set TEMPLATE_IDS) (template_ids c)) @
     (if has_words (fund_action (cat_words c)) then [] else [NoFundWords (cat_code c)]) @
     (if has_words (verdict (cat_words c)) then [] else [NoVerdictWords (cat_code c)]) @
     map (\<lambda>_. BlankWord (cat_code c))
       (filter (\<lambda>w. trim w = []) (fund_action (cat_words c) @ verdict (cat_words c))) @
     concat (map (check_text c) (cat_templates c))"

definition check_rules :: "catalogs \<Rightarrow> violation list" where
  "check_rules cs = concat (map (\<lambda>(_, c). check_one c) cs)"

section \<open>Rendering\<close>

lemma contains_Cons: "contains pat (c # cs) \<longleftrightarrow> starts_with pat (c # cs) \<or> contains pat cs"
proof -
  have "set [0..<length (c # cs) + 1] = insert 0 (Suc ` set [0..<length cs + 1])"
    by (simp only: set_upt) (auto simp: image_iff less_Suc_eq_0_disj)
  then show ?thesis by (simp only: contains_def bex_simps) (simp add: image_iff)
qed

lemma replace_all_absent: "\<not> contains pat t \<Longrightarrow> replace_all pat with t = t"
proof (induction t)
  case (Cons c cs)
  then show ?case by (subst replace_all.simps) (auto simp: contains_Cons)
qed (simp add: replace_all.simps)

lemma replace_all_set: "set (replace_all pat with t) \<subseteq> set (replace_all pat [] t) \<union> set with"
proof (induction pat "with" t rule: replace_all.induct)
  case (1 pat "with" t)
  show ?case
  proof (cases "t = [] \<or> pat = []")
    case True
    then show ?thesis by (simp add: replace_all.simps)
  next
    case False
    note unf = replace_all.simps [of pat "with" t] replace_all.simps [of pat "[]" t]
    show ?thesis
      using 1(1) [OF False] 1(2) [OF False] False unfolding unf by (auto simp: if_bool_eq_conj)
  qed
qed

lemma replace_all_length:
  "\<exists>m k. \<forall>with. length (replace_all pat with t) = m + k * length with"
proof (induction "length t" arbitrary: t rule: less_induct)
  case less
  note unf = replace_all.simps [of pat _ t]
  show ?case
  proof (cases "t = [] \<or> pat = []")
    case True
    then show ?thesis by (intro exI [of _ "length t"] exI [of _ 0]) (simp add: unf)
  next
    case False
    show ?thesis
    proof (cases "starts_with pat t")
      case True
      obtain m k where "\<forall>with. length (replace_all pat with (drop (length pat) t)) = m + k * length with"
        using less [of "drop (length pat) t"] False by auto
      then show ?thesis using True False by (intro exI [of _ m] exI [of _ "k + 1"]) (simp add: unf)
    next
      case no: False
      obtain m k where "\<forall>with. length (replace_all pat with (tl t)) = m + k * length with"
        using less [of "tl t"] False by auto
      then show ?thesis using no False by (intro exI [of _ "m + 1"] exI [of _ k]) (simp add: unf)
    qed
  qed
qed

definition braceless :: "string \<Rightarrow> bool" where
  "braceless s \<longleftrightarrow> CHR ''{'' \<notin> set s \<and> CHR ''}'' \<notin> set s"

lemma checked_template:
  assumes "catalog_check c = None" and "map_of (cat_templates c) i = Some t"
  shows "braceless (replace_all AMOUNT [] t)" "trim t \<noteq> []"
    "ends_with NO_AMOUNT_SUFFIX i \<Longrightarrow> \<not> contains AMOUNT t"
    "contains AMOUNT t \<Longrightarrow> map_of (cat_templates c) (i @ NO_AMOUNT_SUFFIX) \<noteq> None"
proof -
  have "find (\<lambda>it. check_template c it \<noteq> None) (cat_templates c) = None"
  proof (rule ccontr)
    assume "find (\<lambda>it. check_template c it \<noteq> None) (cat_templates c) \<noteq> None"
    then obtain it where it: "find (\<lambda>it. check_template c it \<noteq> None) (cat_templates c) = Some it" by blast
    then have "check_template c it \<noteq> None" unfolding find_Some_iff by auto
    with it assms(1) show False by (auto simp: catalog_check_def split: if_splits)
  qed
  then have "check_template c (i, t) = None"
    using map_of_SomeD [OF assms(2)] unfolding find_None_iff by blast
  then show "braceless (replace_all AMOUNT [] t)" "trim t \<noteq> []"
    "ends_with NO_AMOUNT_SUFFIX i \<Longrightarrow> \<not> contains AMOUNT t"
    "contains AMOUNT t \<Longrightarrow> map_of (cat_templates c) (i @ NO_AMOUNT_SUFFIX) \<noteq> None"
    by (auto simp: check_template_def Let_def braceless_def split: if_splits)
qed

lemma ends_with_append [simp]: "ends_with suf (s @ suf)"
  by (simp add: ends_with_def)

lemma render_checked:
  assumes "catalog_check c = None" and "map_of (cat_templates c) i = Some t"
  shows "\<exists>i' t'. map_of (cat_templates c) i' = Some t' \<and>
    render c i a = Inr (case a of Some am \<Rightarrow> replace_all AMOUNT (format_amount c am) t | None \<Rightarrow> t') \<and>
    (a = None \<longrightarrow> \<not> contains AMOUNT t' \<and> (i' = i \<or> i' = i @ NO_AMOUNT_SUFFIX))"
proof (cases "contains AMOUNT t")
  case False
  then show ?thesis
    using assms(2) by (intro exI [of _ i] exI [of _ t]) (auto simp: render.simps [of c i] replace_all_absent split: option.splits)
next
  case True
  obtain t2 where t2: "map_of (cat_templates c) (i @ NO_AMOUNT_SUFFIX) = Some t2"
    using checked_template(4) [OF assms True] by blast
  have "\<not> contains AMOUNT t2" by (rule checked_template(3) [OF assms(1) t2]) simp
  then have "render c (i @ NO_AMOUNT_SUFFIX) None = Inr t2"
    using t2 by (simp add: render.simps [of c "i @ NO_AMOUNT_SUFFIX"])
  with True assms(2) t2 \<open>\<not> contains AMOUNT t2\<close> show ?thesis
    by (intro exI [of _ "i @ NO_AMOUNT_SUFFIX"] exI [of _ t2])
      (auto simp: render.simps [of c i] split: option.splits)
qed

text \<open>
  A checked catalog renders everything. In a catalog that \<open>parse\<close> accepted, every
  template it has renders with and without an amount, and the result has no brace left, so no
  placeholder reaches a party (given an amount and separators without braces).
\<close>

theorem checked_catalog_renders:
  assumes "catalog_parse toml code src = Inr c" and "i \<in> set (template_ids c)"
    and "\<forall>am. a = Some am \<longrightarrow> braceless (format_amount c am)"
  shows "\<exists>t. render c i a = Inr t \<and> braceless t"
proof -
  have ok: "catalog_check c = None"
    using assms(1) by (auto simp: catalog_parse_def Let_def split: sum.splits option.splits)
  obtain t where t: "map_of (cat_templates c) i = Some t"
    using assms(2) by (auto simp: template_ids_def map_of_eq_None_iff dest!: map_of_eq_None_iff [THEN iffD1, rotated])
      (metis map_of_eq_None_iff not_Some_eq image_eqI fst_conv)
  from render_checked [OF ok t, of a] obtain i' t' where r: "map_of (cat_templates c) i' = Some t'"
    "render c i a = Inr (case a of Some am \<Rightarrow> replace_all AMOUNT (format_amount c am) t | None \<Rightarrow> t')"
    "a = None \<longrightarrow> \<not> contains AMOUNT t'" by blast
  show ?thesis
  proof (cases a)
    case None
    with r checked_template(1) [OF ok r(1)] show ?thesis by (simp add: replace_all_absent)
  next
    case (Some am)
    have "braceless (replace_all AMOUNT (format_amount c am) t)"
      using replace_all_set [of AMOUNT "format_amount c am" t] checked_template(1) [OF ok t] assms(3) Some
      by (auto simp: braceless_def)
    with r(2) Some show ?thesis by simp
  qed
qed

section \<open>Amounts\<close>

lemma group_digits_keeps:
  "filter is_digit sep = [] \<Longrightarrow> filter is_digit (group_digits sep n i ds) = filter is_digit ds"
  by (induction sep n i ds rule: group_digits.induct) auto

lemma length_group_digits:
  "length (group_digits sep n i ds) =
     length ds + length sep * length (filter (\<lambda>j. 0 < j \<and> (n - j) mod 3 = 0) [i..<i + length ds])"
  by (induction sep n i ds rule: group_digits.induct) (auto simp: upt_conv_Cons simp del: upt_Suc)

definition plain_decimal :: "string \<Rightarrow> nat \<Rightarrow> nat \<Rightarrow> bool" where
  "plain_decimal v w f \<longleftrightarrow>
     (case split_once (CHR ''.'') v of
        None \<Rightarrow> all_digits v \<and> length v \<le> w
      | Some (a, b) \<Rightarrow> all_digits a \<and> all_digits b \<and> length a \<le> w \<and> length b \<le> f)"

lemma split_once_parts: "split_once d s = Some (a, b) \<Longrightarrow> s = a @ d # b"
  by (induction s arbitrary: a) (auto split: if_splits)

text \<open>
  An amount keeps its digits. Whatever the language's separators (as long as they
  contain no digit), formatting a plain decimal value changes no digit, drops none and moves none;
  any other value is shown as it came.
\<close>

theorem amount_digits_kept:
  assumes "filter is_digit (thousands_separator (cat_format c)) = []"
    and "filter is_digit (decimal_separator (cat_format c)) = []"
  shows "filter is_digit (format_amount c a) = filter is_digit (am_value a @ am_currency a) \<and>
    (\<not> (\<exists>w f. plain_decimal (am_value a) w f) \<longrightarrow> format_amount c a = am_value a @ '' '' @ am_currency a)"
proof -
  have sp: "filter is_digit '' '' = []" "\<not> is_digit (CHR ''.'')" by (simp_all add: is_digit_def)
  have "filter is_digit (format_amount c a) = filter is_digit (am_value a @ am_currency a)"
    using assms sp
    by (auto simp: format_amount_def Let_def group_digits_keeps split: option.splits dest!: split_once_parts)
  moreover have "format_amount c a = am_value a @ '' '' @ am_currency a" if "\<not> (\<exists>w f. plain_decimal (am_value a) w f)"
    using that by (auto simp: plain_decimal_def format_amount_def Let_def split: option.splits) 
  ultimately show ?thesis by blast
qed

lemma group_count: "n \<le> 20 \<Longrightarrow> length (filter (\<lambda>j. 0 < j \<and> (n - j) mod 3 = 0) [0..<n]) \<le> 6"
proof -
  have "\<forall>n \<in> set [0..<21]. length (filter (\<lambda>j. 0 < j \<and> (n - j) mod 3 = 0) [0..<n]) \<le> 6" by code_simp
  then show "n \<le> 20 \<Longrightarrow> ?thesis" by simp
qed

lemma longest_amount:
  "length (format_amount c LONGEST_AMOUNT) =
     26 + 6 * length (thousands_separator (cat_format c)) + length (decimal_separator (cat_format c))"
proof -
  have sp: "split_once (CHR ''.'') (am_value LONGEST_AMOUNT) = Some (''18446744073709551615'', ''99'')"
    "all_digits ''18446744073709551615''" "all_digits ''99''" by code_simp+
  have "length (filter (\<lambda>j. 0 < j \<and> (20 - j) mod 3 = 0) [0..<20 :: nat]) = 6" by code_simp
  then show ?thesis by (simp add: format_amount_def sp length_group_digits LONGEST_AMOUNT_def)
qed

lemma amount_fits:
  assumes "plain_decimal (am_value a) 20 2" and "length (am_currency a) \<le> 3"
  shows "length (format_amount c a) \<le> length (format_amount c LONGEST_AMOUNT)"
proof -
  have g: "length (group_digits sep (length w) 0 w) \<le> 20 + 6 * length sep" if "length w \<le> 20" for w sep
  proof -
    have "length sep * length (filter (\<lambda>j. 0 < j \<and> (length w - j) mod 3 = 0) [0..<length w]) \<le> length sep * 6"
      by (rule mult_le_mono2) (rule group_count [OF that])
    then show ?thesis using that length_group_digits [of sep "length w" 0 w] unfolding add_0 by linarith
  qed
  show ?thesis
  proof (cases "split_once (CHR ''.'') (am_value a)")
    case None
    with assms g [of "am_value a" "thousands_separator (cat_format c)"] show ?thesis
      unfolding longest_amount by (auto simp: plain_decimal_def format_amount_def)
  next
    case (Some wf)
    obtain w f where wf: "wf = (w, f)" by (cases wf)
    with Some assms g [of w "thousands_separator (cat_format c)"] show ?thesis
      unfolding longest_amount by (auto simp: plain_decimal_def format_amount_def)
  qed
qed

text \<open>
  A catalog that breaks no rule can carry the whole conversation: every template the
  program may send is there, renders with any amount Mostro can give (up to twenty digits, two
  decimals and a currency of three characters) and without one, and the result is at most 450
  characters long.
\<close>

theorem templates_fit_a_phone:
  assumes "catalog_check c = None" and "check_one c = []" and "i \<in> set TEMPLATE_IDS"
    and "\<forall>am. a = Some am \<longrightarrow> plain_decimal (am_value am) 20 2 \<and> length (am_currency am) \<le> 3"
  shows "\<exists>t. render c i a = Inr t \<and> length t \<le> MAX_CHARS"
proof -
  have "map_of (cat_templates c) i \<noteq> None"
    using assms(2,3) by (auto simp: check_one_def filter_empty_conv)
  then obtain t where t: "map_of (cat_templates c) i = Some t" by blast
  have short: "length r \<le> MAX_CHARS"
    if "map_of (cat_templates c) j = Some x"
      "render c j (if ends_with NO_AMOUNT_SUFFIX j then None else Some LONGEST_AMOUNT) = Inr r" for j x r
  proof -
    have "check_text c (j, x) = []" using assms(2) map_of_SomeD [OF that(1)] by (auto simp: check_one_def)
    with that(2) show ?thesis by (auto simp: check_text_def split: if_splits)
  qed
  show ?thesis
  proof (cases "contains AMOUNT t \<and> a \<noteq> None")
    case True
    then obtain am where am: "a = Some am" by blast
    have no: "\<not> ends_with NO_AMOUNT_SUFFIX i" using checked_template(3) [OF assms(1) t] True by blast
    have r: "render c i (Some x) = Inr (replace_all AMOUNT (format_amount c x) t)" for x
      using True t by (simp add: render.simps [of c i])
    obtain m k where k: "\<forall>with. length (replace_all AMOUNT with t) = m + k * length with"
      using replace_all_length by blast
    have "length (replace_all AMOUNT (format_amount c LONGEST_AMOUNT) t) \<le> MAX_CHARS"
      using short [OF t, of "replace_all AMOUNT (format_amount c LONGEST_AMOUNT) t"] no r by simp
    moreover have "length (replace_all AMOUNT (format_amount c am) t) \<le>
        length (replace_all AMOUNT (format_amount c LONGEST_AMOUNT) t)"
      using amount_fits [of am c] assms(4) am k by simp
    ultimately show ?thesis using r am by auto
  next
    case False
    obtain j x where j: "map_of (cat_templates c) j = Some x" "render c i a = Inr x" "\<not> contains AMOUNT x"
    proof (cases "a = None")
      case True
      with render_checked [OF assms(1) t, of a] show thesis by (auto intro: that)
    next
      case no: False
      with False t show thesis by (intro that [of i t]) (auto simp: render.simps [of c i])
    qed
    have "render c j b = Inr x" for b using j by (simp add: render.simps [of c j])
    with short [OF j(1)] j(2) show ?thesis by auto
  qed
qed

section \<open>Witnesses\<close>

definition example_catalog :: catalog where
  "example_catalog = \<lparr>cat_code = ''xx'', cat_name = ''Test'',
     cat_format = \<lparr>thousands_separator = '','', decimal_separator = ''.''\<rparr>,
     cat_words = \<lparr>fund_action = [''release''], verdict = [''guilty'']\<rparr>,
     cat_templates = map (\<lambda>i. (i, ''hi'')) (''ask_buyer_sent_noamount'' # filter (\<lambda>i. i \<noteq> ''ask_buyer_sent'') TEMPLATE_IDS) @
       [(''ask_buyer_sent'', ''Did you pay {amount}?'')]\<rparr>"

lemma example_catalog_ok: "catalog_check example_catalog = None" "check_one example_catalog = []"
  by code_simp+

definition example_toml :: "string \<Rightarrow> string + catalog" where "example_toml _ = Inr example_catalog"

lemma checked_catalog_renders_witness:
  "\<exists>t. render example_catalog ''ask_buyer_sent'' (Some \<lparr>am_value = ''50000'', am_currency = ''ARS''\<rparr>) = Inr t \<and> braceless t"
proof (rule checked_catalog_renders [of example_toml "''xx''" "''...''"])
  show "catalog_parse example_toml ''xx'' ''...'' = Inr example_catalog"
    using example_catalog_ok(1) by (simp add: catalog_parse_def example_toml_def) (simp add: example_catalog_def)
  show "''ask_buyer_sent'' \<in> set (template_ids example_catalog)" by code_simp
  show "\<forall>am. Some \<lparr>am_value = ''50000'', am_currency = ''ARS''\<rparr> = Some am \<longrightarrow> braceless (format_amount example_catalog am)"
    by simp code_simp
qed

lemma amount_digits_kept_witness:
  "filter is_digit (format_amount example_catalog \<lparr>am_value = ''1250.5'', am_currency = ''ARS''\<rparr>) = ''12505''"
proof -
  have "filter is_digit ''1250.5ARS'' = ''12505''" by code_simp
  then show ?thesis
    using amount_digits_kept [of example_catalog "\<lparr>am_value = ''1250.5'', am_currency = ''ARS''\<rparr>"]
    by (simp add: example_catalog_def is_digit_def)
qed

lemma templates_fit_a_phone_witness:
  "\<exists>t. render example_catalog ''ask_buyer_sent'' None = Inr t \<and> length t \<le> MAX_CHARS"
  by (rule templates_fit_a_phone [OF example_catalog_ok]) (simp_all add: TEMPLATE_IDS_def)

end
