(* ===== verification/Mediator.thy ===== *)
theory Mediator
  imports Catalogs Observers
begin

text \<open>
  What the mediation handlers share: the evaluations table (\<open>src/src/store/evaluations.rs\<close>), the
  mediator's settings (\<open>src/src/mediation/mod.rs\<close>), the world a handler runs in, and sending a
  template to a party (\<open>render_for\<close> and \<open>send_template\<close> of \<open>src/src/mediation/handoff.rs\<close>).

  A handler awaits relays, solvers and the judge, and other tasks change the database meanwhile. The
  world holds the database, the evaluations, a counter of the interactions so far, and the messages
  the relays were given for the parties, each with the state its session was in at that moment (an
  observation of the model: the code keeps no such list). \<open>outside\<close> answers the n-th interaction: what other tasks
  did before it (\<open>os_env\<close>), how the chat message or the DM went, what the judge said, and the clock.
  A handler returns its result with the world, so what it did before an error stays done.
\<close>

section \<open>Evaluations\<close>

record evaluation =
  el_id :: int
  el_session_id :: string
  el_question_set :: string
  el_judge_id :: string
  el_last_message_id :: int
  el_answers :: answers
  el_action :: action
  el_input_tokens :: "nat option"
  el_latency_ms :: "nat option"
  el_created_at :: int

type_synonym evaluations = "evaluation list"

record new_evaluation =
  nl_session_id :: string
  nl_question_set :: string
  nl_judge_id :: string
  nl_last_message_id :: int
  nl_answers :: answers
  nl_action :: action
  nl_input_tokens :: "nat option"
  nl_latency_ms :: "nat option"
  nl_now :: int

definition evaluation_row :: "int \<Rightarrow> new_evaluation \<Rightarrow> evaluation" where
  "evaluation_row i n = \<lparr>el_id = i, el_session_id = nl_session_id n, el_question_set = nl_question_set n,
     el_judge_id = nl_judge_id n, el_last_message_id = nl_last_message_id n, el_answers = nl_answers n,
     el_action = nl_action n, el_input_tokens = nl_input_tokens n, el_latency_ms = nl_latency_ms n,
     el_created_at = nl_now n\<rparr>"

text \<open>\<open>insert\<close>: the foreign key on \<open>sessions (session_id)\<close> is the only constraint it can break.\<close>

definition insert_evaluation :: "string list \<Rightarrow> evaluations \<Rightarrow> new_evaluation \<Rightarrow> (int \<times> evaluations) result" where
  "insert_evaluation sids t n =
     (if nl_session_id n \<notin> set sids then Inl (Store (ConstraintViolation ''FOREIGN KEY constraint failed''))
      else let i = next_rowid el_id t in Inr (i, t @ [evaluation_row i n]))"

definition evaluations_for_session :: "evaluations \<Rightarrow> string \<Rightarrow> evaluation list" where
  "evaluations_for_session t sid = filter (\<lambda>e. el_session_id e = sid) t"

definition latest_evaluation :: "evaluations \<Rightarrow> string \<Rightarrow> evaluation option" where
  "latest_evaluation t sid = last_opt (evaluations_for_session t sid)"

section \<open>The mediator and the world\<close>

record mediation_settings =
  ms_enabled :: bool
  ms_default_language :: string
  ms_languages :: "string list"
  ms_max_rounds :: nat
  ms_max_message_chars :: nat
  ms_max_messages_per_turn :: nat
  ms_response_timeout :: duration
  ms_self_resolution_timeout :: duration
  ms_handoff_grace :: duration

record ready_judge =
  rj_id :: string
  rj_thresholds :: thresholds
  rj_turn :: question_set

record mediator =
  me_catalogs :: catalogs
  me_settings :: mediation_settings
  me_solvers :: "solver list"
  me_observers :: "string list"
  me_judge :: "ready_judge option"

record judged =
  jd_answers :: answers
  jd_input_tokens :: "nat option"

record sent_message =
  sm_session_id :: string
  sm_party :: party
  sm_template :: string
  sm_text :: string
  sm_state :: "session_state option"

record world =
  w_db :: db
  w_evals :: evaluations
  w_step :: nat
  w_sent :: "sent_message list"

record outside =
  os_env :: "nat \<Rightarrow> db \<Rightarrow> db"
  os_chat :: "nat \<Rightarrow> send_outcome"
  os_dm :: "nat \<Rightarrow> string \<Rightarrow> string \<Rightarrow> string option"
  os_judge :: "nat \<Rightarrow> json \<Rightarrow> question_set \<Rightarrow> judge_error + judged"
  os_clock :: "nat \<Rightarrow> int"
  os_latency_ms :: "nat \<Rightarrow> nat"
  os_nip19 :: "string \<Rightarrow> bool"
  os_digest :: "json \<Rightarrow> string"

text \<open>Other tasks run while a handler awaits; the counter moves to the next interaction.\<close>

definition others :: "outside \<Rightarrow> world \<Rightarrow> world" where
  "others out w = w\<lparr>w_db := os_env out (w_step w) (w_db w), w_step := w_step w + 1\<rparr>"

definition session_messages :: "world \<Rightarrow> session \<Rightarrow> message list" where
  "session_messages w ses = messages_for_session (db_messages (w_db w)) (s_session_id ses)"

definition dispute_events :: "world \<Rightarrow> session \<Rightarrow> event list" where
  "dispute_events w ses = events_for_dispute (db_events (w_db w)) (s_dispute_id ses)"

text \<open>Appending an event of the session, and its row id.\<close>

definition append_for ::
    "session \<Rightarrow> string \<Rightarrow> json \<Rightarrow> int \<Rightarrow> db \<Rightarrow> (int \<times> db) result" where
  "append_for ses k payload now s =
     (case append_event (db_events s) \<lparr>ne_dispute_id = s_dispute_id ses, ne_session_id = Some (s_session_id ses),
          ne_kind = k, ne_payload = payload, ne_now = now\<rparr> of
        Inl e \<Rightarrow> Inl e
      | Inr (i, t) \<Rightarrow> Inr (i, s\<lparr>db_events := t\<rparr>))"

lemma append_for_Inr:
  "k \<noteq> [] \<Longrightarrow> append_for ses k payload now s =
     Inr (next_rowid ev_id (db_events s), logged s (s_dispute_id ses) (Some (s_session_id ses)) k payload now)"
  by (simp add: append_for_def append_event_def logged_def Let_def)

section \<open>Sending a template\<close>

definition render_for ::
    "mediator \<Rightarrow> session \<Rightarrow> party \<Rightarrow> string \<Rightarrow> bool \<Rightarrow> (string \<times> string) result" where
  "render_for me ses p template with_intro =
     (let lang = session_language ses p (ms_default_language (me_settings me))
      in case map_of (me_catalogs me) lang of
           None \<Rightarrow> Inl (Catalog (''no catalog for '' @ lang))
         | Some c \<Rightarrow>
             (let a = (case (s_fiat_amount ses, s_fiat_code ses) of
                    (Some v, Some cur) \<Rightarrow> Some \<lparr>am_value = v, am_currency = cur\<rparr>
                  | _ \<Rightarrow> None)
              in case (if with_intro then render_opening c template a else render c template a) of
                   Inl e \<Rightarrow> Inl e
                 | Inr t \<Rightarrow> Inr (t, lang)))"

text \<open>
  One of the senders of \<open>Chat\<close>, in the world: other tasks run while the message is wrapped, before
  the gate reads the session again, and during the relay round trip.
\<close>

type_synonym sender = "(db \<Rightarrow> db) \<Rightarrow> send_outcome \<Rightarrow> session \<Rightarrow> outbound \<Rightarrow> db \<Rightarrow> string result \<times> bool \<times> db"

definition send_chat ::
    "outside \<Rightarrow> sender \<Rightarrow> session \<Rightarrow> party \<Rightarrow> string \<Rightarrow> string \<Rightarrow> string \<Rightarrow> world \<Rightarrow> string result \<times> world" where
  "send_chat out sender ses p template t lang w =
     (let w1 = others out w; n = w_step w1;
          (r, given, s') = sender (os_env out n) (os_chat out n) ses
            \<lparr>ob_party = p, ob_text = t, ob_template_id = Some template, ob_lang = Some lang\<rparr> (w_db w1)
      in (r, w1\<lparr>w_db := s', w_step := n + 1, w_sent := w_sent w1 @
           (if given then [\<lparr>sm_session_id = s_session_id ses, sm_party = p, sm_template = template, sm_text = t,
               sm_state = map_option s_state (get_session (db_sessions (w_db w1)) (s_session_id ses))\<rparr>]
            else [])\<rparr>))"

definition unit_result :: "'a result \<Rightarrow> unit result" where
  "unit_result r = (case r of Inl e \<Rightarrow> Inl e | Inr _ \<Rightarrow> Inr ())"

definition send_template ::
    "outside \<Rightarrow> mediator \<Rightarrow> session \<Rightarrow> party \<Rightarrow> string \<Rightarrow> world \<Rightarrow> unit result \<times> world" where
  "send_template out me ses p template w =
     (let lang = session_language ses p (ms_default_language (me_settings me));
          with_intro = needs_intro (session_messages w ses) p lang
      in case render_for me ses p template with_intro of
           Inl e \<Rightarrow> (Inl e, w)
         | Inr (t, lang) \<Rightarrow>
             (let sender = (if template = HANDOFF_NOTICE then send_to_party else send_while_mediating);
                  (r, w') = send_chat out sender ses p template t lang w
              in (unit_result r, w')))"

definition received :: "world \<Rightarrow> session \<Rightarrow> party \<Rightarrow> string \<Rightarrow> bool" where
  "received w ses p template \<longleftrightarrow>
     list_ex (\<lambda>m. m_direction m = Out \<and> m_party m = p \<and> m_template_id m = Some template) (session_messages w ses)"

section \<open>What other tasks may do\<close>

text \<open>
  Other tasks change the database only through the store: events and messages are appended, and a
  session's state only moves forward (opening, active, guiding, handed off, then over for good).
\<close>

fun state_rank :: "session_state \<Rightarrow> nat" where
  "state_rank Opening = 0"
| "state_rank Active = 1"
| "state_rank Guiding = 2"
| "state_rank HandedOff = 3"
| "state_rank Closed = 4"
| "state_rank Superseded = 4"

definition state_moves :: "session_state \<Rightarrow> session_state \<Rightarrow> bool" where
  "state_moves st st' \<longleftrightarrow> state_rank st \<le> state_rank st' \<and> (is_terminal st \<longrightarrow> st' = st)"

lemma state_moves_refl [simp]: "state_moves st st"
  by (simp add: state_moves_def)

lemma state_moves_trans: "state_moves a b \<Longrightarrow> state_moves b c \<Longrightarrow> state_moves a c"
  by (auto simp: state_moves_def)

lemma state_moves_mediating: "state_moves st st' \<Longrightarrow> \<not> mediating st \<Longrightarrow> \<not> mediating st'"
  by (cases st; cases st') (simp_all add: state_moves_def mediating_def)

lemma state_moves_terminal: "state_moves st st' \<Longrightarrow> is_terminal st \<Longrightarrow> st' = st"
  by (simp add: state_moves_def)

lemma state_moves_guiding: "state_moves Guiding st \<Longrightarrow> st \<noteq> Opening \<and> st \<noteq> Active"
  by (cases st) (simp_all add: state_moves_def)

definition db_grows :: "db \<Rightarrow> db \<Rightarrow> bool" where
  "db_grows s s' \<longleftrightarrow>
     (\<exists>es. db_events s' = db_events s @ es) \<and> (\<exists>ms. db_messages s' = db_messages s @ ms) \<and>
     (events_ok (db_events s) \<longrightarrow> events_ok (db_events s')) \<and>
     (messages_ok (db_messages s) \<longrightarrow> messages_ok (db_messages s')) \<and>
     (sessions_ok (db_sessions s) \<longrightarrow> sessions_ok (db_sessions s')) \<and>
     (\<forall>sid ses. get_session (db_sessions s) sid = Some ses \<longrightarrow>
        (\<exists>ses'. get_session (db_sessions s') sid = Some ses' \<and> s_dispute_id ses' = s_dispute_id ses \<and>
           state_moves (s_state ses) (s_state ses')))"

definition well_behaved :: "outside \<Rightarrow> bool" where
  "well_behaved out \<longleftrightarrow> (\<forall>n s. db_grows s (os_env out n s))"

lemma db_grows_refl: "db_grows s s"
  by (auto simp: db_grows_def)

lemma db_grows_trans:
  assumes "db_grows a b" and "db_grows b c"
  shows "db_grows a c"
proof -
  have "\<exists>es. db_events c = db_events a @ es" "\<exists>ms. db_messages c = db_messages a @ ms"
    using assms by (auto simp: db_grows_def)
  moreover have "\<exists>ses''. get_session (db_sessions c) sid = Some ses'' \<and> s_dispute_id ses'' = s_dispute_id ses \<and>
      state_moves (s_state ses) (s_state ses'')" if "get_session (db_sessions a) sid = Some ses" for sid ses
  proof -
    obtain ses' where "get_session (db_sessions b) sid = Some ses'" "s_dispute_id ses' = s_dispute_id ses"
      "state_moves (s_state ses) (s_state ses')" using assms(1) \<open>get_session _ sid = _\<close> unfolding db_grows_def by blast
    moreover then obtain ses'' where "get_session (db_sessions c) sid = Some ses''" "s_dispute_id ses'' = s_dispute_id ses'"
      "state_moves (s_state ses') (s_state ses'')" using assms(2) unfolding db_grows_def by blast
    ultimately show ?thesis by (auto intro: state_moves_trans)
  qed
  ultimately show ?thesis using assms unfolding db_grows_def by blast
qed

lemma well_behavedD: "well_behaved out \<Longrightarrow> db_grows s (os_env out n s)"
  by (simp add: well_behaved_def)

lemma others_grows: "well_behaved out \<Longrightarrow> db_grows (w_db w) (w_db (others out w))"
  by (simp add: well_behaved_def others_def)

lemma others_simps [simp]: "w_evals (others out w) = w_evals w" "w_sent (others out w) = w_sent w"
  by (simp_all add: others_def)

lemma db_grows_logged: "db_grows s (logged s d sid k payload now)"
  unfolding db_grows_def
  by (auto simp: logged_def events_ok_def sorted_wrt_append next_rowid_greater)

lemma db_grows_logged_after: "db_grows s s' \<Longrightarrow> db_grows s (logged s' d sid k payload now)"
  by (rule db_grows_trans [OF _ db_grows_logged])

lemma not_mediating_stays:
  assumes "db_grows s s'" and "get_session (db_sessions s) sid = Some ses" and "\<not> mediating (s_state ses)"
  obtains ses' where "get_session (db_sessions s') sid = Some ses'" "\<not> mediating (s_state ses')"
  using assms state_moves_mediating unfolding db_grows_def by blast

section \<open>Sending only grows the database\<close>

lemma insert_message_grows:
  assumes "insert_message sids (db_messages s) n = Inr (b, t)"
  shows "db_grows s (s\<lparr>db_messages := t\<rparr>)"
  using assms
proof (cases rule: insert_message_cases)
  case 2
  with message_log.run_inv [of "db_messages s" sids "[n]"] assms show ?thesis
    by (auto simp: db_grows_def message_step_def)
qed (auto simp: db_grows_def)

lemma send_when_grows:
  assumes "send_when allowed env outcome ses msg s = (r, given, s')" and "\<And>s. db_grows s (env s)"
  shows "db_grows s s' \<and> (\<not> given \<longrightarrow> (\<exists>e. r = Inl e))"
proof -
  have "db_grows s ((env s)\<lparr>db_messages := t\<rparr>)" if "insert_message sids (db_messages (env s)) n = Inr (b, t)" for sids n b t
    by (rule db_grows_trans [OF assms(2) insert_message_grows [OF that]])
  with assms show ?thesis
    by (cases outcome; cases "get_session (db_sessions s) (s_session_id ses)")
      (auto simp: send_when_def Let_def db_grows_refl split: if_splits sum.splits)
qed

text \<open>
  What a handler may have done by the end: the database only grew, and every message given to the
  relays since satisfies \<open>P\<close>.
\<close>

definition world_step :: "(sent_message \<Rightarrow> bool) \<Rightarrow> world \<Rightarrow> world \<Rightarrow> bool" where
  "world_step P w w' \<longleftrightarrow> db_grows (w_db w) (w_db w') \<and>
     (\<exists>ms. w_sent w' = w_sent w @ ms \<and> (\<forall>m \<in> set ms. P m))"

lemma world_step_refl [simp]: "world_step P w w"
  by (simp add: world_step_def db_grows_refl)

lemma world_step_trans [trans]: "world_step P a b \<Longrightarrow> world_step P b c \<Longrightarrow> world_step P a c"
  unfolding world_step_def by (auto intro: db_grows_trans)

lemma world_step_mono: "world_step P w w' \<Longrightarrow> (\<And>m. P m \<Longrightarrow> Q m) \<Longrightarrow> world_step Q w w'"
  unfolding world_step_def by auto

lemma world_step_db: "db_grows (w_db w) (w_db w') \<Longrightarrow> w_sent w' = w_sent w \<Longrightarrow> world_step P w w'"
  by (simp add: world_step_def)

lemma world_step_logged: "world_step P w (w\<lparr>w_db := logged (w_db w) d sid k payload now\<rparr>)"
  by (rule world_step_db) (simp_all add: db_grows_logged)

lemma world_step_grows: "world_step P w w' \<Longrightarrow> db_grows (w_db w) (w_db w')"
  by (simp add: world_step_def)

text \<open>
  What the state of its session allows a message to be: anything while Serbero mediates, the notice
  while a person has it, the thanks once the parties resolved it, and nothing once superseded.
\<close>

definition gated :: "sent_message \<Rightarrow> bool" where
  "gated m \<longleftrightarrow> (\<exists>st. sm_state m = Some st \<and>
     (mediating st \<or> sm_template m = HANDOFF_NOTICE \<and> \<not> is_terminal st \<or>
      sm_template m = ''resolved_thanks'' \<and> st = Closed))"

text \<open>What sending through a gate does to the world, for each sender of \<open>Chat\<close>.\<close>

definition about :: "session \<Rightarrow> party \<Rightarrow> string \<Rightarrow> sent_message \<Rightarrow> bool" where
  "about ses p template m \<longleftrightarrow> sm_session_id m = s_session_id ses \<and> sm_party m = p \<and> sm_template m = template"

lemma send_chat_spec:
  assumes "well_behaved out" and "send_chat out (send_when allowed) ses p template t lang w = (r, w')"
  shows "db_grows (w_db w) (w_db w')" "w_evals w' = w_evals w"
    "(w_sent w' = w_sent w \<and> (\<exists>e. r = Inl e)) \<or>
      (\<exists>m. w_sent w' = w_sent w @ [m] \<and> about ses p template m \<and>
       (\<exists>s cur. db_grows (w_db w) s \<and> db_grows s (w_db w') \<and> sm_state m = Some (s_state cur) \<and>
          get_session (db_sessions s) (s_session_id ses) = Some cur \<and> allowed (s_state cur)))"
proof -
  let ?w1 = "others out w"
  obtain r0 given s' where s: "send_when allowed (os_env out (w_step ?w1)) (os_chat out (w_step ?w1)) ses
      \<lparr>ob_party = p, ob_text = t, ob_template_id = Some template, ob_lang = Some lang\<rparr> (w_db ?w1) = (r0, given, s')"
    by (metis prod_cases3)
  note g1 = others_grows [OF assms(1), of w]
  note g2 = send_when_grows [OF s well_behavedD [OF assms(1)]]
  note gate = send_when_gate [OF s]
  have w': "r = r0" "w_db w' = s'" "w_evals w' = w_evals w"
    "w_sent w' = w_sent w @ (if given then [\<lparr>sm_session_id = s_session_id ses, sm_party = p,
       sm_template = template, sm_text = t,
       sm_state = map_option s_state (get_session (db_sessions (w_db ?w1)) (s_session_id ses))\<rparr>] else [])"
    using assms(2) by (auto simp: send_chat_def s Let_def)
  show "db_grows (w_db w) (w_db w')" "w_evals w' = w_evals w"
    using g1 g2 by (auto simp: w' intro: db_grows_trans)
  show "(w_sent w' = w_sent w \<and> (\<exists>e. r = Inl e)) \<or>
      (\<exists>m. w_sent w' = w_sent w @ [m] \<and> about ses p template m \<and>
       (\<exists>s cur. db_grows (w_db w) s \<and> db_grows s (w_db w') \<and> sm_state m = Some (s_state cur) \<and>
          get_session (db_sessions s) (s_session_id ses) = Some cur \<and> allowed (s_state cur)))"
  proof (cases given)
    case True
    then obtain cur where "get_session (db_sessions (w_db ?w1)) (s_session_id ses) = Some cur" "allowed (s_state cur)"
      using gate by blast
    with True g1 g2 show ?thesis by (auto simp: w' about_def intro!: exI [of _ "w_db ?w1"])
  qed (use g2 in \<open>auto simp: w'\<close>)
qed

definition may_send :: "string \<Rightarrow> session_state \<Rightarrow> bool" where
  "may_send template st \<longleftrightarrow> (if template = HANDOFF_NOTICE then \<not> is_terminal st else mediating st)"

lemma send_template_spec:
  assumes "well_behaved out" and "send_template out me ses p template w = (r, w')"
  shows "db_grows (w_db w) (w_db w')" "w_evals w' = w_evals w"
    "(w_sent w' = w_sent w \<and> (\<exists>e. r = Inl e)) \<or>
      (\<exists>m. w_sent w' = w_sent w @ [m] \<and> about ses p template m \<and>
       (\<exists>s cur. db_grows (w_db w) s \<and> db_grows s (w_db w') \<and> sm_state m = Some (s_state cur) \<and>
          get_session (db_sessions s) (s_session_id ses) = Some cur \<and> may_send template (s_state cur)))"
proof -
  let ?intro = "needs_intro (session_messages w ses) p (session_language ses p (ms_default_language (me_settings me)))"
  have "db_grows (w_db w) (w_db w') \<and> w_evals w' = w_evals w \<and>
    ((w_sent w' = w_sent w \<and> (\<exists>e. r = Inl e)) \<or>
      (\<exists>m. w_sent w' = w_sent w @ [m] \<and> about ses p template m \<and>
       (\<exists>s cur. db_grows (w_db w) s \<and> db_grows s (w_db w') \<and> sm_state m = Some (s_state cur) \<and>
          get_session (db_sessions s) (s_session_id ses) = Some cur \<and> may_send template (s_state cur))))"
  proof (cases "render_for me ses p template ?intro")
    case (Inl e)
    with assms(2) show ?thesis by (auto simp: send_template_def Let_def db_grows_refl)
  next
    case (Inr tl)
    obtain t lang where tl: "tl = (t, lang)" by (cases tl)
    obtain r0 where c: "send_chat out (send_when (may_send template)) ses p template t lang w = (r0, w')"
      and r: "r = unit_result r0"
      using assms(2) Inr
      by (auto simp: send_template_def Let_def tl send_to_party_def send_while_mediating_def may_send_def [abs_def]
          split: prod.splits if_splits)
    show ?thesis
      using send_chat_spec [OF assms(1) c] by (auto simp: r unit_result_def)
  qed
  then show "db_grows (w_db w) (w_db w')" "w_evals w' = w_evals w"
    "(w_sent w' = w_sent w \<and> (\<exists>e. r = Inl e)) \<or>
      (\<exists>m. w_sent w' = w_sent w @ [m] \<and> about ses p template m \<and>
       (\<exists>s cur. db_grows (w_db w) s \<and> db_grows s (w_db w') \<and> sm_state m = Some (s_state cur) \<and>
          get_session (db_sessions s) (s_session_id ses) = Some cur \<and> may_send template (s_state cur)))"
    by blast+
qed

lemma send_template_step:
  assumes "well_behaved out" and "send_template out me ses p template w = (r, w')"
  shows "world_step (\<lambda>m. about ses p template m \<and> gated m) w w'"
  using send_template_spec [OF assms]
  by (auto simp: world_step_def gated_def may_send_def about_def split: if_splits)

end
