(* ===== verification/Handoff.thy ===== *)
theory Handoff
  imports Mediator
begin

text \<open>
  \<open>src/src/mediation/handoff.rs\<close>: handing a session to a person. \<open>hand_off\<close> claims the session and
  records the cutoff, the pending brief and the observers' notices in one transaction, then briefs
  the solvers and tells the parties; afterwards \<open>forward_updates\<close> sends the parties' new messages
  to the solvers. Where the text functions would panic the model returns an error.
\<close>

section \<open>Recipients and texts\<close>

definition recipients :: "solver list \<Rightarrow> string option \<Rightarrow> solver list" where
  "recipients sos assigned =
     (let chosen = (case assigned of
            None \<Rightarrow> []
          | Some a \<Rightarrow> filter (\<lambda>so. so_pubkey so = a) sos)
      in if chosen \<noteq> [] then chosen
         else let writers = filter (\<lambda>so. so_permission so = Write) sos
           in if writers = [] then sos else writers)"

definition message_lines :: "message list \<Rightarrow> line list" where
  "message_lines ms = map (\<lambda>m. \<lparr>ln_at = m_created_at m,
     ln_speaker = (case m_direction m of In \<Rightarrow> Speaker_Party (m_party m) | Out \<Rightarrow> Speaker_Serbero (m_party m)),
     ln_text = m_content m, ln_attachments = m_attachments m\<rparr>) ms"

definition text_panic :: error where "text_panic = Schema ''panic in a text function''"

section \<open>Delivering to solvers\<close>

fun deliver_parts ::
    "outside \<Rightarrow> solver \<Rightarrow> string \<Rightarrow> (string \<times> string) list \<Rightarrow> int \<Rightarrow> world \<Rightarrow> bool result \<times> world" where
  "deliver_parts out so d [] now w = (Inr True, w)"
| "deliver_parts out so d ((notification, t) # parts) now w =
     (let w1 = others out w; n = w_step w1;
          (r, s') = notify_solvers (os_dm out n) [so] d notification t (max (os_clock out n) now) (w_db w1);
          w2 = w1\<lparr>w_db := s', w_step := n + 1\<rparr>
      in case r of
           Inl e \<Rightarrow> (Inl e, w2)
         | Inr got \<Rightarrow> (if got = 0 then (Inr False, w2) else deliver_parts out so d parts now w2))"

fun deliver_loop ::
    "outside \<Rightarrow> solver list \<Rightarrow> string \<Rightarrow> (string \<times> string) list \<Rightarrow> int \<Rightarrow> nat \<Rightarrow> world \<Rightarrow> nat result \<times> world" where
  "deliver_loop out [] d parts now got w = (Inr got, w)"
| "deliver_loop out (so # sos) d parts now got w =
     (case deliver_parts out so d parts now w of
        (Inl e, w') \<Rightarrow> (Inl e, w')
      | (Inr all, w') \<Rightarrow> deliver_loop out sos d parts now (if all then got + 1 else got) w')"

definition deliver ::
    "outside \<Rightarrow> solver list \<Rightarrow> string \<Rightarrow> (string \<times> string) list \<Rightarrow> int \<Rightarrow> world \<Rightarrow> nat result \<times> world" where
  "deliver out to d parts now w = (if to = [] then (Inr 0, w) else deliver_loop out to d parts now 0 w)"

section \<open>The brief\<close>

record turn_reading =
  tr_state :: json
  tr_answers :: answers
  tr_facts :: facts
  tr_last_message_id :: int

fun subject_action :: "subject \<Rightarrow> action" where
  "subject_action (Subject_Handoff reason) = Handoff reason"
| "subject_action (Subject_Guide p) = Guide p"

definition stored_brief :: "world \<Rightarrow> session \<Rightarrow> string \<Rightarrow> action \<Rightarrow> answers option" where
  "stored_brief w ses question_set act =
     (case find_last (\<lambda>e. ev_kind e = ''brief_pending'' \<and> of_session ses e) (dispute_events w ses) of
        None \<Rightarrow> None
      | Some p \<Rightarrow>
          map_option el_answers
            (find_last (\<lambda>e. el_question_set e = question_set \<and> el_action e = act \<and> ev_created_at p \<le> el_created_at e)
              (evaluations_for_session (w_evals w) (s_session_id ses))))"

definition record_brief ::
    "ready_judge \<Rightarrow> session \<Rightarrow> string \<Rightarrow> int \<Rightarrow> judged \<Rightarrow> action \<Rightarrow> int \<Rightarrow> world \<Rightarrow> world" where
  "record_brief ready ses question_set last_message_id jd act now w =
     (case insert_evaluation (session_ids (w_db w)) (w_evals w)
        \<lparr>nl_session_id = s_session_id ses, nl_question_set = question_set, nl_judge_id = rj_id ready,
         nl_last_message_id = last_message_id, nl_answers = jd_answers jd, nl_action = act,
         nl_input_tokens = jd_input_tokens jd, nl_latency_ms = None, nl_now = now\<rparr> of
        Inl _ \<Rightarrow> w
      | Inr (_, t) \<Rightarrow> w\<lparr>w_evals := t\<rparr>)"

definition ask_brief ::
    "outside \<Rightarrow> ready_judge \<Rightarrow> session \<Rightarrow> turn_reading \<Rightarrow> subject \<Rightarrow> int \<Rightarrow> world \<Rightarrow> brief \<times> world" where
  "ask_brief out ready ses rd sub now w =
     (let state = tr_state rd; qs = brief_for_state (os_digest out) state; act = subject_action sub
      in case stored_brief w ses (q_version qs) act of
           Some as \<Rightarrow> (brief_from_answers state as (rj_thresholds ready), w)
         | None \<Rightarrow>
             (let r = os_judge out (w_step w) state qs; w1 = others out w
              in case r of
                   Inl _ \<Rightarrow> (default_brief, w1)
                 | Inr jd \<Rightarrow>
                     (brief_from_answers state (jd_answers jd) (rj_thresholds ready),
                      record_brief ready ses (q_version qs) (tr_last_message_id rd) jd act now w1)))"

definition brief_input_of ::
    "mediator \<Rightarrow> session \<Rightarrow> subject \<Rightarrow> turn_reading option \<Rightarrow> brief \<Rightarrow> dispute option \<Rightarrow> nat \<Rightarrow> int \<Rightarrow> brief_input" where
  "brief_input_of me ses sub rd br d n_messages now =
     (let dflt = ms_default_language (me_settings me)
      in \<lparr>bi_dispute_id = s_dispute_id ses, bi_subject = sub, bi_rounds = s_rounds ses,
          bi_duration_secs = now - s_opened_at ses,
          bi_order = \<lparr>of_amount = s_fiat_amount ses, of_currency = s_fiat_code ses,
            of_payment_method = s_payment_method ses,
            of_created_before = (case (map_option d_first_seen_at d, s_order_published_at ses) of
                (Some seen, Some created) \<Rightarrow> Some (seen - created) | _ \<Rightarrow> None)\<rparr>,
          bi_buyer_language = session_language ses Buyer dflt,
          bi_seller_language = session_language ses Seller dflt,
          bi_reading = map_option (\<lambda>r. \<lparr>rd_state = tr_state r, rd_answers = tr_answers r,
            rd_facts = tr_facts r, rd_brief = br\<rparr>) rd,
          bi_transcript_messages = n_messages\<rparr>)"

definition brief_solvers ::
    "outside \<Rightarrow> mediator \<Rightarrow> session \<Rightarrow> subject \<Rightarrow> turn_reading option \<Rightarrow> int \<Rightarrow> world \<Rightarrow> nat result \<times> world" where
  "brief_solvers out me ses sub rd now w =
     (let ms = session_messages w ses; d = get_dispute (db_disputes (w_db w)) (s_dispute_id ses);
          (br, w1) = (case (rd, me_judge me) of
              (Some r, Some ready) \<Rightarrow> ask_brief out ready ses r sub now w
            | _ \<Rightarrow> (default_brief, w));
          t = brief_text (os_nip19 out) (brief_input_of me ses sub rd br d (length ms) now);
          to = recipients (me_solvers me) (case d of None \<Rightarrow> None | Some d \<Rightarrow> d_assigned_solver d)
      in case transcript (os_nip19 out) (s_dispute_id ses) (message_lines ms) of
           None \<Rightarrow> (Inl text_panic, w1)
         | Some parts \<Rightarrow>
             deliver out to (s_dispute_id ses) ((''brief'', t) # map (Pair ''transcript'') parts) now w1)"

definition brief_delivered :: "session \<Rightarrow> int \<Rightarrow> int \<Rightarrow> world \<Rightarrow> unit result \<times> world" where
  "brief_delivered ses pending now w =
     (case append_for ses ''brief_sent'' (JObj [(''pending'', JInt pending)]) now (w_db w) of
        Inl e \<Rightarrow> (Inl e, w)
      | Inr (_, s') \<Rightarrow> (Inr (), w\<lparr>w_db := s'\<rparr>))"

section \<open>Handing off\<close>

text \<open>The transaction: an error rolls it back, so the database it started from is kept.\<close>

definition hand_off_tx ::
    "mediator \<Rightarrow> session \<Rightarrow> handoff_reason \<Rightarrow> int \<Rightarrow> db \<Rightarrow> (int option \<times> db) result" where
  "hand_off_tx me ses reason now s =
     (let (claimed, t) = hand_off (db_sessions s) (s_session_id ses) (handoff_reason_str reason) now
      in if \<not> claimed then Inr (None, s)
         else let s1 = s\<lparr>db_sessions := t\<rparr>;
                  cutoff = max_or 0 m_id (messages_for_session (db_messages s1) (s_session_id ses))
           in case append_for ses ''handoff''
                (JObj [(''reason'', JStr (handoff_reason_str reason)), (''last_message_id'', JInt cutoff)]) now s1 of
                Inl e \<Rightarrow> Inl e
              | Inr (_, s2) \<Rightarrow>
                  (case append_for ses ''brief_pending'' (JObj [(''reason'', JStr (handoff_reason_str reason))]) now s2 of
                     Inl e \<Rightarrow> Inl e
                   | Inr (pending, s3) \<Rightarrow>
                       (case queue_observers (me_observers me) s3 (s_dispute_id ses)
                            (subject_text (Subject_Handoff reason)) now of
                          Inl e \<Rightarrow> Inl e
                        | Inr (_, s4) \<Rightarrow> Inr (Some pending, s4))))"

fun tell_handoff :: "outside \<Rightarrow> mediator \<Rightarrow> session \<Rightarrow> party list \<Rightarrow> world \<Rightarrow> world" where
  "tell_handoff out me ses [] w = w"
| "tell_handoff out me ses (p # ps) w =
     (if received w ses p HANDOFF_NOTICE then tell_handoff out me ses ps w
      else tell_handoff out me ses ps (snd (send_template out me ses p HANDOFF_NOTICE w)))"

definition hand_off_session ::
    "outside \<Rightarrow> mediator \<Rightarrow> session \<Rightarrow> handoff_reason \<Rightarrow> turn_reading option \<Rightarrow> int \<Rightarrow> world \<Rightarrow> bool result \<times> world" where
  "hand_off_session out me ses reason rd now w =
     (case hand_off_tx me ses reason now (w_db w) of
        Inl e \<Rightarrow> (Inl e, w)
      | Inr (None, _) \<Rightarrow> (Inr False, w)
      | Inr (Some pending, s) \<Rightarrow>
          (case brief_solvers out me ses (Subject_Handoff reason) rd now (w\<lparr>w_db := s\<rparr>) of
             (Inl e, w1) \<Rightarrow> (Inl e, w1)
           | (Inr delivered, w1) \<Rightarrow>
               (case (if 0 < delivered then brief_delivered ses pending now w1 else (Inr (), w1)) of
                  (Inl e, w2) \<Rightarrow> (Inl e, w2)
                | (Inr _, w2) \<Rightarrow> (Inr True, tell_handoff out me ses [Buyer, Seller] w2))))"

section \<open>Updates after a handoff\<close>

definition fresh_messages :: "world \<Rightarrow> session \<Rightarrow> message list" where
  "fresh_messages w ses =
     filter (\<lambda>m. m_direction m = In \<and> last_seen (dispute_events w ses) (s_session_id ses) < m_id m)
       (session_messages w ses)"

definition forward_updates :: "outside \<Rightarrow> mediator \<Rightarrow> session \<Rightarrow> int \<Rightarrow> world \<Rightarrow> nat result \<times> world" where
  "forward_updates out me ses now w =
     (let fresh = fresh_messages w ses; d = get_dispute (db_disputes (w_db w)) (s_dispute_id ses)
      in case last_opt (map m_id fresh) of
           None \<Rightarrow> (Inr 0, w)
         | Some last_id \<Rightarrow>
             (let to = recipients (me_solvers me) (case d of None \<Rightarrow> None | Some d \<Rightarrow> d_assigned_solver d)
              in case update_text (os_nip19 out) (s_dispute_id ses) (message_lines fresh) of
                   None \<Rightarrow> (Inl text_panic, w)
                 | Some parts \<Rightarrow>
                     (case deliver out to (s_dispute_id ses) (map (Pair ''update'') parts) now w of
                        (Inl e, w1) \<Rightarrow> (Inl e, w1)
                      | (Inr delivered, w1) \<Rightarrow>
                          (if delivered = 0 then (Inr 0, w1)
                           else case append_for ses ''update_sent'' (JObj [(''last_message_id'', JInt last_id)]) now (w_db w1) of
                               Inl e \<Rightarrow> (Inl e, w1)
                             | Inr (_, s') \<Rightarrow> (Inr (length fresh), w1\<lparr>w_db := s'\<rparr>)))))"

section \<open>The database only grows\<close>

definition new_events :: "world \<Rightarrow> world \<Rightarrow> event list" where
  "new_events w w' = drop (length (db_events (w_db w))) (db_events (w_db w'))"

text \<open>The log says that the solver was sent a notification about the dispute, not before \<open>now\<close>.\<close>

definition notified :: "solver \<Rightarrow> string \<Rightarrow> string \<Rightarrow> int \<Rightarrow> event \<Rightarrow> bool" where
  "notified so d notification now e \<longleftrightarrow> ev_dispute_id e = d \<and> ev_kind e = ''notification_sent'' \<and>
     now \<le> ev_created_at e \<and>
     ev_payload e = JObj [(''solver'', JStr (so_pubkey so)), (''notification'', JStr notification)]"

definition told_all :: "solver \<Rightarrow> string \<Rightarrow> (string \<times> string) list \<Rightarrow> int \<Rightarrow> event list \<Rightarrow> bool" where
  "told_all so d parts now es \<longleftrightarrow> (\<forall>x \<in> fst ` set parts. list_ex (notified so d x now) es)"

lemma new_events_refl [simp]: "new_events w w = []"
  by (simp add: new_events_def)

lemma new_events_trans:
  assumes "db_grows (w_db a) (w_db b)" and "db_grows (w_db b) (w_db c)"
  shows "set (new_events a c) = set (new_events a b) \<union> set (new_events b c)"
  using assms unfolding db_grows_def new_events_def by (auto elim!: exE)

lemma notify_one:
  "notify_solvers send [so] d notification t now s =
     (case send (so_pubkey so) t of
        None \<Rightarrow> (Inr 1, logged s d None ''notification_sent''
          (JObj [(''solver'', JStr (so_pubkey so)), (''notification'', JStr notification)]) now)
      | Some e \<Rightarrow> (Inr 0, logged s d None ''notification_failed''
          (JObj [(''solver'', JStr (so_pubkey so)), (''notification'', JStr notification), (''error'', JStr e)]) now))"
  by (simp add: notify_solvers_def log_event_Inr split: option.splits)

section \<open>Delivery\<close>

lemma deliver_parts_spec:
  assumes "well_behaved out"
  shows "deliver_parts out so d parts now w = (r, w') \<Longrightarrow>
    db_grows (w_db w) (w_db w') \<and> w_evals w' = w_evals w \<and> w_sent w' = w_sent w \<and>
    (\<exists>b. r = Inr b \<and> (b \<longrightarrow> told_all so d parts now (new_events w w')))"
proof (induction parts arbitrary: w)
  case Nil
  then show ?case by (auto simp: db_grows_refl told_all_def)
next
  case (Cons x parts)
  obtain notification t where x: "x = (notification, t)" by (cases x)
  let ?w1 = "others out w"
  note g1 = others_grows [OF assms, of w]
  show ?case
  proof (cases "os_dm out (w_step ?w1) (so_pubkey so) t")
    case (Some e)
    with Cons.prems g1 show ?thesis
      by (auto simp: x notify_one Let_def intro: db_grows_logged_after)
  next
    case None
    let ?w2 = "?w1\<lparr>w_db := logged (w_db ?w1) d None ''notification_sent''
          (JObj [(''solver'', JStr (so_pubkey so)), (''notification'', JStr notification)])
          (max (os_clock out (w_step ?w1)) now), w_step := w_step ?w1 + 1\<rparr>"
    have rest: "deliver_parts out so d parts now ?w2 = (r, w')"
      using Cons.prems None by (simp add: x notify_one Let_def)
    note IH = Cons.IH [OF rest]
    have g2: "db_grows (w_db ?w1) (w_db ?w2)" by (simp add: db_grows_logged)
    have g12: "db_grows (w_db w) (w_db ?w2)" by (rule db_grows_trans [OF g1 g2])
    have g3: "db_grows (w_db ?w2) (w_db w')" using IH by blast
    have "list_ex (notified so d notification now) (new_events ?w1 ?w2)"
      by (simp add: new_events_def logged_def notified_def)
    then have "list_ex (notified so d notification now) (new_events w w')"
      using new_events_trans [OF g1 g2] new_events_trans [OF g12 g3] by (auto simp: list_ex_iff)
    moreover have "told_all so d parts now (new_events ?w2 w') \<Longrightarrow> told_all so d parts now (new_events w w')"
      using new_events_trans [OF g12 g3] by (auto simp: told_all_def list_ex_iff)
    ultimately show ?thesis
      using IH db_grows_trans [OF g12 g3] by (auto simp: x told_all_def)
  qed
qed

lemma deliver_loop_spec:
  assumes "well_behaved out"
  shows "deliver_loop out sos d parts now k w = (r, w') \<Longrightarrow>
    db_grows (w_db w) (w_db w') \<and> w_evals w' = w_evals w \<and> w_sent w' = w_sent w \<and>
    (\<exists>n. r = Inr n \<and> k \<le> n \<and> n \<le> k + length sos \<and>
       (k < n \<longrightarrow> (\<exists>so \<in> set sos. told_all so d parts now (new_events w w'))))"
proof (induction sos arbitrary: k w)
  case Nil
  then show ?case by (auto simp: db_grows_refl)
next
  case (Cons so sos)
  obtain r1 w1 where one: "deliver_parts out so d parts now w = (r1, w1)" by force
  note s1 = deliver_parts_spec [OF assms one]
  then obtain b where b: "r1 = Inr b" "b \<longrightarrow> told_all so d parts now (new_events w w1)" by blast
  have rest: "deliver_loop out sos d parts now (if b then k + 1 else k) w1 = (r, w')"
    using Cons.prems by (simp add: one b(1))
  note IH = Cons.IH [OF rest]
  have g1: "db_grows (w_db w) (w_db w1)" and g2: "db_grows (w_db w1) (w_db w')" using s1 IH by auto
  have more: "told_all so' d parts now (new_events w w1) \<or> told_all so' d parts now (new_events w1 w') \<Longrightarrow>
      told_all so' d parts now (new_events w w')" for so'
    using new_events_trans [OF g1 g2] by (auto simp: told_all_def list_ex_iff)
  show ?case
    using IH s1 b(2) db_grows_trans [OF g1 g2] more by (cases b) force+
qed

lemma deliver_spec:
  assumes "well_behaved out" and "deliver out sos d parts now w = (r, w')"
  shows "db_grows (w_db w) (w_db w')" "w_evals w' = w_evals w" "w_sent w' = w_sent w"
    "\<exists>n. r = Inr n \<and> n \<le> length sos \<and>
       (0 < n \<longrightarrow> (\<exists>so \<in> set sos. told_all so d parts now (new_events w w')))"
  using assms(2) deliver_loop_spec [OF assms(1), of sos d parts now 0 w r w']
  by (auto simp: deliver_def db_grows_refl split: if_splits)

section \<open>The transaction\<close>

lemma next_rowid_snoc:
  assumes "idf r = next_rowid idf t"
  shows "next_rowid idf (t @ [r]) = next_rowid idf t + 1"
proof -
  have "max_by_key idf (t @ [r]) = Some r"
    by (rule max_by_key_unique) (auto simp: assms next_rowid_greater)
  then have "max_or 0 idf (t @ [r]) = next_rowid idf t" by (simp add: max_or_def max_key_def assms)
  then show ?thesis by (simp add: next_rowid_def)
qed

lemma get_hand_off:
  "get_session (snd (hand_off t sid reason now)) k =
     map_option (\<lambda>r. if s_session_id r = sid \<and> mediating (s_state r) then hand_off_row reason now r else r)
       (get_session t k)"
  unfolding get_session_def hand_off_run by (rule handing.find_run)

lemma hand_off_claims:
  "sessions_ok t \<Longrightarrow> fst (hand_off t sid reason now) \<longleftrightarrow>
     (\<exists>cur. get_session t sid = Some cur \<and> mediating (s_state cur))"
  unfolding get_session_def hand_off_run by (rule handing.fst_run) (simp add: sessions_ok_def)

lemma hand_off_grows: "db_grows s (s\<lparr>db_sessions := snd (hand_off (db_sessions s) sid reason now)\<rparr>)"
  using session_machine.step_inv [of "db_sessions s" "[]" "Hand_Off sid reason now"]
  by (auto simp: db_grows_def get_hand_off hand_off_row_def mediating_def state_moves_def)

lemma queue_each_grows:
  "queue_each obs d sub now (q, s) = Inr (b, s') \<Longrightarrow> db_grows s s'"
proof (induction obs arbitrary: q s)
  case (Cons ob obs)
  show ?case
  proof (cases "observer_queued (db_events s) d ob sub")
    case True
    with Cons show ?thesis by simp
  next
    case False
    with Cons.prems have "queue_each obs d sub now (True, logged s d None ''observer_pending'' (notice_payload ob sub) now) =
        Inr (b, s')" by (simp add: log_event_Inr)
    from Cons.IH [OF this] show ?thesis by (rule db_grows_trans [OF db_grows_logged])
  qed
qed (simp add: db_grows_refl)

lemma queue_observers_spec:
  "\<exists>b s'. queue_observers obs s d sub now = Inr (b, s') \<and> db_grows s s' \<and> db_sessions s' = db_sessions s"
  using queue_each_spec [of obs d sub now False s] queue_each_grows [of obs d sub now False s]
  by (auto simp: queue_observers_def db_grows_refl)

definition claim_events :: "session \<Rightarrow> string \<Rightarrow> json \<Rightarrow> json \<Rightarrow> int \<Rightarrow> int \<Rightarrow> event list" where
  "claim_events ses k payload matter pending now =
     [\<lparr>ev_id = pending - 1, ev_dispute_id = s_dispute_id ses, ev_session_id = Some (s_session_id ses),
       ev_kind = k, ev_payload = payload, ev_created_at = now\<rparr>,
      \<lparr>ev_id = pending, ev_dispute_id = s_dispute_id ses, ev_session_id = Some (s_session_id ses),
       ev_kind = ''brief_pending'', ev_payload = matter, ev_created_at = now\<rparr>]"

text \<open>What a transaction that claimed the session records next, always successfully.\<close>

lemma claim_records:
  assumes "k \<noteq> []"
  shows "\<exists>pending s4. (case append_for ses k payload now s1 of
      Inl e \<Rightarrow> Inl e
    | Inr (_, s2) \<Rightarrow>
        (case append_for ses ''brief_pending'' matter now s2 of
           Inl e \<Rightarrow> Inl e
         | Inr (pending, s3) \<Rightarrow>
             (case queue_observers obs s3 (s_dispute_id ses) sub now of
                Inl e \<Rightarrow> Inl e
              | Inr (_, s4) \<Rightarrow> Inr (Some pending, s4)))) = Inr (Some pending, s4) \<and>
    db_grows s1 s4 \<and> db_sessions s4 = db_sessions s1 \<and>
    (\<exists>es. db_events s4 = db_events s1 @ claim_events ses k payload matter pending now @ es)"
proof -
  let ?s2 = "logged s1 (s_dispute_id ses) (Some (s_session_id ses)) k payload now"
  let ?s3 = "logged ?s2 (s_dispute_id ses) (Some (s_session_id ses)) ''brief_pending'' matter now"
  let ?p = "next_rowid ev_id (db_events ?s2)"
  obtain b s4 where q: "queue_observers obs ?s3 (s_dispute_id ses) sub now = Inr (b, s4)"
    and g: "db_grows ?s3 s4" "db_sessions s4 = db_sessions ?s3"
    using queue_observers_spec [of obs ?s3] by blast
  have "?p - 1 = next_rowid ev_id (db_events s1)"
    by (simp add: next_rowid_snoc logged_def)
  then have "db_events ?s3 = db_events s1 @ claim_events ses k payload matter ?p now"
    by (simp add: logged_def claim_events_def event_row_def)
  then have "\<exists>es. db_events s4 = db_events s1 @ claim_events ses k payload matter ?p now @ es"
    using g(1) unfolding db_grows_def by fastforce
  moreover have "db_grows s1 s4"
    by (rule db_grows_trans [OF db_grows_logged db_grows_trans [OF db_grows_logged g(1)]])
  ultimately show ?thesis using assms g(2) by (simp add: append_for_Inr q)
qed

definition handoff_events :: "session \<Rightarrow> handoff_reason \<Rightarrow> int \<Rightarrow> int \<Rightarrow> int \<Rightarrow> event list" where
  "handoff_events ses reason cutoff pending now =
     claim_events ses ''handoff'' (JObj [(''reason'', JStr (handoff_reason_str reason)), (''last_message_id'', JInt cutoff)])
       (JObj [(''reason'', JStr (handoff_reason_str reason))]) pending now"

lemma claimed_tx:
  assumes "fst (hand_off (db_sessions s) (s_session_id ses) (handoff_reason_str reason) now)"
  defines "s1 \<equiv> s\<lparr>db_sessions := snd (hand_off (db_sessions s) (s_session_id ses) (handoff_reason_str reason) now)\<rparr>"
  shows "\<exists>pending s4. hand_off_tx me ses reason now s = Inr (Some pending, s4) \<and> db_grows s1 s4 \<and>
    db_sessions s4 = db_sessions s1 \<and> (\<exists>es. db_events s4 = db_events s @ handoff_events ses reason
      (max_or 0 m_id (messages_for_session (db_messages s) (s_session_id ses))) pending now @ es)"
proof -
  let ?cut = "max_or 0 m_id (messages_for_session (db_messages s1) (s_session_id ses))"
  have s1: "db_messages s1 = db_messages s" "db_events s1 = db_events s" by (simp_all add: s1_def)
  have "hand_off_tx me ses reason now s =
     (case append_for ses ''handoff'' (JObj [(''reason'', JStr (handoff_reason_str reason)), (''last_message_id'', JInt ?cut)]) now s1 of
        Inl e \<Rightarrow> Inl e
      | Inr (_, s2) \<Rightarrow>
          (case append_for ses ''brief_pending'' (JObj [(''reason'', JStr (handoff_reason_str reason))]) now s2 of
             Inl e \<Rightarrow> Inl e
           | Inr (pending, s3) \<Rightarrow>
               (case queue_observers (me_observers me) s3 (s_dispute_id ses) (subject_text (Subject_Handoff reason)) now of
                  Inl e \<Rightarrow> Inl e
                | Inr (_, s4) \<Rightarrow> Inr (Some pending, s4))))"
    using assms(1) by (simp only: hand_off_tx_def case_prod_beta Let_def s1_def if_False not_True_eq_False)
  moreover note claim_records [where k = "''handoff''" and ses = ses and now = now and ?s1.0 = s1
      and payload = "JObj [(''reason'', JStr (handoff_reason_str reason)), (''last_message_id'', JInt ?cut)]"
      and matter = "JObj [(''reason'', JStr (handoff_reason_str reason))]" and obs = "me_observers me"
      and sub = "subject_text (Subject_Handoff reason)", OF list.distinct(2)]
  ultimately show ?thesis by (simp only: handoff_events_def s1)
qed

lemma hand_off_tx_spec:
  assumes "sessions_ok (db_sessions s)"
  shows "if \<exists>cur. get_session (db_sessions s) (s_session_id ses) = Some cur \<and> mediating (s_state cur)
    then \<exists>pending s'. hand_off_tx me ses reason now s = Inr (Some pending, s') \<and> db_grows s s' \<and>
      (\<exists>es. db_events s' = db_events s @ handoff_events ses reason
        (max_or 0 m_id (messages_for_session (db_messages s) (s_session_id ses))) pending now @ es) \<and>
      (\<forall>cur. get_session (db_sessions s') (s_session_id ses) = Some cur \<longrightarrow> s_state cur = HandedOff)
    else hand_off_tx me ses reason now s = Inr (None, s)"
proof (cases "\<exists>cur. get_session (db_sessions s) (s_session_id ses) = Some cur \<and> mediating (s_state cur)")
  case False
  then have "\<not> fst (hand_off (db_sessions s) (s_session_id ses) (handoff_reason_str reason) now)"
    using hand_off_claims [OF assms] by blast
  with False show ?thesis by (auto simp: hand_off_tx_def case_prod_beta)
next
  case True
  let ?sid = "s_session_id ses"
  let ?s1 = "s\<lparr>db_sessions := snd (hand_off (db_sessions s) ?sid (handoff_reason_str reason) now)\<rparr>"
  obtain pending s4 where r: "hand_off_tx me ses reason now s = Inr (Some pending, s4)"
    and g: "db_grows ?s1 s4" "db_sessions s4 = db_sessions ?s1"
    and ev: "\<exists>es. db_events s4 = db_events ?s1 @ handoff_events ses reason
      (max_or 0 m_id (messages_for_session (db_messages s) ?sid)) pending now @ es"
  proof -
    have "fst (hand_off (db_sessions s) ?sid (handoff_reason_str reason) now)"
      using True hand_off_claims [OF assms] by blast
    from claimed_tx [OF this, of me] show thesis using that by (fastforce simp: handoff_events_def)
  qed
  have "s_state cur = HandedOff" if "get_session (db_sessions s4) ?sid = Some cur" for cur
  proof -
    obtain c where "get_session (db_sessions s) ?sid = Some c" "mediating (s_state c)" using True by blast
    moreover have "s_session_id c = ?sid" using \<open>get_session (db_sessions s) ?sid = Some c\<close>
      by (auto simp: get_session_def dest: find_key_some)
    ultimately show ?thesis using that by (auto simp: g(2) get_hand_off hand_off_row_def)
  qed
  with True r ev db_grows_trans [OF hand_off_grows g(1)] show ?thesis by auto
qed

lemma hand_off_tx_grows:
  assumes "hand_off_tx me ses reason now s = Inr (p, s')"
  shows "db_grows s s'"
proof (cases "fst (hand_off (db_sessions s) (s_session_id ses) (handoff_reason_str reason) now)")
  case True
  from claimed_tx [OF this, of me] assms show ?thesis
    using db_grows_trans [OF hand_off_grows] by auto
next
  case False
  with assms show ?thesis by (simp add: hand_off_tx_def case_prod_beta db_grows_refl)
qed

section \<open>Handing off once\<close>

lemma ask_brief_spec:
  assumes "well_behaved out" and "ask_brief out ready ses rd sub now w = (br, w')"
  shows "db_grows (w_db w) (w_db w')" "w_sent w' = w_sent w"
  using assms(2) others_grows [OF assms(1), of w]
  by (auto simp: ask_brief_def Let_def record_brief_def db_grows_refl split: option.splits sum.splits)

lemma brief_solvers_spec:
  assumes "well_behaved out" and "brief_solvers out me ses sub rd now w = (r, w')"
  shows "db_grows (w_db w) (w_db w')" "w_sent w' = w_sent w"
    "r = Inr n \<Longrightarrow> 0 < n \<Longrightarrow> \<exists>so \<in> set (recipients (me_solvers me) (case get_dispute (db_disputes (w_db w)) (s_dispute_id ses) of
         None \<Rightarrow> None | Some d \<Rightarrow> d_assigned_solver d)).
       \<exists>t parts. transcript (os_nip19 out) (s_dispute_id ses) (message_lines (session_messages w ses)) = Some parts \<and>
         told_all so (s_dispute_id ses) ((''brief'', t) # map (Pair ''transcript'') parts) now (new_events w w')"
proof -
  let ?d = "get_dispute (db_disputes (w_db w)) (s_dispute_id ses)"
  let ?to = "recipients (me_solvers me) (case ?d of None \<Rightarrow> None | Some d \<Rightarrow> d_assigned_solver d)"
  obtain br w1 where ask: "(case rd of None \<Rightarrow> (default_brief, w)
      | Some r \<Rightarrow> (case me_judge me of None \<Rightarrow> (default_brief, w)
          | Some ready \<Rightarrow> ask_brief out ready ses r sub now w)) = (br, w1)" by fastforce
  have g1: "db_grows (w_db w) (w_db w1)" and s1: "w_sent w1 = w_sent w"
    using ask ask_brief_spec [OF assms(1)] by (auto simp: db_grows_refl split: option.splits)
  have "db_grows (w_db w) (w_db w') \<and> w_sent w' = w_sent w \<and>
    (r = Inr n \<longrightarrow> 0 < n \<longrightarrow> (\<exists>so \<in> set (recipients (me_solvers me) (case get_dispute (db_disputes (w_db w)) (s_dispute_id ses) of
         None \<Rightarrow> None | Some d \<Rightarrow> d_assigned_solver d)).
       \<exists>t parts. transcript (os_nip19 out) (s_dispute_id ses) (message_lines (session_messages w ses)) = Some parts \<and>
         told_all so (s_dispute_id ses) ((''brief'', t) # map (Pair ''transcript'') parts) now (new_events w w')))"
  proof (cases "transcript (os_nip19 out) (s_dispute_id ses) (message_lines (session_messages w ses))")
    case None
    with assms(2) g1 s1 show ?thesis by (auto simp: brief_solvers_def ask Let_def)
  next
    case (Some parts)
    then obtain t where del: "deliver out ?to (s_dispute_id ses) ((''brief'', t) # map (Pair ''transcript'') parts) now w1 = (r, w')"
      using assms(2) by (simp add: brief_solvers_def ask Let_def)
    note d = deliver_spec [OF assms(1) del]
    have g: "db_grows (w_db w) (w_db w')" by (rule db_grows_trans [OF g1 d(1)])
    have "\<exists>so \<in> set (recipients (me_solvers me) (case get_dispute (db_disputes (w_db w)) (s_dispute_id ses) of
         None \<Rightarrow> None | Some d \<Rightarrow> d_assigned_solver d)).
       \<exists>t parts. transcript (os_nip19 out) (s_dispute_id ses) (message_lines (session_messages w ses)) = Some parts \<and>
         told_all so (s_dispute_id ses) ((''brief'', t) # map (Pair ''transcript'') parts) now (new_events w w')"
      if pos: "r = Inr n" "0 < n"
    proof -
      obtain so where "so \<in> set ?to" "told_all so (s_dispute_id ses) ((''brief'', t) # map (Pair ''transcript'') parts) now (new_events w1 w')"
        using d(4) pos by auto
      moreover from this(2) have "told_all so (s_dispute_id ses) ((''brief'', t) # map (Pair ''transcript'') parts) now (new_events w w')"
        using new_events_trans [OF g1 d(1)] by (auto simp: told_all_def list_ex_iff)
      ultimately show ?thesis using Some by blast
    qed
    then show ?thesis using g d(3) s1 by simp
  qed
  then show "db_grows (w_db w) (w_db w')" "w_sent w' = w_sent w"
    "r = Inr n \<Longrightarrow> 0 < n \<Longrightarrow> \<exists>so \<in> set (recipients (me_solvers me) (case get_dispute (db_disputes (w_db w)) (s_dispute_id ses) of
         None \<Rightarrow> None | Some d \<Rightarrow> d_assigned_solver d)).
       \<exists>t parts. transcript (os_nip19 out) (s_dispute_id ses) (message_lines (session_messages w ses)) = Some parts \<and>
         told_all so (s_dispute_id ses) ((''brief'', t) # map (Pair ''transcript'') parts) now (new_events w w')" by simp_all
qed

lemma tell_handoff_spec:
  assumes "well_behaved out"
  shows "db_grows (w_db w) (w_db (tell_handoff out me ses ps w)) \<and>
    (\<exists>ms. w_sent (tell_handoff out me ses ps w) = w_sent w @ ms \<and>
       (\<forall>m \<in> set ms. sm_session_id m = s_session_id ses \<and> sm_template m = HANDOFF_NOTICE \<and> gated m))"
proof (induction ps arbitrary: w)
  case (Cons p ps)
  obtain r w1 where one: "send_template out me ses p HANDOFF_NOTICE w = (r, w1)" by force
  have s: "world_step (\<lambda>m. sm_session_id m = s_session_id ses \<and> sm_template m = HANDOFF_NOTICE \<and> gated m) w w1"
    by (rule world_step_mono [OF send_template_step [OF assms one]]) (simp add: about_def)
  show ?case
    using Cons.IH [of w] Cons.IH [of w1] s by (auto simp: one world_step_def intro: db_grows_trans)
qed (simp add: db_grows_refl)

lemma find_pending:
  assumes "e \<in> set evs" and "of_session ses e" and "ev_kind e = ''brief_pending''"
    and sub: "subject_of (ev_payload e) = Some sub"
  shows "(ev_id e, sub) \<in> set (pending_briefs ses evs) \<or>
    (\<exists>b \<in> set evs. of_session ses b \<and> ev_kind b = ''brief_sent'' \<and>
       as_i64 (jget (ev_payload b) ''pending'') = Some (ev_id e))"
proof -
  have mf: "x \<in> set xs \<Longrightarrow> f x = Some y \<Longrightarrow> y \<in> set (List.map_filter f xs)" for x xs and f :: "event \<Rightarrow> (int \<times> subject) option" and y
    by (force simp: List.map_filter_def)
  show ?thesis
    using assms(1-3) sub
    by (cases "\<exists>b \<in> set evs. of_session ses b \<and> ev_kind b = ''brief_sent'' \<and>
       as_i64 (jget (ev_payload b) ''pending'') = Some (ev_id e)")
      (auto simp: pending_briefs_def Let_def list_ex_iff intro!: mf [of e])
qed


text \<open>
  Who gets a brief, and when it counts as delivered. \<open>brief_solvers\<close> reports a delivery only if one
  of the recipients (the assigned solver, else the solvers with write permission, else all) was
  sent the brief and every part of the transcript of the conversation as it was then, each of them
  recorded in the log during the call.
\<close>

theorem brief_delivered_whole:
  assumes "well_behaved out" and "brief_solvers out me ses sub rd now w = (Inr n, w')" and "0 < n"
  shows "\<exists>so \<in> set (recipients (me_solvers me)
       (case get_dispute (db_disputes (w_db w)) (s_dispute_id ses) of None \<Rightarrow> None | Some d \<Rightarrow> d_assigned_solver d)).
     \<exists>t parts. transcript (os_nip19 out) (s_dispute_id ses) (message_lines (session_messages w ses)) = Some parts \<and>
       told_all so (s_dispute_id ses) ((''brief'', t) # map (Pair ''transcript'') parts) now (new_events w w')"
  using brief_solvers_spec(3) [OF assms(1,2) refl assms(3)] .

text \<open>
  Property C8. Nothing is asked after a handoff. Once Serbero no longer mediates a session, no template but the
  handoff notice is given to the relays for it, and once the session is over not even that, whatever
  row the caller read earlier and whatever other tasks do meanwhile; the caller gets an error.
\<close>

theorem nothing_asked_after_handoff:
  assumes "well_behaved out" and "send_template out me ses p template w = (r, w')"
    and "get_session (db_sessions (w_db w)) (s_session_id ses) = Some cur" and "\<not> mediating (s_state cur)"
    and "template \<noteq> HANDOFF_NOTICE \<or> is_terminal (s_state cur)"
  shows "w_sent w' = w_sent w \<and> (\<exists>e. r = Inl e)"
proof (rule ccontr)
  assume "\<not> ?thesis"
  then obtain s c where s: "db_grows (w_db w) s" "get_session (db_sessions s) (s_session_id ses) = Some c"
    "may_send template (s_state c)"
    using send_template_spec(3) [OF assms(1,2)] by blast
  moreover have "\<not> mediating (s_state c) \<and> (is_terminal (s_state cur) \<longrightarrow> s_state c = s_state cur)"
    using s(1,2) assms(3,4) state_moves_mediating state_moves_terminal unfolding db_grows_def by fastforce
  ultimately show False using assms(5) by (auto simp: may_send_def split: if_splits)
qed

section \<open>Updates\<close>

lemma deliver_keeps:
  assumes refl: "\<And>s. R s s" and trans: "\<And>a b c. R a b \<Longrightarrow> R b c \<Longrightarrow> R a c"
    and env: "\<And>n s. R s (os_env out n s)"
    and log: "\<And>s k payload now. k \<in> {''notification_sent'', ''notification_failed''} \<Longrightarrow> R s (logged s d None k payload now)"
    and del: "deliver out sos d parts now w = (r, w')"
  shows "R (w_db w) (w_db w')"
proof -
  have others: "R s (w_db w) \<Longrightarrow> R s (w_db (others out w))" for s w
    using trans [OF _ env, of s "w_db w" "w_step w"] by (simp add: others_def)
  have parts: "deliver_parts out so d ps now w = (r, w') \<Longrightarrow> R (w_db w) (w_db w')" for so ps w r w'
  proof (induction ps arbitrary: w)
    case (Cons x ps)
    obtain notification t where x: "x = (notification, t)" by (cases x)
    have step: "R (w_db w) (logged (w_db (others out w)) d None k payload at0)"
      if "k \<in> {''notification_sent'', ''notification_failed''}" for k payload at0
      by (rule trans [OF others [OF refl] log [OF that]])
    from Cons.prems show ?case
      by (auto simp: x notify_one Let_def split: option.splits if_splits intro: step dest!: Cons.IH elim!: trans [OF step, rotated])
  qed (auto simp: refl)
  have "deliver_loop out sos d parts now k w = (r, w') \<Longrightarrow> R (w_db w) (w_db w')" for k w
  proof (induction sos arbitrary: k w)
    case (Cons so sos)
    then show ?case by (auto split: prod.splits sum.splits dest: parts intro: trans)
  qed (auto simp: refl)
  with del show ?thesis by (auto simp: deliver_def refl split: if_splits)
qed

text \<open>No record of what the solvers have seen, and no message, appears.\<close>

definition unseen_same :: "string \<Rightarrow> string \<Rightarrow> db \<Rightarrow> db \<Rightarrow> bool" where
  "unseen_same d sid s s' \<longleftrightarrow> db_messages s' = db_messages s \<and>
     last_seen (events_for_dispute (db_events s') d) sid = last_seen (events_for_dispute (db_events s) d) sid"

lemma unseen_same_logged: "k \<noteq> ''handoff'' \<Longrightarrow> k \<noteq> ''update_sent'' \<Longrightarrow> unseen_same d sid s (logged s d' i k payload now)"
  by (simp add: unseen_same_def logged_def last_seen_def events_for_dispute_def event_row_def)

lemma last_seen_update:
  assumes "last_seen (events_for_dispute (db_events s) d) sid < i"
  shows "last_seen (events_for_dispute
      (db_events (logged s d (Some sid) ''update_sent'' (JObj [(''last_message_id'', JInt i)]) now)) d) sid = i"
proof -
  let ?xs = "List.map_filter (\<lambda>e. as_i64 (jget (ev_payload e) ''last_message_id''))
         (filter (\<lambda>e. ev_kind e = ''handoff'' \<or> ev_kind e = ''update_sent'')
           (filter (\<lambda>e. ev_session_id e = Some sid) (events_for_dispute (db_events s) d)))"
  have "max_by_key id (?xs @ [i]) = Some i"
  proof (rule max_by_key_unique)
    fix x assume "x \<in> set (?xs @ [i])" "x \<noteq> i"
    then have "id x \<le> max_or 0 id ?xs" by (intro max_or_ge) simp
    with assms show "id x < id i" by (simp add: last_seen_def)
  qed simp
  then show ?thesis
    by (simp add: logged_def last_seen_def events_for_dispute_def event_row_def List.map_filter_def
        max_or_def max_key_def)
qed

lemma fresh_last:
  assumes "fresh_messages w ses \<noteq> []"
  shows "last_opt (map m_id (fresh_messages w ses)) = Some (m_id (last (fresh_messages w ses)))"
    "last_seen (dispute_events w ses) (s_session_id ses) < m_id (last (fresh_messages w ses))"
  using assms last_in_set [OF assms] by (auto simp: last_opt_def last_map fresh_messages_def)

lemma forward_updates_cases:
  assumes "forward_updates out me ses now w = (r, w')"
  obtains "fresh_messages w ses = []" "r = Inr 0" "w' = w"
  | "fresh_messages w ses \<noteq> []" "r = Inl text_panic" "w' = w"
  | parts r1 w1 where "fresh_messages w ses \<noteq> []"
      "update_text (os_nip19 out) (s_dispute_id ses) (message_lines (fresh_messages w ses)) = Some parts"
      "deliver out (recipients (me_solvers me) (case get_dispute (db_disputes (w_db w)) (s_dispute_id ses) of
         None \<Rightarrow> None | Some d \<Rightarrow> d_assigned_solver d)) (s_dispute_id ses) (map (Pair ''update'') parts) now w = (r1, w1)"
      "(\<forall>n. r1 = Inr n \<longrightarrow> n = 0) \<and> (\<forall>n. r = Inr n \<longrightarrow> n = 0) \<and> w' = w1 \<or>
       (\<exists>n. r1 = Inr n \<and> 0 < n) \<and> r = Inr (length (fresh_messages w ses)) \<and>
         w' = w1\<lparr>w_db := logged (w_db w1) (s_dispute_id ses) (Some (s_session_id ses)) ''update_sent''
           (JObj [(''last_message_id'', JInt (m_id (last (fresh_messages w ses))))]) now\<rparr>"
proof (cases "fresh_messages w ses = []")
  case True
  with assms have "r = Inr 0 \<and> w' = w" by (simp add: forward_updates_def Let_def last_opt_def)
  with True show ?thesis by (intro that(1)) simp_all
next
  case False
  note last = fresh_last(1) [OF False]
  show ?thesis
  proof (cases "update_text (os_nip19 out) (s_dispute_id ses) (message_lines (fresh_messages w ses))")
    case None
    with assms last have "r = Inl text_panic \<and> w' = w" by (simp add: forward_updates_def Let_def)
    with False show ?thesis by (intro that(2)) simp_all
  next
    case (Some parts)
    obtain r1 w1 where d: "deliver out (recipients (me_solvers me) (case get_dispute (db_disputes (w_db w)) (s_dispute_id ses) of
         None \<Rightarrow> None | Some d \<Rightarrow> d_assigned_solver d)) (s_dispute_id ses) (map (Pair ''update'') parts) now w = (r1, w1)"
      by force
    note eq = assms [unfolded forward_updates_def Let_def last option.case Some d prod.case]
    show ?thesis
    proof (cases r1)
      case (Inl e)
      with eq show ?thesis by (intro that(3) [OF False Some d]) auto
    next
      case (Inr n)
      show ?thesis
      proof (cases "n = 0")
        case True
        with eq Inr show ?thesis by (intro that(3) [OF False Some d]) auto
      next
        case pos: False
        with eq Inr show ?thesis by (intro that(3) [OF False Some d]) (simp add: append_for_Inr)
      qed
    qed
  qed
qed


text \<open>
  Property C39. What the next call forwards, when nothing else happens meanwhile. A failed call leaves everything
  for the next one. After a successful one the messages that arrived after the last message by the
  senders' clocks are forwarded again, so nothing is repeated exactly when the clocks agree with the
  order of arrival. The witness has a party whose clock is behind, and a message the solvers get
  twice.
\<close>

theorem updates_forwarded_again:
  assumes "\<forall>n s. os_env out n s = s" and "forward_updates out me ses now w = (r, w')"
  shows "fresh_messages w' ses =
      (if \<exists>n > 0. r = Inr n then filter (\<lambda>m. m_id (last (fresh_messages w ses)) < m_id m) (fresh_messages w ses)
       else fresh_messages w ses) \<and>
    ((\<exists>n > 0. r = Inr n) \<longrightarrow> (fresh_messages w' ses = [] \<longleftrightarrow>
       (\<forall>m \<in> set (fresh_messages w ses). m_id m \<le> m_id (last (fresh_messages w ses)))))"
proof -
  let ?F = "fresh_messages w ses" and ?d = "s_dispute_id ses" and ?sid = "s_session_id ses"
  have keep: "unseen_same ?d ?sid (w_db w) (w_db w1)"
    if "deliver out sos ?d parts now w = (r1, w1)" for sos parts r1 w1
    by (rule deliver_keeps [OF _ _ _ _ that]) (auto simp: unseen_same_def assms(1) intro: unseen_same_logged [unfolded unseen_same_def, THEN conjunct2])
  have same: "fresh_messages w1 ses = ?F" if "unseen_same ?d ?sid (w_db w) (w_db w1)" for w1
    using that by (simp add: fresh_messages_def session_messages_def dispute_events_def unseen_same_def)
  have "fresh_messages w' ses = (if \<exists>n > 0. r = Inr n then filter (\<lambda>m. m_id (last ?F) < m_id m) ?F else ?F)"
    using assms(2)
  proof (cases rule: forward_updates_cases)
    case (3 parts r1 w1)
    note k = keep [OF 3(3)]
    show ?thesis
    proof (cases "\<exists>n > 0. r = Inr n")
      case False
      with 3(1,4) have "w' = w1" by auto
      with False same [OF k] show ?thesis by (simp only: if_False)
    next
      case True
      with 3(4) have w': "w' = w1\<lparr>w_db := logged (w_db w1) ?d (Some ?sid) ''update_sent''
           (JObj [(''last_message_id'', JInt (m_id (last ?F)))]) now\<rparr>" by auto
      have "last_seen (dispute_events w' ses) ?sid = m_id (last ?F)"
        using fresh_last(2) [OF 3(1)] k
        by (simp add: w' dispute_events_def unseen_same_def last_seen_update)
      moreover have "session_messages w' ses = session_messages w ses"
        using k by (simp add: w' session_messages_def unseen_same_def)
      moreover have "last_seen (dispute_events w ses) ?sid < m_id (last ?F)" by (rule fresh_last(2) [OF 3(1)])
      ultimately show ?thesis using True
        by (auto simp: fresh_messages_def filter_filter intro!: filter_cong)
    qed
  qed auto
  then show ?thesis by (auto simp: filter_empty_conv not_less)
qed


section \<open>What the handlers here send\<close>

lemma brief_solvers_step:
  "well_behaved out \<Longrightarrow> brief_solvers out me ses sub rd now w = (r, w') \<Longrightarrow> world_step P w w'"
  using brief_solvers_spec(1,2) by (blast intro: world_step_db)

lemma brief_delivered_step: "brief_delivered ses pending now w = (r, w') \<Longrightarrow> world_step P w w'"
  by (auto simp: brief_delivered_def append_for_Inr world_step_logged)

lemma tell_handoff_step:
  "well_behaved out \<Longrightarrow> world_step (\<lambda>m. sm_session_id m = s_session_id ses \<and> sm_template m = HANDOFF_NOTICE \<and> gated m) w (tell_handoff out me ses ps w)"
  using tell_handoff_spec by (simp add: world_step_def)

lemma hand_off_session_step:
  assumes "well_behaved out" and "hand_off_session out me ses reason rd now w = (r, w')"
  shows "world_step (\<lambda>m. sm_session_id m = s_session_id ses \<and> sm_template m = HANDOFF_NOTICE \<and> gated m) w w'"
proof (cases "\<exists>pending s. hand_off_tx me ses reason now (w_db w) = Inr (Some pending, s)")
  case False
  with assms(2) show ?thesis by (auto simp: hand_off_session_def split: sum.splits option.splits prod.splits)
next
  case True
  then obtain pending s where tx: "hand_off_tx me ses reason now (w_db w) = Inr (Some pending, s)" by blast
  let ?P = "\<lambda>m. sm_session_id m = s_session_id ses \<and> sm_template m = HANDOFF_NOTICE \<and> gated m"
  have s0: "world_step ?P w (w\<lparr>w_db := s\<rparr>)" by (rule world_step_db) (simp_all add: hand_off_tx_grows [OF tx])
  obtain r1 w1 where b: "brief_solvers out me ses (Subject_Handoff reason) rd now (w\<lparr>w_db := s\<rparr>) = (r1, w1)" by force
  have s1: "world_step ?P w w1" by (rule world_step_trans [OF s0 brief_solvers_step [OF assms(1) b]])
  obtain r2 w2 where d: "brief_delivered ses pending now w1 = (r2, w2)" by force
  have s2: "world_step ?P w w2" by (rule world_step_trans [OF s1 brief_delivered_step [OF d]])
  have "w' \<in> {w1, w2, tell_handoff out me ses [Buyer, Seller] w1, tell_handoff out me ses [Buyer, Seller] w2}"
    using assms(2) by (auto simp: hand_off_session_def tx b d simp del: tell_handoff.simps split: sum.splits if_splits)
  then show ?thesis using s1 s2 tell_handoff_step [OF assms(1)] world_step_trans by blast
qed

lemma forward_updates_step:
  assumes "well_behaved out" and "forward_updates out me ses now w = (r, w')"
  shows "world_step P w w'"
  using assms(2)
proof (cases rule: forward_updates_cases)
  case (3 parts r1 w1)
  have "world_step P w w1" using deliver_spec(1,3) [OF assms(1) 3(3)] by (rule world_step_db)
  with 3(4) show ?thesis by (auto intro: world_step_trans [OF _ world_step_logged])
qed auto

section \<open>Examples\<close>

definition quiet_outside :: outside where
  "quiet_outside = \<lparr>os_env = \<lambda>_ s. s, os_chat = \<lambda>_. Sent ''i'' 5, os_dm = \<lambda>_ _ _. None,
     os_judge = \<lambda>_ _ _. Inl (Unavailable ''down''), os_clock = \<lambda>_. 0, os_latency_ms = \<lambda>_. 0,
     os_nip19 = \<lambda>_. False, os_digest = \<lambda>_. ''v''\<rparr>"

definition example_mediator :: mediator where
  "example_mediator = \<lparr>me_catalogs = [], me_settings = \<lparr>ms_enabled = True, ms_default_language = ''en'',
     ms_languages = [''en''], ms_max_rounds = 4, ms_max_message_chars = 4000, ms_max_messages_per_turn = 20,
     ms_response_timeout = 60, ms_self_resolution_timeout = 60, ms_handoff_grace = 60\<rparr>,
     me_solvers = [\<lparr>so_pubkey = ''solver'', so_permission = Write\<rparr>], me_observers = [], me_judge = None\<rparr>"

abbreviation example_open :: session where
  "example_open \<equiv> opening_row (example_session ''s1'' ''d1'')"

definition example_mediated :: "message list \<Rightarrow> world" where
  "example_mediated ms = \<lparr>w_db = empty_db\<lparr>db_sessions := [example_open], db_messages := ms\<rparr>,
     w_evals = [], w_step = 0, w_sent = []\<rparr>"

text \<open>The seller's message arrives second, but by her clock she sent it before the buyer's.\<close>

definition example_late :: "message list" where
  "example_late = [message_row 1 ((example_in Buyer ''e1'')\<lparr>nm_created_at := 200\<rparr>),
     message_row 2 ((example_in Seller ''e2'')\<lparr>nm_created_at := 100\<rparr>)]"

lemma quiet_well_behaved: "well_behaved quiet_outside"
  by (simp add: well_behaved_def quiet_outside_def db_grows_refl)

lemma example_mediated_get:
  "get_session (db_sessions (w_db (example_mediated ms))) (s_session_id example_open) = Some example_open"
  "mediating (s_state example_open)"
  by (simp_all add: example_mediated_def get_session_def mediating_def opening_row_def)


lemma brief_delivered_whole_witness:
  "\<exists>so \<in> set (recipients (me_solvers example_mediator) None).
     \<exists>parts. transcript (os_nip19 quiet_outside) ''d1'' [] = Some parts"
proof -
  let ?w = "example_mediated []"
  have one: "fst (brief_solvers quiet_outside example_mediator example_open (Subject_Handoff Flood) None 50 ?w) = Inr 1"
    by code_simp
  then have "brief_solvers quiet_outside example_mediator example_open (Subject_Handoff Flood) None 50 ?w =
      (Inr 1, snd (brief_solvers quiet_outside example_mediator example_open (Subject_Handoff Flood) None 50 ?w))"
    by (metis prod.collapse)
  from brief_delivered_whole [OF quiet_well_behaved this]
  show ?thesis
    by (auto simp: message_lines_def session_messages_def messages_for_session_def example_mediated_def empty_db_def
        get_dispute_def opening_row_def example_session_def)
qed

lemma nothing_asked_after_handoff_witness:
  "w_sent (snd (send_template quiet_outside example_mediator example_open Buyer ASK_BUYER_SENT
     ((example_mediated [])\<lparr>w_db := (w_db (example_mediated []))\<lparr>db_sessions := [hand_off_row ''flood'' 9 example_open]\<rparr>\<rparr>))) = []"
proof -
  let ?w = "(example_mediated [])\<lparr>w_db := (w_db (example_mediated []))\<lparr>db_sessions := [hand_off_row ''flood'' 9 example_open]\<rparr>\<rparr>"
  have "get_session (db_sessions (w_db ?w)) (s_session_id example_open) = Some (hand_off_row ''flood'' 9 example_open)"
    by (simp add: get_session_def hand_off_row_def)
  from nothing_asked_after_handoff [where me = example_mediator and p = Buyer and template = ASK_BUYER_SENT,
      OF quiet_well_behaved surjective_pairing this]
  show ?thesis by (simp add: example_mediated_def hand_off_row_def mediating_def ASK_BUYER_SENT_def HANDOFF_NOTICE_def)
qed

lemma deliver_quiet:
  assumes "\<forall>n key t. os_dm out n key t = None"
  shows "fst (deliver out sos d parts now w) = Inr (length sos)"
proof -
  have parts: "fst (deliver_parts out so d ps now w) = Inr True" for so ps w
  proof (induction ps arbitrary: w)
    case (Cons x ps)
    then show ?case by (cases x) (simp add: notify_one assms Let_def)
  qed simp
  have "fst (deliver_loop out sos d parts now k w) = Inr (k + length sos)" for k w
  proof (induction sos arbitrary: k w)
    case (Cons so sos)
    obtain w1 where "deliver_parts out so d parts now w = (Inr True, w1)"
      using parts [of so parts w] by (metis prod.collapse)
    with Cons show ?case by simp
  qed simp
  then show ?thesis by (simp add: deliver_def)
qed

lemma update_text_total:
  assumes "length (update_header d (length ls)) + 1 < MAX_DM_CHARS"
  shows "\<exists>parts. update_text nip19 d ls = Some parts"
  using chunk_total [of "MAX_DM_CHARS - (length (update_header d (length ls)) + 1)" "map (transcript_line nip19) ls"] assms
  by (auto simp: update_text_def Let_def checked_sub_def)

lemma forward_quiet:
  assumes "fresh_messages w example_open \<noteq> []" and "length (fresh_messages w example_open) < 10"
  shows "fst (forward_updates quiet_outside example_mediator example_open now w) = Inr (length (fresh_messages w example_open))"
proof -
  let ?F = "fresh_messages w example_open"
  have "length (update_header ''d1'' (length ?F)) + 1 < MAX_DM_CHARS"
    using assms(2) length_dec [of 1 "length ?F"]
    by (simp add: update_header_def dispute_line_def MAX_DM_CHARS_def)
  then obtain parts where "update_text (os_nip19 quiet_outside) ''d1'' (message_lines ?F) = Some parts"
    using update_text_total [of "''d1''" "message_lines ?F"] by (auto simp: message_lines_def)
  moreover have "fst (deliver quiet_outside (recipients (me_solvers example_mediator) a) d ps now w) = Inr 1" for a d ps
    by (simp add: deliver_quiet quiet_outside_def) (simp add: recipients_def example_mediator_def split: option.splits)
  ultimately show ?thesis
    using fresh_last(1) [OF assms(1)]
    by (simp add: forward_updates_def Let_def append_for_Inr opening_row_def example_session_def case_prod_beta
        del: One_nat_def split: prod.splits)
qed

lemma example_fresh: "map m_id (fresh_messages (example_mediated example_late) example_open) = [2, 1]"
  by (simp add: fresh_messages_def session_messages_def messages_for_session_def example_mediated_def example_late_def
      dispute_events_def events_for_dispute_def last_seen_def empty_db_def max_or_def max_key_def List.map_filter_def
      opening_row_def example_session_def message_row_def example_in_def)

lemma example_forward:
  "fst (forward_updates quiet_outside example_mediator example_open 50 (example_mediated example_late)) = Inr 2"
proof -
  have "length (fresh_messages (example_mediated example_late) example_open) = 2"
    using arg_cong [OF example_fresh, of length] by simp
  then show ?thesis by (subst forward_quiet) auto
qed


lemma updates_forwarded_again_witness:
  "let w' = snd (forward_updates quiet_outside example_mediator example_open 50 (example_mediated example_late))
   in map m_id (fresh_messages w' example_open) = [2] \<and>
      fst (forward_updates quiet_outside example_mediator example_open 60 w') = Inr 1"
proof -
  let ?w = "example_mediated example_late"
  let ?w' = "snd (forward_updates quiet_outside example_mediator example_open 50 ?w)"
  have "\<forall>n s. os_env quiet_outside n s = s" by (simp add: quiet_outside_def)
  from updates_forwarded_again [where me = example_mediator and ses = example_open and now = 50 and w = ?w,
      OF this surjective_pairing] example_forward
  have "fresh_messages ?w' example_open =
      filter (\<lambda>m. m_id (last (fresh_messages ?w example_open)) < m_id m) (fresh_messages ?w example_open)"
    by simp
  with example_fresh have ids: "map m_id (fresh_messages ?w' example_open) = [2]"
    by (cases "fresh_messages ?w example_open") (auto simp: Cons_eq_map_conv)
  then have "length (fresh_messages ?w' example_open) = 1" by (metis length_map One_nat_def length_Cons list.size(3))
  with ids show ?thesis by (auto simp: Let_def forward_quiet)
qed
end
