(* ===== verification/Guide.thy ===== *)
theory Guide
  imports Handoff
begin

text \<open>
  \<open>src/src/mediation/guide.rs\<close> and the sending half of \<open>src/src/mediation/hold.rs\<close>: explaining a
  self-resolution path, closing the mediation of a resolved dispute, and the notices of a hold. The
  lock that lets one closing run at a time is not part of the state; the theorems say what they
  need of it.
\<close>

section \<open>Guidance\<close>

definition RESOLVED_THANKS :: string where "RESOLVED_THANKS = ''resolved_thanks''"
definition FINISHED_EVENT :: string where "FINISHED_EVENT = ''finished''"
definition FINAL_REPORT :: string where "FINAL_REPORT = ''final_report''"

definition FINISH_LOOKBACK_SECS :: int where "FINISH_LOOKBACK_SECS = 7 * 24 * 3600"

fun guides :: "path \<Rightarrow> (party \<times> string) list" where
  "guides PaymentArrived = [(Seller, ''guide_arrived_seller''), (Buyer, ''guide_arrived_buyer'')]"
| "guides PaymentNotSent = [(Buyer, ''guide_not_sent_buyer''), (Seller, ''guide_not_sent_seller'')]"

fun send_guides_loop ::
    "outside \<Rightarrow> mediator \<Rightarrow> session \<Rightarrow> (party \<times> string) list \<Rightarrow> nat \<Rightarrow> world \<Rightarrow> nat \<times> world" where
  "send_guides_loop out me ses [] missing w = (missing, w)"
| "send_guides_loop out me ses ((p, template) # gs) missing w =
     (if received w ses p template then send_guides_loop out me ses gs missing w
      else case send_template out me ses p template w of
          (Inl _, w') \<Rightarrow> send_guides_loop out me ses gs (missing + 1) w'
        | (Inr _, w') \<Rightarrow> send_guides_loop out me ses gs missing w')"

definition send_guides :: "outside \<Rightarrow> mediator \<Rightarrow> session \<Rightarrow> path \<Rightarrow> world \<Rightarrow> nat \<times> world" where
  "send_guides out me ses path w = send_guides_loop out me ses (guides path) 0 w"

definition guided_path :: "world \<Rightarrow> session \<Rightarrow> path option" where
  "guided_path w ses =
     (case find_last (\<lambda>e. ev_kind e = ''guided'' \<and> of_session ses e) (dispute_events w ses) of
        None \<Rightarrow> None
      | Some e \<Rightarrow> (case as_str (jget (ev_payload e) ''path'') of None \<Rightarrow> None | Some p \<Rightarrow> path_parse p))"

definition resend_guides :: "outside \<Rightarrow> mediator \<Rightarrow> session \<Rightarrow> world \<Rightarrow> nat \<times> world" where
  "resend_guides out me ses w =
     (case guided_path w ses of None \<Rightarrow> (0, w) | Some path \<Rightarrow> send_guides out me ses path w)"

definition guide_tx :: "mediator \<Rightarrow> session \<Rightarrow> path \<Rightarrow> int \<Rightarrow> db \<Rightarrow> (int option \<times> db) result" where
  "guide_tx me ses path now s =
     (let (claimed, t) = start_guiding (db_sessions s) (s_session_id ses) now
      in if \<not> claimed then Inr (None, s)
         else case append_for ses ''guided'' (JObj [(''path'', JStr (path_str path))]) now (s\<lparr>db_sessions := t\<rparr>) of
             Inl e \<Rightarrow> Inl e
           | Inr (_, s2) \<Rightarrow>
               (case append_for ses ''brief_pending'' (JObj [(''path'', JStr (path_str path))]) now s2 of
                  Inl e \<Rightarrow> Inl e
                | Inr (pending, s3) \<Rightarrow>
                    (case queue_observers (me_observers me) s3 (s_dispute_id ses) (subject_text (Subject_Guide path)) now of
                       Inl e \<Rightarrow> Inl e
                     | Inr (_, s4) \<Rightarrow> Inr (Some pending, s4))))"

definition guide_session ::
    "outside \<Rightarrow> mediator \<Rightarrow> session \<Rightarrow> path \<Rightarrow> turn_reading \<Rightarrow> int \<Rightarrow> world \<Rightarrow> unit result \<times> world" where
  "guide_session out me ses path rd now w =
     (case guide_tx me ses path now (w_db w) of
        Inl e \<Rightarrow> (Inl e, w)
      | Inr (None, _) \<Rightarrow> (Inr (), w)
      | Inr (Some pending, s) \<Rightarrow>
          (case brief_solvers out me ses (Subject_Guide path) (Some rd) now (w\<lparr>w_db := s\<rparr>) of
             (Inl e, w1) \<Rightarrow> (Inl e, w1)
           | (Inr delivered, w1) \<Rightarrow>
               (case (if 0 < delivered then brief_delivered ses pending now w1 else (Inr (), w1)) of
                  (Inl e, w2) \<Rightarrow> (Inl e, w2)
                | (Inr _, w2) \<Rightarrow> (Inr (), snd (send_guides out me ses path w2)))))"

section \<open>Closing\<close>

definition outcome_of :: "session \<Rightarrow> bool \<Rightarrow> outcome" where
  "outcome_of ses by_parties =
     (case (case s_handoff_reason ses of None \<Rightarrow> None | Some r \<Rightarrow> handoff_reason_parse r) of
        Some reason \<Rightarrow> OutcomeHandedOff reason
      | None \<Rightarrow> if s_state ses = Superseded \<or> \<not> by_parties then OutcomeSuperseded else SelfResolved)"

definition send_thanks :: "outside \<Rightarrow> mediator \<Rightarrow> session \<Rightarrow> party \<Rightarrow> world \<Rightarrow> unit result \<times> world" where
  "send_thanks out me ses p w =
     (case render_for me ses p RESOLVED_THANKS False of
        Inl e \<Rightarrow> (Inl e, w)
      | Inr (t, lang) \<Rightarrow>
          (let (r, w') = send_chat out send_after_close ses p RESOLVED_THANKS t lang w in (unit_result r, w')))"

fun thank_loop :: "outside \<Rightarrow> mediator \<Rightarrow> session \<Rightarrow> party list \<Rightarrow> bool \<Rightarrow> world \<Rightarrow> bool \<times> world" where
  "thank_loop out me ses [] sofar w = (sofar, w)"
| "thank_loop out me ses (p # ps) sofar w =
     (if received w ses p RESOLVED_THANKS then thank_loop out me ses ps sofar w
      else case send_thanks out me ses p w of
          (Inl _, w') \<Rightarrow> thank_loop out me ses ps False w'
        | (Inr _, w') \<Rightarrow> thank_loop out me ses ps sofar w')"

definition reported :: "event list \<Rightarrow> bool" where
  "reported evs \<longleftrightarrow> list_ex (\<lambda>e. ev_kind e = ''notification_sent'' \<and>
     as_str (jget (ev_payload e) ''notification'') = Some FINAL_REPORT) evs"

definition report_closing ::
    "outside \<Rightarrow> mediator \<Rightarrow> session \<Rightarrow> string \<Rightarrow> string \<Rightarrow> outcome \<Rightarrow> int \<Rightarrow> world \<Rightarrow> nat result \<times> world" where
  "report_closing out me ses d status oc now w =
     (let t = final_report d status oc (s_rounds ses) (now - s_opened_at ses);
          assigned = (case get_dispute (db_disputes (w_db w)) d of None \<Rightarrow> None | Some x \<Rightarrow> d_assigned_solver x);
          to = recipients (me_solvers me) assigned; w1 = others out w;
          (r, s') = notify_solvers (os_dm out (w_step w1)) to d FINAL_REPORT t now (w_db w1)
      in (r, w1\<lparr>w_db := s', w_step := w_step w1 + 1\<rparr>))"

definition record_finished :: "session \<Rightarrow> string \<Rightarrow> string \<Rightarrow> int \<Rightarrow> world \<Rightarrow> unit result \<times> world" where
  "record_finished ses d status now w =
     (case log_event (w_db w) d (Some (s_session_id ses)) FINISHED_EVENT (JObj [(''status'', JStr status)]) now of
        Inl e \<Rightarrow> (Inl e, w)
      | Inr s' \<Rightarrow> (Inr (), w\<lparr>w_db := s'\<rparr>))"

definition finish ::
    "outside \<Rightarrow> mediator \<Rightarrow> string \<Rightarrow> string \<Rightarrow> bool \<Rightarrow> int \<Rightarrow> world \<Rightarrow> outcome option result \<times> world" where
  "finish out me d status by_parties now w =
     (let history = events_for_dispute (db_events (w_db w)) d
      in case latest_for_dispute (db_sessions (w_db w)) d of
           None \<Rightarrow> (Inr None, w)
         | Some ses \<Rightarrow>
             (if list_ex (\<lambda>e. ev_kind e = FINISHED_EVENT) history then (Inr None, w)
              else let oc = outcome_of ses by_parties;
                       (thanked, w1) = (if oc = SelfResolved then thank_loop out me ses [Buyer, Seller] True w
                                        else (True, w));
                       (r, w2) = (if reported history then (Inr thanked, w1)
                                  else case report_closing out me ses d status oc now w1 of
                                      (Inl e, w2) \<Rightarrow> (Inl e, w2)
                                    | (Inr n, w2) \<Rightarrow> (Inr (thanked \<and> 0 < n), w2))
                   in case r of
                        Inl e \<Rightarrow> (Inl e, w2)
                      | Inr all_done \<Rightarrow>
                          (if \<not> all_done then (Inr (Some oc), w2)
                           else case record_finished ses d status now w2 of
                               (Inl e, w3) \<Rightarrow> (Inl e, w3)
                             | (Inr _, w3) \<Rightarrow> (Inr (Some oc), w3))))"

fun finish_each :: "outside \<Rightarrow> mediator \<Rightarrow> resolution list \<Rightarrow> int \<Rightarrow> world \<Rightarrow> world" where
  "finish_each out me [] now w = w"
| "finish_each out me (r # rs) now w =
     finish_each out me rs now (snd (finish out me (r_dispute_id r) (r_status r) (r_by_parties r) now w))"

definition finish_pending :: "outside \<Rightarrow> mediator \<Rightarrow> int \<Rightarrow> int \<Rightarrow> world \<Rightarrow> nat \<times> world" where
  "finish_pending out me since now w =
     (let pending = unfinished_resolutions (db_events (w_db w)) (db_sessions (w_db w)) since
      in (length pending, finish_each out me pending now w))"

section \<open>Holding\<close>

fun send_hold_notices :: "outside \<Rightarrow> mediator \<Rightarrow> session \<Rightarrow> int \<Rightarrow> party list \<Rightarrow> world \<Rightarrow> world" where
  "send_hold_notices out me ses cutoff [] w = w"
| "send_hold_notices out me ses cutoff (p # ps) w =
     (if received_after (w_db w) ses p HOLD_NOTICE cutoff then send_hold_notices out me ses cutoff ps w
      else send_hold_notices out me ses cutoff ps (snd (send_template out me ses p HOLD_NOTICE w)))"

definition hold_session :: "outside \<Rightarrow> mediator \<Rightarrow> session \<Rightarrow> int \<Rightarrow> world \<Rightarrow> unit result \<times> world" where
  "hold_session out me ses now w =
     (case start_hold (w_db w) ses now of
        Inl e \<Rightarrow> (Inl e, w)
      | Inr (cutoff, s') \<Rightarrow> (Inr (), send_hold_notices out me ses cutoff [Buyer, Seller] (w\<lparr>w_db := s'\<rparr>)))"

section \<open>What is sent\<close>

lemma send_guides_loop_step:
  assumes "well_behaved out"
  shows "world_step (\<lambda>m. sm_session_id m = s_session_id ses \<and> (sm_party m, sm_template m) \<in> set gs \<and> gated m) w
    (snd (send_guides_loop out me ses gs k w))"
proof (induction gs arbitrary: k w)
  case (Cons g gs)
  obtain p template where g: "g = (p, template)" by (cases g)
  let ?P = "\<lambda>m. sm_session_id m = s_session_id ses \<and> (sm_party m, sm_template m) \<in> set ((p, template) # gs) \<and> gated m"
  have IH: "world_step ?P w1 (snd (send_guides_loop out me ses gs k1 w1))" for k1 w1
    by (rule world_step_mono [OF Cons.IH]) auto
  obtain r w1 where t: "send_template out me ses p template w = (r, w1)" by force
  have "world_step ?P w w1"
    by (rule world_step_mono [OF send_template_step [OF assms t]]) (auto simp: about_def)
  then show ?case using IH by (auto simp: g t split: sum.splits intro: world_step_trans)
qed simp

lemma send_guides_step:
  "well_behaved out \<Longrightarrow> world_step (\<lambda>m. sm_session_id m = s_session_id ses \<and>
     (sm_party m, sm_template m) \<in> set (guides path) \<and> gated m) w (snd (send_guides out me ses path w))"
  unfolding send_guides_def by (rule send_guides_loop_step)

lemma resend_guides_step:
  assumes "well_behaved out"
  shows "world_step (\<lambda>m. sm_session_id m = s_session_id ses \<and> gated m \<and>
      (\<exists>path. guided_path w ses = Some path \<and> (sm_party m, sm_template m) \<in> set (guides path)))
    w (snd (resend_guides out me ses w))"
proof (cases "guided_path w ses")
  case (Some path)
  show ?thesis
    unfolding resend_guides_def Some option.case
    by (rule world_step_mono [OF send_guides_step [OF assms]]) (simp add: Some)
qed (simp add: resend_guides_def)

lemma send_hold_notices_step:
  assumes "well_behaved out"
  shows "world_step (\<lambda>m. sm_session_id m = s_session_id ses \<and> sm_template m = HOLD_NOTICE \<and> gated m) w (send_hold_notices out me ses cutoff ps w)"
proof (induction ps arbitrary: w)
  case (Cons p ps)
  obtain r w1 where t: "send_template out me ses p HOLD_NOTICE w = (r, w1)" by force
  have "world_step (\<lambda>m. sm_session_id m = s_session_id ses \<and> sm_template m = HOLD_NOTICE \<and> gated m) w w1"
    by (rule world_step_mono [OF send_template_step [OF assms t]]) (auto simp: about_def)
  then show ?case using Cons by (auto simp: t intro: world_step_trans)
qed simp

lemma hold_session_step:
  assumes "well_behaved out" and "hold_session out me ses now w = (r, w')"
  shows "world_step (\<lambda>m. sm_session_id m = s_session_id ses \<and> sm_template m = HOLD_NOTICE \<and> gated m) w w'"
proof -
  have held: "start_hold (w_db w) ses now = Inr (max_or 0 m_id (messages_for_session (db_messages (w_db w)) (s_session_id ses)),
      logged (w_db w) (s_dispute_id ses) (Some (s_session_id ses)) ''held''
        (JObj [(''reason'', JStr (handoff_reason_str FactsGathered)),
          (''last_message_id'', JInt (max_or 0 m_id (messages_for_session (db_messages (w_db w)) (s_session_id ses))))]) now)"
    by (simp add: start_hold_def Let_def log_event_Inr)
  show ?thesis
    using assms(2)
    by (auto simp: hold_session_def held simp del: send_hold_notices.simps
        intro!: world_step_trans [OF world_step_logged send_hold_notices_step [OF assms(1)]])
qed

section \<open>Guiding once\<close>

lemma get_start_guiding:
  "get_session (snd (start_guiding t sid now)) k =
     map_option (\<lambda>r. if s_session_id r = sid \<and> s_state r = Active then set_state_row Guiding now r else r) (get_session t k)"
  unfolding get_session_def start_guiding_run by (rule guiding.find_run)

lemma start_guiding_claims:
  "sessions_ok t \<Longrightarrow> fst (start_guiding t sid now) \<longleftrightarrow> (\<exists>cur. get_session t sid = Some cur \<and> s_state cur = Active)"
  unfolding get_session_def start_guiding_run by (rule guiding.fst_run) (simp add: sessions_ok_def)

lemma start_guiding_grows: "db_grows s (s\<lparr>db_sessions := snd (start_guiding (db_sessions s) sid now)\<rparr>)"
  using session_machine.step_inv [of "db_sessions s" "[]" "Start_Guiding sid now"]
  by (auto simp: db_grows_def get_start_guiding set_state_row_def state_moves_def)

definition guide_events :: "session \<Rightarrow> path \<Rightarrow> int \<Rightarrow> int \<Rightarrow> event list" where
  "guide_events ses path pending now =
     claim_events ses ''guided'' (JObj [(''path'', JStr (path_str path))]) (JObj [(''path'', JStr (path_str path))]) pending now"

lemma guide_tx_spec:
  assumes "sessions_ok (db_sessions s)"
  shows "if \<exists>cur. get_session (db_sessions s) (s_session_id ses) = Some cur \<and> s_state cur = Active
    then \<exists>pending s'. guide_tx me ses path now s = Inr (Some pending, s') \<and> db_grows s s' \<and>
      (\<exists>es. db_events s' = db_events s @ guide_events ses path pending now @ es) \<and>
      (\<forall>cur. get_session (db_sessions s') (s_session_id ses) = Some cur \<longrightarrow> s_state cur = Guiding)
    else guide_tx me ses path now s = Inr (None, s)"
proof (cases "\<exists>cur. get_session (db_sessions s) (s_session_id ses) = Some cur \<and> s_state cur = Active")
  case False
  then have "\<not> fst (start_guiding (db_sessions s) (s_session_id ses) now)"
    using start_guiding_claims [OF assms] by blast
  with False show ?thesis by (auto simp: guide_tx_def case_prod_beta)
next
  case True
  let ?s1 = "s\<lparr>db_sessions := snd (start_guiding (db_sessions s) (s_session_id ses) now)\<rparr>"
  have c: "fst (start_guiding (db_sessions s) (s_session_id ses) now)"
    using True start_guiding_claims [OF assms] by blast
  obtain pending s4 where r: "guide_tx me ses path now s = Inr (Some pending, s4)" "db_grows ?s1 s4"
      "db_sessions s4 = db_sessions ?s1" "\<exists>es. db_events s4 = db_events ?s1 @ guide_events ses path pending now @ es"
    using claim_records [where k = "''guided''" and ses = ses and now = now and ?s1.0 = ?s1
      and payload = "JObj [(''path'', JStr (path_str path))]" and matter = "JObj [(''path'', JStr (path_str path))]"
      and obs = "me_observers me" and sub = "subject_text (Subject_Guide path)", OF list.distinct(2)] c
    unfolding guide_tx_def case_prod_beta Let_def guide_events_def by (simp only: if_False not_True_eq_False) blast
  have "s_state cur = Guiding" if "get_session (db_sessions s4) (s_session_id ses) = Some cur" for cur
  proof -
    obtain a where "get_session (db_sessions s) (s_session_id ses) = Some a" "s_state a = Active" using True by blast
    moreover from this(1) have "s_session_id a = s_session_id ses" by (auto simp: get_session_def dest: find_key_some)
    ultimately show ?thesis using that by (auto simp: r(3) get_start_guiding set_state_row_def)
  qed
  with True r db_grows_trans [OF start_guiding_grows r(2)] show ?thesis by auto
qed

lemma guide_session_runs:
  assumes "well_behaved out" and "guide_tx me ses path now (w_db w) = Inr (Some pending, s)"
    and "guide_session out me ses path rd now w = (r, w')" and "db_grows (w_db w) s"
  shows "world_step (\<lambda>m. sm_session_id m = s_session_id ses \<and> (sm_party m, sm_template m) \<in> set (guides path) \<and> gated m) w w'"
    "db_grows s (w_db w')"
proof -
  let ?P = "\<lambda>m. sm_session_id m = s_session_id ses \<and> (sm_party m, sm_template m) \<in> set (guides path) \<and> gated m"
  have s0: "world_step ?P w (w\<lparr>w_db := s\<rparr>)" by (rule world_step_db) (simp_all add: assms(4))
  obtain r1 w1 where b: "brief_solvers out me ses (Subject_Guide path) (Some rd) now (w\<lparr>w_db := s\<rparr>) = (r1, w1)" by force
  note s1 = brief_solvers_step [OF assms(1) b, of ?P]
  obtain r2 w2 where d: "brief_delivered ses pending now w1 = (r2, w2)" by force
  have s2: "world_step ?P (w\<lparr>w_db := s\<rparr>) w2" by (rule world_step_trans [OF s1 brief_delivered_step [OF d]])
  have "w' \<in> {w1, w2, snd (send_guides out me ses path w1), snd (send_guides out me ses path w2)}"
    using assms(3) by (auto simp: guide_session_def assms(2) b d split: sum.splits if_splits)
  then have st: "world_step ?P (w\<lparr>w_db := s\<rparr>) w'"
    using s1 s2 send_guides_step [OF assms(1)] world_step_trans by blast
  then show "world_step ?P w w'" by (rule world_step_trans [OF s0])
  show "db_grows s (w_db w')" using world_step_grows [OF st] by simp
qed

text \<open>
  Property C27. A path is explained once. If the session is still gathering facts when the transaction commits,
  \<open>guide\<close> claims it: the path is recorded, a brief for the solvers is pending until a \<open>brief_sent\<close>
  event closes it, and no later call guides the session again. Otherwise it does nothing. The
  parties get only the two guides of that path, each the guide written for its role.
\<close>

theorem guided_once:
  assumes "well_behaved out" and "sessions_ok (db_sessions (w_db w))"
    and "guide_session out me ses path rd now w = (r, w')"
  shows "if \<exists>cur. get_session (db_sessions (w_db w)) (s_session_id ses) = Some cur \<and> s_state cur = Active
    then (\<exists>ms. w_sent w' = w_sent w @ ms \<and> (\<forall>m \<in> set ms. sm_session_id m = s_session_id ses \<and>
        (sm_party m, sm_template m) \<in> set (guides path))) \<and>
      (\<exists>e \<in> set (new_events w w'). of_session ses e \<and> ev_kind e = ''guided'' \<and>
         as_str (jget (ev_payload e) ''path'') = Some (path_str path)) \<and>
      (\<exists>pending. (pending, Subject_Guide path) \<in> set (pending_briefs ses (dispute_events w' ses)) \<or>
         (\<exists>b \<in> set (dispute_events w' ses). of_session ses b \<and> ev_kind b = ''brief_sent'' \<and>
            as_i64 (jget (ev_payload b) ''pending'') = Some pending)) \<and>
      (\<forall>out' me' path' rd' later. guide_session out' me' ses path' rd' later w' = (Inr (), w'))
    else r = Inr () \<and> w' = w"
proof (cases "\<exists>cur. get_session (db_sessions (w_db w)) (s_session_id ses) = Some cur \<and> s_state cur = Active")
  case False
  with assms(3) guide_tx_spec [OF assms(2), of ses me path now] show ?thesis by (simp add: guide_session_def)
next
  case True
  obtain pending s es where tx: "guide_tx me ses path now (w_db w) = Inr (Some pending, s)"
    and g: "db_grows (w_db w) s" and ev: "db_events s = db_events (w_db w) @ guide_events ses path pending now @ es"
    and st: "\<forall>cur. get_session (db_sessions s) (s_session_id ses) = Some cur \<longrightarrow> s_state cur = Guiding"
    using guide_tx_spec [OF assms(2), of ses me path now] True by auto
  note run = guide_session_runs [OF assms(1) tx assms(3) g]
  have evs: "set (guide_events ses path pending now) \<subseteq> set (new_events w w')"
    using run(2) ev by (auto simp: new_events_def db_grows_def)
  have "\<exists>e \<in> set (new_events w w'). of_session ses e \<and> ev_kind e = ''guided'' \<and>
      as_str (jget (ev_payload e) ''path'') = Some (path_str path)"
    using evs by (intro bexI [of _ "guide_events ses path pending now ! 0"])
      (auto simp: guide_events_def claim_events_def of_session_def)
  moreover have "(pending, Subject_Guide path) \<in> set (pending_briefs ses (dispute_events w' ses)) \<or>
      (\<exists>x \<in> set (dispute_events w' ses). of_session ses x \<and> ev_kind x = ''brief_sent'' \<and>
            as_i64 (jget (ev_payload x) ''pending'') = Some pending)"
    using find_pending [of "guide_events ses path pending now ! 1" "dispute_events w' ses" ses "Subject_Guide path"] evs
    by (auto simp: guide_events_def claim_events_def of_session_def dispute_events_def events_for_dispute_def new_events_def
        subject_of_def path_text.parse_as_str dest: in_set_dropD)
  moreover have "guide_session out' me' ses path' rd' later w' = (Inr (), w')"
 for out' me' path' rd' later
  proof -
    obtain c where "get_session (db_sessions s) (s_session_id ses) = Some c"
      using True g unfolding db_grows_def by blast
    with st run(2) obtain cur where "get_session (db_sessions (w_db w')) (s_session_id ses) = Some cur" "s_state cur \<noteq> Active"
      unfolding db_grows_def by (metis state_moves_guiding)
    moreover
    have "sessions_ok (db_sessions (w_db w'))" using assms(2) g run(2) by (simp add: db_grows_def)
    from guide_tx_spec [OF this, of ses me' path' later] calculation show ?thesis by (simp add: guide_session_def)
  qed
  moreover have "\<exists>ms. w_sent w' = w_sent w @ ms \<and> (\<forall>m \<in> set ms. sm_session_id m = s_session_id ses \<and>
        (sm_party m, sm_template m) \<in> set (guides path))"
    using run(1) by (auto simp: world_step_def)
  ultimately show ?thesis using True by auto
qed

section \<open>Closing a mediation\<close>

lemma received_grows: "db_grows (w_db w) (w_db w') \<Longrightarrow> received w ses p template \<Longrightarrow> received w' ses p template"
  by (auto simp: received_def list_ex_iff session_messages_def db_grows_def)

definition thanked :: "world \<Rightarrow> world \<Rightarrow> session \<Rightarrow> party \<Rightarrow> bool" where
  "thanked w w' ses p \<longleftrightarrow> received w' ses p RESOLVED_THANKS \<or>
     list_ex (about ses p RESOLVED_THANKS) (drop (length (w_sent w)) (w_sent w'))"

lemma thanked_later:
  assumes "world_step P b c" and "thanked a b ses p" and "\<exists>ms. w_sent b = w_sent a @ ms"
  shows "thanked a c ses p"
  using assms by (auto simp: thanked_def world_step_def intro: received_grows)

lemma thanked_earlier:
  assumes "world_step P a b" and "thanked b c ses p" and "world_step P b c"
  shows "thanked a c ses p"
  using assms by (auto simp: thanked_def world_step_def)

lemma send_thanks_step:
  assumes "well_behaved out" and "send_thanks out me ses p w = (r, w')"
  shows "world_step (\<lambda>m. about ses p RESOLVED_THANKS m \<and> gated m) w w'" "r = Inr () \<Longrightarrow> thanked w w' ses p"
proof -
  have "world_step (\<lambda>m. about ses p RESOLVED_THANKS m \<and> gated m) w w' \<and> (r = Inr () \<longrightarrow> thanked w w' ses p)"
  proof (cases "render_for me ses p RESOLVED_THANKS False")
    case (Inl e)
    with assms(2) show ?thesis by (auto simp: send_thanks_def)
  next
    case (Inr tl)
    obtain t lang r0 where tl: "tl = (t, lang)"
      and c: "send_chat out (send_when (\<lambda>st. st = Closed)) ses p RESOLVED_THANKS t lang w = (r0, w')" and r: "r = unit_result r0"
      using assms(2) Inr by (cases tl) (auto simp: send_thanks_def Let_def send_after_close_def split: prod.splits)
    show ?thesis
      using send_chat_spec [OF assms(1) c]
      by (auto simp: world_step_def r unit_result_def thanked_def gated_def about_def RESOLVED_THANKS_def split: sum.splits)
  qed
  then show "world_step (\<lambda>m. about ses p RESOLVED_THANKS m \<and> gated m) w w'" "r = Inr () \<Longrightarrow> thanked w w' ses p"
    by blast+
qed

abbreviation thanks_only :: "session \<Rightarrow> sent_message \<Rightarrow> bool" where
  "thanks_only ses m \<equiv> sm_session_id m = s_session_id ses \<and> sm_template m = RESOLVED_THANKS \<and> gated m"

lemma thank_loop_spec:
  assumes "well_behaved out"
  shows "thank_loop out me ses ps sofar w = (b, w') \<Longrightarrow>
    world_step (thanks_only ses) w w' \<and> (b \<longrightarrow> sofar \<and> (\<forall>p \<in> set ps. thanked w w' ses p))"
proof (induction ps arbitrary: sofar w)
  case (Cons p ps)
  obtain r w1 where t: "send_thanks out me ses p w = (r, w1)" by force
  have s1: "world_step (thanks_only ses) w w1"
    by (rule world_step_mono [OF send_thanks_step(1) [OF assms t]]) (auto simp: about_def)
  have first: "\<exists>ms. w_sent w1 = w_sent w @ ms" using s1 by (auto simp: world_step_def)
  show ?case
  proof (cases "received w ses p RESOLVED_THANKS")
    case True
    with Cons.prems Cons.IH [of sofar w] show ?thesis
      by (auto simp: thanked_def dest: world_step_grows received_grows)
  next
    case False
    note IH = Cons.IH [of "sofar \<and> r = Inr ()" w1]
    have rest: "thank_loop out me ses ps (sofar \<and> r = Inr ()) w1 = (b, w')"
      using Cons.prems False by (auto simp: t split: sum.splits)
    have s2: "world_step (thanks_only ses) w1 w'" using IH rest by blast
    show ?thesis
      using IH rest world_step_trans [OF s1 s2] thanked_later [OF s2 _ first] thanked_earlier [OF s1 _ s2]
        send_thanks_step(2) [OF assms t] by auto
  qed
qed (auto simp: thanked_def)

lemma notify_loop_spec:
  "\<exists>k' s'. notify_loop send sos d x t now (k, None, s) = (k', None, s') \<and> db_grows s s' \<and> k \<le> k' \<and>
     (\<exists>es. db_events s' = db_events s @ es \<and>
        (\<forall>e \<in> set es. ev_kind e \<in> {''notification_sent'', ''notification_failed''}) \<and>
        (k < k' \<longrightarrow> (\<exists>so \<in> set sos. \<exists>e \<in> set es. notified so d x now e)))"
proof (induction sos arbitrary: k s)
  case (Cons so sos)
  let ?kp = "case send (so_pubkey so) t of
      None \<Rightarrow> (''notification_sent'', JObj [(''solver'', JStr (so_pubkey so)), (''notification'', JStr x)])
    | Some e \<Rightarrow> (''notification_failed'', JObj [(''solver'', JStr (so_pubkey so)), (''notification'', JStr x), (''error'', JStr e)])"
  let ?s1 = "logged s d None (fst ?kp) (snd ?kp) now" and ?k1 = "if send (so_pubkey so) t = None then k + 1 else k"
  have step: "notify_loop send (so # sos) d x t now (k, None, s) = notify_loop send sos d x t now (?k1, None, ?s1)"
    by (simp add: log_event_Inr Let_def split: option.splits)
  obtain k' s' es where IH: "notify_loop send sos d x t now (?k1, None, ?s1) = (k', None, s')" "db_grows ?s1 s'" "?k1 \<le> k'"
      "db_events s' = db_events ?s1 @ es" "\<forall>e \<in> set es. ev_kind e \<in> {''notification_sent'', ''notification_failed''}"
      "?k1 < k' \<longrightarrow> (\<exists>so \<in> set sos. \<exists>e \<in> set es. notified so d x now e)"
    using Cons.IH [of ?k1 ?s1] by blast
  obtain e where e: "db_events ?s1 = db_events s @ [e]" "ev_kind e = fst ?kp" "ev_kind e \<in> {''notification_sent'', ''notification_failed''}"
    "send (so_pubkey so) t = None \<longrightarrow> notified so d x now e"
    by (auto simp: logged_def notified_def split: option.splits)
  have "k < k' \<longrightarrow> (\<exists>so \<in> set (so # sos). \<exists>e \<in> set (e # es). notified so d x now e)"
    using IH(6) e(4) by (auto split: if_splits)
  moreover have "k \<le> k'" using IH(3) by (auto split: if_splits)
  ultimately show ?case
    using IH(4,5) e(1,3) db_grows_trans [OF db_grows_logged IH(2)] unfolding step IH(1)
    by (intro exI [of _ k'] exI [of _ s']) (auto intro!: exI [of _ "e # es"])
qed (auto simp: db_grows_refl)

lemma report_closing_spec:
  assumes "well_behaved out" and "report_closing out me ses d status oc now w = (r, w')"
  shows "world_step P w w'" "\<exists>n. r = Inr n \<and> (0 < n \<longrightarrow> reported (events_for_dispute (db_events (w_db w')) d)) \<and>
    (\<exists>es. db_events (w_db w') = db_events (w_db (others out w)) @ es \<and>
       (\<forall>e \<in> set es. ev_kind e \<in> {''notification_sent'', ''notification_failed''}))"
proof -
  let ?w1 = "others out w"
  let ?to = "recipients (me_solvers me) (case get_dispute (db_disputes (w_db w)) d of None \<Rightarrow> None | Some x \<Rightarrow> d_assigned_solver x)"
  let ?t = "final_report d status oc (s_rounds ses) (now - s_opened_at ses)"
  obtain n s' es where loop: "notify_loop (os_dm out (w_step ?w1)) ?to d FINAL_REPORT ?t now (0, None, w_db ?w1) = (n, None, s')"
    and g: "db_grows (w_db ?w1) s'" and es: "db_events s' = db_events (w_db ?w1) @ es"
      "\<forall>e \<in> set es. ev_kind e \<in> {''notification_sent'', ''notification_failed''}"
      "0 < n \<longrightarrow> (\<exists>so \<in> set ?to. \<exists>e \<in> set es. notified so d FINAL_REPORT now e)"
    using notify_loop_spec [of "os_dm out (w_step ?w1)" ?to d FINAL_REPORT ?t now 0 "w_db ?w1"] by blast
  have eq: "r = Inr n \<and> w' = ?w1\<lparr>w_db := s', w_step := w_step ?w1 + 1\<rparr>"
    using assms(2) loop by (cases "?to = []") (auto simp: report_closing_def notify_solvers_def Let_def)
  show "world_step P w w'"
    using eq db_grows_trans [OF others_grows [OF assms(1)] g] by (intro world_step_db) auto
  show "\<exists>n. r = Inr n \<and> (0 < n \<longrightarrow> reported (events_for_dispute (db_events (w_db w')) d)) \<and>
    (\<exists>es. db_events (w_db w') = db_events (w_db ?w1) @ es \<and> (\<forall>e \<in> set es. ev_kind e \<in> {''notification_sent'', ''notification_failed''}))"
    using eq es by (auto simp: reported_def list_ex_iff events_for_dispute_def notified_def)
qed

definition finished_in :: "string \<Rightarrow> db \<Rightarrow> bool" where
  "finished_in d s \<longleftrightarrow> list_ex (\<lambda>e. ev_kind e = FINISHED_EVENT) (events_for_dispute (db_events s) d)"

text \<open>No other task records the dispute as finished: closings run one at a time.\<close>

definition closes_alone :: "outside \<Rightarrow> string \<Rightarrow> bool" where
  "closes_alone out d \<longleftrightarrow> (\<forall>n s. finished_in d (os_env out n s) \<longrightarrow> finished_in d s)"

lemma others_unfinished: "closes_alone out d \<Longrightarrow> finished_in d (w_db (others out w)) \<Longrightarrow> finished_in d (w_db w)"
  by (simp add: closes_alone_def others_def)

lemma send_when_events:
  "send_when allowed env oc ses msg s = (r, given, s') \<Longrightarrow> db_events s' = db_events s \<or> db_events s' = db_events (env s)"
  by (cases oc; cases "get_session (db_sessions s) (s_session_id ses)")
    (auto simp: send_when_def Let_def split: if_splits sum.splits)

lemma send_thanks_unfinished:
  assumes "closes_alone out d" and "send_thanks out me ses p w = (r, w')" and "finished_in d (w_db w')"
  shows "finished_in d (w_db w)"
proof -
  have chat: "finished_in d (w_db w)" if c: "send_chat out (send_when allowed) ses p template t lang w = (r0, w')"
    for allowed template t lang r0
  proof -
    obtain r1 given s' where s: "send_when allowed (os_env out (w_step (others out w))) (os_chat out (w_step (others out w))) ses
      \<lparr>ob_party = p, ob_text = t, ob_template_id = Some template, ob_lang = Some lang\<rparr> (w_db (others out w)) = (r1, given, s')"
      by (metis prod_cases3)
    have "w_db w' = s'" using c by (auto simp: send_chat_def Let_def s)
    then have "finished_in d (w_db (others out w))"
      using send_when_events [OF s] assms(1,3) by (auto simp: finished_in_def closes_alone_def)
    with assms(1) show ?thesis by (rule others_unfinished)
  qed
  show ?thesis
    using assms(2,3) by (auto simp: send_thanks_def send_after_close_def Let_def split: sum.splits prod.splits dest: chat)
qed

lemma thank_loop_unfinished:
  assumes "closes_alone out d"
  shows "thank_loop out me ses ps sofar w = (b, w') \<Longrightarrow> finished_in d (w_db w') \<Longrightarrow> finished_in d (w_db w)"
proof (induction ps arbitrary: sofar w)
  case (Cons p ps)
  then show ?case
    by (auto split: if_splits prod.splits sum.splits dest: send_thanks_unfinished [OF assms])
qed simp

text \<open>
  A closing is recorded only when it is complete. \<open>finish\<close> thanks the parties exactly when they
  resolved the dispute themselves (no handoff, no takeover), and only while the session is closed;
  it records \<open>finished\<close> only if each party was thanked, now or before, and the solvers' final report
  was delivered, now or before; from then on it does nothing more for the dispute.
\<close>

theorem closing_recorded_when_complete:
  assumes "well_behaved out" and "closes_alone out d"
    and "finish out me d status by_parties now w = (Inr (Some oc), w')"
  shows "\<exists>ses. latest_for_dispute (db_sessions (w_db w)) d = Some ses \<and>
    (oc = SelfResolved \<longleftrightarrow> by_parties \<and> s_state ses \<noteq> Superseded \<and>
       (\<nexists>reason. s_handoff_reason ses = Some (handoff_reason_str reason))) \<and>
    (\<exists>ms. w_sent w' = w_sent w @ ms \<and> (\<forall>m \<in> set ms. thanks_only ses m) \<and> (ms \<noteq> [] \<longrightarrow> oc = SelfResolved)) \<and>
    (finished_in d (w_db w') \<longrightarrow> (oc = SelfResolved \<longrightarrow> (\<forall>p. thanked w w' ses p)) \<and>
       reported (events_for_dispute (db_events (w_db w')) d) \<and>
       (\<forall>out' me' status' by' later. finish out' me' d status' by' later w' = (Inr None, w')))"
proof -
  let ?H = "events_for_dispute (db_events (w_db w)) d"
  obtain ses where ses: "latest_for_dispute (db_sessions (w_db w)) d = Some ses"
    using assms(3) by (auto simp: finish_def Let_def split: option.splits)
  have open0: "\<not> finished_in d (w_db w)"
    using assms(3) by (auto simp: finish_def Let_def ses finished_in_def split: if_splits)
  obtain th w1 where th: "(if outcome_of ses by_parties = SelfResolved then thank_loop out me ses [Buyer, Seller] True w
      else (True, w)) = (th, w1)" by force
  obtain r w2 where r: "(if reported ?H then (Inr th, w1)
      else case report_closing out me ses d status (outcome_of ses by_parties) now w1 of
          (Inl e, w2) \<Rightarrow> (Inl e, w2) | (Inr n, w2) \<Rightarrow> (Inr (th \<and> 0 < n), w2)) = (r, w2)" by force
  have fin: "oc = outcome_of ses by_parties \<and>
      (r = Inr False \<and> w' = w2 \<or> r = Inr True \<and> (Inr (), w') = record_finished ses d status now w2)"
    using assms(3) open0
    by (auto simp: finish_def Let_def ses finished_in_def th r split: if_splits sum.splits prod.splits bool.splits)
  have s1: "world_step (thanks_only ses) w w1" "th \<Longrightarrow> oc = SelfResolved \<Longrightarrow> thanked w w1 ses Buyer \<and> thanked w w1 ses Seller"
    "oc \<noteq> SelfResolved \<Longrightarrow> w1 = w" "finished_in d (w_db w1) \<Longrightarrow> finished_in d (w_db w)"
    using th fin thank_loop_spec [OF assms(1), of me ses "[Buyer, Seller]" True w th w1]
      thank_loop_unfinished [OF assms(2), of me ses "[Buyer, Seller]" True w th w1]
    by (auto split: if_splits simp del: thank_loop.simps)
  have s2: "world_step (\<lambda>_. False) w1 w2" "r = Inr True \<Longrightarrow> th \<and> reported (events_for_dispute (db_events (w_db w2)) d)"
    "finished_in d (w_db w2) \<Longrightarrow> finished_in d (w_db w1)"
  proof -
    have "world_step (\<lambda>_. False) w1 w2 \<and> (r = Inr True \<longrightarrow> th \<and> reported (events_for_dispute (db_events (w_db w2)) d)) \<and>
        (finished_in d (w_db w2) \<longrightarrow> finished_in d (w_db w1))"
    proof (cases "reported ?H")
      case True
      have "reported (events_for_dispute (db_events (w_db w1)) d)"
        using True world_step_grows [OF s1(1)]
        by (auto simp: reported_def list_ex_iff events_for_dispute_def db_grows_def)
      with True r show ?thesis by auto
    next
      case False
      obtain r1 where rep: "report_closing out me ses d status (outcome_of ses by_parties) now w1 = (r1, w2)"
        and r1: "case r1 of Inl e \<Rightarrow> r = Inl e | Inr n \<Rightarrow> r = Inr (th \<and> 0 < n)"
        using r False by (auto split: sum.splits prod.splits)
      note spec = report_closing_spec [OF assms(1) rep]
      have "finished_in d (w_db w1)" if "finished_in d (w_db w2)"
      proof -
        have "finished_in d (w_db (others out w1))"
          using that spec(2) unfolding finished_in_def FINISHED_EVENT_def list_ex_iff events_for_dispute_def
          by fastforce
        with assms(2) show ?thesis by (rule others_unfinished)
      qed
      with spec r1 show ?thesis by auto
    qed
    then show "world_step (\<lambda>_. False) w1 w2" "r = Inr True \<Longrightarrow> th \<and> reported (events_for_dispute (db_events (w_db w2)) d)"
      "finished_in d (w_db w2) \<Longrightarrow> finished_in d (w_db w1)" by blast+
  qed
  have s3: "world_step (\<lambda>_. False) w2 w'"
    using fin by (auto simp: record_finished_def log_event_Inr FINISHED_EVENT_def world_step_logged)
  have s23: "world_step (\<lambda>_. False) w1 w'" by (rule world_step_trans [OF s2(1) s3])
  have sent: "w_sent w' = w_sent w1" using s23 by (simp add: world_step_def)
  have "r = Inr True" if "finished_in d (w_db w')" using that fin s2(3) s1(4) open0 by auto
  moreover have "reported (events_for_dispute (db_events (w_db w')) d)" if "r = Inr True"
    using s2(2) [OF that] world_step_grows [OF s3]
    by (auto simp: reported_def list_ex_iff events_for_dispute_def db_grows_def)
  moreover have "thanked w w' ses p" if "r = Inr True" "oc = SelfResolved" for p
  proof -
    have "thanked w w1 ses p" using s1(2) s2(2) that by (cases p) auto
    then show ?thesis using thanked_later [OF s23] s1(1) by (auto simp: world_step_def)
  qed
  moreover have "finish out' me' d status' by' later w' = (Inr None, w')" if "finished_in d (w_db w')" for out' me' status' by' later
    using that by (simp add: finish_def Let_def finished_in_def split: option.splits)
  moreover have "oc = SelfResolved \<longleftrightarrow> by_parties \<and> s_state ses \<noteq> Superseded \<and>
       (\<nexists>reason. s_handoff_reason ses = Some (handoff_reason_str reason))"
    using fin by (auto simp: outcome_of_def reason_text.parse_as_str split: option.splits dest: reason_text.parse_sound)
  moreover have "\<exists>ms. w_sent w' = w_sent w @ ms \<and> (\<forall>m \<in> set ms. thanks_only ses m) \<and> (ms \<noteq> [] \<longrightarrow> oc = SelfResolved)"
    using s1(1,3) sent by (cases "oc = SelfResolved") (auto simp: world_step_def)
  ultimately show ?thesis using ses by blast
qed

section \<open>Examples\<close>

definition example_reading :: turn_reading where
  "example_reading = \<lparr>tr_state = JNull, tr_answers = [], tr_facts = no_facts, tr_last_message_id = 0\<rparr>"

definition example_active :: "session_state \<Rightarrow> world" where
  "example_active st = (example_mediated [])\<lparr>w_db := (w_db (example_mediated []))
     \<lparr>db_sessions := [example_open\<lparr>s_state := st\<rparr>]\<rparr>\<rparr>"

lemma example_active_ok: "sessions_ok (db_sessions (w_db (example_active st)))"
  by (simp add: sessions_ok_def example_active_def)

lemma guided_once_witness:
  "\<exists>e \<in> set (new_events (example_active Active)
      (snd (guide_session quiet_outside example_mediator example_open PaymentArrived example_reading 50 (example_active Active)))).
     ev_kind e = ''guided''"
proof -
  have "get_session (db_sessions (w_db (example_active Active))) (s_session_id example_open) = Some (example_open\<lparr>s_state := Active\<rparr>)"
    by (simp add: example_active_def get_session_def)
  then have "\<exists>cur. get_session (db_sessions (w_db (example_active Active))) (s_session_id example_open) = Some cur \<and> s_state cur = Active"
    by simp
  with guided_once [where me = example_mediator and ses = example_open and path = PaymentArrived and rd = example_reading
      and now = 50, OF quiet_well_behaved example_active_ok surjective_pairing, of Active]
  show ?thesis by (simp only: if_True) blast
qed

lemma closing_recorded_when_complete_witness:
  "fst (finish quiet_outside example_mediator ''d1'' ''success'' False 50 (example_active Closed)) = Inr (Some OutcomeSuperseded) \<and>
   reported (events_for_dispute (db_events (w_db (snd (finish quiet_outside example_mediator ''d1'' ''success'' False 50
     (example_active Closed))))) ''d1'')"
proof -
  let ?f = "finish quiet_outside example_mediator ''d1'' ''success'' False 50 (example_active Closed)"
  have f: "fst ?f = Inr (Some OutcomeSuperseded)" "finished_in ''d1'' (w_db (snd ?f))"
    by (simp_all add: finish_def Let_def example_active_def example_mediated_def empty_db_def latest_for_dispute_def
        opening_row_def example_session_def outcome_of_def reported_def events_for_dispute_def report_closing_def
        quiet_outside_def others_def get_dispute_def recipients_def example_mediator_def notify_one record_finished_def
        log_event_Inr FINISHED_EVENT_def logged_def event_row_def finished_in_def)
  have alone: "closes_alone quiet_outside ''d1''" by (simp add: closes_alone_def quiet_outside_def)
  have "?f = (Inr (Some OutcomeSuperseded), snd ?f)" using f(1) by (metis prod.collapse)
  from closing_recorded_when_complete [OF quiet_well_behaved alone this] f
  show ?thesis by blast
qed

end
