(* ===== verification/Turn.thy ===== *)
theory Turn
  imports Guide Policy_Next Policy_Timers Judge_Questions
begin

text \<open>
  \<open>src/src/mediation/turn.rs\<close>: one turn of a session. \<open>run_turn\<close> reads the session, checks for floods,
  asks the judge, decides with the policy and acts; each step that other tasks can interleave with
  takes the world as they left it. Its early returns are the constructors of \<open>turn_outcome\<close>.
\<close>

datatype turn_outcome =
    Skipped string
  | Deferred string
  | Judge_Failed judge_error
  | Decided action
  | Forwarded nat

section \<open>Reading the session\<close>

definition load_session :: "world \<Rightarrow> string \<Rightarrow> (session \<times> message list \<times> initiator) option" where
  "load_session w sid =
     (case get_session (db_sessions (w_db w)) sid of
        None \<Rightarrow> None
      | Some ses \<Rightarrow>
          (case get_dispute (db_disputes (w_db w)) (s_dispute_id ses) of
             None \<Rightarrow> None
           | Some d \<Rightarrow> Some (ses, messages_for_session (db_messages (w_db w)) sid, d_initiator d)))"

definition reload :: "world \<Rightarrow> string \<Rightarrow> session result" where
  "reload w sid =
     (case get_session (db_sessions (w_db w)) sid of
        None \<Rightarrow> Inl (Schema (''session '' @ sid @ '' disappeared'')) | Some ses \<Rightarrow> Inr ses)"

definition moved_on :: "world \<Rightarrow> session \<Rightarrow> bool" where
  "moved_on w ses \<longleftrightarrow>
     (case get_session (db_sessions (w_db w)) (s_session_id ses) of
        None \<Rightarrow> True | Some current \<Rightarrow> s_state current \<noteq> s_state ses)"

definition newer_than :: "world \<Rightarrow> session \<Rightarrow> message list \<Rightarrow> bool" where
  "newer_than w ses ms \<longleftrightarrow>
     (let seen = max_or 0 m_id ms
      in list_ex (\<lambda>m. m_direction m = In \<and> seen < m_id m) (session_messages w ses))"

definition is_held :: "world \<Rightarrow> session \<Rightarrow> message list \<Rightarrow> bool" where
  "is_held w ses ms \<longleftrightarrow> current_hold ses (dispute_events w ses) ms \<noteq> None"

fun as_array :: "json \<Rightarrow> json list option" where
  "as_array (JArr xs) = Some xs"
| "as_array _ = None"

definition parties_who_wrote :: "json \<Rightarrow> party list" where
  "parties_who_wrote state =
     filter (\<lambda>p. case as_array (jget (jget state ''latest'') (party_str p)) of None \<Rightarrow> False | Some ids \<Rightarrow> ids \<noteq> [])
       [Buyer, Seller]"

fun phase_of :: "session_state \<Rightarrow> phase option" where
  "phase_of Active = Some Phase_Gathering"
| "phase_of Guiding = Some Phase_Guiding"
| "phase_of _ = None"

definition newest_id :: "message list \<Rightarrow> int" where
  "newest_id ms = max_or 0 m_id ms"

section \<open>The last turn's reading\<close>

definition reading_from :: "outside \<Rightarrow> mediator \<Rightarrow> ready_judge \<Rightarrow> session \<Rightarrow> initiator \<Rightarrow> message list \<Rightarrow> answers \<Rightarrow> turn_reading" where
  "reading_from out me ready ses opened_by ms as =
     \<lparr>tr_state = st_value (build_state (os_nip19 out) ses opened_by ms (ms_max_message_chars (me_settings me))),
      tr_answers = as, tr_facts = from_answers as (rj_thresholds ready) (ms_languages (me_settings me)),
      tr_last_message_id = newest_id ms\<rparr>"

definition last_reading :: "outside \<Rightarrow> mediator \<Rightarrow> session \<Rightarrow> message list \<Rightarrow> world \<Rightarrow> turn_reading option" where
  "last_reading out me ses ms w =
     (case me_judge me of
        None \<Rightarrow> None
      | Some ready \<Rightarrow>
          (case (find_last (\<lambda>e. el_question_set e = q_version (rj_turn ready)) (evaluations_for_session (w_evals w) (s_session_id ses)),
                 get_dispute (db_disputes (w_db w)) (s_dispute_id ses)) of
             (Some e, Some d) \<Rightarrow> Some (reading_from out me ready ses (d_initiator d) ms (el_answers e))
           | _ \<Rightarrow> None))"

section \<open>Floods\<close>

text \<open>Comparing as integers, so that the kernel evaluates it without counting to \<open>2 ^ 32\<close>.\<close>

lemma u32_try_from_code [code]: "u32_try_from n = (if int n \<le> 4294967295 then n else nat 4294967295)"
  by (simp add: u32_try_from_def u32_max_def)

definition FLOOD_STRIKE :: string where "FLOOD_STRIKE = ''flood_strike''"

definition strikes_of :: "world \<Rightarrow> session \<Rightarrow> event list" where
  "strikes_of w ses = filter (\<lambda>e. of_session ses e \<and> ev_kind e = FLOOD_STRIKE) (dispute_events w ses)"

definition counted_up_to :: "outside \<Rightarrow> world \<Rightarrow> session \<Rightarrow> int" where
  "counted_up_to out w ses =
     (let judged = max_or 0 el_last_message_id
            (filter (\<lambda>e. el_question_set e \<noteq> brief_questions_id (os_digest out)) (evaluations_for_session (w_evals w) (s_session_id ses)))
      in max (max_or 0 id (List.map_filter (\<lambda>e. as_i64 (jget (ev_payload e) ''last_message_id'')) (strikes_of w ses))) judged)"

fun flood_loop ::
    "mediator \<Rightarrow> session \<Rightarrow> message list \<Rightarrow> event list \<Rightarrow> int \<Rightarrow> int \<Rightarrow> party list \<Rightarrow> bool \<times> db \<Rightarrow> (bool \<times> db) result" where
  "flood_loop me ses ms strikes counted now [] (flood, s) = Inr (flood, s)"
| "flood_loop me ses ms strikes counted now (p # ps) (flood, s) =
     (let count = u32_try_from (length (filter (\<lambda>m. m_direction m = In \<and> m_party m = p \<and> counted < m_id m) ms))
      in if \<not> over_limit count (ms_max_messages_per_turn (me_settings me))
         then flood_loop me ses ms strikes counted now ps (flood, s)
         else case append_for ses FLOOD_STRIKE (JObj [(''party'', JStr (party_str p)), (''messages'', JInt (int count)),
                  (''last_message_id'', JInt (newest_id ms))]) now s of
             Inl e \<Rightarrow> Inl e
           | Inr (_, s') \<Rightarrow>
               (let earlier = length (filter (\<lambda>e. as_str (jget (ev_payload e) ''party'') = Some (party_str p)) strikes)
                in flood_loop me ses ms strikes counted now ps (flood \<or> is_flood (u32_try_from (earlier + 1)), s')))"

definition flooded :: "outside \<Rightarrow> mediator \<Rightarrow> session \<Rightarrow> message list \<Rightarrow> int \<Rightarrow> world \<Rightarrow> (bool \<times> db) result" where
  "flooded out me ses ms now w =
     flood_loop me ses ms (strikes_of w ses) (counted_up_to out w ses) now [Buyer, Seller] (False, w_db w)"

section \<open>Acting on the answers\<close>

fun update_languages ::
    "mediator \<Rightarrow> session \<Rightarrow> facts \<Rightarrow> int \<Rightarrow> party list \<Rightarrow> party list \<times> db \<Rightarrow> party list \<times> db" where
  "update_languages me ses f now [] acc = acc"
| "update_languages me ses f now (p # ps) (changed, s) =
     (case (case facts_party f p of None \<Rightarrow> None | Some pf \<Rightarrow> pf_language pf) of
        None \<Rightarrow> update_languages me ses f now ps (changed, s)
      | Some lang \<Rightarrow>
          (if lang = session_language ses p (ms_default_language (me_settings me))
           then update_languages me ses f now ps (changed, s)
           else update_languages me ses f now ps
             (changed @ [p], s\<lparr>db_sessions := snd (set_language (db_sessions s) (s_session_id ses) p lang now)\<rparr>)))"

definition heard :: "message list \<Rightarrow> party \<Rightarrow> bool" where
  "heard ms p \<longleftrightarrow> list_ex (\<lambda>m. m_direction m = In \<and> m_party m = p) ms"

definition turn_history :: "message list \<Rightarrow> party list \<Rightarrow> history" where
  "turn_history ms changed =
     (let (asked, buyer, seller) = from_messages ms
      in \<lparr>h_asked = asked, h_buyer = buyer\<lparr>language_changed := Buyer \<in> set changed\<rparr>,
          h_seller = seller\<lparr>language_changed := Seller \<in> set changed\<rparr>\<rparr>)"

definition turn_of ::
    "mediator \<Rightarrow> ready_judge \<Rightarrow> phase \<Rightarrow> facts \<Rightarrow> session \<Rightarrow> message list \<Rightarrow> next_questions \<Rightarrow> bool \<Rightarrow> turn" where
  "turn_of me ready phase f ses ms next holds =
     (let dflt = ms_default_language (me_settings me)
      in \<lparr>t_phase = phase, t_facts = f, buyer_language = session_language ses Buyer dflt,
          seller_language = session_language ses Seller dflt,
          t_validated_languages = validated_languages (rj_thresholds ready),
          t_buyer_rounds = s_buyer_rounds ses, t_seller_rounds = s_seller_rounds ses,
          t_max_rounds = ms_max_rounds (me_settings me), t_asked = fst (from_messages ms), t_next = next,
          buyer_heard = heard ms Buyer, seller_heard = heard ms Seller, held = holds,
          t_handoff_grace = ms_handoff_grace (me_settings me)\<rparr>)"

definition record_evaluation ::
    "ready_judge \<Rightarrow> session \<Rightarrow> message list \<Rightarrow> judged \<Rightarrow> action \<Rightarrow> nat \<Rightarrow> int \<Rightarrow> world \<Rightarrow> unit result \<times> world" where
  "record_evaluation ready ses ms jd act latency_ms now w =
     (case insert_evaluation (session_ids (w_db w)) (w_evals w)
        \<lparr>nl_session_id = s_session_id ses, nl_question_set = q_version (rj_turn ready), nl_judge_id = rj_id ready,
         nl_last_message_id = newest_id ms, nl_answers = jd_answers jd, nl_action = act,
         nl_input_tokens = jd_input_tokens jd, nl_latency_ms = Some latency_ms, nl_now = now\<rparr> of
        Inl e \<Rightarrow> (Inl e, w)
      | Inr (_, t) \<Rightarrow> (Inr (), w\<lparr>w_evals := t\<rparr>))"

fun ask_templates :: "outside \<Rightarrow> mediator \<Rightarrow> session \<Rightarrow> party \<Rightarrow> string list \<Rightarrow> world \<Rightarrow> unit result \<times> world" where
  "ask_templates out me ses p [] w = (Inr (), w)"
| "ask_templates out me ses p (t # ts) w =
     (case send_template out me ses p t w of
        (Inl e, w') \<Rightarrow> (Inl e, w')
      | (Inr _, w') \<Rightarrow> ask_templates out me ses p ts w')"

fun ask_parties ::
    "outside \<Rightarrow> mediator \<Rightarrow> session \<Rightarrow> next_questions \<Rightarrow> int \<Rightarrow> (party \<times> string list) list \<Rightarrow> bool \<Rightarrow> world \<Rightarrow>
     unit result \<times> world" where
  "ask_parties out me ses next now [] first_in_turn w = (Inr (), w)"
| "ask_parties out me ses next now ((p, templates) # rest) first_in_turn w =
     (case ask_templates out me ses p templates w of
        (Inl e, w') \<Rightarrow> (Inl e, w')
      | (Inr _, w') \<Rightarrow>
          (if asks next p
           then ask_parties out me ses next now rest False
             (w'\<lparr>w_db := (w_db w')\<lparr>db_sessions := count_round (db_sessions (w_db w')) (s_session_id ses) p first_in_turn now\<rparr>\<rparr>)
           else ask_parties out me ses next now rest first_in_turn w'))"

fun perform ::
    "outside \<Rightarrow> mediator \<Rightarrow> session \<Rightarrow> next_questions \<Rightarrow> turn_reading \<Rightarrow> int \<Rightarrow> action \<Rightarrow> world \<Rightarrow> unit result \<times> world" where
  "perform out me ses next rd now (Ask buyer seller) w =
     ask_parties out me ses next now [(Buyer, buyer), (Seller, seller)] True w"
| "perform out me ses next rd now (Handoff reason) w =
     (let (r, w') = hand_off_session out me ses reason (Some rd) now w in (unit_result r, w'))"
| "perform out me ses next rd now (Guide path) w = guide_session out me ses path rd now w"
| "perform out me ses next rd now Hold w = hold_session out me ses (max (os_clock out (w_step w)) now) w"
| "perform out me ses next rd now Wait w = (Inr (), w)"

definition act_on_answers ::
    "outside \<Rightarrow> mediator \<Rightarrow> ready_judge \<Rightarrow> session \<Rightarrow> message list \<Rightarrow> phase \<Rightarrow> json \<Rightarrow> judged \<Rightarrow> nat \<Rightarrow> int \<Rightarrow> world \<Rightarrow>
     turn_outcome result \<times> world" where
  "act_on_answers out me ready ses0 ms phase state jd latency_ms now w0 =
     (let f = from_answers (jd_answers jd) (rj_thresholds ready) (ms_languages (me_settings me));
          (changed, s) = update_languages me ses0 f now [Buyer, Seller] ([], w_db w0);
          w = w0\<lparr>w_db := s\<rparr>;
          next = next_questions f (turn_history ms changed)
      in case reload w (s_session_id ses0) of
           Inl e \<Rightarrow> (Inl e, w)
         | Inr ses \<Rightarrow>
             (let act = decide (turn_of me ready phase f ses ms next (is_held w ses ms));
                  rd = \<lparr>tr_state = state, tr_answers = jd_answers jd, tr_facts = f, tr_last_message_id = newest_id ms\<rparr>
              in case record_evaluation ready ses ms jd act latency_ms now w of
                   (Inl e, w1) \<Rightarrow> (Inl e, w1)
                 | (Inr _, w1) \<Rightarrow>
                     (case perform out me ses next rd now act w1 of
                        (Inl e, w2) \<Rightarrow> (Inl e, w2)
                      | (Inr _, w2) \<Rightarrow> (Inr (Decided act), w2))))"

definition judge_turn ::
    "outside \<Rightarrow> mediator \<Rightarrow> ready_judge \<Rightarrow> session \<Rightarrow> message list \<Rightarrow> phase \<Rightarrow> json \<Rightarrow> party list \<Rightarrow> int \<Rightarrow> world \<Rightarrow>
     turn_outcome result \<times> world" where
  "judge_turn out me ready ses ms phase state wrote now w =
     (let r = os_judge out (w_step w) state (for_turn (rj_turn ready) wrote (phase = Phase_Guiding));
          latency_ms = u32_try_from (os_latency_ms out (w_step w)); w1 = others out w
      in case r of
           Inl e \<Rightarrow>
             (case hand_off_session out me ses JudgeUnavailable None now w1 of
                (Inl er, w2) \<Rightarrow> (Inl er, w2) | (Inr _, w2) \<Rightarrow> (Inr (Judge_Failed e), w2))
         | Inr jd \<Rightarrow>
             (if newer_than w1 ses ms then (Inr (Deferred ''newer party messages arrived''), w1)
              else if moved_on w1 ses then (Inr (Skipped ''session changed while judging''), w1)
              else act_on_answers out me ready ses ms phase state jd latency_ms now w1))"

section \<open>The turn\<close>

definition judge_or_flood ::
    "outside \<Rightarrow> mediator \<Rightarrow> session \<Rightarrow> message list \<Rightarrow> initiator \<Rightarrow> int \<Rightarrow> world \<Rightarrow> turn_outcome result \<times> world" where
  "judge_or_flood out me ses ms opened_by now w =
     (case me_judge me of
        None \<Rightarrow> (Inr (Deferred ''judge not ready''), w)
      | Some ready \<Rightarrow>
          (case phase_of (s_state ses) of
             None \<Rightarrow> (Inr (Skipped ''session not live''), w)
           | Some phase \<Rightarrow>
               (let state = st_value (build_state (os_nip19 out) ses opened_by ms (ms_max_message_chars (me_settings me)));
                    wrote = parties_who_wrote state
                in if wrote = [] then (Inr (Skipped ''no new party messages''), w)
                   else case flooded out me ses ms now w of
                       Inl e \<Rightarrow> (Inl e, w)
                     | Inr (flood, s) \<Rightarrow>
                         (if \<not> flood then judge_turn out me ready ses ms phase state wrote now (w\<lparr>w_db := s\<rparr>)
                          else case hand_off_session out me ses Flood (last_reading out me ses ms (w\<lparr>w_db := s\<rparr>)) now (w\<lparr>w_db := s\<rparr>) of
                              (Inl e, w1) \<Rightarrow> (Inl e, w1)
                            | (Inr _, w1) \<Rightarrow> (Inr (Decided (Handoff Flood)), w1)))))"

definition run_turn :: "outside \<Rightarrow> mediator \<Rightarrow> string \<Rightarrow> int \<Rightarrow> world \<Rightarrow> turn_outcome result \<times> world" where
  "run_turn out me sid now w =
     (case load_session w sid of
        None \<Rightarrow> (Inr (Skipped ''session not live''), w)
      | Some (ses, ms, opened_by) \<Rightarrow>
          (if s_state ses = HandedOff then
             (case forward_updates out me ses now w of
                (Inl e, w1) \<Rightarrow> (Inl e, w1) | (Inr n, w1) \<Rightarrow> (Inr (Forwarded n), w1))
           else judge_or_flood out me ses ms opened_by now
             (if s_state ses = Guiding then snd (resend_guides out me ses w) else w)))"

section \<open>Steps of the turn\<close>

text \<open>A message about this session that its state allows.\<close>

abbreviation own :: "session \<Rightarrow> sent_message \<Rightarrow> bool" where
  "own ses m \<equiv> sm_session_id m = s_session_id ses \<and> gated m"

lemma get_session_same:
  "(\<And>r. s_session_id (g r) = s_session_id r) \<Longrightarrow> get_session (map g t) sid = map_option g (get_session t sid)"
  by (induction t) (auto simp: get_session_def)

lemma set_language_grows: "db_grows s (s\<lparr>db_sessions := snd (set_language (db_sessions s) sid p l now)\<rparr>)"
proof -
  have "snd (set_language t sid p l now) =
      map (\<lambda>s. if s_session_id s = sid then (with_language p l s)\<lparr>s_updated_at := now\<rparr> else s) t" for t
    by (simp add: set_language_def case_prod_beta snd_upd_where)
  then show ?thesis
    using session_machine.step_inv [of "db_sessions s" "[]" "Set_Language sid p l now"]
    by (cases p) (auto simp: db_grows_def get_session_same)
qed

lemma count_round_grows: "db_grows s (s\<lparr>db_sessions := count_round (db_sessions s) sid p first now\<rparr>)"
  using session_machine.step_inv [of "db_sessions s" "[]" "Count_Round sid p first now"]
  by (cases p) (auto simp: db_grows_def count_round_def snd_upd_where get_session_same add_round_def)

lemma update_languages_grows:
  "update_languages me ses f now ps (changed, s) = (changed', s') \<Longrightarrow> db_grows s s'"
proof (induction ps arbitrary: changed s)
  case (Cons p ps)
  then show ?case
    by (auto split: option.splits if_splits intro: db_grows_trans [OF set_language_grows])
qed (simp add: db_grows_refl)

lemma flood_loop_spec:
  "\<exists>flood' s'. flood_loop me ses ms strikes counted now ps (flood, s) = Inr (flood', s') \<and> db_grows s s' \<and>
     db_sessions s' = db_sessions s \<and>
     (\<exists>es. db_events s' = db_events s @ es \<and> (\<forall>e \<in> set es. of_session ses e \<and> ev_kind e = FLOOD_STRIKE \<and>
        ev_dispute_id e = s_dispute_id ses \<and> as_i64 (jget (ev_payload e) ''last_message_id'') = Some (newest_id ms)) \<and>
        (flood' \<and> \<not> flood \<longrightarrow> es \<noteq> []))"
proof (induction ps arbitrary: flood s)
  case Nil
  show ?case by (auto simp: db_grows_refl)
next
  case (Cons p ps)
  let ?count = "u32_try_from (length (filter (\<lambda>m. m_direction m = In \<and> m_party m = p \<and> counted < m_id m) ms))"
  show ?case
  proof (cases "over_limit ?count (ms_max_messages_per_turn (me_settings me))")
    case False
    then show ?thesis using Cons.IH [of flood s] by (simp add: Let_def)
  next
    case True
    let ?s1 = "logged s (s_dispute_id ses) (Some (s_session_id ses)) FLOOD_STRIKE (JObj [(''party'', JStr (party_str p)),
        (''messages'', JInt (int ?count)), (''last_message_id'', JInt (newest_id ms))]) now"
    obtain flood1 where step: "flood_loop me ses ms strikes counted now (p # ps) (flood, s) =
        flood_loop me ses ms strikes counted now ps (flood1, ?s1)"
      using True by (auto simp: Let_def append_for_Inr FLOOD_STRIKE_def)
    obtain flood' s' es where IH: "flood_loop me ses ms strikes counted now ps (flood1, ?s1) = Inr (flood', s')"
        "db_grows ?s1 s'" "db_sessions s' = db_sessions ?s1" "db_events s' = db_events ?s1 @ es"
        "\<forall>e \<in> set es. of_session ses e \<and> ev_kind e = FLOOD_STRIKE \<and> ev_dispute_id e = s_dispute_id ses \<and>
          as_i64 (jget (ev_payload e) ''last_message_id'') = Some (newest_id ms)"
      using Cons.IH [of flood1 ?s1] by blast
    obtain e where e: "db_events ?s1 = db_events s @ [e]" "of_session ses e" "ev_kind e = FLOOD_STRIKE"
      "ev_dispute_id e = s_dispute_id ses" "as_i64 (jget (ev_payload e) ''last_message_id'') = Some (newest_id ms)"
      by (simp add: logged_def of_session_def)
    show ?thesis
      unfolding step IH(1) using IH(3-5) e db_grows_trans [OF db_grows_logged IH(2)]
      by (intro exI [of _ flood'] exI [of _ s']) (auto intro!: exI [of _ "e # es"])
  qed
qed

lemma flooded_spec:
  "\<exists>flood s. flooded out me ses ms now w = Inr (flood, s) \<and> db_grows (w_db w) s \<and> db_sessions s = db_sessions (w_db w) \<and>
     (\<exists>es. db_events s = db_events (w_db w) @ es \<and> (\<forall>e \<in> set es. of_session ses e \<and> ev_kind e = FLOOD_STRIKE \<and>
        ev_dispute_id e = s_dispute_id ses \<and> as_i64 (jget (ev_payload e) ''last_message_id'') = Some (newest_id ms)) \<and>
        (flood \<longrightarrow> es \<noteq> []))"
  using flood_loop_spec [of me ses ms "strikes_of w ses" "counted_up_to out w ses" now "[Buyer, Seller]" False "w_db w"]
  by (simp add: flooded_def)

lemma ask_templates_step:
  assumes "well_behaved out"
  shows "ask_templates out me ses p ts w = (r, w') \<Longrightarrow>
    world_step (own ses) w w' \<and> w_evals w' = w_evals w \<and>
    (\<exists>ms. w_sent w' = w_sent w @ ms \<and>
       (\<forall>m \<in> set ms. sm_party m = p \<and> sm_template m \<in> set ts) \<and>
       (r = Inr () \<longrightarrow> map sm_template ms = ts))"
proof (induction ts arbitrary: w)
  case (Cons t ts)
  obtain r1 w1 where one: "send_template out me ses p t w = (r1, w1)" by force
  note s = send_template_spec [OF assms one]
  have s1: "world_step (own ses) w w1"
    by (rule world_step_mono [OF send_template_step [OF assms one]]) (simp add: about_def)
  show ?case
  proof (cases r1)
    case (Inl e)
    with Cons.prems s s1 show ?thesis by (auto simp: one about_def)
  next
    case (Inr u)
    with Cons.prems have rest: "ask_templates out me ses p ts w1 = (r, w')" by (simp add: one)
    obtain m where m: "w_sent w1 = w_sent w @ [m]" "sm_party m = p" "sm_template m = t"
      using s(3) Inr by (auto simp: about_def)
    obtain ms where ms: "w_sent w' = w_sent w1 @ ms" "\<forall>m \<in> set ms. sm_party m = p \<and> sm_template m \<in> set ts"
      "r = Inr () \<longrightarrow> map sm_template ms = ts" "world_step (own ses) w1 w'" "w_evals w' = w_evals w1"
      using Cons.IH [OF rest] by blast
    show ?thesis
      using ms m s(2) world_step_trans [OF s1 ms(4)] by (auto intro!: exI [of _ "m # ms"])
  qed
qed auto

lemma ask_parties_step:
  assumes "well_behaved out"
  shows "ask_parties out me ses next now pts first w = (r, w') \<Longrightarrow>
    world_step (own ses) w w' \<and> w_evals w' = w_evals w \<and>
    (\<exists>ms. w_sent w' = w_sent w @ ms \<and>
       (\<forall>m \<in> set ms. \<exists>ts. (sm_party m, ts) \<in> set pts \<and> sm_template m \<in> set ts) \<and>
       (r = Inr () \<longrightarrow> map (\<lambda>m. (sm_party m, sm_template m)) ms = concat (map (\<lambda>(p, ts). map (Pair p) ts) pts)))"
proof (induction pts arbitrary: first w)
  case (Cons pt pts)
  obtain p ts where pt: "pt = (p, ts)" by (cases pt)
  obtain r1 w1 where one: "ask_templates out me ses p ts w = (r1, w1)" by force
  obtain ms1 where s1: "world_step (own ses) w w1" "w_evals w1 = w_evals w" "w_sent w1 = w_sent w @ ms1"
    "\<forall>m \<in> set ms1. sm_party m = p \<and> sm_template m \<in> set ts" "r1 = Inr () \<longrightarrow> map sm_template ms1 = ts"
    using ask_templates_step [OF assms one] by blast
  show ?case
  proof (cases r1)
    case (Inl e)
    with Cons.prems s1 show ?thesis by (auto simp: pt one)
  next
    case (Inr u)
    define w2 where "w2 = (if asks next p then w1\<lparr>w_db := (w_db w1)\<lparr>db_sessions :=
      count_round (db_sessions (w_db w1)) (s_session_id ses) p first now\<rparr>\<rparr> else w1)"
    have s2: "world_step (own ses) w1 w2" "w_evals w2 = w_evals w1" "w_sent w2 = w_sent w1"
      by (simp_all add: w2_def world_step_db count_round_grows)
    obtain first2 where rest: "ask_parties out me ses next now pts first2 w2 = (r, w')"
      using Cons.prems Inr by (auto simp: pt one w2_def split: if_splits)
    obtain ms2 where s3: "world_step (own ses) w2 w'" "w_evals w' = w_evals w2" "w_sent w' = w_sent w2 @ ms2"
      "\<forall>m \<in> set ms2. \<exists>ts. (sm_party m, ts) \<in> set pts \<and> sm_template m \<in> set ts"
      "r = Inr () \<longrightarrow> map (\<lambda>m. (sm_party m, sm_template m)) ms2 = concat (map (\<lambda>(p, ts). map (Pair p) ts) pts)"
      using Cons.IH [OF rest] by blast
    have "map (\<lambda>m. (sm_party m, sm_template m)) ms1 = map (Pair p) ts"
    proof -
      have "map (\<lambda>m. (sm_party m, sm_template m)) ms1 = map (Pair p) (map sm_template ms1)"
        using s1(4) by simp
      with s1(5) Inr show ?thesis by simp
    qed
    moreover have "world_step (own ses) w w'" by (rule world_step_trans [OF s1(1) world_step_trans [OF s2(1) s3(1)]])
    ultimately show ?thesis
      using s1 s2 s3 by (auto simp: pt intro!: exI [of _ "ms1 @ ms2"])
  qed
qed auto

lemma guide_tx_grows:
  assumes "guide_tx me ses path now s = Inr (p, s')"
  shows "db_grows s s'"
proof (cases "fst (start_guiding (db_sessions s) (s_session_id ses) now)")
  case True
  let ?s1 = "s\<lparr>db_sessions := snd (start_guiding (db_sessions s) (s_session_id ses) now)\<rparr>"
  have "db_grows ?s1 s'"
    using claim_records [where k = "''guided''" and ses = ses and now = now and ?s1.0 = ?s1
      and payload = "JObj [(''path'', JStr (path_str path))]" and matter = "JObj [(''path'', JStr (path_str path))]"
      and obs = "me_observers me" and sub = "subject_text (Subject_Guide path)", OF list.distinct(2)] assms True
    unfolding guide_tx_def case_prod_beta Let_def by (simp only: if_False not_True_eq_False) fastforce
  then show ?thesis by (rule db_grows_trans [OF start_guiding_grows])
next
  case False
  with assms show ?thesis by (simp add: guide_tx_def case_prod_beta db_grows_refl)
qed

lemma guide_session_step:
  assumes "well_behaved out" and "guide_session out me ses path rd now w = (r, w')"
  shows "world_step (\<lambda>m. sm_session_id m = s_session_id ses \<and> (sm_party m, sm_template m) \<in> set (guides path) \<and> gated m) w w'"
proof (cases "\<exists>pending s. guide_tx me ses path now (w_db w) = Inr (Some pending, s)")
  case True
  then obtain pending s where tx: "guide_tx me ses path now (w_db w) = Inr (Some pending, s)" by blast
  show ?thesis by (rule guide_session_runs(1) [OF assms(1) tx assms(2) guide_tx_grows [OF tx]])
next
  case False
  with assms(2) have "w' = w"
    by (cases "guide_tx me ses path now (w_db w)") (auto simp: guide_session_def split: option.splits prod.splits)
  then show ?thesis by simp
qed

text \<open>The messages an action may send.\<close>

fun action_sends :: "action \<Rightarrow> sent_message \<Rightarrow> bool" where
  "action_sends (Ask buyer seller) m \<longleftrightarrow>
     (sm_party m, sm_template m) \<in> set (map (Pair Buyer) buyer @ map (Pair Seller) seller)"
| "action_sends (Handoff reason) m \<longleftrightarrow> sm_template m = HANDOFF_NOTICE"
| "action_sends (Guide path) m \<longleftrightarrow> (sm_party m, sm_template m) \<in> set (guides path)"
| "action_sends Hold m \<longleftrightarrow> sm_template m = HOLD_NOTICE"
| "action_sends Wait m \<longleftrightarrow> False"

lemma perform_step:
  assumes "well_behaved out" and "perform out me ses next rd now act w = (r, w')"
  shows "world_step (\<lambda>m. own ses m \<and> action_sends act m) w w'"
proof (cases act)
  case (Ask b s)
  with assms(2) have "ask_parties out me ses next now [(Buyer, b), (Seller, s)] True w = (r, w')" by simp
  from ask_parties_step [OF assms(1) this] show ?thesis by (fastforce simp: world_step_def Ask)
next
  case (Handoff reason)
  with assms(2) obtain r1 where "hand_off_session out me ses reason (Some rd) now w = (r1, w')"
    by (auto split: prod.splits)
  from world_step_mono [OF hand_off_session_step [OF assms(1) this]] show ?thesis by (simp add: Handoff)
next
  case (Guide path)
  with assms(2) have "guide_session out me ses path rd now w = (r, w')" by simp
  from world_step_mono [OF guide_session_step [OF assms(1) this]] show ?thesis by (simp add: Guide)
next
  case Hold
  with assms(2) have "hold_session out me ses (max (os_clock out (w_step w)) now) w = (r, w')" by simp
  from world_step_mono [OF hold_session_step [OF assms(1) this]] show ?thesis by (simp add: Hold)
qed (use assms(2) in simp)

lemma reload_same: "reload w sid = Inr ses \<Longrightarrow> s_session_id ses = sid"
  by (auto simp: reload_def get_session_def split: option.splits dest: find_key_some)

text \<open>
  What a judged turn did: the action is the policy's for the facts the answers give, the session and
  its history; the evaluation was recorded; and only what the action sends was sent.
\<close>

definition decided_on ::
    "mediator \<Rightarrow> ready_judge \<Rightarrow> message list \<Rightarrow> phase \<Rightarrow> judged \<Rightarrow> session \<Rightarrow> next_questions \<Rightarrow> action \<Rightarrow> bool" where
  "decided_on me ready ms phase jd ses next act \<longleftrightarrow>
     (let f = from_answers (jd_answers jd) (rj_thresholds ready) (ms_languages (me_settings me))
      in (\<exists>changed holds. next = next_questions f (turn_history ms changed) \<and>
            act = decide (turn_of me ready phase f ses ms next holds)))"

lemma act_on_answers_spec:
  assumes "well_behaved out" and "act_on_answers out me ready ses0 ms phase state jd lat now w = (r, w')"
  shows "world_step (\<lambda>m. own ses0 m \<and> (\<exists>ses next act. decided_on me ready ms phase jd ses next act \<and> action_sends act m)) w w'"
    "r = Inr (Decided act) \<Longrightarrow> \<exists>ses next w1 w2 rd. decided_on me ready ms phase jd ses next act \<and>
       w_sent w1 = w_sent w \<and> perform out me ses next rd now act w1 = (Inr (), w2) \<and> w' = w2 \<and>
       s_session_id ses = s_session_id ses0 \<and> db_grows (w_db w) (w_db w1) \<and>
       (\<exists>e. w_evals w1 = w_evals w @ [e] \<and> el_session_id e = s_session_id ses0 \<and> el_action e = act \<and>
          el_answers e = jd_answers jd \<and> el_question_set e = q_version (rj_turn ready) \<and> el_last_message_id e = newest_id ms)"
    "r \<noteq> Inr (Judge_Failed e)"
proof -
  let ?f = "from_answers (jd_answers jd) (rj_thresholds ready) (ms_languages (me_settings me))"
  let ?P = "\<lambda>m. own ses0 m \<and> (\<exists>ses next act. decided_on me ready ms phase jd ses next act \<and> action_sends act m)"
  obtain changed s where u: "update_languages me ses0 ?f now [Buyer, Seller] ([], w_db w) = (changed, s)" by force
  let ?w0 = "w\<lparr>w_db := s\<rparr>"
  let ?next = "next_questions ?f (turn_history ms changed)"
  have s0: "world_step ?P w ?w0" by (rule world_step_db) (simp_all add: update_languages_grows [OF u])
  note eq = assms(2) [unfolded act_on_answers_def Let_def u prod.case]
  have "world_step ?P w w' \<and> (r = Inr (Decided act) \<longrightarrow> (\<exists>ses next w1 w2 rd. decided_on me ready ms phase jd ses next act \<and>
       w_sent w1 = w_sent w \<and> perform out me ses next rd now act w1 = (Inr (), w2) \<and> w' = w2 \<and>
       s_session_id ses = s_session_id ses0 \<and> db_grows (w_db w) (w_db w1) \<and>
       (\<exists>e. w_evals w1 = w_evals w @ [e] \<and> el_session_id e = s_session_id ses0 \<and> el_action e = act \<and>
          el_answers e = jd_answers jd \<and> el_question_set e = q_version (rj_turn ready) \<and> el_last_message_id e = newest_id ms))) \<and>
       r \<noteq> Inr (Judge_Failed e)"
  proof (cases "reload ?w0 (s_session_id ses0)")
    case (Inl er)
    with eq s0 show ?thesis by auto
  next
    case (Inr ses)
    let ?act = "decide (turn_of me ready phase ?f ses ms ?next (is_held ?w0 ses ms))"
    obtain r1 w1 where rec: "record_evaluation ready ses ms jd ?act lat now ?w0 = (r1, w1)" by force
    have d: "decided_on me ready ms phase jd ses ?next ?act" by (auto simp: decided_on_def Let_def)
    have same: "s_session_id ses = s_session_id ses0" by (rule reload_same [OF Inr])
    have w1: "w_db w1 = s" "w_sent w1 = w_sent w"
      using rec by (auto simp: record_evaluation_def split: sum.splits)
    have s1: "world_step ?P w w1" by (rule world_step_db) (simp_all add: w1 update_languages_grows [OF u])
    show ?thesis
    proof (cases r1)
      case err: (Inl er)
      with eq Inr rec s1 show ?thesis by auto
    next
      case fine: (Inr u1)
      have ev: "\<exists>e. w_evals w1 = w_evals w @ [e] \<and> el_session_id e = s_session_id ses0 \<and> el_action e = ?act \<and>
          el_answers e = jd_answers jd \<and> el_question_set e = q_version (rj_turn ready) \<and> el_last_message_id e = newest_id ms"
        using rec same fine
        by (auto simp: record_evaluation_def insert_evaluation_def evaluation_row_def Let_def split: sum.splits if_splits)
      obtain r2 w2 where p: "perform out me ses ?next \<lparr>tr_state = state, tr_answers = jd_answers jd, tr_facts = ?f,
          tr_last_message_id = newest_id ms\<rparr> now ?act w1 = (r2, w2)" by force
      have "world_step ?P w1 w2"
        by (rule world_step_mono [OF perform_step [OF assms(1) p]]) (use d same in auto)
      then have st: "world_step ?P w w2" by (rule world_step_trans [OF s1])
      show ?thesis
      proof (cases r2)
        case (Inl er)
        with eq Inr rec p fine st show ?thesis by auto
      next
        case sent: (Inr u2)
        with eq Inr rec p fine have "r = Inr (Decided ?act) \<and> w' = w2" by auto
        moreover have "perform out me ses ?next \<lparr>tr_state = state, tr_answers = jd_answers jd, tr_facts = ?f,
          tr_last_message_id = newest_id ms\<rparr> now ?act w1 = (Inr (), w2)" using p sent by simp
        ultimately show ?thesis using d ev st w1 same update_languages_grows [OF u] by auto
      qed
    qed
  qed
  then show "world_step ?P w w'" "r = Inr (Decided act) \<Longrightarrow> \<exists>ses next w1 w2 rd. decided_on me ready ms phase jd ses next act \<and>
       w_sent w1 = w_sent w \<and> perform out me ses next rd now act w1 = (Inr (), w2) \<and> w' = w2 \<and>
       s_session_id ses = s_session_id ses0 \<and> db_grows (w_db w) (w_db w1) \<and>
       (\<exists>e. w_evals w1 = w_evals w @ [e] \<and> el_session_id e = s_session_id ses0 \<and> el_action e = act \<and>
          el_answers e = jd_answers jd \<and> el_question_set e = q_version (rj_turn ready) \<and> el_last_message_id e = newest_id ms)"
    "r \<noteq> Inr (Judge_Failed e)" by blast+
qed

section \<open>How a turn ends\<close>

text \<open>A session's world when its turn has resent the guidance that was missing.\<close>

definition resent :: "outside \<Rightarrow> mediator \<Rightarrow> session \<Rightarrow> world \<Rightarrow> world" where
  "resent out me ses w = (if s_state ses = Guiding then snd (resend_guides out me ses w) else w)"

lemma load_session_ids: "load_session w sid = Some (ses, ms, ob) \<Longrightarrow> s_session_id ses = sid \<and>
    get_session (db_sessions (w_db w)) sid = Some ses \<and> ms = messages_for_session (db_messages (w_db w)) sid"
  by (auto simp: load_session_def get_session_def split: option.splits dest: find_key_some)

lemma judge_turn_cases:
  assumes "judge_turn out me ready ses ms phase state wrote now w = (r, w')"
  obtains (failed) r1 where "hand_off_session out me ses JudgeUnavailable None now (others out w) = (r1, w')"
      "\<forall>act. r \<noteq> Inr (Decided act)"
  | (put_off) "w' = others out w" "(\<exists>why. r = Inr (Deferred why)) \<or> (\<exists>why. r = Inr (Skipped why))"
  | (judged) jd lat where "os_judge out (w_step w) state (for_turn (rj_turn ready) wrote (phase = Phase_Guiding)) = Inr jd"
      "\<not> newer_than (others out w) ses ms" "\<not> moved_on (others out w) ses"
      "act_on_answers out me ready ses ms phase state jd lat now (others out w) = (r, w')"
proof (cases "os_judge out (w_step w) state (for_turn (rj_turn ready) wrote (phase = Phase_Guiding))")
  case (Inl e)
  obtain r1 w1 where h: "hand_off_session out me ses JudgeUnavailable None now (others out w) = (r1, w1)" by force
  then have "w' = w1" "\<forall>act. r \<noteq> Inr (Decided act)"
    using assms Inl by (auto simp: judge_turn_def Let_def split: sum.splits)
  with h show thesis by (auto intro: failed)
next
  case (Inr jd)
  with assms show thesis
    by (auto simp: judge_turn_def Let_def split: if_splits intro: put_off judged)
qed

lemma run_turn_cases:
  assumes "run_turn out me sid now w = (r, w')"
  obtains (absent) "load_session w sid = None" "w' = w" "r = Inr (Skipped ''session not live'')"
  | (forwarded) ses ms ob r1 where "load_session w sid = Some (ses, ms, ob)" "s_state ses = HandedOff"
      "forward_updates out me ses now w = (r1, w')" "\<forall>act. r \<noteq> Inr (Decided act)" "\<forall>e. r \<noteq> Inr (Judge_Failed e)"
  | (idle) ses ms ob where "load_session w sid = Some (ses, ms, ob)" "w' = resent out me ses w"
      "(\<exists>why. r = Inr (Deferred why)) \<or> (\<exists>why. r = Inr (Skipped why))"
  | (flood) ses ms ob s rd r1 where "load_session w sid = Some (ses, ms, ob)" "flooded out me ses ms now (resent out me ses w) = Inr (True, s)"
      "hand_off_session out me ses Flood rd now ((resent out me ses w)\<lparr>w_db := s\<rparr>) = (r1, w')"
      "r = Inr (Decided (Handoff Flood)) \<or> (\<exists>e. r = Inl e)"
  | (judging) ses ms ob ready phase s state where "load_session w sid = Some (ses, ms, ob)" "me_judge me = Some ready"
      "phase_of (s_state ses) = Some phase" "flooded out me ses ms now (resent out me ses w) = Inr (False, s)"
      "state = st_value (build_state (os_nip19 out) ses ob ms (ms_max_message_chars (me_settings me)))"
      "parties_who_wrote state \<noteq> []"
      "judge_turn out me ready ses ms phase state (parties_who_wrote state) now ((resent out me ses w)\<lparr>w_db := s\<rparr>) = (r, w')"
proof (cases "load_session w sid")
  case None
  with assms show thesis by (intro absent) (simp_all add: run_turn_def)
next
  case (Some x)
  obtain ses ms ob where x: "load_session w sid = Some (ses, ms, ob)" using Some by (cases x) auto
  show thesis
  proof (cases "s_state ses = HandedOff")
    case True
    obtain r1 w1 where "forward_updates out me ses now w = (r1, w1)" by force
    with assms x True show thesis
      by (intro forwarded [OF x True, of r1]) (auto simp: run_turn_def split: sum.splits)
  next
    case False
    have jf: "judge_or_flood out me ses ms ob now (resent out me ses w) = (r, w')"
      using assms x False by (simp add: run_turn_def resent_def)
    let ?state = "st_value (build_state (os_nip19 out) ses ob ms (ms_max_message_chars (me_settings me)))"
    show thesis
    proof (cases "me_judge me = None \<or> phase_of (s_state ses) = None \<or> parties_who_wrote ?state = []")
      case True
      with jf show thesis by (intro idle [OF x]) (auto simp: judge_or_flood_def Let_def split: option.splits if_splits)
    next
      case False
      then obtain ready phase where rp: "me_judge me = Some ready" "phase_of (s_state ses) = Some phase"
        "parties_who_wrote ?state \<noteq> []" by auto
      obtain fl s where fl: "flooded out me ses ms now (resent out me ses w) = Inr (fl, s)" using flooded_spec by blast
      show thesis
      proof (cases fl)
        case False
        with jf rp fl show thesis by (intro judging [OF x rp(1,2) _ refl rp(3)]) (auto simp: judge_or_flood_def Let_def)
      next
        case True
        obtain r1 w1 where "hand_off_session out me ses Flood (last_reading out me ses ms ((resent out me ses w)\<lparr>w_db := s\<rparr>)) now
            ((resent out me ses w)\<lparr>w_db := s\<rparr>) = (r1, w1)" by force
        with jf rp fl True show thesis
          by (intro flood [OF x, of s "last_reading out me ses ms ((resent out me ses w)\<lparr>w_db := s\<rparr>)" r1])
            (auto simp: judge_or_flood_def Let_def split: sum.splits)
      qed
    qed
  qed
qed

lemma resent_step:
  assumes "well_behaved out"
  shows "world_step (\<lambda>m. own ses m \<and> s_state ses = Guiding \<and>
      (\<exists>path. guided_path w ses = Some path \<and> (sm_party m, sm_template m) \<in> set (guides path))) w (resent out me ses w)"
proof (cases "s_state ses = Guiding")
  case True
  show ?thesis
    unfolding resent_def using True by (simp, intro world_step_mono [OF resend_guides_step [OF assms]]) auto
qed (simp add: resent_def)

text \<open>What a turn may send: guidance it owed, the handoff notice, or what a judged action sends.\<close>

definition turn_sends :: "outside \<Rightarrow> mediator \<Rightarrow> string \<Rightarrow> world \<Rightarrow> sent_message \<Rightarrow> bool" where
  "turn_sends out me sid w m \<longleftrightarrow> sm_session_id m = sid \<and> gated m \<and>
     ((\<exists>ses path. get_session (db_sessions (w_db w)) sid = Some ses \<and> s_state ses = Guiding \<and>
         guided_path w ses = Some path \<and> (sm_party m, sm_template m) \<in> set (guides path)) \<or>
      sm_template m = HANDOFF_NOTICE \<or>
      (\<exists>ready n state qs jd ms phase ses next act. me_judge me = Some ready \<and> os_judge out n state qs = Inr jd \<and>
         decided_on me ready ms phase jd ses next act \<and> action_sends act m))"

lemma run_turn_step:
  assumes "well_behaved out" and "run_turn out me sid now w = (r, w')"
  shows "world_step (turn_sends out me sid w) w w'"
  using assms(2)
proof (cases rule: run_turn_cases)
  case (forwarded ses ms ob r1)
  then show ?thesis using forward_updates_step [OF assms(1)] by blast
next
  case (idle ses ms ob)
  show ?thesis
    unfolding idle(2)
    by (rule world_step_mono [OF resent_step [OF assms(1)]])
      (use load_session_ids [OF idle(1)] in \<open>auto simp: turn_sends_def\<close>)
next
  case (flood ses ms ob s rd r1)
  note ids = load_session_ids [OF flood(1)]
  have s0: "world_step (turn_sends out me sid w) w (resent out me ses w)"
    by (rule world_step_mono [OF resent_step [OF assms(1)]]) (use ids in \<open>auto simp: turn_sends_def\<close>)
  have s1: "world_step (turn_sends out me sid w) (resent out me ses w) ((resent out me ses w)\<lparr>w_db := s\<rparr>)"
    using flooded_spec [of out me ses ms now "resent out me ses w"] flood(2) by (intro world_step_db) auto
  have "world_step (turn_sends out me sid w) ((resent out me ses w)\<lparr>w_db := s\<rparr>) w'"
    by (rule world_step_mono [OF hand_off_session_step [OF assms(1) flood(3)]]) (use ids in \<open>auto simp: turn_sends_def\<close>)
  then show ?thesis by (rule world_step_trans [OF s0 world_step_trans [OF s1]])
next
  case (judging ses ms ob ready phase s state)
  note ids = load_session_ids [OF judging(1)]
  let ?w1 = "(resent out me ses w)\<lparr>w_db := s\<rparr>"
  have s0: "world_step (turn_sends out me sid w) w (resent out me ses w)"
    by (rule world_step_mono [OF resent_step [OF assms(1)]]) (use ids in \<open>auto simp: turn_sends_def\<close>)
  have s1: "world_step (turn_sends out me sid w) (resent out me ses w) ?w1"
    using flooded_spec [of out me ses ms now "resent out me ses w"] judging(4) by (intro world_step_db) auto
  have s2: "world_step (turn_sends out me sid w) ?w1 (others out ?w1)"
    by (rule world_step_db) (rule others_grows [OF assms(1)], simp)
  have s3: "world_step (turn_sends out me sid w) (others out ?w1) w'"
    using judging(7)
  proof (cases rule: judge_turn_cases)
    case (failed r1)
    show ?thesis
      by (rule world_step_mono [OF hand_off_session_step [OF assms(1) failed(1)]]) (use ids in \<open>auto simp: turn_sends_def\<close>)
  next
    case (judged jd lat)
    show ?thesis
      by (rule world_step_mono [OF act_on_answers_spec(1) [OF assms(1) judged(4)]])
        (use ids judged(1) judging(2) in \<open>unfold turn_sends_def, blast\<close>)
  qed simp
  show ?thesis by (rule world_step_trans [OF s0 world_step_trans [OF s1 world_step_trans [OF s2 s3]]])
qed simp

section \<open>Properties of the turn\<close>

lemma policy_templates:
  "t \<in> set (nq_of (next_questions f h) p) \<Longrightarrow> t \<in> set resendable_templates"
proof -
  assume t: "t \<in> set (nq_of (next_questions f h) p)"
  have q: "set (party_questions q) \<subseteq> set resendable_templates" for q
    by (cases q) (auto simp: resendable_templates_def)
  consider "t = WAITING_OTHER_PARTY" | (fresh) "for_party p f h = (fst (for_party p f h), False)" "t \<in> set (fst (for_party p f h))"
    | (again) "snd (for_party p f h)" "t \<in> set (fst (for_party p f h))"
    using t by (cases "snd (for_party p f h)") (auto simp: next_questions_of prod_eq_iff split: if_splits)
  then show ?thesis
  proof cases
    case fresh
    then consider "needed_question p f (sent (h_asked h) p) = Some t"
      | (simple) "unused_simple (history_of h p) (sent (h_asked h) p) = Some t"
      | (needed) mk where "t \<in> set (needed_templates p f (sent (h_asked h) p) mk)"
      by (auto simp: for_party_def Let_def option_list_def split: option.splits if_splits)
    then show ?thesis
    proof cases
      case simple
      then show ?thesis
        by (auto simp: unused_simple_def simple_variant_def resendable_templates_def split: option.splits if_splits)
    qed (use q in \<open>auto dest!: needed_question_Some needed_templates_in simp: resendable_templates_def\<close>)
  next
    case again
    then show ?thesis
      by (auto simp: for_party_def Let_def language_resend_def resendable_def find_Some_iff split: option.splits if_splits
          intro: nth_mem)
  qed (simp add: resendable_templates_def)
qed

definition guide_template :: "string \<Rightarrow> bool" where
  "guide_template t \<longleftrightarrow> (\<exists>path. t \<in> snd ` set (guides path))"

lemma not_guide_templates: "t \<in> set resendable_templates \<Longrightarrow> \<not> guide_template t"
  "\<not> guide_template HANDOFF_NOTICE" "\<not> guide_template HOLD_NOTICE"
proof -
  have "guide_template t \<longleftrightarrow> t \<in> {''guide_arrived_seller'', ''guide_arrived_buyer'', ''guide_not_sent_buyer'', ''guide_not_sent_seller''}"
    for t
  proof
    assume "guide_template t"
    then obtain path where "t \<in> snd ` set (guides path)" by (auto simp: guide_template_def)
    then show "t \<in> {''guide_arrived_seller'', ''guide_arrived_buyer'', ''guide_not_sent_buyer'', ''guide_not_sent_seller''}"
      by (cases path) auto
  next
    assume "t \<in> {''guide_arrived_seller'', ''guide_arrived_buyer'', ''guide_not_sent_buyer'', ''guide_not_sent_seller''}"
    then have "t \<in> snd ` set (guides PaymentArrived) \<or> t \<in> snd ` set (guides PaymentNotSent)" by auto
    then show "guide_template t" unfolding guide_template_def by blast
  qed
  note guides = this
  show "t \<in> set resendable_templates \<Longrightarrow> \<not> guide_template t"
    unfolding guides by (auto simp: resendable_templates_def str_defs)
  show "\<not> guide_template HANDOFF_NOTICE" "\<not> guide_template HOLD_NOTICE"
    by (simp_all add: guides HANDOFF_NOTICE_def HOLD_NOTICE_def)
qed

lemma decide_ask: "decide t = Ask b s \<Longrightarrow> b = nq_buyer (t_next t) \<and> s = nq_seller (t_next t)"
  by (cases "t_phase t") (auto simp: decision_cases split: if_splits)

lemma decided_ask_templates:
  assumes "decided_on me ready ms phase jd ses next (Ask b s)"
  shows "set b \<union> set s \<subseteq> set resendable_templates"
proof -
  obtain f h holds where "next = next_questions f h"
    and d: "decide (turn_of me ready phase f ses ms next holds) = Ask b s"
    using assms by (auto simp: decided_on_def Let_def)
  moreover have "b = nq_buyer next \<and> s = nq_seller next"
    using decide_ask [OF d] by (simp add: turn_of_def Let_def)
  ultimately show ?thesis
    using policy_templates [of _ f h Buyer] policy_templates [of _ f h Seller] by auto
qed

lemma decided_sends:
  assumes "decided_on me ready ms phase jd ses next act" and "action_sends act m"
  shows "sm_template m \<in> set resendable_templates \<or> guide_template (sm_template m) \<or>
    sm_template m = HANDOFF_NOTICE \<or> sm_template m = HOLD_NOTICE"
proof (cases act)
  case (Ask b s)
  with assms decided_ask_templates show ?thesis by fastforce
next
  case (Guide path)
  with assms(2) have "sm_template m \<in> snd ` set (guides path)" by force
  then show ?thesis unfolding guide_template_def by blast
qed (use assms(2) in simp_all)

lemma turn_sends_templates:
  assumes "turn_sends out me sid w m"
  shows "sm_template m \<in> set resendable_templates \<or> guide_template (sm_template m) \<or>
    sm_template m = HANDOFF_NOTICE \<or> sm_template m = HOLD_NOTICE"
proof -
  have "guide_template (sm_template m)" if "(sm_party m, sm_template m) \<in> set (guides path)" for path
    using that unfolding guide_template_def by force
  with assms decided_sends show ?thesis unfolding turn_sends_def by blast
qed

lemma turn_templates_not_thanks:
  assumes "t \<in> set resendable_templates \<or> guide_template t \<or> t = HANDOFF_NOTICE \<or> t = HOLD_NOTICE"
  shows "t \<noteq> ''resolved_thanks''"
proof -
  have "''resolved_thanks'' \<notin> snd ` set (guides path)" for path by (cases path) auto
  then have "guide_template t \<Longrightarrow> t \<noteq> ''resolved_thanks''" unfolding guide_template_def by metis
  with assms show ?thesis by (auto simp: resendable_templates_def str_defs HANDOFF_NOTICE_def HOLD_NOTICE_def)
qed

text \<open>
  Property C10. A turn speaks only for its own session and only while it may. Whatever a turn does, and whatever
  other tasks do meanwhile, every message it gives to the relays belongs to the session it was run
  for and went out at a moment when Serbero still mediated that session, the handoff notice apart,
  which went out before the session ended; and sessions only moved forward.
\<close>

theorem turn_speaks_while_it_may:
  assumes "well_behaved out" and "run_turn out me sid now w = (r, w')"
  shows "(\<exists>ms. w_sent w' = w_sent w @ ms \<and> (\<forall>m \<in> set ms. sm_session_id m = sid \<and>
      (\<exists>st. sm_state m = Some st \<and> (mediating st \<or> sm_template m = HANDOFF_NOTICE \<and> st = HandedOff)))) \<and>
    db_grows (w_db w) (w_db w')"
proof -
  have "\<exists>st. sm_state m = Some st \<and> (mediating st \<or> sm_template m = HANDOFF_NOTICE \<and> st = HandedOff)"
    if sends: "turn_sends out me sid w m" for m
  proof -
    obtain st where "sm_state m = Some st" "mediating st \<or> sm_template m = HANDOFF_NOTICE \<and> \<not> is_terminal st"
      using sends turn_templates_not_thanks [OF turn_sends_templates [OF sends]] by (auto simp: turn_sends_def gated_def)
    then show ?thesis by (cases st) (auto simp: mediating_def)
  qed
  then show ?thesis
    using run_turn_step [OF assms] by (auto simp: world_step_def turn_sends_def)
qed

lemma guide_sent_facts:
  assumes "well_behaved out" and "run_turn out me sid now w = (r, w')"
    and "m \<in> set (drop (length (w_sent w)) (w_sent w'))" and "guide_template (sm_template m)"
  shows "(\<exists>ses path. get_session (db_sessions (w_db w)) sid = Some ses \<and> s_state ses = Guiding \<and>
      guided_path w ses = Some path \<and> (sm_party m, sm_template m) \<in> set (guides path)) \<or>
    (\<exists>ready n state qs jd path f. me_judge me = Some ready \<and> os_judge out n state qs = Inr jd \<and>
      f = from_answers (jd_answers jd) (rj_thresholds ready) (ms_languages (me_settings me)) \<and>
      (sm_party m, sm_template m) \<in> set (guides path) \<and>
      th_guide (rj_thresholds ready) \<le> (case path of
         PaymentArrived \<Rightarrow> fact_probability (jd_answers jd) ''seller_receipt'' ''says_received''
       | PaymentNotSent \<Rightarrow> fact_probability (jd_answers jd) ''buyer_payment'' ''says_not_sent'') \<and>
      \<not> any_party f wants_human \<and> \<not> fraud f \<and> \<not> outside_scope f \<and>
      (\<exists>ses. {session_language ses Buyer (ms_default_language (me_settings me)),
              session_language ses Seller (ms_default_language (me_settings me))}
             \<subseteq> set (validated_languages (rj_thresholds ready))))"
proof -
  have sends: "turn_sends out me sid w m"
    using run_turn_step [OF assms(1,2)] assms(3) by (auto simp: world_step_def)
  have "sm_template m \<noteq> HANDOFF_NOTICE" using assms(4) not_guide_templates(2) by metis
  then consider (owed) "\<exists>ses path. get_session (db_sessions (w_db w)) sid = Some ses \<and> s_state ses = Guiding \<and>
      guided_path w ses = Some path \<and> (sm_party m, sm_template m) \<in> set (guides path)"
    | (decided) ready n state qs jd ms phase ses "next" act where "me_judge me = Some ready" "os_judge out n state qs = Inr jd"
        "decided_on me ready ms phase jd ses next act" "action_sends act m"
    using sends unfolding turn_sends_def by blast
  then show ?thesis
  proof cases
    case owed
    then show ?thesis by (rule disjI1)
  next
    case decided
    let ?f = "from_answers (jd_answers jd) (rj_thresholds ready) (ms_languages (me_settings me))"
    have "\<exists>path. act = Guide path"
    proof (cases act)
      case (Ask b s)
      with decided(3,4) decided_ask_templates have "sm_template m \<in> set resendable_templates" by fastforce
      with not_guide_templates(1) assms(4) show ?thesis by blast
    qed (use decided(4) assms(4) not_guide_templates in auto)
    then obtain path where act: "act = Guide path" ..
    obtain h nxt where "decide (turn_of me ready phase ?f ses ms nxt h) = Guide path"
      using decided(3) act by (auto simp: decided_on_def Let_def)
    note d = decide_guide [OF this]
    have th: "th_guide (rj_thresholds ready) \<le> (case path of
         PaymentArrived \<Rightarrow> fact_probability (jd_answers jd) ''seller_receipt'' ''says_received''
       | PaymentNotSent \<Rightarrow> fact_probability (jd_answers jd) ''buyer_payment'' ''says_not_sent'')"
      using d by (cases path) (simp_all add: turn_of_def Let_def from_answers_fields)
    have own: "(sm_party m, sm_template m) \<in> set (guides path)" using decided(4) act by simp
    show ?thesis
      using decided(1,2) th own d
      by (intro disjI2 exI [of _ ready] exI [of _ n] exI [of _ state] exI [of _ qs] exI [of _ jd] exI [of _ path] exI [of _ ?f])
        (auto simp: turn_of_def Let_def both_validated_def validated_def)
  qed
qed


lemma phase_guiding: "phase_of st = Some Phase_Guiding \<longleftrightarrow> st = Guiding"
  by (cases st) simp_all

lemma decided_on_guiding: "decided_on me ready ms Phase_Guiding jd ses next act \<Longrightarrow> act \<noteq> Ask b s"
  by (auto simp: decided_on_def Let_def decision_cases turn_of_def split: if_splits)

text \<open>
  Property C14. A turn sends what it decided. When a turn reports that it asked, the parties were given exactly the
  policy's templates, the buyer's before the seller's and each list in its order, nothing else went out,
  and the one evaluation it recorded holds the action, the judge's answers and the last message read.
\<close>

theorem turn_asks_what_it_decided:
  assumes "well_behaved out" and "run_turn out me sid now w = (Inr (Decided (Ask b s)), w')"
  shows "\<exists>ms e jd n state qs. w_sent w' = w_sent w @ ms \<and>
    map (\<lambda>m. (sm_party m, sm_template m)) ms = map (Pair Buyer) b @ map (Pair Seller) s \<and>
    w_evals w' = w_evals w @ [e] \<and> el_session_id e = sid \<and> el_action e = Ask b s \<and>
    os_judge out n state qs = Inr jd \<and> el_answers e = jd_answers jd \<and>
    el_last_message_id e = newest_id (messages_for_session (db_messages (w_db w)) sid)"
  using assms(2)
proof (cases rule: run_turn_cases)
  case (judging ses ms ob ready phase s' state)
  note ids = load_session_ids [OF judging(1)]
  let ?w1 = "others out ((resent out me ses w)\<lparr>w_db := s'\<rparr>)"
  from judging(7) show ?thesis
  proof (cases rule: judge_turn_cases)
    case (judged jd lat)
    obtain ses1 "next" w1 w2 rd e where a: "decided_on me ready ms phase jd ses1 next (Ask b s)" "w_sent w1 = w_sent ?w1"
      "perform out me ses1 next rd now (Ask b s) w1 = (Inr (), w2)" "w' = w2"
      "w_evals w1 = w_evals ?w1 @ [e]" "el_session_id e = s_session_id ses" "el_action e = Ask b s"
      "el_answers e = jd_answers jd" "el_last_message_id e = newest_id ms"
      using act_on_answers_spec(2) [OF assms(1) judged(4) refl] by blast
    have "phase \<noteq> Phase_Guiding" using a(1) decided_on_guiding by blast
    then have "s_state ses \<noteq> Guiding" using judging(3) by auto
    then have same: "resent out me ses w = w" by (simp add: resent_def)
    have ask: "ask_parties out me ses1 next now [(Buyer, b), (Seller, s)] True w1 = (Inr (), w2)" using a(3) by simp
    obtain sm where "w_sent w2 = w_sent w1 @ sm"
      "map (\<lambda>m. (sm_party m, sm_template m)) sm = map (Pair Buyer) b @ map (Pair Seller) s" "w_evals w2 = w_evals w1"
      using ask_parties_step [OF assms(1) ask] by auto
    then show ?thesis using a same ids judged(1) by auto
  qed auto
qed auto

text \<open>
  A flood is counted once. After a check that recorded a strike, no message it had read counts again:
  checking the same messages, or any of them, records nothing and finds no flood, whatever was logged for
  the session in between.
\<close>

theorem flood_counted_once:
  assumes "flooded out me ses ms now w = Inr (flood, s)" and "db_events s \<noteq> db_events (w_db w)"
    and "db_grows s (w_db w2)" and "list_all (\<lambda>m. m_id m \<le> newest_id ms) ms2"
  shows "flooded out2 me2 ses ms2 later w2 = Inr (False, w_db w2)"
proof -
  obtain es where ev: "db_events s = db_events (w_db w) @ es" "\<forall>e \<in> set es. of_session ses e \<and> ev_kind e = FLOOD_STRIKE \<and>
        ev_dispute_id e = s_dispute_id ses \<and> as_i64 (jget (ev_payload e) ''last_message_id'') = Some (newest_id ms)"
    using flooded_spec [of out me ses ms now w] assms(1) by auto
  with assms(2) obtain e where e: "e \<in> set es" by (cases es) auto
  then have "e \<in> set (db_events (w_db w2))" using ev(1) assms(3) by (auto simp: db_grows_def)
  then have "e \<in> set (strikes_of w2 ses)"
    using ev(2) e by (auto simp: strikes_of_def dispute_events_def events_for_dispute_def)
  then have "newest_id ms \<in> set (List.map_filter (\<lambda>e. as_i64 (jget (ev_payload e) ''last_message_id'')) (strikes_of w2 ses))"
    using ev(2) e by (force simp: List.map_filter_def)
  then have "newest_id ms \<le> counted_up_to out2 w2 ses"
    unfolding counted_up_to_def Let_def by (intro max.coboundedI1) (metis max_or_ge id_apply)
  then have "filter (\<lambda>m. m_direction m = In \<and> m_party m = p \<and> counted_up_to out2 w2 ses < m_id m) ms2 = []" for p
    using assms(4) by (auto simp: filter_empty_conv list_all_iff)
  then show ?thesis by (simp add: flooded_def over_limit_def u32_try_from_def)
qed

lemma hand_off_ends:
  assumes "well_behaved out" and "sessions_ok (db_sessions (w_db w))"
    and "hand_off_session out me ses reason rd now w = (r, w')"
    and "get_session (db_sessions (w_db w)) (s_session_id ses) = Some cur"
  shows "\<exists>cur. get_session (db_sessions (w_db w')) (s_session_id ses) = Some cur \<and> \<not> mediating (s_state cur)"
proof (cases "mediating (s_state cur)")
  case False
  then have "hand_off_tx me ses reason now (w_db w) = Inr (None, w_db w)"
    using hand_off_tx_spec [OF assms(2), of ses me reason now] assms(4) by simp
  with False assms(3,4) show ?thesis by (simp add: hand_off_session_def)
next
  case True
  obtain pending s where tx: "hand_off_tx me ses reason now (w_db w) = Inr (Some pending, s)" "db_grows (w_db w) s"
    and st: "\<forall>cur. get_session (db_sessions s) (s_session_id ses) = Some cur \<longrightarrow> s_state cur = HandedOff"
    using hand_off_tx_spec [OF assms(2), of ses me reason now] True assms(4) by auto
  obtain r1 w1 where b: "brief_solvers out me ses (Subject_Handoff reason) rd now (w\<lparr>w_db := s\<rparr>) = (r1, w1)" by force
  obtain r2 w2 where d: "brief_delivered ses pending now w1 = (r2, w2)" by force
  have "w' \<in> {w1, w2, tell_handoff out me ses [Buyer, Seller] w1, tell_handoff out me ses [Buyer, Seller] w2}"
    using assms(3) by (auto simp: hand_off_session_def tx b d simp del: tell_handoff.simps split: sum.splits if_splits)
  moreover have "db_grows s (w_db w1)" using brief_solvers_spec(1) [OF assms(1) b] by simp
  moreover have "db_grows (w_db w1) (w_db w2)" using world_step_grows [OF brief_delivered_step [OF d]] .
  moreover have "db_grows (w_db x) (w_db (tell_handoff out me ses [Buyer, Seller] x))" for x
    using tell_handoff_spec [OF assms(1)] by blast
  ultimately have g: "db_grows s (w_db w')" by (auto intro: db_grows_trans)
  obtain c where "get_session (db_sessions s) (s_session_id ses) = Some c"
    using tx(2) assms(4) unfolding db_grows_def by blast
  with st have "get_session (db_sessions s) (s_session_id ses) = Some c" "\<not> mediating (s_state c)"
    by (auto simp: mediating_def)
  from not_mediating_stays [OF g this] show ?thesis by blast
qed


section \<open>Examples\<close>

text \<open>A gathering session in which both parties wrote, with a judge that gives these answers.\<close>

definition example_texts :: catalogs where
  "example_texts = [(''en'', \<lparr>cat_code = ''en'', cat_name = ''English'',
     cat_format = \<lparr>thousands_separator = '','', decimal_separator = ''.''\<rparr>,
     cat_words = \<lparr>fund_action = [], verdict = []\<rparr>,
     cat_templates = [(INTRO, ''I''), (''guide_arrived_seller'', ''S''), (''guide_arrived_buyer'', ''B''),
       (ASK_BUYER_SENT, ''Sent?''), (ASK_SELLER_RECEIVED, ''Received?'')]\<rparr>)]"

definition example_ready :: ready_judge where
  "example_ready = \<lparr>rj_id = ''j'', rj_thresholds = example_thresholds,
     rj_turn = \<lparr>q_version = ''qs-1'', q_questions = []\<rparr>\<rparr>"

definition example_judging :: "answers \<Rightarrow> outside" where
  "example_judging as = quiet_outside\<lparr>os_judge := \<lambda>_ _ _. Inr \<lparr>jd_answers = as, jd_input_tokens = None\<rparr>\<rparr>"

definition example_chatting :: mediator where
  "example_chatting = example_mediator\<lparr>me_catalogs := example_texts, me_solvers := [], me_judge := Some example_ready\<rparr>"

definition example_messages :: "message list" where
  "example_messages = [message_row 1 (example_in Buyer ''e1''), message_row 2 (example_in Seller ''e2'')]"

definition example_heard :: world where
  "example_heard = (example_active Active)\<lparr>w_db := (w_db (example_active Active))
     \<lparr>db_disputes := [new_dispute_row \<lparr>nd_dispute_id = ''d1'', nd_initiator = InitBuyer, nd_status = ''initiated'',
        nd_status_at = 0, nd_now = 0\<rparr>], db_messages := example_messages\<rparr>\<rparr>"

abbreviation example_turned :: session where "example_turned \<equiv> example_open\<lparr>s_state := Active\<rparr>"

definition example_state :: json where
  "example_state = st_value (build_state (\<lambda>_. False) example_turned InitBuyer example_messages 4000)"

lemma example_judging_well_behaved: "well_behaved (example_judging as)"
  by (simp add: example_judging_def well_behaved_def quiet_outside_def db_grows_refl)

lemma example_load: "load_session example_heard ''s1'' = Some (example_turned, example_messages, InitBuyer)"
  by code_simp

lemma example_wrote: "parties_who_wrote example_state = [Buyer, Seller]"
  by code_simp

lemma example_not_flooded:
  "flooded (example_judging as) example_chatting example_turned example_messages 50 example_heard = Inr (False, w_db example_heard)"
  by code_simp

lemma example_run_turn:
  "run_turn (example_judging as) example_chatting ''s1'' 50 example_heard =
     act_on_answers (example_judging as) example_chatting example_ready example_turned example_messages Phase_Gathering
       example_state \<lparr>jd_answers = as, jd_input_tokens = None\<rparr> 0 50 (others (example_judging as) example_heard)"
proof -
  have "\<not> newer_than (others (example_judging as) example_heard) example_turned example_messages"
    "\<not> moved_on (others (example_judging as) example_heard) example_turned" by code_simp+
  moreover have "example_heard\<lparr>w_db := w_db example_heard\<rparr> = example_heard" by simp
  ultimately show ?thesis
    using example_wrote example_not_flooded [of as]
    by (simp add: run_turn_def example_load judge_or_flood_def example_chatting_def example_mediator_def example_state_def
        judge_turn_def Let_def example_judging_def quiet_outside_def u32_try_from_def)
qed

text \<open>What the turn does with an answer, in steps the kernel evaluates quickly.\<close>

definition example_judged :: "answers \<Rightarrow> judged" where
  "example_judged as = \<lparr>jd_answers = as, jd_input_tokens = None\<rparr>"

definition example_turn_of :: "answers \<Rightarrow> turn" where
  "example_turn_of as = (let f = from_answers as example_thresholds [''en'']
     in turn_of example_chatting example_ready Phase_Gathering f example_turned example_messages
          (next_questions f (turn_history example_messages [])) False)"

definition example_recorded :: "answers \<Rightarrow> action \<Rightarrow> world" where
  "example_recorded as act = snd (record_evaluation example_ready example_turned example_messages (example_judged as) act 0 50
     (others (example_judging as) example_heard))"

lemma example_acts:
  assumes "\<And>s. update_languages example_chatting example_turned (from_answers as example_thresholds [''en'']) 50 [Buyer, Seller] ([], s) = ([], s)"
    and "decide (example_turn_of as) = act"
  shows "act_on_answers (example_judging as) example_chatting example_ready example_turned example_messages Phase_Gathering
       example_state (example_judged as) 0 50 (others (example_judging as) example_heard) =
     (case perform (example_judging as) example_chatting example_turned
        (next_questions (from_answers as example_thresholds [''en'']) (turn_history example_messages []))
        \<lparr>tr_state = example_state, tr_answers = as, tr_facts = from_answers as example_thresholds [''en''], tr_last_message_id = 2\<rparr> 50 act
        (example_recorded as act) of (Inl e, w) \<Rightarrow> (Inl e, w) | (Inr _, w) \<Rightarrow> (Inr (Decided act), w))"
proof -
  let ?w = "others (example_judging as) example_heard"
  have r: "reload ?w (s_session_id example_turned) = Inr example_turned"
    and h: "is_held ?w example_turned example_messages = False" by code_simp+
  have n: "newest_id example_messages = 2" by code_simp
  have l: "ms_languages (me_settings example_chatting) = [''en'']" "rj_thresholds example_ready = example_thresholds"
    by (simp_all add: example_chatting_def example_mediator_def example_ready_def)
  have e: "record_evaluation example_ready example_turned example_messages (example_judged as) act 0 50 ?w = (Inr (), example_recorded as act)"
    by (simp add: example_recorded_def record_evaluation_def insert_evaluation_def Let_def example_heard_def example_active_def session_ids_def others_def example_judging_def quiet_outside_def)
  have d: "decide (turn_of example_chatting example_ready Phase_Gathering (from_answers as example_thresholds [''en'']) example_turned
      example_messages (next_questions (from_answers as example_thresholds [''en'']) (turn_history example_messages [])) False) = act"
    using assms(2) by (simp add: example_turn_of_def Let_def)
  have w: "?w\<lparr>w_db := w_db ?w\<rparr> = ?w" by simp
  have j: "jd_answers (example_judged as) = as" by (simp add: example_judged_def)
  show ?thesis
    unfolding act_on_answers_def Let_def j l assms(1) prod.case w r sum.case n h d e by (rule refl)
qed


lemma example_asks:
  "decide (example_turn_of []) = Ask [ASK_BUYER_SENT] [ASK_SELLER_RECEIVED]"
  "update_languages example_chatting example_turned (from_answers [] example_thresholds [''en'']) 50 [Buyer, Seller] ([], s) = ([], s)"
  by code_simp (simp add: from_answers_def party_facts_of_def Let_def)

lemma example_asked:
  "fst (perform (example_judging []) example_chatting example_turned
        (next_questions (from_answers [] example_thresholds [''en'']) (turn_history example_messages []))
        \<lparr>tr_state = example_state, tr_answers = [], tr_facts = from_answers [] example_thresholds [''en''], tr_last_message_id = 2\<rparr> 50
       (Ask [ASK_BUYER_SENT] [ASK_SELLER_RECEIVED])
        (example_recorded [] (Ask [ASK_BUYER_SENT] [ASK_SELLER_RECEIVED]))) = Inr ()"
   by (simp only: perform.simps) code_simp

lemma example_guides:
  "decide (example_turn_of example_answers) = Guide PaymentArrived"
  "update_languages example_chatting example_turned (from_answers example_answers example_thresholds [''en'']) 50 [Buyer, Seller] ([], s) = ([], s)"
  by code_simp (simp add: from_answers_def party_facts_of_def Let_def example_answers_def)

definition example_reads :: turn_reading where
  "example_reads = \<lparr>tr_state = example_state, tr_answers = example_answers,
     tr_facts = from_answers example_answers example_thresholds [''en''], tr_last_message_id = 2\<rparr>"

text \<open>The world once the path is claimed and the judge was asked for the brief.\<close>

definition example_claimed :: "(int option \<times> db) result" where
  "example_claimed = guide_tx example_chatting example_turned PaymentArrived 50
     (w_db (example_recorded example_answers (Guide PaymentArrived)))"

definition example_briefed :: world where
  "example_briefed = snd (ask_brief (example_judging example_answers) example_ready example_turned example_reads (Subject_Guide PaymentArrived) 50
       ((example_recorded example_answers (Guide PaymentArrived))\<lparr>w_db := (case example_claimed of Inr (_, s) \<Rightarrow> s | _ \<Rightarrow> empty_db)\<rparr>))"

lemma example_guided:
  "guide_session (example_judging example_answers) example_chatting example_turned PaymentArrived example_reads 50
     (example_recorded example_answers (Guide PaymentArrived)) =
   (Inr (), snd (send_guides (example_judging example_answers) example_chatting example_turned PaymentArrived example_briefed))"
  (is "guide_session ?out ?me ?ses _ _ _ ?w = _")
proof -
  obtain s where tx: "example_claimed = Inr (Some 2, s)"
  proof -
    have "(case example_claimed of Inr (p, s) \<Rightarrow> p | Inl e \<Rightarrow> None) = Some 2" by code_simp
    then show thesis by (auto split: sum.splits prod.splits intro: that)
  qed
  have ms: "session_messages (?w\<lparr>w_db := s\<rparr>) ?ses = example_messages"
  proof -
    have "(case example_claimed of Inr (p, s) \<Rightarrow> session_messages (?w\<lparr>w_db := s\<rparr>) ?ses | Inl e \<Rightarrow> []) = example_messages" by code_simp
    then show ?thesis by (simp only: tx sum.case prod.case)
  qed
  have "\<exists>parts. transcript (os_nip19 ?out) (s_dispute_id ?ses) (message_lines example_messages) = Some parts"
    by (rule exI, code_simp) 
  then obtain parts where tr: "transcript (os_nip19 ?out) (s_dispute_id ?ses) (message_lines example_messages) = Some parts" ..
  have me: "me_judge ?me = Some example_ready" "me_solvers ?me = []" by (simp_all add: example_chatting_def)
  have no: "recipients [] x = []" for x by (cases x) (simp_all add: recipients_def)
  obtain br where b: "ask_brief ?out example_ready ?ses example_reads (Subject_Guide PaymentArrived) 50 (?w\<lparr>w_db := s\<rparr>) = (br, example_briefed)"
    by (cases "ask_brief ?out example_ready ?ses example_reads (Subject_Guide PaymentArrived) 50 (?w\<lparr>w_db := s\<rparr>)") (simp add: example_briefed_def tx)
  show ?thesis
    by (simp only: guide_session_def tx [unfolded example_claimed_def] sum.case prod.case option.case brief_solvers_def Let_def
        me b no ms tr deliver_def if_True simp_thms) simp
qed

lemma example_sends_guides:
  "map sm_template (w_sent (snd (send_guides (example_judging example_answers) example_chatting example_turned PaymentArrived example_briefed))) =
     [''guide_arrived_seller'', ''guide_arrived_buyer'']"
  by code_simp

lemma turn_speaks_while_it_may_witness:
  "\<exists>ms. w_sent (snd (run_turn (example_judging []) example_chatting ''s1'' 50 example_heard)) = w_sent example_heard @ ms \<and>
     list_all (\<lambda>m. sm_session_id m = ''s1'' \<and>
       (case sm_state m of None \<Rightarrow> False | Some st \<Rightarrow> mediating st \<or> sm_template m = HANDOFF_NOTICE \<and> st = HandedOff)) ms"
  using turn_speaks_while_it_may [where me = example_chatting and sid = "''s1''" and now = 50 and w = example_heard,
      OF example_judging_well_behaved surjective_pairing, of "[]"]
  by (fastforce simp: list_all_iff)

lemma example_turn_guides:
  "map sm_template (w_sent (snd (run_turn (example_judging example_answers) example_chatting ''s1'' 50 example_heard))) =
     [''guide_arrived_seller'', ''guide_arrived_buyer'']"
proof -
  have "w_sent (snd (run_turn (example_judging example_answers) example_chatting ''s1'' 50 example_heard)) =
     w_sent (snd (send_guides (example_judging example_answers) example_chatting example_turned PaymentArrived example_briefed))"
    unfolding example_run_turn example_acts [OF example_guides(2,1), unfolded example_judged_def]
    by (simp only: perform.simps example_reads_def [symmetric] example_guided prod.case sum.case snd_conv)
  then show ?thesis by (simp only: example_sends_guides)
qed


lemma turn_asks_what_it_decided_witness:
  "\<exists>ms. w_sent (snd (run_turn (example_judging []) example_chatting ''s1'' 50 example_heard)) = w_sent example_heard @ ms \<and>
     map (\<lambda>m. (sm_party m, sm_template m)) ms = [(Buyer, ASK_BUYER_SENT), (Seller, ASK_SELLER_RECEIVED)]"
proof -
  let ?r = "run_turn (example_judging []) example_chatting ''s1'' 50 example_heard"
  have "fst ?r = Inr (Decided (Ask [ASK_BUYER_SENT] [ASK_SELLER_RECEIVED]))"
    unfolding example_run_turn example_acts [OF example_asks(2,1), unfolded example_judged_def]
    using example_asked by (auto split: prod.splits sum.splits simp del: perform.simps)
  then have "?r = (Inr (Decided (Ask [ASK_BUYER_SENT] [ASK_SELLER_RECEIVED])), snd ?r)" by (metis prod.collapse)
  from turn_asks_what_it_decided [OF example_judging_well_behaved this] show ?thesis by auto
qed

text \<open>Three messages of the buyer's in a turn that may hold two.\<close>

lemma flood_counted_once_witness:
  "\<exists>s. flooded quiet_outside (example_mediator\<lparr>me_settings := (me_settings example_mediator)\<lparr>ms_max_messages_per_turn := 1\<rparr>\<rparr>)
     example_turned (example_messages @ [message_row 3 (example_in Buyer ''e3'')]) 60 (example_heard\<lparr>w_db := s\<rparr>) = Inr (False, s) \<and>
     map ev_kind (db_events s) = [FLOOD_STRIKE]"
proof -
  let ?me = "example_mediator\<lparr>me_settings := (me_settings example_mediator)\<lparr>ms_max_messages_per_turn := 1\<rparr>\<rparr>"
  let ?ms = "example_messages @ [message_row 3 (example_in Buyer ''e3'')]"
  obtain fl s where f: "flooded quiet_outside ?me example_turned ?ms 50 example_heard = Inr (fl, s)"
    using flooded_spec by blast
  have "(case flooded quiet_outside ?me example_turned ?ms 50 example_heard of Inl _ \<Rightarrow> [] | Inr (_, s) \<Rightarrow> map ev_kind (db_events s)) = [FLOOD_STRIKE]"
    by code_simp
  with f have strike: "map ev_kind (db_events s) = [FLOOD_STRIKE]" by simp
  have "db_events (w_db example_heard) = []"
    by (simp add: example_heard_def example_active_def example_mediated_def empty_db_def)
  with strike have "db_events s \<noteq> db_events (w_db example_heard)" by auto
  moreover have "list_all (\<lambda>m. m_id m \<le> newest_id ?ms) ?ms" by code_simp
  ultimately show ?thesis
    using flood_counted_once [OF f, of "example_heard\<lparr>w_db := s\<rparr>" ?ms quiet_outside ?me 60] strike
    by (auto simp: db_grows_refl)
qed

lemma hand_off_unbriefed:
  assumes "me_solvers me = []" and "hand_off_tx me ses reason now (w_db w) = Inr (Some pending, s)"
    and "transcript (os_nip19 out) (s_dispute_id ses) (message_lines (session_messages (w\<lparr>w_db := s\<rparr>) ses)) = Some parts"
  shows "fst (hand_off_session out me ses reason None now w) = Inr True"
proof -
  have "recipients [] x = []" for x by (cases x) (simp_all add: recipients_def)
  then show ?thesis
    by (simp add: hand_off_session_def assms brief_solvers_def deliver_def Let_def del: tell_handoff.simps)
qed


end
