(* ===== verification/Mostro_Node.thy ===== *)
theory Mostro_Node
  imports Judge_State
begin

text \<open>
  What Serbero asks the Mostro node: its instance-info event (\<open>src/src/mostro/node.rs\<close>), the order
  behind a dispute (\<open>src/src/mostro/order.rs\<close>), taking a dispute (\<open>src/src/mostro/take.rs\<close>), and
  choosing among the copies of an event that relays return (\<open>src/src/nostr/first_answer.rs\<close>). The
  relays are parameters: the answers that arrive in time, in their order.
\<close>

section \<open>Errors as text\<close>

definition sqlite_text :: "sqlite_error \<Rightarrow> string" where
  "sqlite_text e = (case e of ConstraintViolation s \<Rightarrow> s | OtherSqlite s \<Rightarrow> s)"

fun error_text :: "error \<Rightarrow> string" where
  "error_text (Config s) = ''invalid configuration: '' @ s"
| "error_text (Catalog s) = ''message catalog error: '' @ s"
| "error_text (Store e) = ''database error: '' @ sqlite_text e"
| "error_text (Schema s) = ''database schema error: '' @ s"
| "error_text (Nostr s) = ''nostr error: '' @ s"
| "error_text (InvalidEvent s) = ''invalid event: '' @ s"
| "error_text (SessionEnded s) = ''session '' @ s @ '' has ended; nothing more is sent''"
| "error_text (Logging s) = ''logging setup failed: '' @ s"

section \<open>The newest copy\<close>

text \<open>NIP-01's order of two copies, of which \<open>a\<close> replaces \<open>b\<close>: later, then the lower id.\<close>

record copy =
  cp_id :: string
  cp_event :: nostr_event

definition rank_less :: "copy \<Rightarrow> copy \<Rightarrow> bool" where
  "rank_less b a \<longleftrightarrow> no_created_at (cp_event b) < no_created_at (cp_event a) \<or>
     no_created_at (cp_event b) = no_created_at (cp_event a) \<and> cp_id a < cp_id b"

text \<open>The first answer and those that arrive within the grace that follows it.\<close>

fun newest_answer :: "('a \<Rightarrow> 'a \<Rightarrow> bool) \<Rightarrow> 'a list \<Rightarrow> 'a option" where
  "newest_answer worse [] = None"
| "newest_answer worse (first # rest) =
     Some (fold (\<lambda>answer found. if worse found answer then answer else found) rest first)"

definition newest_event :: "string + copy list \<Rightarrow> copy option result" where
  "newest_event stream =
     (case stream of
        Inl e \<Rightarrow> Inl (Nostr (''cannot request event: '' @ e))
      | Inr answers \<Rightarrow> Inr (newest_answer rank_less answers))"

section \<open>The node\<close>

record node_info =
  ni_protocol_version :: "string option"
  ni_pow :: nat
  ni_pow_first_contact :: "nat option"

definition speaks_v2 :: "node_info \<Rightarrow> bool" where
  "speaks_v2 n \<longleftrightarrow> ni_protocol_version n = Some ''2''"

definition pow_for_serbero :: "node_info \<Rightarrow> nat" where
  "pow_for_serbero n = max (case ni_pow_first_contact n of None \<Rightarrow> 0 | Some p \<Rightarrow> p) (ni_pow n)"

text \<open>\<open>str::parse::<u8>\<close>.\<close>

definition parse_u8 :: "string \<Rightarrow> nat option" where
  "parse_u8 s = (case parse_usize s of None \<Rightarrow> None | Some n \<Rightarrow> if n \<le> 255 then Some n else None)"

definition difficulty :: "string list list \<Rightarrow> string \<Rightarrow> nat option result" where
  "difficulty tags name =
     (case tag_value tags name of
        None \<Rightarrow> Inr None
      | Some v \<Rightarrow> (case parse_u8 v of
          None \<Rightarrow> Inl (InvalidEvent (name @ '' tag '' @ debug_str v @ '' is not a difficulty''))
        | Some n \<Rightarrow> Inr (Some n)))"

definition node_from_event :: "nostr_event \<Rightarrow> node_info result" where
  "node_from_event e =
     result_bind (difficulty (no_tags e) ''pow'') (\<lambda>pow.
     result_bind (difficulty (no_tags e) ''pow_first_contact'') (\<lambda>first.
       Inr \<lparr>ni_protocol_version = tag_value (no_tags e) ''protocol_version'', ni_pow = unwrap_or pow 0,
            ni_pow_first_contact = first\<rparr>))"

definition fetch_node :: "string + copy list \<Rightarrow> node_info option result" where
  "fetch_node stream =
     result_bind (newest_event stream) (\<lambda>found.
       case found of None \<Rightarrow> Inr None
       | Some c \<Rightarrow> result_bind (node_from_event (cp_event c)) (\<lambda>n. Inr (Some n)))"

section \<open>The order\<close>

record order_facts =
  od_fiat_code :: "string option"
  od_published_at :: "int option"

definition no_order_facts :: order_facts where
  "no_order_facts = \<lparr>od_fiat_code = None, od_published_at = None\<rparr>"

definition order_from_event :: "nostr_event \<Rightarrow> order_facts" where
  "order_from_event e =
     (case (case tag_value (no_tags e) ''f'' of None \<Rightarrow> None | Some f \<Rightarrow> if f = [] then None else Some f,
            case tag_value (no_tags e) ''published_at'' of None \<Rightarrow> None | Some v \<Rightarrow> parse_i64 v) of
        (Some f, Some p) \<Rightarrow> \<lparr>od_fiat_code = Some f, od_published_at = Some p\<rparr>
      | _ \<Rightarrow> no_order_facts)"

definition fetch_order :: "string + copy list \<Rightarrow> order_facts" where
  "fetch_order stream =
     (case newest_event stream of Inr (Some c) \<Rightarrow> order_from_event (cp_event c) | _ \<Rightarrow> no_order_facts)"

section \<open>The take\<close>

record solver_dispute_info =
  di_id :: string
  di_buyer_pubkey :: "string option"
  di_seller_pubkey :: "string option"
  di_fiat_amount :: int
  di_payment_method :: string

datatype take_error = Take_Timeout | Refused string | MissingInfo | Transport string

text \<open>The message type of \<open>mostro_core\<close>, as far as \<open>interpret\<close> looks at it.\<close>

datatype node_action = AdminTookDispute | CantDo | Other_Action string

datatype node_payload = Dispute_Payload "solver_dispute_info option" | Other_Payload string | No_Payload

record node_message =
  nm_cant_do :: bool
  nm_request_id :: "nat option"
  nm_action :: node_action
  nm_payload :: node_payload

text \<open>\<open>shown\<close> is the library's \<open>Debug\<close> of the payload.\<close>

definition interpret_reply ::
    "(node_payload \<Rightarrow> string) \<Rightarrow> node_message \<Rightarrow> nat \<Rightarrow> (take_error + solver_dispute_info) option" where
  "interpret_reply shown m request_id =
     (if nm_request_id m \<noteq> Some request_id then None
      else if nm_cant_do m \<or> nm_action m = CantDo then Some (Inl (Refused (shown (nm_payload m))))
      else case nm_action m of
          AdminTookDispute \<Rightarrow>
            (case nm_payload m of
               Dispute_Payload (Some info) \<Rightarrow> Some (Inr info)
             | _ \<Rightarrow> Some (Inl MissingInfo))
        | _ \<Rightarrow> None)"

text \<open>
  What the relays bring while the take waits: an event that is not a readable message of the node is
  \<open>None\<close>. \<open>nr_ended\<close> says that the stream ended before the timeout.
\<close>

record node_replies =
  nr_messages :: "node_message option list"
  nr_ended :: bool

record take_transport =
  tt_subscribed :: "string option"
  tt_request :: "error option"
  tt_sent :: "string + nat"
  tt_request_id :: nat
  tt_replies :: node_replies

fun first_reply ::
    "(node_payload \<Rightarrow> string) \<Rightarrow> nat \<Rightarrow> node_message option list \<Rightarrow> (take_error + solver_dispute_info) option" where
  "first_reply shown request_id [] = None"
| "first_reply shown request_id (m # ms) =
     (case m of
        None \<Rightarrow> first_reply shown request_id ms
      | Some msg \<Rightarrow>
          (case interpret_reply shown msg request_id of
             None \<Rightarrow> first_reply shown request_id ms | Some result \<Rightarrow> Some result))"

definition take_dispute ::
    "(node_payload \<Rightarrow> string) \<Rightarrow> take_transport \<Rightarrow> take_error + solver_dispute_info" where
  "take_dispute shown t =
     (case tt_subscribed t of
        Some e \<Rightarrow> Inl (Transport (''cannot subscribe to node replies: '' @ e))
      | None \<Rightarrow>
          (case tt_request t of
             Some e \<Rightarrow> Inl (Transport (error_text e))
           | None \<Rightarrow>
               (case tt_sent t of
                  Inl e \<Rightarrow> Inl (Transport (''cannot send admin-take-dispute: '' @ e))
                | Inr accepted \<Rightarrow>
                    (if accepted = 0 then Inl (Transport ''no relay accepted admin-take-dispute'')
                     else case first_reply shown (tt_request_id t) (nr_messages (tt_replies t)) of
                         Some result \<Rightarrow> result
                       | None \<Rightarrow>
                           (if nr_ended (tt_replies t) then Inl (Transport ''notification stream ended'')
                            else Inl Take_Timeout)))))"

section \<open>Properties\<close>

lemma rank_less_trans: "rank_less a b \<Longrightarrow> rank_less b c \<Longrightarrow> rank_less a c"
  by (auto simp: rank_less_def intro: less_trans)

lemma rank_less_between: "rank_less a c \<Longrightarrow> rank_less a b \<or> rank_less b c"
  by (auto simp: rank_less_def dest: less_trans)

lemma newest_fold:
  "fold (\<lambda>answer found. if rank_less found answer then answer else found) rest x \<in> insert x (set rest) \<and>
   (\<forall>y \<in> insert x (set rest).
      \<not> rank_less (fold (\<lambda>answer found. if rank_less found answer then answer else found) rest x) y)"
proof (induction rest arbitrary: x)
  case Nil
  show ?case by (simp add: rank_less_def)
next
  case (Cons a rest)
  show ?case
  proof (cases "rank_less x a")
    case True
    then show ?thesis using Cons.IH [of a] rank_less_trans [of _ x a] by (simp only: fold.simps comp_def if_True list.set) blast
  next
    case False
    then show ?thesis using Cons.IH [of x] rank_less_between [of _ a x] by (simp only: fold.simps comp_def if_False list.set) blast
  qed
qed

text \<open>
  The newest copy decides. Whatever order the relays answer in, the event \<open>newest_event\<close> returns is one
  of the answers and no other answer replaces it: none is later, and none of the same time has a lower
  id; and it returns one as soon as any relay answered.
\<close>

theorem newest_copy_wins:
  assumes "newest_event (Inr answers) = Inr found"
  shows "case found of
      None \<Rightarrow> answers = []
    | Some c \<Rightarrow> c \<in> set answers \<and> (\<forall>y \<in> set answers. no_created_at (cp_event y) \<le> no_created_at (cp_event c) \<and>
        (no_created_at (cp_event y) = no_created_at (cp_event c) \<longrightarrow> cp_id c \<le> cp_id y))"
proof (cases answers)
  case (Cons x rest)
  with newest_fold [of rest x] assms show ?thesis
    by (fastforce simp: newest_event_def rank_less_def not_less)
qed (use assms in \<open>simp add: newest_event_def\<close>)

lemma first_reply_Some:
  "first_reply shown i ms = Some r \<Longrightarrow> \<exists>m. Some m \<in> set ms \<and> interpret_reply shown m i = Some r"
  by (induction ms) (auto split: option.splits)

text \<open>
  A take succeeds only on the node's word about this request. If \<open>take_dispute\<close> returns the dispute's
  information, a message of the node that arrived in time answers this very request, says
  \<open>admin-took-dispute\<close> and not \<open>cant-do\<close>, and carries exactly that information; the request was given to
  at least one relay, after the subscription to its answers.
\<close>

theorem take_needs_the_nodes_word:
  assumes "take_dispute shown t = Inr info"
  shows "(\<exists>m. Some m \<in> set (nr_messages (tt_replies t)) \<and> nm_request_id m = Some (tt_request_id t) \<and>
      \<not> nm_cant_do m \<and> nm_action m = AdminTookDispute \<and> nm_payload m = Dispute_Payload (Some info)) \<and>
    tt_subscribed t = None \<and> (\<exists>n. tt_sent t = Inr n \<and> 0 < n)"
proof -
  have sent: "tt_subscribed t = None" "\<exists>n. tt_sent t = Inr n \<and> 0 < n"
    and "first_reply shown (tt_request_id t) (nr_messages (tt_replies t)) = Some (Inr info)"
    using assms by (auto simp: take_dispute_def split: option.splits sum.splits if_splits)
  then obtain m where "Some m \<in> set (nr_messages (tt_replies t))" "interpret_reply shown m (tt_request_id t) = Some (Inr info)"
    using first_reply_Some by blast
  with sent show ?thesis
    by (auto simp: interpret_reply_def split: if_splits node_action.splits node_payload.splits option.splits)
qed

definition example_info :: solver_dispute_info where
  "example_info = \<lparr>di_id = ''o1'', di_buyer_pubkey = Some ''b'', di_seller_pubkey = Some ''s'', di_fiat_amount = 50000,
     di_payment_method = ''bank''\<rparr>"

text \<open>The node's answer to another request arrives first.\<close>

definition example_take :: take_transport where
  "example_take = \<lparr>tt_subscribed = None, tt_request = None, tt_sent = Inr 2, tt_request_id = 7,
     tt_replies = \<lparr>nr_messages = [None,
        Some \<lparr>nm_cant_do = True, nm_request_id = Some 6, nm_action = CantDo, nm_payload = No_Payload\<rparr>,
        Some \<lparr>nm_cant_do = False, nm_request_id = Some 7, nm_action = AdminTookDispute,
          nm_payload = Dispute_Payload (Some example_info)\<rparr>], nr_ended = False\<rparr>\<rparr>"

lemma take_needs_the_nodes_word_witness:
  "\<exists>m. Some m \<in> set (nr_messages (tt_replies example_take)) \<and> nm_payload m = Dispute_Payload (Some example_info)"
proof -
  have "take_dispute (\<lambda>_. ''p'') example_take = Inr example_info"
    by (simp add: take_dispute_def example_take_def interpret_reply_def)
  from take_needs_the_nodes_word [OF this] show ?thesis by blast
qed

definition example_copy :: "string \<Rightarrow> nat \<Rightarrow> copy" where
  "example_copy i t = \<lparr>cp_id = i, cp_event = \<lparr>no_kind = 38385, no_pubkey = ''node'', no_tags = [], no_created_at = t\<rparr>\<rparr>"

lemma newest_copy_wins_witness:
  "newest_event (Inr [example_copy ''a'' 5, example_copy ''c'' 9, example_copy ''b'' 9]) = Inr (Some (example_copy ''b'' 9)) \<and>
   cp_id (example_copy ''b'' 9) \<le> cp_id (example_copy ''c'' 9)"
proof -
  have e: "newest_event (Inr [example_copy ''a'' 5, example_copy ''c'' 9, example_copy ''b'' 9]) = Inr (Some (example_copy ''b'' 9))"
    by (simp add: newest_event_def rank_less_def example_copy_def less_char_def)
  from newest_copy_wins [OF this] e show ?thesis by (simp add: example_copy_def)
qed

end
