(* ===== verification/Channels.thy ===== *)
theory Channels
  imports Chat
begin

text \<open>
  Long-lived subscriptions and chat channels: the registry and the relay watcher of
  \<open>src/src/daemon/relays.rs\<close>, and \<open>Chats\<close> of \<open>src/src/chat/channels.rs\<close> with the inbox of \<open>Chat\<close>.
  The registry, a \<open>HashMap\<close>, is an association list with one entry per id. Parameters: \<open>author_of\<close>, the
  channel key derived for a trade key; the relays' answer to a subscription, the status of each relay
  at a check of the watcher, and \<open>unwrap\<close> and \<open>json_of\<close> as in \<open>Chat\<close>.
\<close>

section \<open>Subscriptions\<close>

datatype event_kind = PrivateDirectMessage | Custom_Kind nat

record sub_filter =
  fl_kind :: event_kind
  fl_authors :: "string list"
  fl_recipient :: "string option"
  fl_z :: "string option"
  fl_since :: "int option"

type_synonym registry = "(string \<times> sub_filter) list"

definition SUBSCRIPTION_ID :: string where "SUBSCRIPTION_ID = ''serbero-disputes''"

definition dispute_filter :: "nat \<Rightarrow> string \<Rightarrow> sub_filter" where
  "dispute_filter dispute_kind mostro_key =
     \<lparr>fl_kind = Custom_Kind dispute_kind, fl_authors = [mostro_key], fl_recipient = None, fl_z = Some ''dispute'', fl_since = None\<rparr>"

definition register :: "registry \<Rightarrow> string \<Rightarrow> sub_filter \<Rightarrow> registry" where
  "register r i f = (i, f) # filter (\<lambda>x. fst x \<noteq> i) r"

definition unregister :: "registry \<Rightarrow> string \<Rightarrow> registry" where
  "unregister r i = filter (\<lambda>x. fst x \<noteq> i) r"

text \<open>What the watcher does: a subscription sent again to a relay, or a backlog resync asked for.\<close>

datatype watch_effect = Resubscribe string string sub_filter | Resync

definition resubscribe_all :: "string \<Rightarrow> registry \<Rightarrow> watch_effect list" where
  "resubscribe_all url r = map (\<lambda>(i, f). Resubscribe url i f) r"

text \<open>One check of the relays, each with whether it is connected now.\<close>

fun watch_check ::
    "registry \<Rightarrow> (string \<times> bool) list \<Rightarrow> (string \<rightharpoonup> bool) \<Rightarrow> watch_effect list \<times> (string \<rightharpoonup> bool)" where
  "watch_check r [] before = ([], before)"
| "watch_check r ((url, now_connected) # rs) before =
     (let was_connected = (case before url of None \<Rightarrow> False | Some b \<Rightarrow> b);
          (effects, after) = watch_check r rs (before(url \<mapsto> now_connected))
      in ((if now_connected \<and> \<not> was_connected then resubscribe_all url r @ [Resync] else []) @ effects, after))"

text \<open>The loop of \<open>watch\<close>, for the checks made so far: the registry and the relays as each finds them.\<close>

fun watch_run ::
    "(registry \<times> (string \<times> bool) list) list \<Rightarrow> (string \<rightharpoonup> bool) \<Rightarrow> watch_effect list list \<times> (string \<rightharpoonup> bool)" where
  "watch_run [] before = ([], before)"
| "watch_run ((r, rs) # checks) before =
     (let (effects, after) = watch_check r rs before; (later, end_status) = watch_run checks after
      in (effects # later, end_status))"

section \<open>Chat channels\<close>

record chats =
  ct_inbox :: inbox
  ct_registry :: registry

definition subscription_id :: "string \<Rightarrow> string" where
  "subscription_id sid = ''serbero-chat-'' @ sid"

definition chat_filter :: "string list \<times> int \<Rightarrow> sub_filter" where
  "chat_filter as = \<lparr>fl_kind = PrivateDirectMessage, fl_authors = fst as, fl_recipient = None, fl_z = None, fl_since = Some (snd as)\<rparr>"

text \<open>\<open>subscribed\<close> is the relays' error, if the subscription fails.\<close>

definition open_chats ::
    "(string \<Rightarrow> string result) \<Rightarrow> string option \<Rightarrow> chats \<Rightarrow> session \<Rightarrow> rat \<Rightarrow> unit result \<times> chats" where
  "open_chats author_of subscribed c ses now =
     (case add_session author_of (ct_inbox c) ses now of
        (Inl e, ib) \<Rightarrow> (Inl e, c\<lparr>ct_inbox := ib\<rparr>)
      | (Inr as, ib) \<Rightarrow>
          (let c' = c\<lparr>ct_inbox := ib, ct_registry := register (ct_registry c) (subscription_id (s_session_id ses)) (chat_filter as)\<rparr>
           in case subscribed of
                Some e \<Rightarrow> (Inl (Nostr (''cannot subscribe to session chat: '' @ e)), c')
              | None \<Rightarrow> (Inr (), c')))"

definition is_open :: "chats \<Rightarrow> string \<Rightarrow> bool" where
  "is_open c sid = has_session (ct_inbox c) sid"

definition close_chats :: "string option \<Rightarrow> chats \<Rightarrow> string \<Rightarrow> unit result \<times> chats" where
  "close_chats unsubscribed c sid =
     (let c' = c\<lparr>ct_inbox := remove_session (ct_inbox c) sid, ct_registry := unregister (ct_registry c) (subscription_id sid)\<rparr>
      in case unsubscribed of
           Some e \<Rightarrow> (Inl (Nostr (''cannot close session chat subscription: '' @ e)), c')
         | None \<Rightarrow> (Inr (), c'))"

fun resume_loop ::
    "(string \<Rightarrow> string result) \<Rightarrow> (string \<Rightarrow> string option) \<Rightarrow> (string \<Rightarrow> rat) \<Rightarrow> session list \<Rightarrow> nat \<Rightarrow> chats \<Rightarrow> nat \<times> chats" where
  "resume_loop author_of subscribed now [] opened c = (opened, c)"
| "resume_loop author_of subscribed now (ses # rest) opened c =
     (case open_chats author_of (subscribed (s_session_id ses)) c ses (now (s_session_id ses)) of
        (Inr _, c') \<Rightarrow> resume_loop author_of subscribed now rest (opened + 1) c'
      | (Inl _, c') \<Rightarrow> resume_loop author_of subscribed now rest opened c')"

definition resume_chats ::
    "(string \<Rightarrow> string result) \<Rightarrow> (string \<Rightarrow> string option) \<Rightarrow> (string \<Rightarrow> rat) \<Rightarrow> sessions \<Rightarrow> chats \<Rightarrow> nat \<times> chats" where
  "resume_chats author_of subscribed now t c = resume_loop author_of subscribed now (list_live t) 0 c"

text \<open>
  The task that reads relay events: what it announces to the turns, in order, and what it leaves. Each
  event comes with its kind and with the two clocks read for it.
\<close>

record notification =
  nt_kind :: event_kind
  nt_event :: outer_event
  nt_local :: nat
  nt_instant :: rat

definition handle_chat ::
    "(channel \<Rightarrow> outer_event \<Rightarrow> nat \<Rightarrow> string + inner_message) \<Rightarrow> (string \<Rightarrow> json option) \<Rightarrow>
     chats \<Rightarrow> db \<Rightarrow> notification \<Rightarrow> (rejected + received) result \<times> chats \<times> db" where
  "handle_chat unwrap json_of c s n =
     (let (r, ib, s') = handle_inbound unwrap json_of (ct_inbox c) s (nt_event n) (nt_local n) (nt_instant n)
      in (r, c\<lparr>ct_inbox := ib\<rparr>, s'))"

fun run_chats ::
    "(channel \<Rightarrow> outer_event \<Rightarrow> nat \<Rightarrow> string + inner_message) \<Rightarrow> (string \<Rightarrow> json option) \<Rightarrow>
     notification list \<Rightarrow> chats \<Rightarrow> db \<Rightarrow> string list \<times> chats \<times> db" where
  "run_chats unwrap json_of [] c s = ([], c, s)"
| "run_chats unwrap json_of (n # ns) c s =
     (if nt_kind n \<noteq> PrivateDirectMessage then run_chats unwrap json_of ns c s
      else case handle_chat unwrap json_of c s n of
          (Inr (Inr rc), c1, s1) \<Rightarrow>
            (let (announced, c2, s2) = run_chats unwrap json_of ns c1 s1 in (rc_session_id rc # announced, c2, s2))
        | (_, c1, s1) \<Rightarrow> run_chats unwrap json_of ns c1 s1)"

section \<open>Repairing subscriptions\<close>

lemma watch_check_spec:
  assumes "distinct (map fst rs)" and "watch_check r rs before = (effects, after)"
  shows "Resubscribe url i f \<in> set effects \<longleftrightarrow> (url, True) \<in> set rs \<and> before url \<noteq> Some True \<and> (i, f) \<in> set r"
    and "Resync \<in> set effects \<longleftrightarrow> (\<exists>url. (url, True) \<in> set rs \<and> before url \<noteq> Some True)"
    and "after url = (case map_of rs url of None \<Rightarrow> before url | Some b \<Rightarrow> Some b)"
proof -
  have "(Resubscribe url i f \<in> set effects \<longleftrightarrow> (url, True) \<in> set rs \<and> before url \<noteq> Some True \<and> (i, f) \<in> set r) \<and>
    (Resync \<in> set effects \<longleftrightarrow> (\<exists>url. (url, True) \<in> set rs \<and> before url \<noteq> Some True)) \<and>
    after url = (case map_of rs url of None \<Rightarrow> before url | Some b \<Rightarrow> Some b)"
    using assms
  proof (induction r rs before arbitrary: effects after rule: watch_check.induct)
    case (2 r u b rs before)
    obtain es a where rest: "watch_check r rs (before(u \<mapsto> b)) = (es, a)" by force
    have eq: "effects = (if b \<and> before u \<noteq> Some True then resubscribe_all u r @ [Resync] else []) @ es" "after = a"
      using "2.prems"(2) by (auto simp: rest Let_def split: option.splits if_splits)
    have u: "(u, x) \<notin> set rs" for x using "2.prems"(1) by (force simp: image_iff)
    then have m: "map_of rs u = None" by (meson map_of_SomeD option.exhaust)
    have IH: "Resubscribe url i f \<in> set es \<longleftrightarrow> (url, True) \<in> set rs \<and> (before(u \<mapsto> b)) url \<noteq> Some True \<and> (i, f) \<in> set r"
      "Resync \<in> set es \<longleftrightarrow> (\<exists>url. (url, True) \<in> set rs \<and> (before(u \<mapsto> b)) url \<noteq> Some True)"
      "a url = (case map_of rs url of None \<Rightarrow> (before(u \<mapsto> b)) url | Some b \<Rightarrow> Some b)"
      using "2.IH" [OF refl _ rest] "2.prems"(1) by simp_all
    have keep: "(before(u \<mapsto> b)) x = before x" if "(x, True) \<in> set rs" for x using u that by auto
    have "Resubscribe url i f \<in> set effects \<longleftrightarrow> (url, True) \<in> set ((u, b) # rs) \<and> before url \<noteq> Some True \<and> (i, f) \<in> set r"
      using IH(1) u keep [of url] by (auto simp: eq resubscribe_all_def)
    moreover have "Resync \<in> set es \<longleftrightarrow> (\<exists>url. (url, True) \<in> set rs \<and> before url \<noteq> Some True)"
      unfolding IH(2) using keep by metis
    then have "Resync \<in> set effects \<longleftrightarrow> (\<exists>url. (url, True) \<in> set ((u, b) # rs) \<and> before url \<noteq> Some True)"
      by (auto simp: eq resubscribe_all_def)
    moreover have "after url = (case map_of ((u, b) # rs) url of None \<Rightarrow> before url | Some b \<Rightarrow> Some b)"
      using IH(3) m by (auto simp: eq split: option.splits)
    ultimately show ?case by blast
  qed simp
  then show "Resubscribe url i f \<in> set effects \<longleftrightarrow> (url, True) \<in> set rs \<and> before url \<noteq> Some True \<and> (i, f) \<in> set r"
    "Resync \<in> set effects \<longleftrightarrow> (\<exists>url. (url, True) \<in> set rs \<and> before url \<noteq> Some True)"
    "after url = (case map_of rs url of None \<Rightarrow> before url | Some b \<Rightarrow> Some b)" by auto
qed

lemma watch_run_append:
  "watch_run (xs @ ys) before =
     (let (es, a) = watch_run xs before; (fs, b) = watch_run ys a in (es @ fs, b))"
  by (induction xs before rule: watch_run.induct) (auto simp: Let_def split: prod.splits)

lemma watch_run_length: "length (fst (watch_run xs before)) = length xs"
  by (induction xs before rule: watch_run.induct) (auto simp: Let_def split: prod.splits)

text \<open>
  Property C34. A relay that comes back gets every subscription again. Whatever the watcher saw before, if one check
  finds a relay down and the next finds it connected, then at that next check each subscription
  registered by then (the dispute feed, the solvers' replies, every live session's chat) is sent to it
  again, and the dispute backlog is fetched again.
\<close>

theorem reconnection_resubscribes:
  assumes "fst (watch_run (earlier @ [(r1, rs1), (r2, rs2)] @ later) before) = effects"
    and "distinct (map fst rs1)" and "distinct (map fst rs2)" and "(url, False) \<in> set rs1" and "(url, True) \<in> set rs2"
    and "(i, f) \<in> set r2"
  shows "Resubscribe url i f \<in> set (effects ! (length earlier + 1)) \<and> Resync \<in> set (effects ! (length earlier + 1))"
proof -
  obtain es a where e: "watch_run earlier before = (es, a)" by force
  obtain e1 a1 where c1: "watch_check r1 rs1 a = (e1, a1)" by force
  obtain e2 a2 where c2: "watch_check r2 rs2 a1 = (e2, a2)" by force
  have "length es = length earlier" using watch_run_length [of earlier before] by (simp add: e)
  then have "effects ! (length earlier + 1) = e2"
    using assms(1) by (auto simp: watch_run_append e c1 c2 Let_def nth_append split: prod.splits)
  moreover have "a1 url = Some False"
    using watch_check_spec(3) [OF assms(2) c1] assms(2,4) by simp
  ultimately show ?thesis
    using watch_check_spec(1,2) [OF assms(3) c2] assms(5,6) by (metis option.inject)
qed

lemma reconnection_resubscribes_witness:
  "Resubscribe ''wss://r'' ''serbero-disputes'' (dispute_filter 38386 ''node'') \<in>
     set (fst (watch_run [([], [(''wss://r'', False)]), ([(''serbero-disputes'', dispute_filter 38386 ''node'')], [(''wss://r'', True)])]
       (\<lambda>_. None)) ! 1)"
  using reconnection_resubscribes [where earlier = "[]" and later = "[]" and ?r1.0 = "[]" and ?rs1.0 = "[(''wss://r'', False)]"
      and ?rs2.0 = "[(''wss://r'', True)]" and ?r2.0 = "[(''serbero-disputes'', dispute_filter 38386 ''node'')]"
      and before = "\<lambda>_. None" and url = "''wss://r''" and i = "''serbero-disputes''", OF refl]
  by simp

section \<open>Opening and closing channels\<close>

lemma has_session_put: "has_session (ib\<lparr>channels := put_channel a (new_channel ses p now) cs\<rparr>) (s_session_id ses)"
  by (simp add: has_session_def put_channel_def new_channel_def)

lemma add_session_has: "add_session author_of ib ses now = (Inr as, ib') \<Longrightarrow> has_session ib' (s_session_id ses)"
  using has_session_put by (auto simp: add_session_def Let_def split: sum.splits)

lemma add_session_since:
  "add_session author_of ib ses now = (Inr as, ib') \<Longrightarrow> length (fst as) = 2 \<and> snd as = since_cursor ses"
  by (auto simp: add_session_def Let_def split: sum.splits)

lemma remove_has_session: "has_session (remove_session ib sid) k \<longleftrightarrow> k \<noteq> sid \<and> has_session ib k"
  unfolding has_session_def remove_session_def by force

lemma opened_is_open: "open_chats author_of subscribed c ses now = (Inr (), c') \<Longrightarrow> is_open c' (s_session_id ses)"
  by (auto simp: open_chats_def is_open_def Let_def split: prod.splits sum.splits option.splits dest: add_session_has)

lemma closed_not_open: "is_open (snd (close_chats unsubscribed c sid)) k \<longleftrightarrow> k \<noteq> sid \<and> is_open c k"
  by (simp add: close_chats_def is_open_def Let_def remove_has_session split: option.splits)

text \<open>
  An opened channel misses no reply. Opening a session's channels registers one subscription for it,
  under its own id: both parties' channels, from a time that is not after the newest message of either
  party that was stored before, nor after the session's opening for a party that has not written yet.
  Other subscriptions stay as they are, and closing removes exactly this one.
\<close>

theorem opened_channel_misses_nothing:
  assumes "open_chats author_of subscribed c ses now = (Inr (), c')"
  shows "is_open c' (s_session_id ses)"
    "\<exists>f. map_of (ct_registry c') (subscription_id (s_session_id ses)) = Some f \<and> length (fl_authors f) = 2 \<and>
       (\<exists>t. fl_since f = Some t \<and> (\<forall>p. t \<le> max 0 (case chat_cursor ses p of Some u \<Rightarrow> u | None \<Rightarrow> s_opened_at ses)))"
    "i \<noteq> subscription_id (s_session_id ses) \<Longrightarrow> map_of (ct_registry c') i = map_of (ct_registry c) i"
    "\<not> is_open (snd (close_chats unsubscribed c' (s_session_id ses))) (s_session_id ses)"
    "map_of (ct_registry (snd (close_chats unsubscribed c' (s_session_id ses)))) (subscription_id (s_session_id ses)) = None"
proof -
  obtain as ib where a: "add_session author_of (ct_inbox c) ses now = (Inr as, ib)"
    and c': "c' = c\<lparr>ct_inbox := ib, ct_registry := register (ct_registry c) (subscription_id (s_session_id ses)) (chat_filter as)\<rparr>"
    using assms by (auto simp: open_chats_def Let_def split: prod.splits sum.splits option.splits)
  show "is_open c' (s_session_id ses)" by (rule opened_is_open [OF assms])
  have "since_cursor ses \<le> max 0 (case chat_cursor ses p of Some u \<Rightarrow> u | None \<Rightarrow> s_opened_at ses)" for p
    by (cases p) (auto simp: since_cursor_def unwrap_or_def split: option.splits)
  then show "\<exists>f. map_of (ct_registry c') (subscription_id (s_session_id ses)) = Some f \<and> length (fl_authors f) = 2 \<and>
       (\<exists>t. fl_since f = Some t \<and> (\<forall>p. t \<le> max 0 (case chat_cursor ses p of Some u \<Rightarrow> u | None \<Rightarrow> s_opened_at ses)))"
    using add_session_since [OF a] by (auto simp: c' register_def chat_filter_def)
  show "map_of (ct_registry c') i = map_of (ct_registry c) i" if "i \<noteq> subscription_id (s_session_id ses)"
  proof -
    have "map_of (filter (\<lambda>x. fst x \<noteq> k) r) i = map_of r i" if "i \<noteq> k" for k and r :: registry
      using that by (induction r) auto
    then show ?thesis using that by (simp add: c' register_def)
  qed
  show "\<not> is_open (snd (close_chats unsubscribed c' (s_session_id ses))) (s_session_id ses)"
    by (simp add: closed_not_open)
  show "map_of (ct_registry (snd (close_chats unsubscribed c' (s_session_id ses)))) (subscription_id (s_session_id ses)) = None"
    by (auto simp: close_chats_def unregister_def Let_def map_of_eq_None_iff split: option.splits)
qed

text \<open>
  A session whose subscription failed counts as open. Its channels are registered before the relays are
  asked, and stay registered when they refuse, so \<open>is_open\<close> says that replies reach it.
\<close>

theorem failed_subscription_counts_as_open:
  assumes "open_chats author_of (Some e) c ses now = (Inl (Nostr (''cannot subscribe to session chat: '' @ e)), c')"
    and "\<exists>a. author_of (trade_pubkey ses Buyer) = Inr a" and "\<exists>a. author_of (trade_pubkey ses Seller) = Inr a"
  shows "is_open c' (s_session_id ses)"
proof -
  obtain as ib where a: "add_session author_of (ct_inbox c) ses now = (Inr as, ib)"
    using assms(2,3) by (auto simp: add_session_def Let_def)
  with assms(1) have "ct_inbox c' = ib" by (auto simp: open_chats_def Let_def)
  with add_session_has [OF a] show ?thesis by (simp add: is_open_def)
qed

section \<open>Receiving\<close>

lemma handle_inbound_row:
  assumes "handle_inbound unwrap json_of ib s e local_now now = (r, ib', s')"
  shows "case r of
      Inr (Inr rc) \<Rightarrow> \<exists>row. db_messages s' = db_messages s @ [row] \<and> m_direction row = In \<and>
        m_session_id row = rc_session_id rc \<and> m_party row = rc_party rc
    | _ \<Rightarrow> s' = s"
proof (cases "\<exists>rc. r = Inr (Inr rc)")
  case False
  have "s' = s"
    using assms False
    by (auto simp: handle_inbound_def Let_def case_prod_beta split: option.splits if_splits sum.splits bool.splits)
  with False show ?thesis by (cases r) (auto split: sum.splits)
next
  case True
  then obtain rc where r: "r = Inr (Inr rc)" by blast
  from assms [unfolded r] show ?thesis
  proof (rule handle_inbound_accepted)
    fix ch :: channel and im :: inner_message and t
    let ?n = "\<lparr>nm_session_id = ch_session_id ch, nm_direction = In, nm_party = ch_party ch,
         nm_template_id = None, nm_lang = None,
         nm_content = truncate_text (fst (describe json_of (im_content im))) (inbox_max_chars ib),
         nm_attachments = snd (describe json_of (im_content im)), nm_inner_event_id = im_inner_event_id im,
         nm_created_at = as_i64_cast (im_created_at im)\<rparr>"
    assume ins: "insert_message (session_ids s) (db_messages s) ?n = Inr (True, t)"
      and rc: "rc_session_id rc = ch_session_id ch \<and> rc_party rc = ch_party ch"
      and s': "s' = s\<lparr>db_messages := t, db_sessions := advance_chat_cursor (db_sessions s) (ch_session_id ch)
        (ch_party ch) (min (as_i64_cast (oe_created_at e)) (as_i64_cast local_now)) (as_i64_cast local_now)\<rparr>"
    from ins have "t = db_messages s @ [message_row (next_rowid m_id (db_messages s)) ?n]"
      by (auto simp: insert_message_def split: if_splits)
    with rc s' show ?thesis by (simp add: r message_row_def)
  qed
qed

text \<open>
  Every message a party sent is announced. Whatever events the relays bring, the sessions announced to
  the turns are exactly those of the rows stored on the way, in the same order: a stored message always
  wakes its session's turn, and a rejected one never does.
\<close>

theorem stored_messages_announced:
  assumes "run_chats unwrap json_of ns c s = (announced, c', s')"
  shows "\<exists>rows. db_messages s' = db_messages s @ rows \<and> map m_session_id rows = announced \<and>
    (\<forall>m \<in> set rows. m_direction m = In)"
  using assms
proof (induction ns arbitrary: c s announced c' s')
  case (Cons n ns)
  show ?case
  proof (cases "nt_kind n = PrivateDirectMessage")
    case False
    with Cons.prems Cons.IH show ?thesis by simp
  next
    case True
    obtain r ib s1 where h: "handle_inbound unwrap json_of (ct_inbox c) s (nt_event n) (nt_local n) (nt_instant n) = (r, ib, s1)"
      by (metis prod_cases3)
    note row = handle_inbound_row [OF h]
    show ?thesis
    proof (cases "\<exists>rc. r = Inr (Inr rc)")
      case True
      then obtain rc where r: "r = Inr (Inr rc)" by blast
      obtain a c2 s2 where rest: "run_chats unwrap json_of ns (c\<lparr>ct_inbox := ib\<rparr>) s1 = (a, c2, s2)" by (metis prod_cases3)
      have "announced = rc_session_id rc # a" "s' = s2"
        using Cons.prems \<open>nt_kind n = PrivateDirectMessage\<close> by (simp_all add: handle_chat_def h r rest)
      with row Cons.IH [OF rest] show ?thesis by (fastforce simp: r)
    next
      case False
      then have "s1 = s" "run_chats unwrap json_of ns (c\<lparr>ct_inbox := ib\<rparr>) s1 = (announced, c', s')"
        using row Cons.prems \<open>nt_kind n = PrivateDirectMessage\<close>
        by (cases r; auto simp: handle_chat_def h split: sum.splits)+
      with Cons.IH show ?thesis by blast
    qed
  qed
qed simp

section \<open>Examples\<close>

definition no_chats :: chats where
  "no_chats = \<lparr>ct_inbox = new_inbox 4, ct_registry = []\<rparr>"

lemma opened_channel_misses_nothing_witness:
  "\<not> is_open (snd (close_chats None (snd (open_chats Inr None no_chats (opening_row (example_session ''s1'' ''d1'')) 1)) ''s1'')) ''s1''"
proof -
  let ?ses = "opening_row (example_session ''s1'' ''d1'')"
  have "open_chats Inr None no_chats ?ses 1 = (Inr (), snd (open_chats Inr None no_chats ?ses 1))"
    by (simp add: open_chats_def add_session_def Let_def)
  from opened_channel_misses_nothing(4) [OF this, of None] show ?thesis by (simp add: opening_row_def example_session_def)
qed

lemma failed_subscription_counts_as_open_witness:
  "is_open (snd (open_chats Inr (Some ''n'') no_chats (opening_row (example_session ''s1'' ''d1'')) 1)) ''s1''"
proof -
  let ?ses = "opening_row (example_session ''s1'' ''d1'')"
  have "open_chats Inr (Some ''n'') no_chats ?ses 1 =
      (Inl (Nostr (''cannot subscribe to session chat: '' @ ''n'')), snd (open_chats Inr (Some ''n'') no_chats ?ses 1))"
    by (simp add: open_chats_def add_session_def Let_def)
  from failed_subscription_counts_as_open [OF this] show ?thesis by (simp add: opening_row_def example_session_def)
qed

lemma stored_messages_announced_witness:
  "map m_session_id (db_messages (snd (snd (run_chats (\<lambda>_ _ _. Inr \<lparr>im_inner_event_id = ''i1'', im_content = ''hello'',
     im_created_at = 6\<rparr>) (\<lambda>_. None) [\<lparr>nt_kind = PrivateDirectMessage, nt_event = \<lparr>oe_id = ''o1'', oe_pubkey = ''author'',
       oe_created_at = 7\<rparr>, nt_local = 9, nt_instant = 1\<rparr>] (no_chats\<lparr>ct_inbox := example_inbox\<rparr>) example_chat_db)))) = [''s1'']"
proof -
  let ?run = "run_chats (\<lambda>_ _ _. Inr \<lparr>im_inner_event_id = ''i1'', im_content = ''hello'',
     im_created_at = 6\<rparr>) (\<lambda>_. None) [\<lparr>nt_kind = PrivateDirectMessage, nt_event = \<lparr>oe_id = ''o1'', oe_pubkey = ''author'',
       oe_created_at = 7\<rparr>, nt_local = 9, nt_instant = 1\<rparr>] (no_chats\<lparr>ct_inbox := example_inbox\<rparr>) example_chat_db"
  have a: "fst ?run = [''s1'']" by code_simp
  have e: "db_messages example_chat_db = []" by (simp add: example_chat_db_def)
  have "?run = (fst ?run, fst (snd ?run), snd (snd ?run))" by simp
  from stored_messages_announced [OF this] show ?thesis unfolding e a by auto
qed

end
