(* ===== verification/Opening.thy ===== *)
theory Opening
  imports Turn Mostro_Node Channels
begin

text \<open>
  Deciding whether to mediate a dispute and opening a session: \<open>src/src/mediation/eligibility.rs\<close> and
  the operations of \<open>src/src/mediation/mod.rs\<close>. \<open>node_side\<close> answers what is outside: the node's
  events, the take, new session ids, the keys of the chat channels and the relays' answer to subscribing. \<open>desk\<close> is what the mediator keeps
  in memory: the takes in flight and the chat channels. Other tasks change the
  database between interactions; the desk is changed only by the operation that runs.
\<close>

section \<open>Eligibility\<close>

datatype ineligible = Disabled | JudgeNotReady | NotNotified lifecycle | HadSession | AlreadyTaking

record candidate =
  ca_enabled :: bool
  ca_ready :: bool
  ca_lifecycle :: lifecycle
  ca_had_session :: bool
  ca_taking :: bool

definition eligibility_check :: "candidate \<Rightarrow> ineligible + unit" where
  "eligibility_check c =
     (if \<not> ca_enabled c then Inl Disabled
      else if \<not> ca_ready c then Inl JudgeNotReady
      else if ca_lifecycle c \<noteq> Lc_Notified then Inl (NotNotified (ca_lifecycle c))
      else if ca_had_session c then Inl HadSession
      else if ca_taking c then Inl AlreadyTaking
      else Inr ())"

datatype readiness = Ready | Off string

record judge_checks =
  jc_has_thresholds :: bool
  jc_capability_problems :: "string list"
  jc_health_error :: "string option"

definition readiness_of :: "judge_checks \<Rightarrow> readiness" where
  "readiness_of c =
     (if \<not> jc_has_thresholds c then Off ''no thresholds for the configured judge''
      else if jc_capability_problems c \<noteq> []
        then Off (''the judge cannot express the question set: '' @ join ''; '' (jc_capability_problems c))
      else case jc_health_error c of
          Some e \<Rightarrow> Off (''judge health check failed: '' @ e)
        | None \<Rightarrow> Ready)"

section \<open>The judge\<close>

definition judge_from_config ::
    "(judge_config \<Rightarrow> string \<Rightarrow> string + 'j) \<Rightarrow> judge_config \<Rightarrow> string option \<Rightarrow> string + 'j" where
  "judge_from_config new_typesafe c api_key =
     (if provider c = ''typesafe''
      then case api_key of None \<Rightarrow> Inl (api_key_env c @ '' is not set'') | Some key \<Rightarrow> new_typesafe c key
      else Inl (''provider '' @ provider c @ '' cannot mediate live disputes''))"

fun kind_text :: "question_kind \<Rightarrow> string" where
  "kind_text KNoul = ''Noul''" | "kind_text KChoice = ''Choice''" | "kind_text KScore = ''Score''"

fun problem_text :: "capability_problem \<Rightarrow> string" where
  "problem_text (NotSupported i k) = i @ '': '' @ kind_text k @ '' questions are not supported''"
| "problem_text (TooManyOptions i n m) = i @ '': '' @ dec n @ '' options; 2 to '' @ dec m @ '' are supported''"
| "problem_text (DuplicateOptions i) = i @ '': duplicate option names''"
| "problem_text (TooManyLevels i n m) = i @ '': '' @ dec n @ '' levels; 2 to '' @ dec m @ '' are supported''"

definition check_judge :: "capabilities \<Rightarrow> string option \<Rightarrow> thresholds option \<Rightarrow> question_set \<Rightarrow> readiness" where
  "check_judge caps health th qs =
     readiness_of \<lparr>jc_has_thresholds = th \<noteq> None, jc_capability_problems = map problem_text (capabilities_check caps qs),
       jc_health_error = health\<rparr>"

section \<open>What is outside\<close>

record node_side =
  ns_node :: "nat \<Rightarrow> string + copy list"
  ns_order :: "nat \<Rightarrow> string + copy list"
  ns_uuid :: "string \<Rightarrow> string + string"
  ns_take :: "nat \<Rightarrow> string \<Rightarrow> nat \<Rightarrow> take_transport"
  ns_new_id :: "nat \<Rightarrow> string"
  ns_author :: "string \<Rightarrow> string result"
  ns_subscribe :: "nat \<Rightarrow> string option"
  ns_instant :: "nat \<Rightarrow> rat"
  ns_shown :: "node_payload \<Rightarrow> string"

record desk =
  dk_taking :: "string set"
  dk_chats :: chats

datatype opening_outcome =
    Ineligible ineligible
  | NotTaken string
  | OpeningHandedOff string
  | Opened string

datatype node_support = V2 | Unsupported | Unknown string

definition OPENING_NOTICE_PENDING :: string where "OPENING_NOTICE_PENDING = ''opening_notice_pending''"
definition OPENING_NOTICE_SENT :: string where "OPENING_NOTICE_SENT = ''opening_notice_sent''"

definition OPENERS :: "(party \<times> string) list" where
  "OPENERS = [(Buyer, ASK_BUYER_SENT), (Seller, ASK_SELLER_RECEIVED)]"

definition check_node :: "node_side \<Rightarrow> nat \<Rightarrow> node_support" where
  "check_node ns n =
     (case fetch_node (ns_node ns n) of
        Inr (Some node) \<Rightarrow> if speaks_v2 node then V2 else Unsupported
      | Inr None \<Rightarrow> Unknown ''the node's info event was not found''
      | Inl e \<Rightarrow> Unknown (''cannot read the node's info: '' @ error_text e))"

text \<open>\<open>MOSTRO_TIMEOUT\<close> is 15 seconds, which \<open>Duration\<close> prints as \<open>15s\<close>.\<close>

fun take_error_text :: "take_error \<Rightarrow> string" where
  "take_error_text Take_Timeout = ''the node did not answer within 15s''"
| "take_error_text (Refused s) = ''the node refused the take: '' @ s"
| "take_error_text MissingInfo = ''the node answered without dispute information''"
| "take_error_text (Transport s) = s"

section \<open>Opening\<close>

definition take_session_facts ::
    "outside \<Rightarrow> node_side \<Rightarrow> string \<Rightarrow> world \<Rightarrow> (string + solver_dispute_info) \<times> world" where
  "take_session_facts out ns d w =
     (let w1 = others out w
      in case fetch_node (ns_node ns (w_step w)) of
           Inl e \<Rightarrow> (Inl (''cannot read the node's info: '' @ error_text e), w1)
         | Inr None \<Rightarrow> (Inl ''the node's info event was not found'', w1)
         | Inr (Some node) \<Rightarrow>
             (if \<not> speaks_v2 node then (Inl ''the node does not speak protocol v2'', w1)
              else case ns_uuid ns d of
                  Inl e \<Rightarrow> (Inl (''dispute id is not a uuid: '' @ e), w1)
                | Inr i \<Rightarrow>
                    (case take_dispute (ns_shown ns) (ns_take ns (w_step w1) i (pow_for_serbero node)) of
                       Inl e \<Rightarrow> (Inl (''take failed: '' @ take_error_text e), others out w1)
                     | Inr info \<Rightarrow> (Inr info, others out w1))))"

definition store_session ::
    "outside \<Rightarrow> node_side \<Rightarrow> string \<Rightarrow> solver_dispute_info \<Rightarrow> string \<Rightarrow> string \<Rightarrow> int \<Rightarrow> world \<Rightarrow> (string + session) \<times> world" where
  "store_session out ns d info buyer seller now w =
     (let facts = fetch_order (ns_order ns (w_step w)); w1 = others out w; sid = ns_new_id ns (w_step w1)
      in case insert_session (map d_dispute_id (db_disputes (w_db w1))) (db_sessions (w_db w1))
           \<lparr>n_session_id = sid, n_dispute_id = d, n_buyer_trade_pubkey = buyer, n_seller_trade_pubkey = seller,
            n_fiat_amount = Some (dec_int (di_fiat_amount info)), n_fiat_code = od_fiat_code facts,
            n_payment_method = (if di_payment_method info = [] then None else Some (di_payment_method info)),
            n_order_published_at = od_published_at facts, n_now = max (os_clock out (w_step w1)) now\<rparr> of
           Inl e \<Rightarrow> (Inl (error_text e), w1)
         | Inr (inserted, t) \<Rightarrow>
             (let w2 = w1\<lparr>w_db := (w_db w1)\<lparr>db_sessions := t\<rparr>\<rparr>
              in if \<not> inserted then (Inl ''the dispute already has a live session'', w2)
                 else case get_session (db_sessions (w_db w2)) sid of
                     None \<Rightarrow> (Inl ''the new session is missing'', w2)
                   | Some ses \<Rightarrow> (Inr ses, w2)))"

definition create_session ::
    "outside \<Rightarrow> node_side \<Rightarrow> string \<Rightarrow> solver_dispute_info \<Rightarrow> int \<Rightarrow> desk \<Rightarrow> world \<Rightarrow> (string + session) \<times> desk \<times> world" where
  "create_session out ns d info now dk w =
     (case (di_buyer_pubkey info, di_seller_pubkey info) of
        (Some buyer, Some seller) \<Rightarrow>
          (case store_session out ns d info buyer seller now w of
             (Inl e, w1) \<Rightarrow> (Inl e, dk, w1)
           | (Inr ses, w1) \<Rightarrow>
               (case open_chats (ns_author ns) (ns_subscribe ns (w_step w1)) (dk_chats dk) ses (ns_instant ns (w_step w1)) of
                  (Inl e, ch) \<Rightarrow> (Inl (''cannot open the chat channels: '' @ error_text e), dk\<lparr>dk_chats := ch\<rparr>, others out w1)
                | (Inr _, ch) \<Rightarrow> (Inr ses, dk\<lparr>dk_chats := ch\<rparr>, others out w1)))
      | _ \<Rightarrow> (Inl ''the node did not send both trade keys'', dk, w))"

fun greet_loop ::
    "outside \<Rightarrow> mediator \<Rightarrow> catalog \<Rightarrow> session \<Rightarrow> amount option \<Rightarrow> (party \<times> string) list \<Rightarrow> world \<Rightarrow> unit result \<times> world" where
  "greet_loop out me c ses a [] w = (Inr (), w)"
| "greet_loop out me c ses a ((p, question) # rest) w =
     (case render_opening c question a of
        Inl e \<Rightarrow> (Inl e, w)
      | Inr t \<Rightarrow>
          (case send_chat out send_to_party ses p question t (ms_default_language (me_settings me)) w of
             (Inl e, w') \<Rightarrow> (Inl e, w')
           | (Inr _, w') \<Rightarrow> greet_loop out me c ses a rest w'))"

definition greet :: "outside \<Rightarrow> mediator \<Rightarrow> session \<Rightarrow> world \<Rightarrow> unit result \<times> world" where
  "greet out me ses w =
     (case map_of (me_catalogs me) (ms_default_language (me_settings me)) of
        None \<Rightarrow> (Inl (Catalog (''no catalog for '' @ ms_default_language (me_settings me))), w)
      | Some c \<Rightarrow>
          greet_loop out me c ses
            (case (s_fiat_amount ses, s_fiat_code ses) of
               (Some v, Some cur) \<Rightarrow> Some \<lparr>am_value = v, am_currency = cur\<rparr> | _ \<Rightarrow> None) OPENERS w)"

text \<open>One notification to the solvers: other tasks run before it and while it is sent.\<close>

definition tell_solvers ::
    "outside \<Rightarrow> mediator \<Rightarrow> string \<Rightarrow> string \<Rightarrow> string \<Rightarrow> int \<Rightarrow> world \<Rightarrow> nat result \<times> world" where
  "tell_solvers out me d notification t now w =
     (let w1 = others out w;
          (r, s') = notify_solvers (os_dm out (w_step w1)) (me_solvers me) d notification t now (w_db w1)
      in (r, w1\<lparr>w_db := s', w_step := w_step w1 + 1\<rparr>))"

definition send_opening_notice :: "outside \<Rightarrow> mediator \<Rightarrow> string \<Rightarrow> int \<Rightarrow> world \<Rightarrow> world" where
  "send_opening_notice out me d now w =
     (let (r, w1) = tell_solvers out me d ''handoff'' (opening_failed_text d) now w;
          delivered = (case r of Inl _ \<Rightarrow> 0 | Inr n \<Rightarrow> n)
      in if delivered = 0 then w1
         else case log_event (w_db w1) d None OPENING_NOTICE_SENT (JObj []) now of
             Inl _ \<Rightarrow> w1
           | Inr s' \<Rightarrow> w1\<lparr>w_db := s'\<rparr>)"

definition record_opening :: "string \<Rightarrow> string option \<Rightarrow> string \<Rightarrow> string \<Rightarrow> int \<Rightarrow> world \<Rightarrow> unit result \<times> world" where
  "record_opening d sid k reason now w =
     (case log_event (w_db w) d sid k (JObj (if reason = [] then [] else [(''reason'', JStr reason)])) now of
        Inl e \<Rightarrow> (Inl e, w)
      | Inr s' \<Rightarrow> (Inr (), w\<lparr>w_db := s'\<rparr>))"

text \<open>The transaction of \<open>abandon\<close>: an error rolls it back.\<close>

definition abandon_tx :: "mediator \<Rightarrow> string \<Rightarrow> string option \<Rightarrow> string \<Rightarrow> int \<Rightarrow> db \<Rightarrow> db result" where
  "abandon_tx me d sid reason now s =
     (let s1 = (case sid of
            None \<Rightarrow> s
          | Some i \<Rightarrow> s\<lparr>db_sessions := snd (hand_off (db_sessions s) i (handoff_reason_str OpeningFailed) now)\<rparr>)
      in case log_event s1 d sid ''mediation_failed'' (JObj [(''reason'', JStr reason)]) now of
           Inl e \<Rightarrow> Inl e
         | Inr s2 \<Rightarrow>
             (case log_event s2 d sid OPENING_NOTICE_PENDING (JObj []) now of
                Inl e \<Rightarrow> Inl e
              | Inr s3 \<Rightarrow>
                  (case queue_observers (me_observers me) s3 d OPENING_FAILED now of
                     Inl e \<Rightarrow> Inl e
                   | Inr (_, s4) \<Rightarrow> Inr s4)))"

definition abandon ::
    "outside \<Rightarrow> mediator \<Rightarrow> string \<Rightarrow> session option \<Rightarrow> string \<Rightarrow> int \<Rightarrow> desk \<Rightarrow> world \<Rightarrow> opening_outcome result \<times> desk \<times> world" where
  "abandon out me d ses reason now dk w =
     (case abandon_tx me d (map_option s_session_id ses) reason now (w_db w) of
        Inl e \<Rightarrow> (Inl e, dk, w)
      | Inr s' \<Rightarrow>
          (let dk' = (case ses of None \<Rightarrow> dk | Some x \<Rightarrow> dk\<lparr>dk_chats := snd (close_chats None (dk_chats dk) (s_session_id x))\<rparr>)
           in (Inr (OpeningHandedOff reason), dk', send_opening_notice out me d now (w\<lparr>w_db := s'\<rparr>))))"

text \<open>The transaction that starts the mediation; the result of \<open>set_state\<close> is not looked at.\<close>

definition activate_tx :: "mediator \<Rightarrow> string \<Rightarrow> string \<Rightarrow> int \<Rightarrow> db \<Rightarrow> db result" where
  "activate_tx me d sid now s =
     (case queue_observers (me_observers me)
        (s\<lparr>db_sessions := snd (set_state (db_sessions s) sid Active now)\<rparr>) d MEDIATING now of
        Inl e \<Rightarrow> Inl e
      | Inr (_, s') \<Rightarrow> Inr s')"

definition start_mediation ::
    "outside \<Rightarrow> mediator \<Rightarrow> string \<Rightarrow> session \<Rightarrow> int \<Rightarrow> world \<Rightarrow> opening_outcome result \<times> world" where
  "start_mediation out me d ses now w =
     (case activate_tx me d (s_session_id ses) now (w_db w) of
        Inl e \<Rightarrow> (Inl e, w)
      | Inr s' \<Rightarrow>
          (case tell_solvers out me d ''mediation_started'' (mediation_started d) now (w\<lparr>w_db := s'\<rparr>) of
             (Inl e, w1) \<Rightarrow> (Inl e, w1)
           | (Inr _, w1) \<Rightarrow>
               (case record_opening d (Some (s_session_id ses)) ''mediation_opened'' [] now w1 of
                  (Inl e, w2) \<Rightarrow> (Inl e, w2)
                | (Inr _, w2) \<Rightarrow> (Inr (Opened (s_session_id ses)), w2))))"

definition open_dispute ::
    "outside \<Rightarrow> node_side \<Rightarrow> mediator \<Rightarrow> string \<Rightarrow> int \<Rightarrow> desk \<Rightarrow> world \<Rightarrow> opening_outcome result \<times> desk \<times> world" where
  "open_dispute out ns me d now dk w =
     (case take_session_facts out ns d w of
        (Inl reason, w1) \<Rightarrow>
          (case record_opening d None ''mediation_not_opened'' reason now w1 of
             (Inl e, w2) \<Rightarrow> (Inl e, dk, w2)
           | (Inr _, w2) \<Rightarrow> (Inr (NotTaken reason), dk, w2))
      | (Inr info, w1) \<Rightarrow>
          (case create_session out ns d info now dk w1 of
             (Inl reason, dk1, w2) \<Rightarrow> abandon out me d None reason now dk1 w2
           | (Inr ses, dk1, w2) \<Rightarrow>
               (case greet out me ses w2 of
                  (Inl e, w3) \<Rightarrow> abandon out me d (Some ses) (''cannot reach the parties: '' @ error_text e) now dk1 w3
                | (Inr _, w3) \<Rightarrow> (let (r, w4) = start_mediation out me d ses now w3 in (r, dk1, w4)))))"

section \<open>Considering a dispute\<close>

definition claim_take :: "mediator \<Rightarrow> string \<Rightarrow> desk \<Rightarrow> db \<Rightarrow> (ineligible + unit) result \<times> desk" where
  "claim_take me d dk s =
     (case get_dispute (db_disputes s) d of
        None \<Rightarrow> (Inl (Schema (''unknown dispute '' @ d)), dk)
      | Some x \<Rightarrow>
          (let verdict = eligibility_check
             \<lparr>ca_enabled = ms_enabled (me_settings me), ca_ready = (me_judge me \<noteq> None), ca_lifecycle = d_lifecycle x,
              ca_had_session = exists_for_dispute (db_sessions s) d, ca_taking = (d \<in> dk_taking dk)\<rparr>
           in (Inr verdict, case verdict of Inl _ \<Rightarrow> dk | Inr _ \<Rightarrow> dk\<lparr>dk_taking := insert d (dk_taking dk)\<rparr>)))"

definition release_take :: "string \<Rightarrow> desk \<Rightarrow> desk" where
  "release_take d dk = dk\<lparr>dk_taking := dk_taking dk - {d}\<rparr>"

definition consider_dispute ::
    "outside \<Rightarrow> node_side \<Rightarrow> mediator \<Rightarrow> string \<Rightarrow> int \<Rightarrow> desk \<Rightarrow> world \<Rightarrow> opening_outcome \<times> desk \<times> world" where
  "consider_dispute out ns me d now dk w =
     (case claim_take me d dk (w_db w) of
        (Inl e, dk1) \<Rightarrow> (NotTaken (error_text e), dk1, w)
      | (Inr (Inl reason), dk1) \<Rightarrow> (Ineligible reason, dk1, w)
      | (Inr (Inr _), dk1) \<Rightarrow>
          (let (r, dk2, w1) = open_dispute out ns me d now dk1 w
           in (case r of Inl e \<Rightarrow> NotTaken (error_text e) | Inr oc \<Rightarrow> oc, release_take d dk2, w1)))"

fun consider_each ::
    "outside \<Rightarrow> node_side \<Rightarrow> mediator \<Rightarrow> dispute list \<Rightarrow> int \<Rightarrow> nat \<Rightarrow> desk \<Rightarrow> world \<Rightarrow> nat \<times> desk \<times> world" where
  "consider_each out ns me [] now opened dk w = (opened, dk, w)"
| "consider_each out ns me (x # xs) now opened dk w =
     (let (oc, dk1, w1) = consider_dispute out ns me (d_dispute_id x) now dk w
      in consider_each out ns me xs now (case oc of Opened _ \<Rightarrow> opened + 1 | _ \<Rightarrow> opened) dk1 w1)"

definition reconsider ::
    "outside \<Rightarrow> node_side \<Rightarrow> mediator \<Rightarrow> int \<Rightarrow> int \<Rightarrow> desk \<Rightarrow> world \<Rightarrow> nat \<times> desk \<times> world" where
  "reconsider out ns me since now dk w =
     consider_each out ns me
       (list_notified_without_session (db_disputes (w_db w)) (db_sessions (w_db w)) since) now 0 dk w"

section \<open>Sessions that are opening\<close>

text \<open>
  Only the opening itself moves a session out of \<open>opening\<close>, but for ending it: turns skip such a session
  and the timers act on active and guiding ones only. \<open>opening_kept\<close> says so of a change of the
  database, \<open>opening_alone\<close> of everything other tasks do.
\<close>

definition opening_or_over :: "session_state \<Rightarrow> bool" where
  "opening_or_over st \<longleftrightarrow> st = Opening \<or> is_terminal st"

definition opening_kept :: "db \<Rightarrow> db \<Rightarrow> bool" where
  "opening_kept s s' \<longleftrightarrow>
     (\<forall>sid ses. get_session (db_sessions s) sid = Some ses \<and> opening_or_over (s_state ses) \<longrightarrow>
        (\<exists>ses'. get_session (db_sessions s') sid = Some ses' \<and> opening_or_over (s_state ses')))"

definition opening_alone :: "outside \<Rightarrow> bool" where
  "opening_alone out \<longleftrightarrow> (\<forall>n s. opening_kept s (os_env out n s))"

lemma opening_kept_same: "db_sessions s' = db_sessions s \<Longrightarrow> opening_kept s s'"
  by (auto simp: opening_kept_def)

lemma opening_kept_trans: "opening_kept a b \<Longrightarrow> opening_kept b c \<Longrightarrow> opening_kept a c"
  unfolding opening_kept_def by blast

lemma opening_keptD: "opening_alone out \<Longrightarrow> opening_kept s (os_env out n s)"
  by (simp add: opening_alone_def)

lemma others_kept: "opening_alone out \<Longrightarrow> opening_kept (w_db w) (w_db (others out w))"
  by (simp add: others_def opening_keptD)

lemma send_when_kept:
  assumes "send_when allowed env outcome ses msg s = (r, given, s')" and "\<And>s. opening_kept s (env s)"
  shows "opening_kept s s'"
proof -
  have "opening_kept s ((env s)\<lparr>db_messages := t\<rparr>)" for t
    by (rule opening_kept_trans [OF assms(2)]) (simp add: opening_kept_same)
  with assms show ?thesis
    by (cases outcome; cases "get_session (db_sessions s) (s_session_id ses)")
      (auto simp: send_when_def Let_def opening_kept_same split: if_splits sum.splits)
qed

lemma send_chat_kept:
  assumes "opening_alone out" and "send_chat out (send_when allowed) ses p template t lang w = (r, w')"
  shows "opening_kept (w_db w) (w_db w')"
proof -
  let ?w1 = "others out w"
  obtain r0 given s' where s: "send_when allowed (os_env out (w_step ?w1)) (os_chat out (w_step ?w1)) ses
      \<lparr>ob_party = p, ob_text = t, ob_template_id = Some template, ob_lang = Some lang\<rparr> (w_db ?w1) = (r0, given, s')"
    by (metis prod_cases3)
  have "opening_kept (w_db w) s'"
    by (rule opening_kept_trans [OF others_kept [OF assms(1)] send_when_kept [OF s opening_keptD [OF assms(1)]]])
  with assms(2) show ?thesis by (auto simp: send_chat_def s Let_def)
qed

text \<open>Once a session left \<open>opening\<close>, it never returns.\<close>

lemma left_opening:
  assumes "db_grows s s'" and "get_session (db_sessions s) sid = Some ses" and "s_state ses \<noteq> Opening"
  shows "\<exists>ses'. get_session (db_sessions s') sid = Some ses' \<and> s_dispute_id ses' = s_dispute_id ses \<and> s_state ses' \<noteq> Opening"
proof -
  obtain ses' where "get_session (db_sessions s') sid = Some ses'" "s_dispute_id ses' = s_dispute_id ses"
    "state_moves (s_state ses) (s_state ses')" using assms(1,2) unfolding db_grows_def by blast
  then show ?thesis using assms(3) by (cases "s_state ses") (auto simp: state_moves_def)
qed

section \<open>Telling the solvers\<close>

lemma notify_loop_sessions:
  "db_sessions (snd (snd (notify_loop send sos d x t now (k0, None, s)))) = db_sessions s"
proof (induction sos arbitrary: k0 s)
  case (Cons so sos)
  show ?case
    by (cases "send (so_pubkey so) t") (simp_all add: log_event_Inr Let_def Cons.IH)
qed simp

lemma tell_solvers_spec:
  assumes "well_behaved out" and "tell_solvers out me d x t now w = (r, w')"
  shows "db_grows (w_db w) (w_db w')" "w_sent w' = w_sent w" "w_evals w' = w_evals w"
    "\<exists>n es. r = Inr n \<and> db_events (w_db w') = db_events (w_db (others out w)) @ es \<and>
       (\<forall>e \<in> set es. ev_kind e \<in> {''notification_sent'', ''notification_failed''}) \<and>
       (0 < n \<longrightarrow> (\<exists>so \<in> set (me_solvers me). \<exists>e \<in> set es. notified so d x now e)) \<and>
       db_sessions (w_db w') = db_sessions (w_db (others out w))"
proof -
  let ?w1 = "others out w"
  obtain n s' es where loop: "notify_loop (os_dm out (w_step ?w1)) (me_solvers me) d x t now (0, None, w_db ?w1) = (n, None, s')"
    and g: "db_grows (w_db ?w1) s'" and es: "db_events s' = db_events (w_db ?w1) @ es"
      "\<forall>e \<in> set es. ev_kind e \<in> {''notification_sent'', ''notification_failed''}"
      "0 < n \<longrightarrow> (\<exists>so \<in> set (me_solvers me). \<exists>e \<in> set es. notified so d x now e)"
    using notify_loop_spec [of "os_dm out (w_step ?w1)" "me_solvers me" d x t now 0 "w_db ?w1"] by blast
  have ss: "db_sessions s' = db_sessions (w_db ?w1)"
    using notify_loop_sessions [of "os_dm out (w_step ?w1)" "me_solvers me" d x t now 0 "w_db ?w1"] loop by auto
  have eq: "r = Inr n \<and> w' = ?w1\<lparr>w_db := s', w_step := w_step ?w1 + 1\<rparr>"
    using assms(2) loop by (cases "me_solvers me = []") (auto simp: tell_solvers_def notify_solvers_def Let_def)
  show "db_grows (w_db w) (w_db w')" "w_sent w' = w_sent w" "w_evals w' = w_evals w"
    using eq db_grows_trans [OF others_grows [OF assms(1)] g] by simp_all
  show "\<exists>n es. r = Inr n \<and> db_events (w_db w') = db_events (w_db ?w1) @ es \<and>
       (\<forall>e \<in> set es. ev_kind e \<in> {''notification_sent'', ''notification_failed''}) \<and>
       (0 < n \<longrightarrow> (\<exists>so \<in> set (me_solvers me). \<exists>e \<in> set es. notified so d x now e)) \<and>
       db_sessions (w_db w') = db_sessions (w_db ?w1)"
    using eq es ss by auto
qed

lemma tell_solvers_kept:
  assumes "well_behaved out" and "opening_alone out" and "tell_solvers out me d x t now w = (r, w')"
  shows "opening_kept (w_db w) (w_db w')"
  using tell_solvers_spec(4) [OF assms(1,3)] others_kept [OF assms(2), of w]
  by (auto intro: opening_kept_trans opening_kept_same)

lemma send_opening_notice_step:
  assumes "well_behaved out"
  shows "world_step P w (send_opening_notice out me d now w)"
proof -
  obtain r w1 where t: "tell_solvers out me d ''handoff'' (opening_failed_text d) now w = (r, w1)" by force
  note spec = tell_solvers_spec [OF assms t]
  have "world_step P w w1" by (rule world_step_db [OF spec(1,2)])
  then show ?thesis
    by (auto simp: send_opening_notice_def t log_event_Inr OPENING_NOTICE_SENT_def split: sum.splits
        intro: world_step_trans [OF _ world_step_logged])
qed

lemma send_opening_notice_kept:
  assumes "well_behaved out" and "opening_alone out"
  shows "opening_kept (w_db w) (w_db (send_opening_notice out me d now w))"
proof -
  obtain r w1 where t: "tell_solvers out me d ''handoff'' (opening_failed_text d) now w = (r, w1)" by force
  have "opening_kept (w_db w) (w_db w1)" by (rule tell_solvers_kept [OF assms t])
  then have "opening_kept (w_db w) (logged (w_db w1) d None OPENING_NOTICE_SENT (JObj []) now)"
    by (rule opening_kept_trans) (simp add: opening_kept_same)
  with \<open>opening_kept (w_db w) (w_db w1)\<close> show ?thesis
    by (simp add: send_opening_notice_def t log_event_Inr OPENING_NOTICE_SENT_def)
qed

section \<open>Steps of the opening\<close>

lemma take_session_facts_step:
  assumes "well_behaved out" and "take_session_facts out ns d w = (r, w')"
  shows "world_step P w w'" "w_sent w' = w_sent w" "opening_alone out \<Longrightarrow> opening_kept (w_db w) (w_db w')"
proof -
  have w': "w' = others out w \<or> w' = others out (others out w)"
    using assms(2) by (auto simp: take_session_facts_def Let_def split: sum.splits option.splits if_splits)
  then show "world_step P w w'"
    using db_grows_trans [OF others_grows [OF assms(1), of w] others_grows [OF assms(1), of "others out w"]]
      others_grows [OF assms(1), of w] by (intro world_step_db) auto
  show "w_sent w' = w_sent w" using w' by auto
  show "opening_alone out \<Longrightarrow> opening_kept (w_db w) (w_db w')"
    using w' others_kept [of out w] others_kept [of out "others out w"] by (auto intro: opening_kept_trans)
qed

lemma insert_session_new:
  assumes "insert_session ds t n = Inr (True, t')"
  shows "t' = t @ [opening_row n]" "get_session t' (n_session_id n) = Some (opening_row n)"
proof -
  show t': "t' = t @ [opening_row n]" using assms by (auto simp: insert_session_def split: if_splits)
  have "\<forall>s \<in> set t. s_session_id s \<noteq> n_session_id n" using assms by (auto simp: insert_session_def split: if_splits)
  then show "get_session t' (n_session_id n) = Some (opening_row n)"
    by (auto simp: t' get_session_def find_append opening_row_def find_None_iff split: option.splits dest: find_key_some)
qed

lemma insert_session_grows:
  assumes "insert_session ds (db_sessions s) n = Inr (b, t')"
  shows "db_grows s (s\<lparr>db_sessions := t'\<rparr>)" "opening_kept s (s\<lparr>db_sessions := t'\<rparr>)"
proof -
  have t': "t' = db_sessions s \<or> t' = db_sessions s @ [opening_row n]"
    using assms by (auto simp: insert_session_def split: if_splits)
  show "db_grows s (s\<lparr>db_sessions := t'\<rparr>)"
    using t' sessions_ok_insert [OF _ assms] by (auto simp: db_grows_def get_session_def find_append)
  show "opening_kept s (s\<lparr>db_sessions := t'\<rparr>)"
    using t' by (auto simp: opening_kept_def get_session_def find_append)
qed

lemma store_session_spec:
  assumes "well_behaved out" and "store_session out ns d info buyer seller now w = (r, w')"
  shows "world_step P w w'" "w_sent w' = w_sent w" "opening_alone out \<Longrightarrow> opening_kept (w_db w) (w_db w')"
    "r = Inr ses \<Longrightarrow> get_session (db_sessions (w_db w')) (s_session_id ses) = Some ses \<and>
       s_dispute_id ses = d \<and> s_state ses = Opening"
proof -
  let ?w1 = "others out w"
  let ?n = "\<lparr>n_session_id = ns_new_id ns (w_step ?w1), n_dispute_id = d, n_buyer_trade_pubkey = buyer, n_seller_trade_pubkey = seller,
            n_fiat_amount = Some (dec_int (di_fiat_amount info)), n_fiat_code = od_fiat_code (fetch_order (ns_order ns (w_step w))),
            n_payment_method = (if di_payment_method info = [] then None else Some (di_payment_method info)),
            n_order_published_at = od_published_at (fetch_order (ns_order ns (w_step w))), n_now = max (os_clock out (w_step ?w1)) now\<rparr>"
  consider (failed) "w' = ?w1" "\<exists>e. r = Inl e"
    | (stored) b t where "insert_session (map d_dispute_id (db_disputes (w_db ?w1))) (db_sessions (w_db ?w1)) ?n = Inr (b, t)"
        "w' = ?w1\<lparr>w_db := (w_db ?w1)\<lparr>db_sessions := t\<rparr>\<rparr>"
        "r = Inr ses \<Longrightarrow> b \<and> get_session t (ns_new_id ns (w_step ?w1)) = Some ses"
    using assms(2) by (auto simp: store_session_def Let_def split: sum.splits option.splits if_splits)
  note cs = this
  have "world_step P w w' \<and> w_sent w' = w_sent w \<and> (opening_alone out \<longrightarrow> opening_kept (w_db w) (w_db w')) \<and>
    (r = Inr ses \<longrightarrow> get_session (db_sessions (w_db w')) (s_session_id ses) = Some ses \<and> s_dispute_id ses = d \<and> s_state ses = Opening)"
  proof (cases rule: cs)
    case failed
    then show ?thesis using others_grows [OF assms(1)] others_kept by (auto intro: world_step_db)
  next
    case (stored b t)
    note g = insert_session_grows [OF stored(1)]
    have "world_step P w w'"
      using db_grows_trans [OF others_grows [OF assms(1)] g(1)] stored(2) by (intro world_step_db) auto
    moreover have "opening_alone out \<longrightarrow> opening_kept (w_db w) (w_db w')"
      using opening_kept_trans [OF others_kept g(2)] stored(2) by auto
    moreover have "ses = opening_row ?n" if "r = Inr ses"
    proof -
      have b: "b" "get_session t (ns_new_id ns (w_step ?w1)) = Some ses" using stored(3) [OF that] by auto
      with stored(1) have "insert_session (map d_dispute_id (db_disputes (w_db ?w1))) (db_sessions (w_db ?w1)) ?n = Inr (True, t)" by simp
      from insert_session_new(2) [OF this] b(2) show ?thesis by simp
    qed
    ultimately show ?thesis using stored(2,3) by (auto simp: opening_row_def)
  qed
  then show "world_step P w w'" "w_sent w' = w_sent w" "opening_alone out \<Longrightarrow> opening_kept (w_db w) (w_db w')"
    "r = Inr ses \<Longrightarrow> get_session (db_sessions (w_db w')) (s_session_id ses) = Some ses \<and>
       s_dispute_id ses = d \<and> s_state ses = Opening" by blast+
qed

lemma create_session_spec:
  assumes "well_behaved out" and "create_session out ns d info now dk w = (r, dk', w')"
  shows "world_step P w w'" "w_sent w' = w_sent w" "opening_alone out \<Longrightarrow> opening_kept (w_db w) (w_db w')"
    "r = Inr ses \<Longrightarrow> opening_alone out \<Longrightarrow> s_dispute_id ses = d \<and> is_open (dk_chats dk') (s_session_id ses) \<and>
       (\<exists>cur. get_session (db_sessions (w_db w')) (s_session_id ses) = Some cur \<and> s_dispute_id cur = d \<and>
          opening_or_over (s_state cur))"
    "dk_taking dk' = dk_taking dk"
proof -
  have "world_step P w w' \<and> w_sent w' = w_sent w \<and> (opening_alone out \<longrightarrow> opening_kept (w_db w) (w_db w')) \<and>
    (r = Inr ses \<longrightarrow> opening_alone out \<longrightarrow> s_dispute_id ses = d \<and> is_open (dk_chats dk') (s_session_id ses) \<and>
       (\<exists>cur. get_session (db_sessions (w_db w')) (s_session_id ses) = Some cur \<and> s_dispute_id cur = d \<and>
          opening_or_over (s_state cur))) \<and> dk_taking dk' = dk_taking dk"
  proof (cases "di_buyer_pubkey info = None \<or> di_seller_pubkey info = None")
    case True
    with assms(2) show ?thesis
      by (auto simp: create_session_def opening_kept_same split: option.splits)
  next
    case False
    then obtain buyer seller where keys: "di_buyer_pubkey info = Some buyer" "di_seller_pubkey info = Some seller" by auto
    obtain r1 w1 where st: "store_session out ns d info buyer seller now w = (r1, w1)" by force
    note spec = store_session_spec [OF assms(1) st]
    note eq = assms(2) [unfolded create_session_def keys option.case prod.case st]
    show ?thesis
    proof (cases r1)
      case (Inl e)
      with eq spec(1-3) show ?thesis by auto
    next
      case (Inr x)
      note x = spec(4) [OF Inr]
      have w': "w' = others out w1" and r: "r = Inr ses \<longrightarrow> ses = x \<and> is_open (dk_chats dk') (s_session_id ses)"
        and dk': "dk_taking dk' = dk_taking dk"
        using eq Inr opened_is_open by (auto split: prod.splits sum.splits)
      have "world_step P w w'"
        using spec(1) others_grows [OF assms(1), of w1] unfolding w'
        by (intro world_step_trans [OF spec(1)] world_step_db) auto
      moreover have kept: "opening_kept (w_db w) (w_db w')" if "opening_alone out"
        unfolding w' by (rule opening_kept_trans [OF spec(3) [OF that] others_kept [OF that]])
      moreover have "\<exists>cur. get_session (db_sessions (w_db w')) (s_session_id x) = Some cur \<and> s_dispute_id cur = d \<and>
          opening_or_over (s_state cur)" if a: "opening_alone out"
      proof -
        obtain cur where "get_session (db_sessions (w_db w')) (s_session_id x) = Some cur" "opening_or_over (s_state cur)"
          using others_kept [OF a, of w1] x unfolding w' opening_kept_def opening_or_over_def by blast
        moreover have "s_dispute_id cur = d"
          using others_grows [OF assms(1), of w1] x calculation(1) unfolding w' db_grows_def by fastforce
        ultimately show ?thesis by blast
      qed
      ultimately show ?thesis using x r dk' spec(2) w' by auto
    qed
  qed
  then show "world_step P w w'" "w_sent w' = w_sent w" "opening_alone out \<Longrightarrow> opening_kept (w_db w) (w_db w')"
    "r = Inr ses \<Longrightarrow> opening_alone out \<Longrightarrow> s_dispute_id ses = d \<and> is_open (dk_chats dk') (s_session_id ses) \<and>
       (\<exists>cur. get_session (db_sessions (w_db w')) (s_session_id ses) = Some cur \<and> s_dispute_id cur = d \<and>
          opening_or_over (s_state cur))"
    "dk_taking dk' = dk_taking dk" by blast+
qed

text \<open>An opening message, sent while its session is opening.\<close>

definition opener_of :: "session \<Rightarrow> sent_message \<Rightarrow> bool" where
  "opener_of ses m \<longleftrightarrow> sm_session_id m = s_session_id ses \<and> (sm_party m, sm_template m) \<in> set OPENERS \<and>
     sm_state m = Some Opening"

lemma greet_loop_spec:
  assumes "well_behaved out" and "opening_alone out" and "set qs \<subseteq> set OPENERS"
    and "get_session (db_sessions (w_db w)) (s_session_id ses) = Some cur" and "opening_or_over (s_state cur)"
    and "greet_loop out me c ses a qs w = (r, w')"
  shows "world_step (opener_of ses) w w' \<and> opening_kept (w_db w) (w_db w') \<and>
    (r = Inr () \<longrightarrow> (\<exists>ms. w_sent w' = w_sent w @ ms \<and> map (\<lambda>m. (sm_party m, sm_template m)) ms = qs))"
  using assms(3-6)
proof (induction qs arbitrary: w cur)
  case Nil
  then show ?case by (auto simp: opening_kept_same)
next
  case (Cons q qs)
  obtain p question where q: "q = (p, question)" by (cases q)
  show ?case
  proof (cases "render_opening c question a")
    case (Inl e)
    with Cons.prems(4) show ?thesis by (auto simp: q opening_kept_same)
  next
    case (Inr t)
    obtain r1 w1 where one: "send_chat out send_to_party ses p question t (ms_default_language (me_settings me)) w = (r1, w1)" by force
    note one' = one [unfolded send_to_party_def]
    have state: "map_option s_state (get_session (db_sessions (w_db (others out w))) (s_session_id ses)) \<in> Some ` Collect opening_or_over"
      using others_kept [OF assms(2), of w] Cons.prems(2,3) unfolding opening_kept_def by fastforce
    have new: "w_sent w1 = w_sent w \<or> (\<exists>m. w_sent w1 = w_sent w @ [m] \<and> opener_of ses m \<and> sm_party m = p \<and> sm_template m = question)"
    proof -
      obtain r0 given s' where s: "send_when (\<lambda>st. \<not> is_terminal st) (os_env out (w_step (others out w))) (os_chat out (w_step (others out w))) ses
          \<lparr>ob_party = p, ob_text = t, ob_template_id = Some question, ob_lang = Some (ms_default_language (me_settings me))\<rparr>
          (w_db (others out w)) = (r0, given, s')"
        by (metis prod_cases3)
      show ?thesis
        using one' s send_when_gate [OF s] state Cons.prems(1)
        by (cases given) (auto simp: send_chat_def Let_def opener_of_def q opening_or_over_def)
    qed
    note spec = send_chat_spec [OF assms(1) one']
    have s1: "world_step (opener_of ses) w w1"
      using spec(1) new by (auto simp: world_step_def)
    have k1: "opening_kept (w_db w) (w_db w1)" by (rule send_chat_kept [OF assms(2) one'])
    show ?thesis
    proof (cases r1)
      case (Inl e)
      with Cons.prems(4) Inr s1 k1 show ?thesis by (auto simp: q one)
    next
      case sent: (Inr u)
      with Cons.prems(4) Inr have rest: "greet_loop out me c ses a qs w1 = (r, w')" by (simp add: q one)
      obtain cur1 where "get_session (db_sessions (w_db w1)) (s_session_id ses) = Some cur1" "opening_or_over (s_state cur1)"
        using k1 Cons.prems(2,3) unfolding opening_kept_def by blast
      from Cons.IH [OF _ this rest] Cons.prems(1)
      have IH: "world_step (opener_of ses) w1 w'" "opening_kept (w_db w1) (w_db w')"
        "r = Inr () \<longrightarrow> (\<exists>ms. w_sent w' = w_sent w1 @ ms \<and> map (\<lambda>m. (sm_party m, sm_template m)) ms = qs)" by auto
      obtain m where "w_sent w1 = w_sent w @ [m]" "sm_party m = p" "sm_template m = question"
        using spec(3) sent by (auto simp: about_def)
      then have "w_sent w' = w_sent w @ m # ms \<and> map (\<lambda>m. (sm_party m, sm_template m)) (m # ms) = q # qs"
        if "w_sent w' = w_sent w1 @ ms" "map (\<lambda>m. (sm_party m, sm_template m)) ms = qs" for ms
        using that by (simp add: q)
      with IH(3) have "r = Inr () \<longrightarrow> (\<exists>ms. w_sent w' = w_sent w @ ms \<and> map (\<lambda>m. (sm_party m, sm_template m)) ms = q # qs)"
        by blast
      then show ?thesis
        using world_step_trans [OF s1 IH(1)] opening_kept_trans [OF k1 IH(2)] by blast
    qed
  qed
qed

lemma greet_spec:
  assumes "well_behaved out" and "opening_alone out"
    and "get_session (db_sessions (w_db w)) (s_session_id ses) = Some cur" and "opening_or_over (s_state cur)"
    and "greet out me ses w = (r, w')"
  shows "world_step (opener_of ses) w w' \<and> opening_kept (w_db w) (w_db w') \<and>
    (r = Inr () \<longrightarrow> (\<exists>ms. w_sent w' = w_sent w @ ms \<and> map (\<lambda>m. (sm_party m, sm_template m)) ms = OPENERS))"
proof (cases "map_of (me_catalogs me) (ms_default_language (me_settings me))")
  case None
  with assms(5) show ?thesis by (auto simp: greet_def opening_kept_same)
next
  case (Some c)
  with assms(5) obtain a where "greet_loop out me c ses a OPENERS w = (r, w')" by (auto simp: greet_def)
  from greet_loop_spec [OF assms(1,2) subset_refl assms(3,4) this] show ?thesis .
qed

lemma get_set_state:
  "get_session (snd (set_state t sid st now)) k =
     map_option (\<lambda>r. if s_session_id r = sid \<and> live r then set_state_row st now r else r) (get_session t k)"
  unfolding get_session_def set_state_run by (rule moving.find_run)

lemma activate_grows:
  assumes "\<And>cur. get_session (db_sessions s) sid = Some cur \<Longrightarrow> opening_or_over (s_state cur)"
  shows "db_grows s (s\<lparr>db_sessions := snd (set_state (db_sessions s) sid Active now)\<rparr>)"
proof -
  have "state_moves (s_state x) Active"
    if "get_session (db_sessions s) k = Some x" "s_session_id x = sid" "live x" for k x
  proof -
    have "s_session_id x = k" using that(1) by (auto simp: get_session_def dest: find_key_some)
    with that assms have "opening_or_over (s_state x)" by blast
    with that(3) show ?thesis by (auto simp: opening_or_over_def live_def state_moves_def)
  qed
  then show ?thesis
    using session_machine.step_inv [of "db_sessions s" "[]" "Set_State sid Active now"]
    by (auto simp: db_grows_def get_set_state set_state_row_def)
qed

lemma start_mediation_spec:
  assumes "well_behaved out" and "get_session (db_sessions (w_db w)) (s_session_id ses) = Some cur"
    and "opening_or_over (s_state cur)" and "start_mediation out me d ses now w = (r, w')"
  shows "r = Inr (Opened (s_session_id ses))" "world_step (\<lambda>_. False) w w'"
    "\<exists>x. get_session (db_sessions (w_db w')) (s_session_id ses) = Some x \<and> s_dispute_id x = s_dispute_id cur \<and> s_state x \<noteq> Opening"
    "\<exists>e \<in> set (new_events w w'). ev_dispute_id e = d \<and> ev_session_id e = Some (s_session_id ses) \<and> ev_kind e = ''mediation_opened''"
proof -
  let ?sid = "s_session_id ses"
  let ?s1 = "(w_db w)\<lparr>db_sessions := snd (set_state (db_sessions (w_db w)) ?sid Active now)\<rparr>"
  have g1: "db_grows (w_db w) ?s1" by (rule activate_grows) (use assms(2,3) in auto)
  obtain b s2 where q: "queue_observers (me_observers me) ?s1 d MEDIATING now = Inr (b, s2)"
    and g2: "db_grows ?s1 s2" "db_sessions s2 = db_sessions ?s1"
    using queue_observers_spec by blast
  obtain r1 w1 where t: "tell_solvers out me d ''mediation_started'' (mediation_started d) now (w\<lparr>w_db := s2\<rparr>) = (r1, w1)" by force
  note told = tell_solvers_spec [OF assms(1) t]
  let ?s3 = "logged (w_db w1) d (Some ?sid) ''mediation_opened'' (JObj []) now"
  have eq: "r = Inr (Opened ?sid)" "w' = w1\<lparr>w_db := ?s3\<rparr>"
    using assms(4) told(4) by (auto simp: start_mediation_def activate_tx_def q t record_opening_def log_event_Inr)
  show "r = Inr (Opened ?sid)" by (rule eq)
  have g13: "db_grows ?s1 (w_db w')"
    unfolding eq using db_grows_trans [OF g2(1)] told(1) db_grows_logged_after by auto
  show "world_step (\<lambda>_. False) w w'"
    by (rule world_step_db [OF db_grows_trans [OF g1 g13]]) (simp add: eq told(2))
  have "s_session_id cur = ?sid" using assms(2) by (auto simp: get_session_def dest: find_key_some)
  then have "get_session (db_sessions ?s1) ?sid = Some (if live cur then set_state_row Active now cur else cur)"
    using assms(2) by (simp add: get_set_state)
  moreover have "s_state (if live cur then set_state_row Active now cur else cur) \<noteq> Opening"
    using assms(3) by (auto simp: set_state_row_def opening_or_over_def live_def is_terminal_def)
  ultimately obtain x where "get_session (db_sessions ?s1) ?sid = Some x" "s_dispute_id x = s_dispute_id cur" "s_state x \<noteq> Opening"
    by (fastforce simp: set_state_row_def)
  from left_opening [OF g13 this(1,3)] this(2)
  show "\<exists>x. get_session (db_sessions (w_db w')) ?sid = Some x \<and> s_dispute_id x = s_dispute_id cur \<and> s_state x \<noteq> Opening" by auto
  obtain es where es: "db_events (w_db w1) = db_events (w_db w) @ es"
    using db_grows_trans [OF db_grows_trans [OF g1 g2(1)]] told(1) by (fastforce simp: db_grows_def)
  show "\<exists>e \<in> set (new_events w w'). ev_dispute_id e = d \<and> ev_session_id e = Some ?sid \<and> ev_kind e = ''mediation_opened''"
    by (simp add: eq new_events_def logged_def es)
qed

lemma abandon_spec:
  assumes "well_behaved out" and "abandon out me d x reason now dk w = (r, dk', w')"
  shows "r = Inr (OpeningHandedOff reason)" "world_step (\<lambda>_. False) w w'" "dk_taking dk' = dk_taking dk"
    "\<exists>e \<in> set (new_events w w'). ev_dispute_id e = d \<and> ev_session_id e = map_option s_session_id x \<and>
       ev_kind e = ''mediation_failed'' \<and> ev_payload e = JObj [(''reason'', JStr reason)]"
    "\<exists>e \<in> set (new_events w w'). ev_dispute_id e = d \<and> ev_kind e = OPENING_NOTICE_PENDING"
    "x = Some ses \<Longrightarrow> get_session (db_sessions (w_db w)) (s_session_id ses) = Some cur \<Longrightarrow>
       \<not> is_open (dk_chats dk') (s_session_id ses) \<and>
       (\<exists>cur. get_session (db_sessions (w_db w')) (s_session_id ses) = Some cur \<and> \<not> mediating (s_state cur))"
    "x = None \<Longrightarrow> opening_alone out \<Longrightarrow> opening_kept (w_db w) (w_db w')"
proof -
  define s1 where s1: "s1 = (case map_option s_session_id x of
            None \<Rightarrow> w_db w
          | Some i \<Rightarrow> (w_db w)\<lparr>db_sessions := snd (hand_off (db_sessions (w_db w)) i (handoff_reason_str OpeningFailed) now)\<rparr>)"
  let ?s2 = "logged s1 d (map_option s_session_id x) ''mediation_failed'' (JObj [(''reason'', JStr reason)]) now"
  let ?s3 = "logged ?s2 d (map_option s_session_id x) OPENING_NOTICE_PENDING (JObj []) now"
  have g1: "db_grows (w_db w) s1" unfolding s1 by (cases x) (simp_all add: db_grows_refl hand_off_grows)
  obtain b s4 where q: "queue_observers (me_observers me) ?s3 d OPENING_FAILED now = Inr (b, s4)"
    and g4: "db_grows ?s3 s4" "db_sessions s4 = db_sessions ?s3"
    using queue_observers_spec by blast
  have tx: "abandon_tx me d (map_option s_session_id x) reason now (w_db w) = Inr s4"
    using q unfolding abandon_tx_def Let_def s1 [symmetric] by (simp add: log_event_Inr OPENING_NOTICE_PENDING_def)
  have eq: "r = Inr (OpeningHandedOff reason)" "w' = send_opening_notice out me d now (w\<lparr>w_db := s4\<rparr>)"
    "dk' = (case x of None \<Rightarrow> dk | Some y \<Rightarrow> dk\<lparr>dk_chats := snd (close_chats None (dk_chats dk) (s_session_id y))\<rparr>)"
    using assms(2) by (auto simp: abandon_def tx)
  note step = send_opening_notice_step [OF assms(1), where P = "\<lambda>_. False" and me = me and d = d and now = now and w = "w\<lparr>w_db := s4\<rparr>"]
  have g14: "db_grows s1 s4" by (rule db_grows_trans [OF db_grows_logged db_grows_trans [OF db_grows_logged g4(1)]])
  have g1w: "db_grows s1 (w_db w')" unfolding eq using db_grows_trans [OF g14] world_step_grows [OF step] by auto
  show "r = Inr (OpeningHandedOff reason)" by (rule eq)
  show "world_step (\<lambda>_. False) w w'"
    unfolding eq by (rule world_step_trans [OF _ step], rule world_step_db) (auto intro: db_grows_trans [OF g1 g14])
  show "dk_taking dk' = dk_taking dk" by (cases x) (simp_all add: eq)
  have ev: "db_events s1 = db_events (w_db w)" unfolding s1 by (cases x) simp_all
  obtain es es2 where "db_events s4 = db_events ?s3 @ es" "db_events (w_db w') = db_events s4 @ es2"
    using g4(1) world_step_grows [OF step] unfolding eq by (auto simp: db_grows_def)
  then have new: "new_events w w' = drop (length (db_events (w_db w))) (db_events ?s3) @ es @ es2"
    by (simp add: new_events_def logged_def ev)
  show "\<exists>e \<in> set (new_events w w'). ev_dispute_id e = d \<and> ev_session_id e = map_option s_session_id x \<and>
       ev_kind e = ''mediation_failed'' \<and> ev_payload e = JObj [(''reason'', JStr reason)]"
    "\<exists>e \<in> set (new_events w w'). ev_dispute_id e = d \<and> ev_kind e = OPENING_NOTICE_PENDING"
    by (simp_all add: new logged_def ev)
  show "\<not> is_open (dk_chats dk') (s_session_id ses) \<and>
       (\<exists>cur. get_session (db_sessions (w_db w')) (s_session_id ses) = Some cur \<and> \<not> mediating (s_state cur))"
    if x: "x = Some ses" and cur: "get_session (db_sessions (w_db w)) (s_session_id ses) = Some cur"
  proof -
    have "s_session_id cur = s_session_id ses" using cur by (auto simp: get_session_def dest: find_key_some)
    then obtain y where "get_session (db_sessions s1) (s_session_id ses) = Some y" "\<not> mediating (s_state y)"
      using cur x by (auto simp: s1 get_hand_off hand_off_row_def mediating_def)
    from not_mediating_stays [OF g1w this] show ?thesis by (auto simp: eq x closed_not_open)
  qed
  show "opening_kept (w_db w) (w_db w')" if "x = None" "opening_alone out"
  proof -
    have "opening_kept (w_db w) s4" using that(1) g4(2) by (intro opening_kept_same) (simp add: s1)
    then show ?thesis
      using send_opening_notice_kept [OF assms(1) that(2), of "w\<lparr>w_db := s4\<rparr>"] unfolding eq
      by (auto intro: opening_kept_trans)
  qed
qed

section \<open>What an opening leaves behind\<close>

lemma new_events_later:
  assumes "world_step P a b" and "world_step Q b c" and "e \<in> set (new_events b c)"
  shows "e \<in> set (new_events a c)"
  using assms new_events_trans [OF world_step_grows [OF assms(1)] world_step_grows [OF assms(2)]] by simp

lemma take_reason_given: "take_session_facts out ns d w = (Inl reason, w') \<Longrightarrow> reason \<noteq> []"
  by (auto simp: take_session_facts_def Let_def split: sum.splits option.splits if_splits)

text \<open>What an opening that reached the parties left: both openers, sent while the session was opening.\<close>

definition opened_well :: "string \<Rightarrow> string \<Rightarrow> desk \<Rightarrow> world \<Rightarrow> world \<Rightarrow> bool" where
  "opened_well d sid dk w w' \<longleftrightarrow>
     (\<exists>ses. get_session (db_sessions (w_db w')) sid = Some ses \<and> s_dispute_id ses = d \<and> s_state ses \<noteq> Opening) \<and>
     is_open (dk_chats dk) sid \<and>
     (\<exists>ms. w_sent w' = w_sent w @ ms \<and> map (\<lambda>m. (sm_party m, sm_template m)) ms = OPENERS \<and>
        (\<forall>m \<in> set ms. sm_session_id m = sid \<and> sm_state m = Some Opening)) \<and>
     (\<exists>e \<in> set (new_events w w'). ev_dispute_id e = d \<and> ev_session_id e = Some sid \<and> ev_kind e = ''mediation_opened'')"

text \<open>What a failed opening left: the reason, a notice to be sent, and no party waiting for an answer.\<close>

definition handed_off_well :: "string \<Rightarrow> string \<Rightarrow> desk \<Rightarrow> world \<Rightarrow> world \<Rightarrow> bool" where
  "handed_off_well d reason dk w w' \<longleftrightarrow>
     (\<exists>e \<in> set (new_events w w'). ev_dispute_id e = d \<and> ev_kind e = ''mediation_failed'' \<and>
        ev_payload e = JObj [(''reason'', JStr reason)]) \<and>
     (\<exists>e \<in> set (new_events w w'). ev_dispute_id e = d \<and> ev_kind e = OPENING_NOTICE_PENDING) \<and>
     (\<exists>ms. w_sent w' = w_sent w @ ms \<and>
        (\<forall>m \<in> set ms. \<not> is_open (dk_chats dk) (sm_session_id m) \<and>
           (\<exists>ses. get_session (db_sessions (w_db w')) (sm_session_id m) = Some ses \<and> \<not> mediating (s_state ses))))"

definition left_unopened :: "string \<Rightarrow> string \<Rightarrow> world \<Rightarrow> world \<Rightarrow> bool" where
  "left_unopened d reason w w' \<longleftrightarrow> w_sent w' = w_sent w \<and>
     (\<exists>e \<in> set (new_events w w'). ev_dispute_id e = d \<and> ev_session_id e = None \<and> ev_kind e = ''mediation_not_opened'' \<and>
        ev_payload e = JObj [(''reason'', JStr reason)])"

lemma abandoned_unwritten:
  assumes "well_behaved out" and "world_step (\<lambda>_. False) w w1"
    and "abandon out me d None reason now dk w1 = (r, dk', w')"
  shows "r = Inr (OpeningHandedOff reason) \<and> handed_off_well d reason dk' w w'"
proof -
  note spec = abandon_spec [OF assms(1,3)]
  have "w_sent w' = w_sent w" using world_step_trans [OF assms(2) spec(2)] by (simp add: world_step_def)
  then show ?thesis
    using spec(1,4,5) new_events_later [OF assms(2) spec(2)] by (auto simp: handed_off_well_def)
qed

lemma greeted_run:
  assumes "well_behaved out" and "world_step (\<lambda>_. False) w w2" and "world_step (opener_of ses) w2 w3"
    and "world_step (\<lambda>_. False) w3 w'"
  obtains ms where "w_sent w' = w_sent w @ ms" "w_sent w3 = w_sent w2 @ ms" "\<forall>m \<in> set ms. opener_of ses m"
  using assms by (auto simp: world_step_def)


lemma claim_take_facts:
  assumes "claim_take me d dk s = (Inr (Inr ()), dk')"
  shows "ms_enabled (me_settings me)" "me_judge me \<noteq> None"
    "\<exists>x. get_dispute (db_disputes s) d = Some x \<and> d_lifecycle x = Lc_Notified"
    "\<forall>ses \<in> set (db_sessions s). s_dispute_id ses \<noteq> d" "d \<notin> dk_taking dk"
    "fst (claim_take me d dk' s') \<noteq> Inr (Inr ())"
    "d \<notin> dk_taking (fst (snd (consider_dispute out ns me d now dk w)))"
proof -
  show "ms_enabled (me_settings me)" "me_judge me \<noteq> None"
    "\<exists>x. get_dispute (db_disputes s) d = Some x \<and> d_lifecycle x = Lc_Notified"
    "\<forall>ses \<in> set (db_sessions s). s_dispute_id ses \<noteq> d" and fresh: "d \<notin> dk_taking dk"
    using assms
    by (auto simp: claim_take_def eligibility_check_def Let_def exists_for_dispute_def split: option.splits if_splits)
  have "d \<in> dk_taking dk'"
    using assms by (auto simp: claim_take_def Let_def split: option.splits sum.splits)
  then show "fst (claim_take me d dk' s') \<noteq> Inr (Inr ())"
    by (auto simp: claim_take_def eligibility_check_def Let_def split: option.splits if_splits)
  show "d \<notin> dk_taking (fst (snd (consider_dispute out ns me d now dk w)))"
  proof -
    obtain verdict dk1 where c: "claim_take me d dk (w_db w) = (verdict, dk1)" by force
    have "d \<notin> dk_taking dk1" if "verdict \<noteq> Inr (Inr ())"
      using c fresh that by (auto simp: claim_take_def Let_def split: option.splits sum.splits)
    moreover have "d \<notin> dk_taking (release_take d dk2)" for dk2 by (simp add: release_take_def)
    ultimately show ?thesis
      unfolding consider_dispute_def c
      by (cases verdict rule: sum.exhaust; cases "projr verdict") (simp_all add: split_beta Let_def)
  qed
qed

text \<open>
  Property C19. A dispute is taken only when all of this holds: mediation is enabled, the judge is ready, the dispute
  was notified to the solvers and nothing else became of it, it never had a session, and no other take
  of it is running. While it is taken no second claim succeeds, and \<open>consider\<close> gives the claim back
  whatever the opening's outcome.\<close>

theorem taken_only_when_eligible:
  assumes "claim_take me d dk s = (Inr (Inr ()), dk')"
  shows "ms_enabled (me_settings me) \<and> me_judge me \<noteq> None \<and>
    (\<exists>x. get_dispute (db_disputes s) d = Some x \<and> d_lifecycle x = Lc_Notified) \<and>
    (\<forall>ses \<in> set (db_sessions s). s_dispute_id ses \<noteq> d) \<and> d \<notin> dk_taking dk \<and>
    (\<forall>s'. fst (claim_take me d dk' s') \<noteq> Inr (Inr ())) \<and>
    (\<forall>out ns now w. d \<notin> dk_taking (fst (snd (consider_dispute out ns me d now dk w))))"
  by (intro conjI allI) (rule claim_take_facts [OF assms])+


section \<open>Examples\<close>

text \<open>A node that speaks protocol v2 and answers the take; its chat channels open or not.\<close>

definition example_node :: "string option \<Rightarrow> node_side" where
  "example_node chat = \<lparr>ns_node = \<lambda>_. Inr [(example_copy ''i'' 5)\<lparr>cp_event := (cp_event (example_copy ''i'' 5))
       \<lparr>no_tags := [[''protocol_version'', ''2'']]\<rparr>\<rparr>],
     ns_order = \<lambda>_. Inr [], ns_uuid = Inr, ns_take = \<lambda>_ _ _. example_take, ns_new_id = \<lambda>_. ''s1'',
     ns_author = Inr, ns_subscribe = \<lambda>_. chat, ns_instant = \<lambda>_. 0, ns_shown = \<lambda>_. ''p''\<rparr>"

definition example_waiting :: world where
  "example_waiting = (example_mediated [])\<lparr>w_db := empty_db
     \<lparr>db_disputes := [(new_dispute_row \<lparr>nd_dispute_id = ''d1'', nd_initiator = InitBuyer, nd_status = ''initiated'',
        nd_status_at = 0, nd_now = 0\<rparr>)\<lparr>d_lifecycle := Lc_Notified\<rparr>]\<rparr>\<rparr>"

definition no_desk :: desk where
  "no_desk = \<lparr>dk_taking = {}, dk_chats = no_chats\<rparr>"

lemma quiet_opening_alone: "opening_alone quiet_outside"
  by (simp add: opening_alone_def quiet_outside_def opening_kept_same)

lemma example_takes:
  "take_session_facts quiet_outside (example_node chat) ''d1'' w = (Inr example_info, others quiet_outside (others quiet_outside w))"
  by (simp add: take_session_facts_def example_node_def fetch_node_def newest_event_def node_from_event_def
      difficulty_def example_copy_def speaks_v2_def take_dispute_def example_take_def interpret_reply_def
      unwrap_or_def)

definition example_greeted :: session where
  "example_greeted = opening_row \<lparr>n_session_id = ''s1'', n_dispute_id = ''d1'', n_buyer_trade_pubkey = ''b'',
     n_seller_trade_pubkey = ''s'', n_fiat_amount = Some (dec_int 50000), n_fiat_code = None, n_payment_method = Some ''bank'',
     n_order_published_at = None, n_now = 50\<rparr>"

definition example_created :: "nat \<Rightarrow> world" where
  "example_created n = example_waiting\<lparr>w_db := (w_db example_waiting)\<lparr>db_sessions := [example_greeted]\<rparr>, w_step := n\<rparr>"

lemma example_stores:
  "store_session quiet_outside (example_node chat) ''d1'' example_info ''b'' ''s'' 50
     (others quiet_outside (others quiet_outside example_waiting)) = (Inr example_greeted, example_created 3)"
  by (simp add: store_session_def others_def quiet_outside_def example_node_def fetch_order_def newest_event_def no_order_facts_def
      example_info_def insert_session_def example_waiting_def example_mediated_def empty_db_def new_dispute_row_def
      get_session_def opening_row_def example_greeted_def example_created_def Let_def)

lemma quiet_send:
  assumes "get_session (db_sessions (w_db w)) (s_session_id ses) = Some cur" and "\<not> is_terminal (s_state cur)"
  shows "\<exists>i w'. send_chat quiet_outside send_to_party ses p template t lang w = (Inr i, w') \<and>
    db_sessions (w_db w') = db_sessions (w_db w)"
proof -
  have "s_session_id ses \<in> set (session_ids (w_db w))"
    using assms(1) unfolding session_ids_def get_session_def by (metis (mono_tags, lifting) find_Some_iff image_eqI list.set_map nth_mem)
  then have "\<exists>b t'. insert_message (session_ids (w_db w)) (db_messages (w_db w)) n = Inr (b, t')"
    if "nm_session_id n = s_session_id ses" for n
    using that by (auto simp: insert_message_def)
  from this [of "\<lparr>nm_session_id = s_session_id ses, nm_direction = Out, nm_party = p,
      nm_template_id = Some template, nm_lang = Some lang, nm_content = t, nm_attachments = 0, nm_inner_event_id = ''i'',
      nm_created_at = 5\<rparr>"]
  show ?thesis
    using assms by (auto simp: send_chat_def send_to_party_def send_when_def quiet_outside_def others_def Let_def)
qed

lemma example_renders:
  "render_opening (snd (hd example_texts)) ASK_BUYER_SENT None = Inr (''I'' @ [NL, NL] @ ''Sent?'')"
  "render_opening (snd (hd example_texts)) ASK_SELLER_RECEIVED None = Inr (''I'' @ [NL, NL] @ ''Received?'')"
  by code_simp+

lemma example_greets: "fst (greet quiet_outside example_chatting example_greeted (example_created 4)) = Inr ()"
proof -
  let ?c = "snd (hd example_texts)" and ?w = "example_created 4" and ?ses = example_greeted
  have c: "map_of (me_catalogs example_chatting) (ms_default_language (me_settings example_chatting)) = Some ?c"
    by (simp add: example_chatting_def example_texts_def example_mediator_def)
  have a: "s_fiat_code ?ses = None" by (simp add: example_greeted_def opening_row_def)
  have g: "get_session (db_sessions (w_db ?w)) (s_session_id ?ses) = Some ?ses" "\<not> is_terminal (s_state ?ses)"
    by (simp_all add: example_created_def get_session_def example_greeted_def opening_row_def)
  obtain i1 w1 where one: "send_chat quiet_outside send_to_party ?ses Buyer ASK_BUYER_SENT (''I'' @ [NL, NL] @ ''Sent?'')
      (ms_default_language (me_settings example_chatting)) ?w = (Inr i1, w1)" and s1: "db_sessions (w_db w1) = db_sessions (w_db ?w)"
    using quiet_send [OF g] by blast
  obtain i2 w2 where two: "send_chat quiet_outside send_to_party ?ses Seller ASK_SELLER_RECEIVED (''I'' @ [NL, NL] @ ''Received?'')
      (ms_default_language (me_settings example_chatting)) w1 = (Inr i2, w2)"
    using quiet_send [of w1 ?ses ?ses] g s1 by (metis (no_types, lifting))
  show ?thesis
    unfolding greet_def c option.case a OPENERS_def using one two example_renders by (auto split: option.split)
qed

lemma example_opens:
  "\<exists>dk w. open_dispute quiet_outside (example_node None) example_chatting ''d1'' 50 no_desk example_waiting = (Inr (Opened ''s1''), dk, w)"
proof -
  have made: "create_session quiet_outside (example_node None) ''d1'' example_info 50 no_desk
      (others quiet_outside (others quiet_outside example_waiting)) =
      (Inr example_greeted, no_desk\<lparr>dk_chats := snd (open_chats Inr None no_chats example_greeted 0)\<rparr>, example_created 4)"
  proof -
    have k: "di_buyer_pubkey example_info = Some ''b''" "di_seller_pubkey example_info = Some ''s''" by (simp_all add: example_info_def)
    have ch: "open_chats (ns_author (example_node None)) (ns_subscribe (example_node None) n) (dk_chats no_desk) example_greeted
        (ns_instant (example_node None) n) = (Inr (), snd (open_chats Inr None no_chats example_greeted 0))" for n
      by (simp add: example_node_def no_desk_def open_chats_def add_session_def Let_def)
    have o: "others quiet_outside (example_created 3) = example_created 4" by (simp add: others_def example_created_def quiet_outside_def)
    show ?thesis
      unfolding create_session_def k option.case prod.case example_stores sum.case ch o by (rule refl)
  qed
  obtain w3 where g: "greet quiet_outside example_chatting example_greeted (example_created 4) = (Inr (), w3)"
    using example_greets by (metis prod.collapse)
  obtain r w4 where st: "start_mediation quiet_outside example_chatting ''d1'' example_greeted 50 w3 = (r, w4)" by force
  have c: "get_session (db_sessions (w_db (example_created 4))) (s_session_id example_greeted) = Some example_greeted"
    "opening_or_over (s_state example_greeted)"
    by (simp_all add: example_created_def get_session_def example_greeted_def opening_row_def opening_or_over_def)
  obtain cur where "get_session (db_sessions (w_db w3)) (s_session_id example_greeted) = Some cur" "opening_or_over (s_state cur)"
    using greet_spec [OF quiet_well_behaved quiet_opening_alone c g] c unfolding opening_kept_def by blast
  from start_mediation_spec(1) [OF quiet_well_behaved this st] have "r = Inr (Opened ''s1'')"
    by (simp add: example_greeted_def opening_row_def)
  then show ?thesis
    by (simp add: open_dispute_def example_takes made g st)
qed


lemma taken_only_when_eligible_witness:
  "fst (claim_take example_chatting ''d1'' (no_desk\<lparr>dk_taking := {''d1''}\<rparr>) (w_db example_waiting)) \<noteq> Inr (Inr ()) \<and>
   ''d1'' \<notin> dk_taking no_desk"
proof -
  have "claim_take example_chatting ''d1'' no_desk (w_db example_waiting) = (Inr (Inr ()), no_desk\<lparr>dk_taking := {''d1''}\<rparr>)"
    by (simp add: claim_take_def example_waiting_def example_chatting_def example_mediator_def no_desk_def get_dispute_def
        new_dispute_row_def eligibility_check_def exists_for_dispute_def empty_db_def)
  from taken_only_when_eligible [OF this] show ?thesis by blast
qed


end
