(* ===== verification/Ticks.thy ===== *)
theory Ticks
  imports Opening
begin

text \<open>
  The timer task of \<open>src/src/mediation/timers.rs\<close>: one pass over the live sessions, then the closings
  and the notices still owed. The clocks, the pending briefs and the policy of the timers are those of
  \<open>Session_View\<close> and \<open>Policy_Timers\<close>. A session is acted on as it was listed, while the database and
  the messages are read again; other tasks change the database at every interaction.
\<close>

definition chat_open :: "outside \<Rightarrow> node_side \<Rightarrow> session \<Rightarrow> desk \<Rightarrow> world \<Rightarrow> bool \<times> desk \<times> world" where
  "chat_open out ns ses dk w =
     (if is_open (dk_chats dk) (s_session_id ses) then (True, dk, w)
      else case open_chats (ns_author ns) (ns_subscribe ns (w_step w)) (dk_chats dk) ses (ns_instant ns (w_step w)) of
          (Inl _, ch) \<Rightarrow> (False, dk\<lparr>dk_chats := ch\<rparr>, others out w)
        | (Inr _, ch) \<Rightarrow> (True, dk\<lparr>dk_chats := ch\<rparr>, others out w))"

section \<open>A session's timer\<close>

fun remind_parties :: "outside \<Rightarrow> mediator \<Rightarrow> session \<Rightarrow> party list \<Rightarrow> world \<Rightarrow> unit result \<times> world" where
  "remind_parties out me ses [] w = (Inr (), w)"
| "remind_parties out me ses (p # ps) w =
     (case send_template out me ses p REMINDER w of
        (Inl e, w') \<Rightarrow> (Inl e, w')
      | (Inr _, w') \<Rightarrow> remind_parties out me ses ps w')"

definition timeouts_of :: "mediator \<Rightarrow> timeouts" where
  "timeouts_of me = \<lparr>to_response = ms_response_timeout (me_settings me),
     to_self_resolution = ms_self_resolution_timeout (me_settings me), to_handoff_grace = ms_handoff_grace (me_settings me)\<rparr>"

definition due_timer :: "mediator \<Rightarrow> session \<Rightarrow> int \<Rightarrow> world \<Rightarrow> timer" where
  "due_timer me ses now w =
     check_timers (clocks_of ses (session_messages w ses) (dispute_events w ses) now) (timeouts_of me)"

definition tick_session :: "outside \<Rightarrow> mediator \<Rightarrow> session \<Rightarrow> int \<Rightarrow> world \<Rightarrow> unit result \<times> world" where
  "tick_session out me ses now w =
     (case due_timer me ses now w of
        Nothing \<Rightarrow> (Inr (), w)
      | Remind ps \<Rightarrow> remind_parties out me ses ps w
      | Timer_Handoff reason \<Rightarrow>
          (case hand_off_session out me ses reason (last_reading out me ses (session_messages w ses) w) now w of
             (Inl e, w') \<Rightarrow> (Inl e, w')
           | (Inr _, w') \<Rightarrow> (Inr (), w')))"

section \<open>What was not delivered\<close>

fun retry_briefs ::
    "outside \<Rightarrow> mediator \<Rightarrow> session \<Rightarrow> message list \<Rightarrow> int \<Rightarrow> (int \<times> subject) list \<Rightarrow> world \<Rightarrow> unit result \<times> world" where
  "retry_briefs out me ses ms now [] w = (Inr (), w)"
| "retry_briefs out me ses ms now ((pending, sub) # rest) w =
     (case brief_solvers out me ses sub (last_reading out me ses ms w) now w of
        (Inl e, w1) \<Rightarrow> (Inl e, w1)
      | (Inr delivered, w1) \<Rightarrow>
          (case (if 0 < delivered then brief_delivered ses pending now w1 else (Inr (), w1)) of
             (Inl e, w2) \<Rightarrow> (Inl e, w2)
           | (Inr _, w2) \<Rightarrow> retry_briefs out me ses ms now rest w2))"

text \<open>Whether a party was told is read from the messages listed at the start.\<close>

definition told_before :: "message list \<Rightarrow> party \<Rightarrow> bool" where
  "told_before ms p \<longleftrightarrow>
     list_ex (\<lambda>m. m_direction m = Out \<and> m_party m = p \<and> m_template_id m = Some HANDOFF_NOTICE) ms"

fun retry_notices :: "outside \<Rightarrow> mediator \<Rightarrow> session \<Rightarrow> message list \<Rightarrow> party list \<Rightarrow> world \<Rightarrow> world" where
  "retry_notices out me ses ms [] w = w"
| "retry_notices out me ses ms (p # ps) w =
     (if told_before ms p then retry_notices out me ses ms ps w
      else retry_notices out me ses ms ps (snd (send_template out me ses p HANDOFF_NOTICE w)))"

definition retry_parties ::
    "outside \<Rightarrow> mediator \<Rightarrow> session \<Rightarrow> message list \<Rightarrow> hold option \<Rightarrow> world \<Rightarrow> world" where
  "retry_parties out me ses ms kept_hold w =
     (case s_state ses of
        HandedOff \<Rightarrow>
          (if s_handoff_reason ses = Some (handoff_reason_str OpeningFailed) then w
           else retry_notices out me ses ms [Buyer, Seller] w)
      | Guiding \<Rightarrow> snd (resend_guides out me ses w)
      | Active \<Rightarrow>
          (case kept_hold of None \<Rightarrow> w | Some h \<Rightarrow> send_hold_notices out me ses (hold_cutoff h) [Buyer, Seller] w)
      | _ \<Rightarrow> w)"

text \<open>When a handoff or guidance of the session started last.\<close>

definition started_at :: "session \<Rightarrow> event list \<Rightarrow> int option" where
  "started_at ses evs =
     max_key ev_created_at (filter (\<lambda>e. ev_kind e = ''handoff'' \<or> ev_kind e = ''guided'') (filter (of_session ses) evs))"

definition retry_undelivered :: "outside \<Rightarrow> mediator \<Rightarrow> session \<Rightarrow> int \<Rightarrow> world \<Rightarrow> unit result \<times> world" where
  "retry_undelivered out me ses now w =
     (let ms = session_messages w ses; evs = dispute_events w ses;
          kept_hold = (case current_hold ses evs ms of
              None \<Rightarrow> None
            | Some h \<Rightarrow> if retry_after (ms_handoff_grace (me_settings me)) \<le> now - hold_at h then Some h else None)
      in if (case started_at ses evs of None \<Rightarrow> False | Some s \<Rightarrow> now - s < retry_grace_secs) then (Inr (), w)
         else case retry_briefs out me ses ms now (pending_briefs ses evs) w of
             (Inl e, w1) \<Rightarrow> (Inl e, w1)
           | (Inr _, w1) \<Rightarrow> (Inr (), retry_parties out me ses ms kept_hold w1))"

section \<open>The tick\<close>

definition tick_one ::
    "outside \<Rightarrow> node_side \<Rightarrow> mediator \<Rightarrow> session \<Rightarrow> int \<Rightarrow> desk \<Rightarrow> world \<Rightarrow> desk \<times> world" where
  "tick_one out ns me ses now dk w =
     (let (dk1, w1) =
        (if s_state ses \<in> {Active, Guiding} then
           (let (reachable, dk1, w1) = chat_open out ns ses dk w
            in if reachable then (dk1, snd (tick_session out me ses now w1))
               else (dk1, snd (hand_off_session out me ses OpeningFailed None now w1)))
         else (dk, w))
      in (dk1, snd (retry_undelivered out me ses now w1)))"

fun tick_each ::
    "outside \<Rightarrow> node_side \<Rightarrow> mediator \<Rightarrow> session list \<Rightarrow> int \<Rightarrow> desk \<Rightarrow> world \<Rightarrow> desk \<times> world" where
  "tick_each out ns me [] now dk w = (dk, w)"
| "tick_each out ns me (ses # rest) now dk w =
     (let (dk1, w1) = tick_one out ns me ses now dk w in tick_each out ns me rest now dk1 w1)"

definition retry_opening_notice :: "outside \<Rightarrow> mediator \<Rightarrow> string \<Rightarrow> int \<Rightarrow> world \<Rightarrow> world" where
  "retry_opening_notice out me d now w =
     (case get_dispute (db_disputes (w_db w)) d of
        Some x \<Rightarrow> if d_lifecycle x = Lc_Resolved then w else send_opening_notice out me d now w
      | None \<Rightarrow> send_opening_notice out me d now w)"

definition retry_opening_notices :: "outside \<Rightarrow> mediator \<Rightarrow> int \<Rightarrow> world \<Rightarrow> world" where
  "retry_opening_notices out me now w =
     fold (\<lambda>d w. retry_opening_notice out me d now w)
       (still_pending (db_events (w_db w)) OPENING_NOTICE_PENDING OPENING_NOTICE_SENT 0) w"

definition mediation_tick ::
    "outside \<Rightarrow> node_side \<Rightarrow> mediator \<Rightarrow> int \<Rightarrow> desk \<Rightarrow> world \<Rightarrow> desk \<times> world" where
  "mediation_tick out ns me now dk w =
     (let (dk1, w1) = tick_each out ns me (list_live (db_sessions (w_db w))) now dk w;
          w2 = snd (finish_pending out me (now - FINISH_LOOKBACK_SECS) now w1)
      in (dk1, retry_opening_notices out me now w2))"

section \<open>Steps\<close>

lemma remind_parties_step:
  assumes "well_behaved out"
  shows "remind_parties out me ses ps w = (r, w') \<Longrightarrow>
    world_step (\<lambda>m. sm_session_id m = s_session_id ses \<and> sm_party m \<in> set ps \<and> sm_template m = REMINDER \<and> gated m) w w'"
proof (induction ps arbitrary: w)
  case (Cons p ps)
  let ?P = "\<lambda>m. sm_session_id m = s_session_id ses \<and> sm_party m \<in> set (p # ps) \<and> sm_template m = REMINDER \<and> gated m"
  obtain r1 w1 where t: "send_template out me ses p REMINDER w = (r1, w1)" by force
  have s: "world_step ?P w w1"
    by (rule world_step_mono [OF send_template_step [OF assms t]]) (auto simp: about_def)
  show ?case
  proof (cases r1)
    case (Inl e)
    with Cons.prems s show ?thesis by (simp add: t)
  next
    case (Inr u)
    with Cons.prems have "remind_parties out me ses ps w1 = (r, w')" by (simp add: t)
    from Cons.IH [OF this] have "world_step ?P w1 w'" by (rule world_step_mono) auto
    with s show ?thesis by (rule world_step_trans)
  qed
qed simp

lemma tick_session_step:
  assumes "well_behaved out" and "tick_session out me ses now w = (r, w')"
  shows "world_step (\<lambda>m. sm_session_id m = s_session_id ses \<and> sm_template m \<in> {REMINDER, HANDOFF_NOTICE} \<and> gated m) w w'"
proof (cases "due_timer me ses now w")
  case (Timer_Handoff reason)
  obtain r1 where "hand_off_session out me ses reason (last_reading out me ses (session_messages w ses) w) now w = (r1, w')"
    using assms(2) Timer_Handoff by (auto simp: tick_session_def split: sum.splits prod.splits)
  from hand_off_session_step [OF assms(1) this] show ?thesis by (rule world_step_mono) auto
next
  case (Remind ps)
  then have "remind_parties out me ses ps w = (r, w')" using assms(2) by (simp add: tick_session_def)
  from remind_parties_step [OF assms(1) this] show ?thesis by (rule world_step_mono) auto
next
  case Nothing
  with assms(2) show ?thesis by (simp add: tick_session_def)
qed

lemma retry_briefs_step:
  assumes "well_behaved out"
  shows "retry_briefs out me ses ms now bs w = (r, w') \<Longrightarrow> world_step P w w'"
proof (induction bs arbitrary: w)
  case (Cons b bs)
  obtain pending sub where b: "b = (pending, sub)" by (cases b)
  obtain r1 w1 where s: "brief_solvers out me ses sub (last_reading out me ses ms w) now w = (r1, w1)" by force
  note s1 = brief_solvers_step [OF assms s]
  obtain r2 w2 where d: "brief_delivered ses pending now w1 = (r2, w2)" by force
  have s2: "world_step P w w2" by (rule world_step_trans [OF s1 brief_delivered_step [OF d]])
  from Cons.prems s1 s2 show ?case
    by (auto simp: b s d split: sum.splits if_splits intro: world_step_trans [OF s1 Cons.IH] world_step_trans [OF s2 Cons.IH])
qed simp

lemma retry_notices_step:
  assumes "well_behaved out"
  shows "world_step (\<lambda>m. sm_session_id m = s_session_id ses \<and> sm_template m = HANDOFF_NOTICE \<and> gated m) w
    (retry_notices out me ses ms ps w)"
proof (induction ps arbitrary: w)
  case (Cons p ps)
  obtain r w1 where t: "send_template out me ses p HANDOFF_NOTICE w = (r, w1)" by force
  have "world_step (\<lambda>m. sm_session_id m = s_session_id ses \<and> sm_template m = HANDOFF_NOTICE \<and> gated m) w w1"
    by (rule world_step_mono [OF send_template_step [OF assms t]]) (auto simp: about_def)
  then show ?case using Cons by (auto simp: t intro: world_step_trans)
qed simp

text \<open>What a tick may send about a session, by what it is for.\<close>

definition tick_templates :: "session_state \<Rightarrow> string set" where
  "tick_templates st =
     (case st of
        Active \<Rightarrow> {REMINDER, HANDOFF_NOTICE, HOLD_NOTICE}
      | Guiding \<Rightarrow> {REMINDER, HANDOFF_NOTICE} \<union> {t. guide_template t}
      | HandedOff \<Rightarrow> {HANDOFF_NOTICE}
      | _ \<Rightarrow> {})"

definition tick_sends :: "session \<Rightarrow> sent_message \<Rightarrow> bool" where
  "tick_sends ses m \<longleftrightarrow> sm_session_id m = s_session_id ses \<and> sm_template m \<in> tick_templates (s_state ses) \<and> gated m"

lemma guides_are_guides: "(p, t) \<in> set (guides path) \<Longrightarrow> guide_template t"
  unfolding guide_template_def by force

lemma retry_parties_step:
  assumes "well_behaved out"
  shows "world_step (tick_sends ses) w (retry_parties out me ses ms kept_hold w)"
proof -
  have n: "world_step (tick_sends ses) w (retry_notices out me ses ms ps w)" if "s_state ses = HandedOff" for ps
    by (rule world_step_mono [OF retry_notices_step [OF assms]]) (simp add: tick_sends_def tick_templates_def that)
  have g: "world_step (tick_sends ses) w (snd (resend_guides out me ses w))" if "s_state ses = Guiding"
    by (rule world_step_mono [OF resend_guides_step [OF assms]])
      (auto simp: tick_sends_def tick_templates_def that dest: guides_are_guides)
  have h: "world_step (tick_sends ses) w (send_hold_notices out me ses c ps w)" if "s_state ses = Active" for c ps
    by (rule world_step_mono [OF send_hold_notices_step [OF assms]]) (simp add: tick_sends_def tick_templates_def that)
  show ?thesis
    by (cases "s_state ses"; cases kept_hold) (auto simp: retry_parties_def n g h simp del: retry_notices.simps send_hold_notices.simps)
qed

lemma retry_undelivered_step:
  assumes "well_behaved out" and "retry_undelivered out me ses now w = (r, w')"
  shows "world_step (tick_sends ses) w w'"
proof -
  obtain r1 w1 where b: "retry_briefs out me ses (session_messages w ses) now (pending_briefs ses (dispute_events w ses)) w = (r1, w1)" by force
  have s1: "world_step (tick_sends ses) w w1" by (rule retry_briefs_step [OF assms(1) b])
  have "w' \<in> {w, w1} \<union> range (\<lambda>kept_hold. retry_parties out me ses (session_messages w ses) kept_hold w1)"
    using assms(2) by (auto simp: retry_undelivered_def Let_def b split: sum.splits if_splits)
  then show ?thesis using s1 world_step_trans [OF s1 retry_parties_step [OF assms(1)]] by auto
qed

lemma chat_open_step:
  assumes "well_behaved out" and "chat_open out ns ses dk w = (b, dk', w')"
  shows "world_step P w w'"
proof -
  have "w' = w \<or> w' = others out w" using assms(2) by (auto simp: chat_open_def split: if_splits sum.splits prod.splits)
  then show ?thesis using others_grows [OF assms(1), of w] by (auto intro: world_step_db)
qed

lemma tick_one_step:
  assumes "well_behaved out" and "tick_one out ns me ses now dk w = (dk', w')"
  shows "world_step (tick_sends ses) w w'"
proof -
  obtain w1 where mid: "world_step (tick_sends ses) w w1" and r: "w' = snd (retry_undelivered out me ses now w1)"
  proof (cases "s_state ses \<in> {Active, Guiding}")
    case True
    obtain b dk1 w1 where c: "chat_open out ns ses dk w = (b, dk1, w1)" by (metis prod_cases3)
    note s1 = chat_open_step [OF assms(1) c, of "tick_sends ses"]
    obtain r2 w2 where t: "tick_session out me ses now w1 = (r2, w2)" by force
    have "world_step (tick_sends ses) w1 w2"
      by (rule world_step_mono [OF tick_session_step [OF assms(1) t]]) (use True in \<open>auto simp: tick_sends_def tick_templates_def\<close>)
    moreover obtain r3 w3 where h: "hand_off_session out me ses OpeningFailed None now w1 = (r3, w3)" by force
    have "world_step (tick_sends ses) w1 w3"
      by (rule world_step_mono [OF hand_off_session_step [OF assms(1) h]]) (use True in \<open>auto simp: tick_sends_def tick_templates_def\<close>)
    ultimately show thesis
      using that [of w2] that [of w3] assms(2) True world_step_trans [OF s1]
      by (cases b) (auto simp: tick_one_def c t h)
  next
    case False
    with assms(2) that [of w] show thesis by (simp add: tick_one_def)
  qed
  obtain r0 w0 where u: "retry_undelivered out me ses now w1 = (r0, w0)" by force
  from world_step_trans [OF mid retry_undelivered_step [OF assms(1) u]] r u show ?thesis by simp
qed

lemma tick_each_step:
  assumes "well_behaved out"
  shows "tick_each out ns me sess now dk w = (dk', w') \<Longrightarrow> world_step (\<lambda>m. \<exists>ses \<in> set sess. tick_sends ses m) w w'"
proof (induction sess arbitrary: dk w)
  case (Cons ses sess)
  let ?P = "\<lambda>m. \<exists>x \<in> set (ses # sess). tick_sends x m"
  obtain dk1 w1 where one: "tick_one out ns me ses now dk w = (dk1, w1)" by force
  have "world_step ?P w w1" by (rule world_step_mono [OF tick_one_step [OF assms one]]) simp
  moreover have "world_step ?P w1 w'"
    by (rule world_step_mono [OF Cons.IH]) (use Cons.prems in \<open>auto simp: one\<close>)
  ultimately show ?case by (rule world_step_trans)
qed simp

lemma finish_step:
  assumes "well_behaved out" and "finish out me d status by_parties now w = (r, w')"
  shows "world_step (\<lambda>m. sm_template m = RESOLVED_THANKS \<and> gated m) w w'"
proof -
  let ?P = "\<lambda>m. sm_template m = RESOLVED_THANKS \<and> gated m"
  show ?thesis
  proof (cases "latest_for_dispute (db_sessions (w_db w)) d")
    case None
    with assms(2) show ?thesis by (simp add: finish_def Let_def)
  next
    case (Some ses)
    obtain b w1 where t: "thank_loop out me ses [Buyer, Seller] True w = (b, w1)" by force
    have s1: "world_step ?P w w1"
      by (rule world_step_mono [OF conjunct1 [OF thank_loop_spec [OF assms(1) t]]]) auto
    have rep: "world_step ?P x y" if "report_closing out me ses d status oc now x = (r0, y)" for x y r0 oc
      using report_closing_spec(1) [OF assms(1) that] .
    have fin: "world_step ?P x y" if "record_finished ses d status now x = (r0, y)" for x y r0
      using that by (auto simp: record_finished_def log_event_Inr FINISHED_EVENT_def world_step_logged)
    show ?thesis
      using assms(2) Some t s1
      by (auto simp: finish_def Let_def simp del: thank_loop.simps split: if_splits prod.splits sum.splits
          dest!: rep fin intro: world_step_trans)
  qed
qed

lemma finish_each_step:
  assumes "well_behaved out"
  shows "world_step (\<lambda>m. sm_template m = RESOLVED_THANKS \<and> gated m) w (finish_each out me rs now w)"
proof (induction rs arbitrary: w)
  case (Cons x rs)
  obtain r w1 where f: "finish out me (r_dispute_id x) (r_status x) (r_by_parties x) now w = (r, w1)" by force
  from world_step_trans [OF finish_step [OF assms f] Cons] show ?case by (simp add: f)
qed simp

lemma retry_opening_notices_step:
  assumes "well_behaved out"
  shows "world_step P w (retry_opening_notices out me now w)"
proof -
  have one: "world_step P x (retry_opening_notice out me d now x)" for d x
    using send_opening_notice_step [OF assms] by (auto simp: retry_opening_notice_def split: option.splits)
  have "world_step P x (fold (\<lambda>d w. retry_opening_notice out me d now w) ds x)" for ds x
    by (induction ds arbitrary: x) (auto intro: world_step_trans [OF one])
  then show ?thesis by (simp add: retry_opening_notices_def)
qed

section \<open>What a tick does\<close>

text \<open>
  The timers speak only where and while they may. Everything one tick gives to the relays is a reminder
  or a hold notice for a session that was gathering or, reminders and guidance, one that was guiding when
  the tick began; a handoff notice for one that was live; or the thanks of a resolved dispute. Each was
  allowed by its session's state at the moment it was sent, whatever other tasks did in between, and
  nothing at all is sent about a session that was opening.
\<close>

theorem tick_speaks_while_it_may:
  assumes "well_behaved out" and "mediation_tick out ns me now dk w = (dk', w')"
  shows "\<exists>ms. w_sent w' = w_sent w @ ms \<and> (\<forall>m \<in> set ms. gated m \<and>
    (sm_template m = RESOLVED_THANKS \<or>
     (\<exists>ses \<in> set (list_live (db_sessions (w_db w))). sm_session_id m = s_session_id ses \<and>
        sm_template m \<in> tick_templates (s_state ses))))"
proof -
  let ?live = "list_live (db_sessions (w_db w))"
  let ?P = "\<lambda>m. gated m \<and> (sm_template m = RESOLVED_THANKS \<or> (\<exists>ses \<in> set ?live. tick_sends ses m))"
  obtain dk1 w1 where each: "tick_each out ns me ?live now dk w = (dk1, w1)" by force
  have s1: "world_step ?P w w1"
    by (rule world_step_mono [OF tick_each_step [OF assms(1) each]]) (auto simp: tick_sends_def)
  have s2: "world_step ?P w1 (snd (finish_pending out me (now - FINISH_LOOKBACK_SECS) now w1))"
    unfolding finish_pending_def Let_def by (simp, rule world_step_mono [OF finish_each_step [OF assms(1)]]) simp
  have P: "world_step ?P w w'"
    using assms(2) world_step_trans [OF world_step_trans [OF s1 s2] retry_opening_notices_step [OF assms(1)]]
    by (auto simp: mediation_tick_def each Let_def)
  have "world_step (\<lambda>m. gated m \<and> (sm_template m = RESOLVED_THANKS \<or>
     (\<exists>ses \<in> set ?live. sm_session_id m = s_session_id ses \<and> sm_template m \<in> tick_templates (s_state ses)))) w w'"
    by (rule world_step_mono [OF P]) (auto simp: tick_sends_def)
  then show ?thesis by (simp add: world_step_def)
qed

text \<open>
  Property C20. A due handoff happens at that tick, and so does the handoff of a session no reply can reach. If the
  session's clocks say that it must go to a person, or its chat channels are closed and cannot be opened,
  then after its part of the tick Serbero no longer mediates it, whatever failed on the way.
\<close>

theorem due_session_leaves_mediation:
  assumes "well_behaved out" and "sessions_ok (db_sessions (w_db w))"
    and "get_session (db_sessions (w_db w)) (s_session_id ses) = Some cur" and "s_state ses \<in> {Active, Guiding}"
    and "chat_open out ns ses dk w = (reachable, dk1, w1)"
    and "reachable \<Longrightarrow> \<exists>reason. due_timer me ses now w1 = Timer_Handoff reason"
    and "tick_one out ns me ses now dk w = (dk', w')"
  shows "\<exists>cur. get_session (db_sessions (w_db w')) (s_session_id ses) = Some cur \<and> \<not> mediating (s_state cur)"
proof -
  have g1: "db_grows (w_db w) (w_db w1)" by (rule world_step_grows [OF chat_open_step [OF assms(1,5)]])
  then have ok1: "sessions_ok (db_sessions (w_db w1))" and "\<exists>c. get_session (db_sessions (w_db w1)) (s_session_id ses) = Some c"
    using assms(2,3) by (auto simp: db_grows_def)
  then obtain c where c: "get_session (db_sessions (w_db w1)) (s_session_id ses) = Some c" by blast
  obtain r w2 where h: "(\<exists>reason rd. hand_off_session out me ses reason rd now w1 = (r, w2)) \<and>
      w' = snd (retry_undelivered out me ses now w2)"
  proof (cases reachable)
    case True
    then obtain reason where due: "due_timer me ses now w1 = Timer_Handoff reason" using assms(6) by blast
    obtain r w2 where "hand_off_session out me ses reason (last_reading out me ses (session_messages w1 ses) w1) now w1 = (r, w2)" by force
    with that [of r w2] True due assms(4,5,7) show thesis
      by (cases r) (auto simp: tick_one_def tick_session_def)
  next
    case False
    obtain r w2 where "hand_off_session out me ses OpeningFailed None now w1 = (r, w2)" by force
    with that [of r w2] False assms(4,5,7) show thesis by (auto simp: tick_one_def)
  qed
  then obtain c2 where c2: "get_session (db_sessions (w_db w2)) (s_session_id ses) = Some c2" "\<not> mediating (s_state c2)"
    using hand_off_ends [OF assms(1) ok1 _ c] by blast
  obtain r0 w0 where u: "retry_undelivered out me ses now w2 = (r0, w0)" by force
  from not_mediating_stays [OF world_step_grows [OF retry_undelivered_step [OF assms(1) u]] c2]
  show ?thesis using h u by (metis snd_conv)
qed

text \<open>
  A session left in \<open>opening\<close> stays there. No tick acts on it: while it has no brief to deliver, its part
  of a tick does nothing at all; a turn started for it judges nothing and sends nothing; it is no session
  that ended, so its dispute is never taken again. Only the opening that created it could move it on.
\<close>

theorem opening_never_advances:
  assumes "get_session (db_sessions (w_db w)) sid = Some ses" and "s_state ses = Opening"
    and "pending_briefs ses (dispute_events w ses) = []"
  shows "tick_one out ns me ses now dk w = (dk, w)"
    "snd (run_turn out me sid now w) = w"
    "fst (claim_take me (s_dispute_id ses) dk (w_db w)) \<noteq> Inr (Inr ())"
proof -
  show "tick_one out ns me ses now dk w = (dk, w)"
    using assms(2,3) by (auto simp: tick_one_def retry_undelivered_def retry_parties_def Let_def split: option.splits)
  show "snd (run_turn out me sid now w) = w"
  proof (cases "load_session w sid")
    case None
    then show ?thesis by (simp add: run_turn_def)
  next
    case (Some x)
    obtain y ms ob where x: "x = (y, ms, ob)" by (cases x)
    have "y = ses" using Some assms(1) by (auto simp: x load_session_def split: option.splits if_splits)
    with Some assms(2) have "phase_of (s_state y) = None" "s_state y \<noteq> HandedOff" "s_state y \<noteq> Guiding" by simp_all
    with Some show ?thesis
      by (cases "me_judge me") (simp_all only: run_turn_def judge_or_flood_def x option.case prod.case if_False snd_conv)
  qed
  have "ses \<in> set (db_sessions (w_db w))" using assms(1) by (auto simp: get_session_def dest: find_key_some)
  then show "fst (claim_take me (s_dispute_id ses) dk (w_db w)) \<noteq> Inr (Inr ())"
    by (auto simp: claim_take_def eligibility_check_def exists_for_dispute_def Let_def split: option.splits if_splits)
qed

section \<open>Retries\<close>

definition brief_closed :: "session \<Rightarrow> int \<Rightarrow> db \<Rightarrow> bool" where
  "brief_closed ses pending s \<longleftrightarrow> (\<exists>b \<in> set (db_events s). ev_dispute_id b = s_dispute_id ses \<and> of_session ses b \<and>
     ev_kind b = ''brief_sent'' \<and> as_i64 (jget (ev_payload b) ''pending'') = Some pending)"

lemma brief_closed_grows: "db_grows s s' \<Longrightarrow> brief_closed ses pending s \<Longrightarrow> brief_closed ses pending s'"
  by (auto simp: brief_closed_def db_grows_def)

lemma brief_delivered_closes:
  "brief_delivered ses pending now w = (r, w') \<Longrightarrow> r = Inr () \<and> brief_closed ses pending (w_db w')"
  by (auto simp: brief_delivered_def append_for_Inr brief_closed_def logged_def of_session_def)

lemma recipients_exist: "sos \<noteq> [] \<Longrightarrow> recipients sos assigned \<noteq> []"
  by (auto simp: recipients_def Let_def)

lemma brief_solvers_reaches:
  assumes "\<forall>n key t. os_dm out n key t = None" and "me_solvers me \<noteq> []"
    and "brief_solvers out me ses sub rd now w = (Inr n, w')"
  shows "0 < n"
proof -
  let ?to = "recipients (me_solvers me) (case get_dispute (db_disputes (w_db w)) (s_dispute_id ses) of
      None \<Rightarrow> None | Some d \<Rightarrow> d_assigned_solver d)"
  obtain ps w1 where "deliver out ?to (s_dispute_id ses) ps now w1 = (Inr n, w')"
    using assms(3) by (auto simp: brief_solvers_def Let_def split: option.splits prod.splits)
  with deliver_quiet [OF assms(1), of ?to "s_dispute_id ses" ps now w1] have "n = length ?to" by simp
  with recipients_exist [OF assms(2)] show ?thesis by simp
qed

lemma retry_briefs_close:
  assumes "well_behaved out" and "\<forall>n key t. os_dm out n key t = None" and "me_solvers me \<noteq> []"
  shows "retry_briefs out me ses ms now bs w = (Inr (), w') \<Longrightarrow> \<forall>(pending, sub) \<in> set bs. brief_closed ses pending (w_db w')"
proof (induction bs arbitrary: w)
  case (Cons b bs)
  obtain pending sub where b: "b = (pending, sub)" by (cases b)
  obtain r1 w1 where s: "brief_solvers out me ses sub (last_reading out me ses ms w) now w = (r1, w1)" by force
  with Cons.prems obtain n where n: "r1 = Inr n" by (cases r1) (auto simp: b)
  with brief_solvers_reaches [OF assms(2,3)] s have "0 < n" by blast
  obtain r2 w2 where d: "brief_delivered ses pending now w1 = (r2, w2)" by force
  note closed = brief_delivered_closes [OF d]
  then have rest: "retry_briefs out me ses ms now bs w2 = (Inr (), w')" using Cons.prems \<open>0 < n\<close> by (simp add: b s n d)
  from Cons.IH [OF this] closed brief_closed_grows [OF world_step_grows [OF retry_briefs_step [OF assms(1) rest]]]
  show ?case by (auto simp: b)
qed simp

lemma closed_not_pending: "brief_closed ses pending (w_db w) \<Longrightarrow> (pending, sub) \<notin> set (pending_briefs ses (dispute_events w ses))"
  by (force simp: brief_closed_def pending_briefs_def dispute_events_def events_for_dispute_def Let_def List.map_filter_def list_ex_iff)

text \<open>
  A brief no solver got is sent again until one does. Once the grace after a handoff or guidance is over,
  every tick tries all briefs of the session still pending; if the solvers can be reached and the retry
  ends without an error, none of them is pending any more.
\<close>

theorem pending_briefs_retried:
  assumes "well_behaved out" and "\<forall>n key t. os_dm out n key t = None" and "me_solvers me \<noteq> []"
    and "\<forall>s. started_at ses (dispute_events w ses) = Some s \<longrightarrow> retry_grace_secs \<le> now - s"
    and "retry_undelivered out me ses now w = (Inr (), w')"
    and "(pending, sub) \<in> set (pending_briefs ses (dispute_events w ses))"
  shows "(pending, sub') \<notin> set (pending_briefs ses (dispute_events w' ses))"
proof -
  let ?ms = "session_messages w ses"
  obtain r1 w1 where b: "retry_briefs out me ses ?ms now (pending_briefs ses (dispute_events w ses)) w = (r1, w1)" by force
  have grace: "\<not> (case started_at ses (dispute_events w ses) of None \<Rightarrow> False | Some s \<Rightarrow> now - s < retry_grace_secs)"
    using assms(4) by (auto split: option.splits)
  with assms(5) b obtain kept_hold where r1: "r1 = Inr ()" and w': "w' = retry_parties out me ses ?ms kept_hold w1"
    by (cases r1) (auto simp: retry_undelivered_def Let_def)
  from retry_briefs_close [OF assms(1-3) b [unfolded r1]] assms(6) have "brief_closed ses pending (w_db w1)" by auto
  then have "brief_closed ses pending (w_db w')"
    unfolding w' by (rule brief_closed_grows [OF world_step_grows [OF retry_parties_step [OF assms(1)]]])
  then show ?thesis by (rule closed_not_pending)
qed

lemma notify_loop_reaches:
  "\<exists>k' s'. notify_loop send sos d x t now (k, None, s) = (k', None, s') \<and> k \<le> k' \<and>
     ((\<exists>so \<in> set sos. send (so_pubkey so) t = None) \<longrightarrow> k < k')"
proof (induction sos arbitrary: k s)
  case (Cons so sos)
  show ?case
  proof (cases "send (so_pubkey so) t")
    case None
    let ?s = "logged s d None ''notification_sent'' (JObj [(''solver'', JStr (so_pubkey so)), (''notification'', JStr x)]) now"
    from Cons.IH [of "k + 1" ?s] None show ?thesis by (auto simp: log_event_Inr Let_def)
  next
    case (Some e)
    let ?s = "logged s d None ''notification_failed''
        (JObj [(''solver'', JStr (so_pubkey so)), (''notification'', JStr x), (''error'', JStr e)]) now"
    from Cons.IH [of k ?s] Some show ?thesis by (auto simp: log_event_Inr Let_def)
  qed
qed simp

text \<open>
  The solvers hear that a mediation could not start. While a failed opening's dispute is not resolved, a
  retry reaches them as soon as one of them can be reached, however old the notice, and then the notice
  is no longer pending; once the dispute is resolved nothing is sent.
\<close>

theorem opening_notice_retried:
  assumes "well_behaved out" and "e \<in> set (db_events (w_db w))"
  shows "if \<exists>x. get_dispute (db_disputes (w_db w)) (ev_dispute_id e) = Some x \<and> d_lifecycle x = Lc_Resolved
    then retry_opening_notice out me (ev_dispute_id e) now w = w
    else (\<forall>n t. \<exists>so \<in> set (me_solvers me). os_dm out n (so_pubkey so) t = None) \<longrightarrow>
      closed_later (db_events (w_db (retry_opening_notice out me (ev_dispute_id e) now w))) OPENING_NOTICE_SENT e"
proof (cases "\<exists>x. get_dispute (db_disputes (w_db w)) (ev_dispute_id e) = Some x \<and> d_lifecycle x = Lc_Resolved")
  case True
  then show ?thesis by (auto simp: retry_opening_notice_def)
next
  case False
  let ?d = "ev_dispute_id e"
  have send: "retry_opening_notice out me ?d now w = send_opening_notice out me ?d now w"
    using False by (auto simp: retry_opening_notice_def split: option.splits)
  have "closed_later (db_events (w_db (send_opening_notice out me ?d now w))) OPENING_NOTICE_SENT e"
    if reach: "\<forall>n t. \<exists>so \<in> set (me_solvers me). os_dm out n (so_pubkey so) t = None"
  proof -
    obtain r w1 where t: "tell_solvers out me ?d ''handoff'' (opening_failed_text ?d) now w = (r, w1)" by force
    let ?w1 = "others out w"
    obtain k' s' where "notify_loop (os_dm out (w_step ?w1)) (me_solvers me) ?d ''handoff'' (opening_failed_text ?d) now (0, None, w_db ?w1) = (k', None, s')"
      and "0 < k'"
      using notify_loop_reaches [of "os_dm out (w_step ?w1)" "me_solvers me" ?d "''handoff''" "opening_failed_text ?d" now 0 "w_db ?w1"] reach
      by blast
    moreover have "me_solvers me \<noteq> []" using reach by force
    ultimately have r: "r = Inr k'" using t by (simp add: tell_solvers_def notify_solvers_def Let_def)
    have g: "db_grows (w_db w) (w_db w1)" by (rule tell_solvers_spec(1) [OF assms(1) t])
    then have "e \<in> set (db_events (w_db w1))" using assms(2) by (auto simp: db_grows_def)
    then have "ev_id e < next_rowid ev_id (db_events (w_db w1))" by (rule next_rowid_greater)
    then show ?thesis
      using \<open>0 < k'\<close> by (simp add: send_opening_notice_def t r log_event_Inr OPENING_NOTICE_SENT_def logged_def closed_later_def)
  qed
  then show ?thesis unfolding send using False by (simp only: if_False) blast
qed

section \<open>Examples\<close>

lemma tick_speaks_while_it_may_witness:
  "\<exists>ms. w_sent (snd (mediation_tick quiet_outside (example_node None) example_mediator 50 no_desk (example_active Active))) = ms \<and>
     list_all gated ms"
  using tick_speaks_while_it_may [OF quiet_well_behaved surjective_pairing, of "example_node None" example_mediator 50 no_desk "example_active Active"]
  by (auto simp: list_all_iff example_active_def example_mediated_def)

lemma due_session_leaves_mediation_witness:
  "\<exists>cur. get_session (db_sessions (w_db (snd (tick_one quiet_outside (example_node (Some ''n'')) example_mediator
       (example_open\<lparr>s_state := Active\<rparr>) 50 no_desk (example_active Active))))) ''s1'' = Some cur \<and> \<not> mediating (s_state cur)"
proof -
  let ?ses = "example_open\<lparr>s_state := Active\<rparr>" and ?w = "example_active Active"
  have g: "get_session (db_sessions (w_db ?w)) (s_session_id ?ses) = Some ?ses"
    by (simp add: example_active_def get_session_def)
  obtain dk1 w1 where c: "chat_open quiet_outside (example_node (Some ''n'')) ?ses no_desk ?w = (False, dk1, w1)"
    by (simp add: chat_open_def no_desk_def is_open_def no_chats_def has_session_def new_inbox_def example_node_def open_chats_def
        add_session_def Let_def)
  from due_session_leaves_mediation [OF quiet_well_behaved example_active_ok g _ c _ surjective_pairing, of example_mediator 50]
  show ?thesis by (simp add: opening_row_def example_session_def)
qed

lemma opening_never_advances_witness:
  "tick_one quiet_outside (example_node None) example_mediator example_open 50 no_desk (example_active Opening) =
     (no_desk, example_active Opening)"
proof -
  have g: "get_session (db_sessions (w_db (example_active Opening))) ''s1'' = Some example_open"
    by (simp add: example_active_def get_session_def opening_row_def example_session_def)
  have p: "pending_briefs example_open (dispute_events (example_active Opening) example_open) = []"
    by (simp add: pending_briefs_def dispute_events_def events_for_dispute_def example_active_def example_mediated_def empty_db_def
        List.map_filter_def)
  from opening_never_advances(1) [OF g _ p] show ?thesis by (simp add: opening_row_def)
qed

definition example_unbriefed :: world where
  "example_unbriefed = (example_active HandedOff)\<lparr>w_db := (w_db (example_active HandedOff))\<lparr>db_events :=
     [\<lparr>ev_id = 1, ev_dispute_id = ''d1'', ev_session_id = Some ''s1'', ev_kind = ''brief_pending'',
       ev_payload = JObj [(''reason'', JStr ''flood'')], ev_created_at = 5\<rparr>]\<rparr>\<rparr>"

lemma pending_briefs_retried_witness:
  "(1, sub) \<notin> set (pending_briefs example_open (dispute_events
     (snd (retry_undelivered quiet_outside example_mediator example_open 500 example_unbriefed)) example_open))"
proof -
  let ?u = "retry_undelivered quiet_outside example_mediator example_open 500 example_unbriefed"
  have reach: "\<forall>n key t. os_dm quiet_outside n key t = None" "me_solvers example_mediator \<noteq> []"
    by (simp_all add: quiet_outside_def example_mediator_def)
  have grace: "\<forall>s. started_at example_open (dispute_events example_unbriefed example_open) = Some s \<longrightarrow> retry_grace_secs \<le> 500 - s"
  proof -
    have "started_at example_open (dispute_events example_unbriefed example_open) = None" by code_simp
    then show ?thesis by simp
  qed
  have p: "(1, Subject_Handoff Flood) \<in> set (pending_briefs example_open (dispute_events example_unbriefed example_open))"
    by code_simp
  have "fst ?u = Inr ()" by code_simp
  then have u: "?u = (Inr (), snd ?u)" by (metis prod.collapse)
  from pending_briefs_retried [OF quiet_well_behaved reach grace u p] show ?thesis .
qed

lemma opening_notice_retried_witness:
  "closed_later (db_events (w_db (retry_opening_notice quiet_outside example_mediator ''d1'' 500 example_unbriefed))) OPENING_NOTICE_SENT
     (hd (db_events (w_db example_unbriefed)))"
  using opening_notice_retried [OF quiet_well_behaved, of "hd (db_events (w_db example_unbriefed))" example_unbriefed example_mediator 500]
  by (simp add: example_unbriefed_def example_active_def example_mediated_def empty_db_def get_dispute_def quiet_outside_def example_mediator_def)

end
