(* ===== verification/Turn_Loop.thy ===== *)
theory Turn_Loop
  imports Turn
begin

text \<open>
  The scheduler of turns: \<open>src/src/mediation/settle.rs\<close> and \<open>run_turns\<close>, \<open>pending_sessions\<close> and
  \<open>turn_logged\<close> of \<open>src/src/mediation/turn.rs\<close>. The \<open>HashMap\<close> of deadlines and that of running tasks
  are association lists with one entry per key; an \<open>Instant\<close> is its seconds. The loop is a step relation:
  which of its three branches runs, and when a task ends, is not determined. The specification it refines
  knows only which sessions are owed a turn, which have one running, and since when it is quiet.
\<close>

section \<open>Settling\<close>

record settle =
  se_quiet :: rat
  se_deadlines :: "(string \<times> rat) list"

definition new_settle :: "rat \<Rightarrow> settle" where
  "new_settle quiet = \<lparr>se_quiet = quiet, se_deadlines = []\<rparr>"

definition touch :: "settle \<Rightarrow> string \<Rightarrow> rat \<Rightarrow> settle" where
  "touch st sid now =
     st\<lparr>se_deadlines := (sid, now + se_quiet st) # filter (\<lambda>x. fst x \<noteq> sid) (se_deadlines st)\<rparr>"

definition next_deadline :: "settle \<Rightarrow> rat option" where
  "next_deadline st = (if se_deadlines st = [] then None else Some (Min (snd ` set (se_deadlines st))))"

definition take_due :: "settle \<Rightarrow> rat \<Rightarrow> string list \<times> settle" where
  "take_due st now =
     (let due = sort (map fst (filter (\<lambda>x. snd x \<le> now) (se_deadlines st)))
      in (due, st\<lparr>se_deadlines := filter (\<lambda>x. fst x \<notin> set due) (se_deadlines st)\<rparr>))"

section \<open>The loop\<close>

text \<open>\<open>tl_next\<close> numbers the tasks: the ids of a \<open>JoinSet\<close> are not used again.\<close>

record turn_loop =
  tl_settle :: settle
  tl_running :: "(nat \<times> string) list"
  tl_again :: "string set"
  tl_next :: nat

definition pending_session :: "db \<Rightarrow> session \<Rightarrow> bool" where
  "pending_session s ses =
     (let ms = messages_for_session (db_messages s) (s_session_id ses)
      in if s_state ses = HandedOff
         then list_ex (\<lambda>m. m_direction m = In \<and>
           last_seen (events_for_dispute (db_events s) (s_dispute_id ses)) (s_session_id ses) < m_id m) ms
         else (case max_by_key m_id ms of None \<Rightarrow> False | Some m \<Rightarrow> m_direction m = In))"

definition pending_sessions :: "db \<Rightarrow> string list" where
  "pending_sessions s = map s_session_id (filter (pending_session s) (list_live (db_sessions s)))"

definition loop_start :: "db \<Rightarrow> rat \<Rightarrow> rat \<Rightarrow> turn_loop" where
  "loop_start s quiet now =
     \<lparr>tl_settle = fold (\<lambda>sid st. touch st sid now) (pending_sessions s) (new_settle quiet),
      tl_running = [], tl_again = {}, tl_next = 0\<rparr>"

fun start_due :: "string list \<Rightarrow> turn_loop \<Rightarrow> string list \<times> turn_loop" where
  "start_due [] c = ([], c)"
| "start_due (sid # due) c =
     (if sid \<in> snd ` set (tl_running c)
      then start_due due (c\<lparr>tl_again := insert sid (tl_again c)\<rparr>)
      else let (started, c') = start_due due (c\<lparr>tl_running := (tl_next c, sid) # tl_running c, tl_next := tl_next c + 1\<rparr>)
        in (sid # started, c'))"

definition turn_ended :: "turn_loop \<Rightarrow> nat \<Rightarrow> bool \<Rightarrow> rat \<Rightarrow> turn_loop" where
  "turn_ended c task again now =
     (case map_of (tl_running c) task of
        None \<Rightarrow> c
      | Some sid \<Rightarrow>
          (let c' = c\<lparr>tl_running := filter (\<lambda>x. fst x \<noteq> task) (tl_running c), tl_again := tl_again c - {sid}\<rparr>
           in if again \<or> sid \<in> tl_again c then c'\<lparr>tl_settle := touch (tl_settle c') sid now\<rparr> else c'))"

text \<open>Whether a turn must run again; a task that panicked must.\<close>

definition turn_again :: "turn_outcome result \<Rightarrow> bool" where
  "turn_again r = (case r of Inr (Deferred _) \<Rightarrow> True | _ \<Rightarrow> False)"

definition turn_logged :: "outside \<Rightarrow> mediator \<Rightarrow> string \<Rightarrow> int \<Rightarrow> world \<Rightarrow> bool \<times> world" where
  "turn_logged out me sid now w = (let (r, w') = run_turn out me sid now w in (turn_again r, w'))"

datatype loop_label = Announced string rat | Started "string list" rat | Ended string bool rat

inductive loop_step :: "turn_loop \<Rightarrow> loop_label \<Rightarrow> turn_loop \<Rightarrow> bool" where
  receive: "loop_step c (Announced sid now) (c\<lparr>tl_settle := touch (tl_settle c) sid now\<rparr>)"
| wake: "next_deadline (tl_settle c) = Some d \<Longrightarrow> d \<le> now \<Longrightarrow> take_due (tl_settle c) now = (due, st) \<Longrightarrow>
    start_due due (c\<lparr>tl_settle := st\<rparr>) = (started, c') \<Longrightarrow> loop_step c (Started started now) c'"
| join: "map_of (tl_running c) task = Some sid \<Longrightarrow> loop_step c (Ended sid again now) (turn_ended c task again now)"

inductive_cases loop_stepE: "loop_step c l c'"

section \<open>Runs and simulation\<close>

fun run_of :: "('s \<Rightarrow> 'l \<Rightarrow> 's \<Rightarrow> bool) \<Rightarrow> 's \<Rightarrow> 'l list \<Rightarrow> 's \<Rightarrow> bool" where
  "run_of step s [] s' \<longleftrightarrow> s' = s"
| "run_of step s (l # ls) s' \<longleftrightarrow> (\<exists>m. step s l m \<and> run_of step m ls s')"

lemma run_of_append: "run_of step s (ls @ ls') s' \<longleftrightarrow> (\<exists>m. run_of step s ls m \<and> run_of step m ls' s')"
  by (induction ls arbitrary: s) auto

text \<open>A machine that does nothing a specification does not allow.\<close>

locale simulation =
  fixes cstep :: "'c \<Rightarrow> 'l \<Rightarrow> 'c \<Rightarrow> bool" and astep :: "'a \<Rightarrow> 'l \<Rightarrow> 'a \<Rightarrow> bool" and sim :: "'c \<Rightarrow> 'a \<Rightarrow> bool"
  assumes simulate: "sim c a \<Longrightarrow> cstep c l c' \<Longrightarrow> \<exists>a'. astep a l a' \<and> sim c' a'"
begin

lemma run_simulates: "sim c a \<Longrightarrow> run_of cstep c ls c' \<Longrightarrow> \<exists>a'. run_of astep a ls a' \<and> sim c' a'"
proof (induction ls arbitrary: c a)
  case (Cons l ls)
  then obtain m where m: "cstep c l m" "run_of cstep m ls c'" by auto
  obtain b where b: "astep a l b" "sim m b" using simulate [OF Cons.prems(1) m(1)] by blast
  from Cons.IH [OF b(2) m(2)] b(1) show ?case by auto
qed simp

end

section \<open>The specification\<close>

record turns_spec =
  sp_owed :: "string set"
  sp_busy :: "string set"
  sp_since :: "string \<rightharpoonup> rat"

text \<open>
  A message makes its session owed a turn. A turn starts for sessions that are owed one, have none
  running and were quiet long enough. When it ends, the session is owed another if the turn says so, and
  the quiet period may be counted from then.
\<close>

inductive spec_step :: "rat \<Rightarrow> turns_spec \<Rightarrow> loop_label \<Rightarrow> turns_spec \<Rightarrow> bool" for quiet where
  spec_announced: "spec_step quiet a (Announced sid t) (a\<lparr>sp_owed := insert sid (sp_owed a), sp_since := (sp_since a)(sid \<mapsto> t)\<rparr>)"
| spec_started: "distinct ss \<Longrightarrow> set ss \<subseteq> sp_owed a - sp_busy a \<Longrightarrow>
    (\<forall>sid \<in> set ss. \<exists>t0. sp_since a sid = Some t0 \<and> t0 + quiet \<le> t) \<Longrightarrow>
    spec_step quiet a (Started ss t) (a\<lparr>sp_owed := sp_owed a - set ss, sp_busy := sp_busy a \<union> set ss\<rparr>)"
| spec_ended: "sid \<in> sp_busy a \<Longrightarrow> owed = (if again then insert sid (sp_owed a) else sp_owed a) \<Longrightarrow>
    since = sp_since a \<or> since = (sp_since a)(sid \<mapsto> t) \<Longrightarrow>
    spec_step quiet a (Ended sid again t) (a\<lparr>sp_owed := owed, sp_busy := sp_busy a - {sid}, sp_since := since\<rparr>)"

inductive_cases spec_stepE: "spec_step quiet a l a'"

section \<open>The loop refines the specification\<close>

definition tasks_ok :: "turn_loop \<Rightarrow> bool" where
  "tasks_ok c \<longleftrightarrow> distinct (map fst (tl_running c)) \<and> distinct (map snd (tl_running c)) \<and>
     (\<forall>x \<in> set (tl_running c). fst x < tl_next c)"

definition scheduled :: "rat \<Rightarrow> turn_loop \<Rightarrow> turns_spec \<Rightarrow> bool" where
  "scheduled quiet c a \<longleftrightarrow> tasks_ok c \<and> se_quiet (tl_settle c) = quiet \<and>
     distinct (map fst (se_deadlines (tl_settle c))) \<and> tl_again c \<subseteq> snd ` set (tl_running c) \<and>
     sp_owed a = fst ` set (se_deadlines (tl_settle c)) \<union> tl_again c \<and> sp_busy a = snd ` set (tl_running c) \<and>
     (\<forall>x \<in> set (se_deadlines (tl_settle c)). \<exists>t0. sp_since a (fst x) = Some t0 \<and> snd x = t0 + quiet)"

lemma start_due_spec:
  assumes "tasks_ok c" and "distinct due" and "start_due due c = (started, c')"
  shows "started = filter (\<lambda>sid. sid \<notin> snd ` set (tl_running c)) due \<and> tl_settle c' = tl_settle c \<and> tasks_ok c' \<and>
    snd ` set (tl_running c') = snd ` set (tl_running c) \<union> set started \<and>
    tl_again c' = tl_again c \<union> (set due \<inter> snd ` set (tl_running c))"
  using assms
proof (induction due arbitrary: c started)
  case (Cons sid due)
  show ?case
  proof (cases "sid \<in> snd ` set (tl_running c)")
    case True
    have "tasks_ok (c\<lparr>tl_again := insert sid (tl_again c)\<rparr>)" using Cons.prems(1) by (simp add: tasks_ok_def)
    from Cons.IH [OF this, of started] Cons.prems(2,3) True show ?thesis by auto
  next
    case False
    let ?c = "c\<lparr>tl_running := (tl_next c, sid) # tl_running c, tl_next := tl_next c + 1\<rparr>"
    obtain ss where rest: "start_due due ?c = (ss, c')" and started: "started = sid # ss"
      using Cons.prems(3) False by (auto split: prod.splits)
    have "tasks_ok ?c" using Cons.prems(1) False by (auto simp: tasks_ok_def)
    from Cons.IH [OF this _ rest] Cons.prems(2) have IH: "ss = filter (\<lambda>x. x \<notin> insert sid (snd ` set (tl_running c))) due"
      "tl_settle c' = tl_settle c" "tasks_ok c'"
      "snd ` set (tl_running c') = insert sid (snd ` set (tl_running c)) \<union> set ss"
      "tl_again c' = tl_again c \<union> (set due \<inter> insert sid (snd ` set (tl_running c)))" by simp_all
    have "ss = filter (\<lambda>x. x \<notin> snd ` set (tl_running c)) due"
      unfolding IH(1) using Cons.prems(2) by (intro filter_cong) auto
    then show ?thesis using IH(2-5) Cons.prems(2) False started by auto
  qed
qed simp

lemma take_due_spec:
  assumes "distinct (map fst (se_deadlines st))" and "take_due st now = (due, st')"
  shows "set due = fst ` {x \<in> set (se_deadlines st). snd x \<le> now}" "distinct due" "sorted due"
    "se_deadlines st' = filter (\<lambda>x. now < snd x) (se_deadlines st)" "se_quiet st' = se_quiet st"
proof -
  show due: "set due = fst ` {x \<in> set (se_deadlines st). snd x \<le> now}"
    using assms(2) by (force simp: take_due_def Let_def)
  show "distinct due" "sorted due" "se_quiet st' = se_quiet st"
    using assms by (auto simp: take_due_def Let_def distinct_map_filter)
  have "se_deadlines st' = filter (\<lambda>x. fst x \<notin> set due) (se_deadlines st)" using assms(2) by (auto simp: take_due_def Let_def)
  also have "\<dots> = filter (\<lambda>x. now < snd x) (se_deadlines st)"
    unfolding due using assms(1)
    by (intro filter_cong refl) (force simp: not_le [symmetric] dest: eq_key_imp_eq_value)
  finally show "se_deadlines st' = filter (\<lambda>x. now < snd x) (se_deadlines st)" .
qed

lemma touch_keys: "fst ` set (se_deadlines (touch st sid now)) = insert sid (fst ` set (se_deadlines st))"
  by (auto simp: touch_def)

lemma touch_distinct: "distinct (map fst (se_deadlines st)) \<Longrightarrow> distinct (map fst (se_deadlines (touch st sid now)))"
  by (auto simp: touch_def distinct_map_filter)

lemma touch_quiet [simp]: "se_quiet (touch st sid now) = se_quiet st"
  by (simp add: touch_def)

lemma touch_since:
  assumes "\<forall>x \<in> set (se_deadlines st). \<exists>t0. since (fst x) = Some t0 \<and> snd x = t0 + se_quiet st"
  shows "\<forall>x \<in> set (se_deadlines (touch st sid now)). \<exists>t0. (since(sid \<mapsto> now)) (fst x) = Some t0 \<and> snd x = t0 + se_quiet st"
  using assms by (auto simp: touch_def)

lemma turn_ended_again:
  assumes "map_of (tl_running c) task = Some sid"
  shows "tl_running (turn_ended c task again now) = filter (\<lambda>x. fst x \<noteq> task) (tl_running c)"
    "tl_again (turn_ended c task again now) = tl_again c - {sid}"
    "tl_settle (turn_ended c task again now) = (if again \<or> sid \<in> tl_again c then touch (tl_settle c) sid now else tl_settle c)"
    "tl_next (turn_ended c task again now) = tl_next c"
  using assms by (simp_all add: turn_ended_def Let_def)

lemma running_without:
  assumes "tasks_ok c" and "map_of (tl_running c) task = Some sid"
  shows "snd ` set (filter (\<lambda>x. fst x \<noteq> task) (tl_running c)) = snd ` set (tl_running c) - {sid}"
proof -
  have ts: "(task, sid) \<in> set (tl_running c)" by (rule map_of_SomeD [OF assms(2)])
  have "x = (task, sid)" if "x \<in> set (tl_running c)" "fst x = task \<or> snd x = sid" for x
  proof -
    have "inj_on fst (set (tl_running c))" "inj_on snd (set (tl_running c))"
      using assms(1) by (auto simp: tasks_ok_def distinct_map)
    with ts that show ?thesis by (metis inj_onD fst_conv snd_conv)
  qed
  note only = this
  show ?thesis
  proof (intro equalityI subsetI)
    fix y assume "y \<in> snd ` set (filter (\<lambda>x. fst x \<noteq> task) (tl_running c))"
    then obtain x where "x \<in> set (tl_running c)" "fst x \<noteq> task" "y = snd x" by auto
    with only [of x] show "y \<in> snd ` set (tl_running c) - {sid}" by (metis DiffI fst_conv image_eqI singletonD)
  next
    fix y assume "y \<in> snd ` set (tl_running c) - {sid}"
    then obtain x where "x \<in> set (tl_running c)" "snd x \<noteq> sid" "y = snd x" by auto
    moreover from this only [of x] have "fst x \<noteq> task" by (metis snd_conv)
    ultimately show "y \<in> snd ` set (filter (\<lambda>x. fst x \<noteq> task) (tl_running c))" by auto
  qed
qed

lemma loop_simulates:
  assumes "scheduled quiet c a" and "loop_step c l c'"
  shows "\<exists>a'. spec_step quiet a l a' \<and> scheduled quiet c' a'"
  using assms(2)
proof (cases rule: loop_step.cases)
  case (receive sid now)
  have "scheduled quiet c' (a\<lparr>sp_owed := insert sid (sp_owed a), sp_since := (sp_since a)(sid \<mapsto> now)\<rparr>)"
    using assms(1) touch_since [of "tl_settle c" "sp_since a" sid now]
    by (auto simp: receive scheduled_def tasks_ok_def touch_keys intro: touch_distinct)
  then show ?thesis unfolding receive(1) by (blast intro: spec_announced)
next
  case (wake d now due st started)
  note inv = assms(1) [unfolded scheduled_def]
  have dist: "distinct (map fst (se_deadlines (tl_settle c)))" using inv by blast
  note due = take_due_spec [OF dist wake(4)]
  have t: "tasks_ok (c\<lparr>tl_settle := st\<rparr>)" using inv by (auto simp: tasks_ok_def)
  from start_due_spec [OF t due(2) wake(5)] have s: "started = filter (\<lambda>sid. sid \<notin> snd ` set (tl_running c)) due"
    "tl_settle c' = st" "tasks_ok c'" "snd ` set (tl_running c') = snd ` set (tl_running c) \<union> set started"
    "tl_again c' = tl_again c \<union> (set due \<inter> snd ` set (tl_running c))" by simp_all
  have quiet: "\<forall>sid \<in> set started. \<exists>t0. sp_since a sid = Some t0 \<and> t0 + quiet \<le> now"
    using inv due(1) by (fastforce simp: s(1))
  have left: "fst ` set (se_deadlines st) = fst ` set (se_deadlines (tl_settle c)) - set due"
  proof -
    let ?D = "set (se_deadlines (tl_settle c))"
    have "inj_on fst ?D" using dist by (simp add: distinct_map)
    from inj_on_image_set_diff [OF this, of ?D "{x \<in> ?D. snd x \<le> now}"]
    have "fst ` (?D - {x \<in> ?D. snd x \<le> now}) = fst ` ?D - set due" by (simp add: due(1))
    moreover have "set (se_deadlines st) = ?D - {x \<in> ?D. snd x \<le> now}" by (auto simp: due(4))
    ultimately show ?thesis by simp
  qed
  have "scheduled quiet c' (a\<lparr>sp_owed := sp_owed a - set started, sp_busy := sp_busy a \<union> set started\<rparr>)"
    unfolding scheduled_def
  proof (intro conjI)
    show "distinct (map fst (se_deadlines (tl_settle c')))" using dist by (simp add: s(2) due(4) distinct_map_filter)
    show "sp_owed (a\<lparr>sp_owed := sp_owed a - set started, sp_busy := sp_busy a \<union> set started\<rparr>) =
        fst ` set (se_deadlines (tl_settle c')) \<union> tl_again c'"
      using inv left due(1) by (auto simp: s)
  qed (use inv s due in auto)
  moreover have "distinct started" "set started \<subseteq> sp_owed a - sp_busy a"
    using due(1,2) inv by (auto simp: s(1))
  ultimately show ?thesis unfolding wake(1) using quiet spec_started by blast
next
  case (join task sid again now)
  note inv = assms(1) [unfolded scheduled_def]
  let ?owed = "if again then insert sid (sp_owed a) else sp_owed a"
  let ?touched = "again \<or> sid \<in> tl_again c"
  let ?since = "if ?touched then (sp_since a)(sid \<mapsto> now) else sp_since a"
  note e = turn_ended_again [OF join(3), of again now, folded join(2)]
  have busy: "snd ` set (tl_running c') = snd ` set (tl_running c) - {sid}"
    unfolding e by (rule running_without [OF _ join(3)]) (use inv in blast)
  have in_run: "sid \<in> sp_busy a" using inv join(3) by (force dest: map_of_SomeD)
  have "scheduled quiet c' (a\<lparr>sp_owed := ?owed, sp_busy := sp_busy a - {sid}, sp_since := ?since\<rparr>)"
    unfolding scheduled_def
  proof (intro conjI)
    show "tasks_ok c'" using inv by (auto simp: tasks_ok_def e distinct_map_filter)
    show "distinct (map fst (se_deadlines (tl_settle c')))" using inv by (simp add: e touch_distinct)
    show "tl_again c' \<subseteq> snd ` set (tl_running c')" using inv unfolding busy by (auto simp: e)
    show "sp_busy (a\<lparr>sp_owed := ?owed, sp_busy := sp_busy a - {sid}, sp_since := ?since\<rparr>) = snd ` set (tl_running c')"
      using inv by (simp add: busy)
    show "sp_owed (a\<lparr>sp_owed := ?owed, sp_busy := sp_busy a - {sid}, sp_since := ?since\<rparr>) =
        fst ` set (se_deadlines (tl_settle c')) \<union> tl_again c'"
      using inv by (auto simp: e touch_keys)
    show "\<forall>x \<in> set (se_deadlines (tl_settle c')). \<exists>t0. sp_since (a\<lparr>sp_owed := ?owed, sp_busy := sp_busy a - {sid}, sp_since := ?since\<rparr>) (fst x) =
        Some t0 \<and> snd x = t0 + quiet"
      using inv touch_since [of "tl_settle c" "sp_since a" sid now] by (auto simp: e)
  qed (use inv in \<open>auto simp: e\<close>)
  moreover have "?since = sp_since a \<or> ?since = (sp_since a)(sid \<mapsto> now)" by simp
  from spec_ended [OF in_run refl this, of quiet again]
  have "spec_step quiet a (Ended sid again now) (a\<lparr>sp_owed := ?owed, sp_busy := sp_busy a - {sid}, sp_since := ?since\<rparr>)" .
  ultimately show ?thesis unfolding join(1) by blast
qed

interpretation turns: simulation loop_step "spec_step quiet" "scheduled quiet" for quiet
  by unfold_locales (rule loop_simulates)

section \<open>What the specification promises\<close>

lemma owed_until_started:
  "run_of (spec_step quiet) a ls a' \<Longrightarrow> sid \<in> sp_owed a \<Longrightarrow> \<forall>ss t. Started ss t \<in> set ls \<longrightarrow> sid \<notin> set ss \<Longrightarrow> sid \<in> sp_owed a'"
proof (induction ls arbitrary: a)
  case (Cons l ls)
  then obtain m where m: "spec_step quiet a l m" "run_of (spec_step quiet) m ls a'" by auto
  have "sid \<in> sp_owed m" using m(1) Cons.prems(2,3) by (cases rule: spec_step.cases) auto
  with Cons.IH [OF m(2)] Cons.prems(3) show ?case by auto
qed simp

lemma busy_until_ended:
  "run_of (spec_step quiet) a ls a' \<Longrightarrow> sid \<in> sp_busy a \<Longrightarrow> \<forall>again t. Ended sid again t \<notin> set ls \<Longrightarrow> sid \<in> sp_busy a'"
proof (induction ls arbitrary: a)
  case (Cons l ls)
  then obtain m where m: "spec_step quiet a l m" "run_of (spec_step quiet) m ls a'" by auto
  have "sid \<in> sp_busy m" using m(1) Cons.prems(2,3) by (cases rule: spec_step.cases) auto
  with Cons.IH [OF m(2)] Cons.prems(3) show ?case by auto
qed simp

lemma since_kept:
  "run_of (spec_step quiet) a ls a' \<Longrightarrow> sp_since a sid = Some t0 \<Longrightarrow>
     \<forall>t. Announced sid t \<notin> set ls \<Longrightarrow> \<forall>again t. Ended sid again t \<notin> set ls \<Longrightarrow> sp_since a' sid = Some t0"
proof (induction ls arbitrary: a)
  case (Cons l ls)
  then obtain m where m: "spec_step quiet a l m" "run_of (spec_step quiet) m ls a'" by auto
  have ne: "l \<noteq> Announced sid t" "l \<noteq> Ended sid again t" for again t using Cons.prems(3,4) by auto
  have "sp_since m sid = Some t0"
    using m(1)
  proof (cases rule: spec_step.cases)
    case (spec_ended s owed again since t)
    with ne(2) [of again t] have "s \<noteq> sid" by auto
    with spec_ended Cons.prems(2) show ?thesis by auto
  qed (use Cons.prems(2) ne(1) in auto)
  with Cons.IH [OF m(2)] Cons.prems(3,4) show ?case by auto
qed simp

section \<open>What the loop promises\<close>

definition spec_start :: "db \<Rightarrow> rat \<Rightarrow> turns_spec" where
  "spec_start s now = \<lparr>sp_owed = set (pending_sessions s), sp_busy = {},
     sp_since = (\<lambda>sid. if sid \<in> set (pending_sessions s) then Some now else None)\<rparr>"

lemma touch_all:
  "distinct (map fst (se_deadlines st)) \<Longrightarrow> \<forall>x \<in> set (se_deadlines st). snd x = now + se_quiet st \<Longrightarrow>
   let st' = fold (\<lambda>sid st. touch st sid now) sids st
   in distinct (map fst (se_deadlines st')) \<and> se_quiet st' = se_quiet st \<and>
      fst ` set (se_deadlines st') = set sids \<union> fst ` set (se_deadlines st) \<and>
      (\<forall>x \<in> set (se_deadlines st'). snd x = now + se_quiet st)"
proof (induction sids arbitrary: st)
  case (Cons sid sids)
  have "\<forall>x \<in> set (se_deadlines (touch st sid now)). snd x = now + se_quiet (touch st sid now)"
    using Cons.prems(2) by (auto simp: touch_def)
  from Cons.IH [OF touch_distinct [OF Cons.prems(1)] this] show ?case by (auto simp: touch_keys Let_def)
qed simp

lemma start_scheduled: "scheduled quiet (loop_start s quiet now) (spec_start s now)"
proof -
  have a: "distinct (map fst (se_deadlines (new_settle quiet)))"
    "\<forall>x \<in> set (se_deadlines (new_settle quiet)). snd x = now + se_quiet (new_settle quiet)" by (simp_all add: new_settle_def)
  have q: "se_quiet (new_settle quiet) = quiet" "se_deadlines (new_settle quiet) = []" by (simp_all add: new_settle_def)
  from touch_all [OF a, of "pending_sessions s"] show ?thesis
    by (force simp: scheduled_def loop_start_def spec_start_def tasks_ok_def Let_def q)
qed

text \<open>
  Property C6. The scheduler refines its specification. Every run of the loop, from the sessions whose messages were
  pending at the start on, is a run of the specification with the same announcements, starts and ends;
  and what is owed and running there is what the deadlines, the sessions due again and the tasks hold.
\<close>

theorem turn_loop_refines:
  assumes "run_of loop_step (loop_start s quiet now) ls c'"
  shows "\<exists>a'. run_of (spec_step quiet) (spec_start s now) ls a' \<and>
    sp_owed a' = fst ` set (se_deadlines (tl_settle c')) \<union> tl_again c' \<and> sp_busy a' = snd ` set (tl_running c')"
  using turns.run_simulates [OF start_scheduled assms] unfolding scheduled_def by blast

text \<open>
  Property C17. No message is forgotten. After a party's message was announced, however turns start, end and are
  deferred, a turn of its session has been started since, or the session has a deadline, or it has a turn
  running and is marked to get another one when that ends.
\<close>

theorem no_message_forgotten:
  assumes "run_of loop_step (loop_start s quiet now) (ls @ Announced sid t # ls') c'"
  shows "(\<exists>ss u. Started ss u \<in> set ls' \<and> sid \<in> set ss) \<or> (\<exists>d. (sid, d) \<in> set (se_deadlines (tl_settle c'))) \<or>
    sid \<in> tl_again c' \<and> sid \<in> snd ` set (tl_running c')"
proof -
  obtain a' where a': "run_of (spec_step quiet) (spec_start s now) (ls @ Announced sid t # ls') a'" "scheduled quiet c' a'"
    using turns.run_simulates [OF start_scheduled assms] by blast
  then obtain m m' where "spec_step quiet m (Announced sid t) m'" and rest: "run_of (spec_step quiet) m' ls' a'"
    by (auto simp: run_of_append)
  then have "sid \<in> sp_owed m'" by (cases rule: spec_step.cases) auto
  note owed = owed_until_started [OF rest this]
  show ?thesis
  proof (cases "\<exists>ss u. Started ss u \<in> set ls' \<and> sid \<in> set ss")
    case False
    then have "sid \<in> sp_owed a'" using owed by blast
    then have "sid \<in> fst ` set (se_deadlines (tl_settle c')) \<or> sid \<in> tl_again c' \<and> sid \<in> snd ` set (tl_running c')"
      using a'(2) unfolding scheduled_def by blast
    then show ?thesis by fastforce
  qed blast
qed

lemma turns_apart:
  assumes "run_of loop_step (loop_start s quiet now) (ls @ l # ls' @ [Started ss u]) c'" and "sid \<in> set ss"
  shows "l = Started ss0 t \<Longrightarrow> sid \<in> set ss0 \<Longrightarrow> \<exists>again e. Ended sid again e \<in> set ls'"
    "l = Announced sid t \<Longrightarrow> \<forall>e. Announced sid e \<notin> set ls' \<Longrightarrow> \<forall>again e. Ended sid again e \<notin> set ls' \<Longrightarrow> t + quiet \<le> u"
proof -
  obtain a' where "run_of (spec_step quiet) (spec_start s now) (ls @ l # ls' @ [Started ss u]) a'"
    using turns.run_simulates [OF start_scheduled assms(1)] by blast
  then obtain m m' k where l: "spec_step quiet m l m'" and mid: "run_of (spec_step quiet) m' ls' k"
    and last: "spec_step quiet k (Started ss u) a'"
    by (auto simp: run_of_append)
  have k: "sid \<notin> sp_busy k" "\<exists>t0. sp_since k sid = Some t0 \<and> t0 + quiet \<le> u"
    using last assms(2) by (auto elim: spec_stepE)
  show "\<exists>again e. Ended sid again e \<in> set ls'" if "l = Started ss0 t" "sid \<in> set ss0"
  proof -
    have "sid \<in> sp_busy m'" using l that by (auto elim: spec_stepE)
    with busy_until_ended [OF mid] k(1) show ?thesis by blast
  qed
  show "t + quiet \<le> u" if "l = Announced sid t" "\<forall>e. Announced sid e \<notin> set ls'" "\<forall>again e. Ended sid again e \<notin> set ls'"
  proof -
    have "sp_since m' sid = Some t" using l that(1) by (auto elim: spec_stepE)
    from since_kept [OF mid this that(2,3)] k(2) show ?thesis by simp
  qed
qed


text \<open>
  A session that is owed a turn gets one. Whatever the loop did before, a session with no turn running is
  due at its deadline: from then on the loop can wake up, and whenever it does its turn is started.
\<close>

theorem due_session_starts:
  assumes "run_of loop_step (loop_start s quiet now) ls c" and "(sid, d) \<in> set (se_deadlines (tl_settle c))"
    and "sid \<notin> snd ` set (tl_running c)" and "d \<le> t"
  shows "\<exists>ss c'. loop_step c (Started ss t) c'"
    "loop_step c (Started ss t) c' \<Longrightarrow> sid \<in> set ss"
proof -
  obtain a where inv: "scheduled quiet c a" using turns.run_simulates [OF start_scheduled assms(1)] by blast
  let ?D = "se_deadlines (tl_settle c)"
  have "Min (snd ` set ?D) \<le> d" using assms(2) by (intro Min_le) force+
  then have nd: "next_deadline (tl_settle c) = Some (Min (snd ` set ?D))" "Min (snd ` set ?D) \<le> t"
    using assms(2,4) by (auto simp: next_deadline_def)
  obtain due st where due: "take_due (tl_settle c) t = (due, st)" by force
  obtain ss c' where started: "start_due due (c\<lparr>tl_settle := st\<rparr>) = (ss, c')" by force
  from wake [OF nd due started] show "\<exists>ss c'. loop_step c (Started ss t) c'" by blast
  show "sid \<in> set ss" if "loop_step c (Started ss t) c'" for ss c'
    using that
  proof (cases rule: loop_step.cases)
    case (wake d' due st)
    have dist: "distinct (map fst ?D)" "tasks_ok (c\<lparr>tl_settle := st\<rparr>)" using inv by (auto simp: scheduled_def tasks_ok_def)
    note taken = take_due_spec [OF dist(1) wake(3)]
    have "sid \<in> set due" unfolding taken(1) using assms(2,4) by force
    with start_due_spec [OF dist(2) taken(2) wake(4)] assms(3) show ?thesis by simp
  qed
qed

section \<open>Pending after a restart\<close>

text \<open>
  A restart can forget a message that no turn judged. For a session that is not handed off only the
  newest message counts: if Serbero wrote anything after it, to whichever party (a reminder to the other
  one, say), then a party's message is not scheduled again.
\<close>

theorem restart_may_forget:
  assumes "get_session (db_sessions s) sid = Some ses" and "live ses" and "s_state ses \<noteq> HandedOff"
    and "max_by_key m_id (messages_for_session (db_messages s) sid) = Some m" and "m_direction m = Out"
    and "distinct (map s_session_id (db_sessions s))"
  shows "sid \<notin> set (pending_sessions s)"
    "(sid, d) \<notin> set (se_deadlines (tl_settle (loop_start s quiet now)))"
proof -
  have ses: "ses \<in> set (db_sessions s)" "s_session_id ses = sid" using assms(1) by (auto simp: get_session_def dest: find_key_some)
  have "x = ses" if "x \<in> set (db_sessions s)" "s_session_id x = sid" for x
    using that ses assms(6) by (metis distinct_map inj_onD)
  then show none: "sid \<notin> set (pending_sessions s)"
    using assms(3-5) by (auto simp: pending_sessions_def pending_session_def list_live_def Let_def)
  have "sp_owed (spec_start s now) = fst ` set (se_deadlines (tl_settle (loop_start s quiet now))) \<union> tl_again (loop_start s quiet now)"
    using start_scheduled [of quiet s now] unfolding scheduled_def by blast
  with none show "(sid, d) \<notin> set (se_deadlines (tl_settle (loop_start s quiet now)))"
    by (force simp: spec_start_def)
qed

section \<open>Examples\<close>

text \<open>A loop with a quiet period of 20 seconds; a message is announced at 1, its turn starts at 21.\<close>

definition example_loop :: turn_loop where
  "example_loop = loop_start empty_db 20 0"

definition example_told :: turn_loop where
  "example_told = example_loop\<lparr>tl_settle := touch (tl_settle example_loop) ''s1'' 1\<rparr>"

definition example_started :: turn_loop where
  "example_started = example_told\<lparr>tl_settle := (tl_settle example_told)\<lparr>se_deadlines := []\<rparr>, tl_running := [(0, ''s1'')], tl_next := 1\<rparr>"

lemma example_empty_loop: "example_loop = \<lparr>tl_settle = new_settle 20, tl_running = [], tl_again = {}, tl_next = 0\<rparr>"
  by (simp add: example_loop_def loop_start_def pending_sessions_def list_live_def empty_db_def)

lemma example_step1: "loop_step (loop_start empty_db 20 0) (Announced ''s1'' 1) example_told"
  unfolding example_loop_def [symmetric] example_told_def by (rule receive)

lemma example_step2: "loop_step example_told (Started [''s1''] 21) example_started"
proof (rule wake)
  show "next_deadline (tl_settle example_told) = Some 21"
    by (simp add: next_deadline_def example_told_def example_empty_loop touch_def new_settle_def)
  show "take_due (tl_settle example_told) 21 = ([''s1''], (tl_settle example_told)\<lparr>se_deadlines := []\<rparr>)"
    by (simp add: take_due_def example_told_def example_empty_loop touch_def new_settle_def)
  show "start_due [''s1''] (example_told\<lparr>tl_settle := (tl_settle example_told)\<lparr>se_deadlines := []\<rparr>\<rparr>) = ([''s1''], example_started)"
    by (simp add: example_started_def example_told_def example_empty_loop)
qed simp

lemma turn_loop_refines_witness:
  "\<exists>a'. run_of (spec_step 20) (spec_start empty_db 0) [Announced ''s1'' 1, Started [''s1''] 21] a' \<and> sp_busy a' = {''s1''}"
proof -
  have "run_of loop_step (loop_start empty_db 20 0) [Announced ''s1'' 1, Started [''s1''] 21] example_started"
    using example_step1 example_step2 by auto
  from turn_loop_refines [OF this] show ?thesis by (auto simp: example_started_def)
qed

lemma no_message_forgotten_witness: "\<exists>d. (''s1'', d) \<in> set (se_deadlines (tl_settle example_told))"
proof -
  have "run_of loop_step (loop_start empty_db 20 0) ([] @ Announced ''s1'' 1 # []) example_told"
    using example_step1 by auto
  from no_message_forgotten [OF this] show ?thesis by (simp add: example_told_def example_empty_loop)
qed


lemma due_session_starts_witness:
  "\<exists>ss c'. loop_step example_told (Started ss 30) c'"
proof -
  have r: "run_of loop_step (loop_start empty_db 20 0) [Announced ''s1'' 1] example_told" using example_step1 by auto
  have d: "(''s1'', 21) \<in> set (se_deadlines (tl_settle example_told))"
    by (simp add: example_told_def example_empty_loop touch_def new_settle_def)
  have "''s1'' \<notin> snd ` set (tl_running example_told)" by (simp add: example_told_def example_empty_loop)
  from due_session_starts(1) [OF r d this] show ?thesis by simp
qed

text \<open>The buyer's answer was not judged yet when the seller was reminded; then Serbero restarted.\<close>

definition example_restart :: db where
  "example_restart = (w_db (example_active Active))\<lparr>db_messages := [message_row 1 (example_in Buyer ''e1''),
     message_row 2 ((example_in Seller ''e2'')\<lparr>nm_direction := Out, nm_template_id := Some REMINDER\<rparr>)]\<rparr>"

lemma restart_may_forget_witness:
  "list_ex (\<lambda>m. m_direction m = In \<and> m_party m = Buyer) (db_messages example_restart) \<and> ''s1'' \<notin> set (pending_sessions example_restart)"
proof -
  have g: "get_session (db_sessions example_restart) ''s1'' = Some (example_open\<lparr>s_state := Active\<rparr>)"
    by (simp add: example_restart_def example_active_def get_session_def opening_row_def example_session_def)
  have m: "max_by_key m_id (messages_for_session (db_messages example_restart) ''s1'') =
      Some (message_row 2 ((example_in Seller ''e2'')\<lparr>nm_direction := Out, nm_template_id := Some REMINDER\<rparr>))"
    by code_simp
  have "distinct (map s_session_id (db_sessions example_restart))" by (simp add: example_restart_def example_active_def)
  from restart_may_forget(1) [OF g _ _ m _ this]
  show ?thesis by (simp add: live_def message_row_def example_restart_def example_in_def)
qed

end
