(* ===== verification/Feedback.thy ===== *)
theory Feedback
  imports Turn Channels
begin

text \<open>
  Solver feedback: \<open>src/src/mediation/feedback.rs\<close>, and the task \<open>solver_replies\<close> of
  \<open>src/src/daemon/mod.rs\<close> that reads it. \<open>digest\<close>, the hash that versions a question set, and
  \<open>opened\<close>, what \<open>mostro_core\<close> unwraps from an event (its sender and, if it is a \<open>send-dm\<close> with a
  text, that text), are parameters.
\<close>

section \<open>Reading a reply\<close>

record feedback =
  fb_question :: string
  fb_dispute_id :: "string option"

record recorded =
  re_dispute_id :: string
  re_evaluation_id :: int

fun white_words :: "string \<Rightarrow> string \<Rightarrow> string list" where
  "white_words w [] = (if w = [] then [] else [rev w])"
| "white_words w (c # cs) =
     (if is_white c then (if w = [] then [] else [rev w]) @ white_words [] cs else white_words (c # w) cs)"

definition split_whitespace :: "string \<Rightarrow> string list" where
  "split_whitespace t = white_words [] t"

definition known_question :: "(json \<Rightarrow> string) \<Rightarrow> string \<Rightarrow> bool" where
  "known_question digest i \<longleftrightarrow> i \<in> fst ` set (q_questions (turn_questions digest []))"

definition parse_feedback :: "(json \<Rightarrow> string) \<Rightarrow> string \<Rightarrow> feedback option" where
  "parse_feedback digest t =
     (case split_whitespace t of
        w # q # rest \<Rightarrow>
          (let question = map ascii_lower q
           in if \<not> eq_ignore_case w ''wrong'' then None
              else if 1 < length rest \<or> \<not> known_question digest question then None
              else Some \<lparr>fb_question = question, fb_dispute_id = (case rest of [] \<Rightarrow> None | d # _ \<Rightarrow> Some d)\<rparr>)
      | _ \<Rightarrow> None)"

section \<open>Recording it\<close>

record source =
  sr_id :: string
  sr_written_at :: int

definition BRIEF :: string where "BRIEF = ''brief''"
definition CLOCK_SKEW_SECS :: int where "CLOCK_SKEW_SECS = 120"

text \<open>A brief of the dispute that the solver got by then.\<close>

definition briefed_by :: "string \<Rightarrow> int \<Rightarrow> event \<Rightarrow> bool" where
  "briefed_by solver until e \<longleftrightarrow> ev_kind e = ''notification_sent'' \<and>
     as_str (jget (ev_payload e) ''notification'') = Some BRIEF \<and>
     as_str (jget (ev_payload e) ''solver'') = Some solver \<and> ev_created_at e \<le> until"

definition asked_in :: "string \<Rightarrow> int \<Rightarrow> evaluation \<Rightarrow> bool" where
  "asked_in question briefed_at e \<longleftrightarrow> el_created_at e \<le> briefed_at \<and> map_of (el_answers e) question \<noteq> None"

definition feedback_payload :: "string \<Rightarrow> feedback \<Rightarrow> source \<Rightarrow> int \<Rightarrow> json" where
  "feedback_payload solver f src i = JObj [(''solver'', JStr solver), (''question'', JStr (fb_question f)),
     (''evaluation_id'', JInt i), (''source'', JStr (sr_id src))]"

definition record_feedback ::
    "evaluations \<Rightarrow> string \<Rightarrow> feedback \<Rightarrow> source \<Rightarrow> int \<Rightarrow> db \<Rightarrow> recorded option result \<times> db" where
  "record_feedback evals solver f src now s =
     (if feedback_recorded (db_events s) (sr_id src) then (Inr None, s)
      else let until = saturating_add (sr_written_at src) CLOCK_SKEW_SECS
        in case (case fb_dispute_id f of
                   Some i \<Rightarrow> Some i
                 | None \<Rightarrow> map_option ev_dispute_id (last_notification_to (db_events s) solver BRIEF until)) of
             None \<Rightarrow> (Inr None, s)
           | Some d \<Rightarrow>
               (case find_last (briefed_by solver until) (events_for_dispute (db_events s) d) of
                  None \<Rightarrow> (Inr None, s)
                | Some told \<Rightarrow>
                    (case latest_for_dispute (db_sessions s) d of
                       None \<Rightarrow> (Inr None, s)
                     | Some ses \<Rightarrow>
                         (case find_last (asked_in (fb_question f) (ev_created_at told))
                                 (evaluations_for_session evals (s_session_id ses)) of
                            None \<Rightarrow> (Inr None, s)
                          | Some e \<Rightarrow>
                              (case log_event s d (Some (s_session_id ses)) ''solver_feedback''
                                  (feedback_payload solver f src (el_id e)) now of
                                 Inl er \<Rightarrow> (Inl er, s)
                               | Inr s' \<Rightarrow> (Inr (Some \<lparr>re_dispute_id = d, re_evaluation_id = el_id e\<rparr>), s'))))))"

record opened_dm =
  od_identity :: string
  od_text :: "string option"

record dm_event =
  dm_id :: string
  dm_created_at :: nat
  dm_kind :: event_kind

definition handle_feedback ::
    "(json \<Rightarrow> string) \<Rightarrow> (dm_event \<Rightarrow> opened_dm option) \<Rightarrow> solver list \<Rightarrow> evaluations \<Rightarrow> dm_event \<Rightarrow> int \<Rightarrow> db \<Rightarrow>
     recorded option result \<times> db" where
  "handle_feedback digest opened sos evals e now s =
     (case opened e of
        None \<Rightarrow> (Inr None, s)
      | Some dm \<Rightarrow>
          (if \<not> (\<exists>so \<in> set sos. so_pubkey so = od_identity dm) then (Inr None, s)
           else case od_text dm of
               None \<Rightarrow> (Inr None, s)
             | Some t \<Rightarrow>
                 (case parse_feedback digest t of
                    None \<Rightarrow> (Inr None, s)
                  | Some f \<Rightarrow>
                      record_feedback evals (od_identity dm) f
                        \<lparr>sr_id = dm_id e, sr_written_at = min i64_max (int (dm_created_at e))\<rparr> now s)))"

text \<open>The task that reads the direct messages; \<open>now\<close> is the clock read for each.\<close>

fun solver_replies ::
    "(json \<Rightarrow> string) \<Rightarrow> (dm_event \<Rightarrow> opened_dm option) \<Rightarrow> solver list \<Rightarrow> evaluations \<Rightarrow> (dm_event \<times> int) list \<Rightarrow> db \<Rightarrow> db" where
  "solver_replies digest opened sos evals [] s = s"
| "solver_replies digest opened sos evals ((e, now) # es) s =
     (if dm_kind e \<noteq> PrivateDirectMessage then solver_replies digest opened sos evals es s
      else solver_replies digest opened sos evals es (snd (handle_feedback digest opened sos evals e now s)))"

section \<open>Parsing\<close>

lemma white_words_word:
  "\<forall>c \<in> set w. \<not> is_white c \<Longrightarrow> white_words v (w @ cs) = white_words (rev w @ v) cs"
  by (induction w arbitrary: v) auto

lemma white_words_last: "\<forall>c \<in> set w. \<not> is_white c \<Longrightarrow> w \<noteq> [] \<Longrightarrow> white_words [] w = [w]"
  using white_words_word [of w "[]" "[]"] by simp

lemma white_words_next:
  "\<forall>c \<in> set w. \<not> is_white c \<Longrightarrow> w \<noteq> [] \<Longrightarrow> white_words [] (w @ CHR '' '' # cs) = w # white_words [] cs"
  using white_words_word [of w "[]" "CHR '' '' # cs"] by (simp add: is_white_def)

lemma list_pair_cases: "(ws = [] \<Longrightarrow> P) \<Longrightarrow> (\<And>x. ws = [x] \<Longrightarrow> P) \<Longrightarrow> (\<And>x y zs. ws = x # y # zs \<Longrightarrow> P) \<Longrightarrow> P"
  by (cases ws rule: remdups_adj.cases) auto

text \<open>
  What a solver can write. A reply \<open>wrong <question> <dispute>\<close>, with the keyword and the question in any
  case, names exactly that question and dispute; without the dispute it names the question alone; and
  whatever is parsed names a question of the turn's question set, in lower case.
\<close>

theorem feedback_reads_back:
  assumes "eq_ignore_case w ''wrong''" and "known_question digest (map ascii_lower q)"
    and "\<forall>c \<in> set q. \<not> is_white c" and "q \<noteq> []" and "\<forall>c \<in> set d. \<not> is_white c" and "d \<noteq> []"
  shows "parse_feedback digest (w @ '' '' @ q @ '' '' @ d) = Some \<lparr>fb_question = map ascii_lower q, fb_dispute_id = Some d\<rparr>"
    "parse_feedback digest (w @ '' '' @ q) = Some \<lparr>fb_question = map ascii_lower q, fb_dispute_id = None\<rparr>"
    "parse_feedback digest t = Some f \<Longrightarrow> known_question digest (fb_question f) \<and>
       (\<forall>i. fb_dispute_id f = Some i \<longrightarrow> i \<in> set (split_whitespace t))"
proof -
  have len: "length w = 5" using arg_cong [OF assms(1) [unfolded eq_ignore_case_def], of length] by simp
  have letter: "\<not> is_white c" if "c \<in> set w" for c
  proof
    assume "is_white c"
    then have "ascii_lower c = c" by (auto simp: is_white_def ascii_lower_def)
    moreover have "map ascii_lower w = ''wrong''"
      using assms(1) by (simp add: eq_ignore_case_def ascii_lower_def)
    then have "ascii_lower c \<in> set ''wrong''" using that by (metis imageI list.set_map)
    ultimately show False using \<open>is_white c\<close> by (auto simp: is_white_def)
  qed
  have w: "\<forall>c \<in> set w. \<not> is_white c" "w \<noteq> []" using letter len by auto
  show "parse_feedback digest (w @ '' '' @ q @ '' '' @ d) = Some \<lparr>fb_question = map ascii_lower q, fb_dispute_id = Some d\<rparr>"
    using assms by (simp add: parse_feedback_def split_whitespace_def white_words_next [OF w] white_words_next [OF assms(3,4)]
        white_words_last [OF assms(5,6)])
  show "parse_feedback digest (w @ '' '' @ q) = Some \<lparr>fb_question = map ascii_lower q, fb_dispute_id = None\<rparr>"
    using assms by (simp add: parse_feedback_def split_whitespace_def white_words_next [OF w] white_words_last [OF assms(3,4)])
  show "known_question digest (fb_question f) \<and> (\<forall>i. fb_dispute_id f = Some i \<longrightarrow> i \<in> set (split_whitespace t))"
    if p: "parse_feedback digest t = Some f"
  proof -
    obtain v r rest where ws: "split_whitespace t = v # r # rest"
      using p by (cases "split_whitespace t" rule: list_pair_cases) (auto simp: parse_feedback_def)
    have "eq_ignore_case v ''wrong''" "length rest \<le> 1" and known: "known_question digest (map ascii_lower r)"
      using p unfolding parse_feedback_def ws list.case Let_def by (metis not_less option.distinct(1))+
    then have "f = \<lparr>fb_question = map ascii_lower r, fb_dispute_id = (case rest of [] \<Rightarrow> None | d # _ \<Rightarrow> Some d)\<rparr>"
      using p unfolding parse_feedback_def ws list.case Let_def by (auto split: if_splits)
    with known show ?thesis by (auto simp: ws split: list.splits)
  qed
qed

section \<open>What is recorded\<close>

lemma record_feedback_Some:
  assumes "record_feedback evals solver f src now s = (Inr (Some r), s')"
  obtains told ses e where "\<not> feedback_recorded (db_events s) (sr_id src)"
    and "find_last (briefed_by solver (saturating_add (sr_written_at src) CLOCK_SKEW_SECS))
        (events_for_dispute (db_events s) (re_dispute_id r)) = Some told"
    and "latest_for_dispute (db_sessions s) (re_dispute_id r) = Some ses"
    and "find_last (asked_in (fb_question f) (ev_created_at told)) (evaluations_for_session evals (s_session_id ses)) = Some e"
    and "re_evaluation_id r = el_id e" and "fb_dispute_id f = Some i \<Longrightarrow> re_dispute_id r = i"
    and "s' = logged s (re_dispute_id r) (Some (s_session_id ses)) ''solver_feedback'' (feedback_payload solver f src (el_id e)) now"
  using assms
  by (auto simp: record_feedback_def Let_def log_event_Inr split: if_splits option.splits)


text \<open>
  The same direct message counts once. After a feedback was recorded, in any later state of the log no
  message with the same event id records another one, whoever sends it and whatever it says; and a message
  from someone who is not a configured solver changes nothing.
\<close>

theorem feedback_recorded_once:
  assumes "record_feedback evals solver f src now s = (Inr (Some r), s')" and "db_events t = db_events s' @ es"
  shows "record_feedback evals' solver' f' \<lparr>sr_id = sr_id src, sr_written_at = at'\<rparr> now' t = (Inr None, t)"
    "(\<nexists>dm so. opened e = Some dm \<and> so \<in> set sos \<and> so_pubkey so = od_identity dm) \<Longrightarrow>
       handle_feedback digest opened sos evals e now s = (Inr None, s)"
proof -
  have "feedback_recorded (db_events s') (sr_id src)"
    using assms(1) by (rule record_feedback_Some) (auto simp: feedback_recorded_def logged_def feedback_payload_def)
  then have "feedback_recorded (db_events t) (sr_id src)" by (auto simp: assms(2) feedback_recorded_def)
  then show "record_feedback evals' solver' f' \<lparr>sr_id = sr_id src, sr_written_at = at'\<rparr> now' t = (Inr None, t)"
    by (simp add: record_feedback_def)
  show "handle_feedback digest opened sos evals e now s = (Inr None, s)"
    if "\<nexists>dm so. opened e = Some dm \<and> so \<in> set sos \<and> so_pubkey so = od_identity dm"
    using that by (auto simp: handle_feedback_def split: option.splits)
qed

section \<open>Examples\<close>

lemma feedback_reads_back_witness:
  "parse_feedback (\<lambda>_. ''v'') (''WRONG'' @ '' '' @ ''Buyer_Payment'' @ '' '' @ ''d1'') =
     Some \<lparr>fb_question = ''buyer_payment'', fb_dispute_id = Some ''d1''\<rparr>"
proof -
  have k: "known_question (\<lambda>_. ''v'') (map ascii_lower ''Buyer_Payment'')"
    by code_simp
  have w: "eq_ignore_case ''WRONG'' ''wrong''" by code_simp
  have l: "map ascii_lower ''Buyer_Payment'' = ''buyer_payment''" by code_simp
  from feedback_reads_back(1) [OF w k, of "''d1''"] show ?thesis
    unfolding l by (simp add: is_white_def)
qed

text \<open>A brief at 40; the second of two evaluations is later than it.\<close>

definition example_evals :: evaluations where
  "example_evals = [\<lparr>el_id = 1, el_session_id = ''s1'', el_question_set = ''qs'', el_judge_id = ''j'', el_last_message_id = 0,
       el_answers = [(''buyer_payment'', Noul 1)], el_action = Wait, el_input_tokens = None, el_latency_ms = None, el_created_at = 10\<rparr>,
     \<lparr>el_id = 2, el_session_id = ''s1'', el_question_set = ''qs'', el_judge_id = ''j'', el_last_message_id = 0,
       el_answers = [(''buyer_payment'', Noul 1)], el_action = Wait, el_input_tokens = None, el_latency_ms = None, el_created_at = 50\<rparr>]"

definition example_briefed_db :: db where
  "example_briefed_db = (w_db (example_active Active))\<lparr>db_events := [\<lparr>ev_id = 1, ev_dispute_id = ''d1'', ev_session_id = None,
     ev_kind = ''notification_sent'', ev_payload = JObj [(''solver'', JStr ''k''), (''notification'', JStr ''brief'')], ev_created_at = 40\<rparr>]\<rparr>"

definition example_feedback :: feedback where
  "example_feedback = \<lparr>fb_question = ''buyer_payment'', fb_dispute_id = None\<rparr>"

definition example_source :: source where
  "example_source = \<lparr>sr_id = ''dm'', sr_written_at = 60\<rparr>"

lemma example_recorded_feedback:
  "fst (record_feedback example_evals ''k'' example_feedback example_source 70 example_briefed_db) =
     Inr (Some \<lparr>re_dispute_id = ''d1'', re_evaluation_id = 1\<rparr>)"
  by code_simp


lemma feedback_recorded_once_witness:
  "let s' = snd (record_feedback example_evals ''k'' example_feedback example_source 70 example_briefed_db)
   in record_feedback example_evals ''k2'' example_feedback example_source 99 s' = (Inr None, s')"
proof -
  obtain s' where r: "record_feedback example_evals ''k'' example_feedback example_source 70 example_briefed_db =
      (Inr (Some \<lparr>re_dispute_id = ''d1'', re_evaluation_id = 1\<rparr>), s')"
    using example_recorded_feedback by (metis prod.collapse)
  from feedback_recorded_once(1) [OF r, of s' "[]" example_evals "''k2''" example_feedback 60 99]
  show ?thesis unfolding r Let_def snd_conv by (simp add: example_source_def)
qed

end
