(* ===== verification/Providers.thy ===== *)
theory Providers
  imports Mediator
begin

text \<open>
  The two judges behind the contract of \<open>Judge_Answers\<close>: \<open>src/src/judge/providers/recorded.rs\<close>
  replays recorded answers and \<open>src/src/judge/providers/typesafe.rs\<close> asks a model over HTTP.
  \<open>json_text\<close> is the JSON text \<open>serde_json\<close> writes for a value, \<open>read_response\<close> what it reads from a
  body (or its error text), \<open>send\<close> the HTTP client: all three are parameters, as is \<open>status_text\<close>,
  the text of a status code. A \<open>Duration\<close> here is its seconds as a rational (the code rounds to
  nanoseconds), an \<open>f64\<close> its value.
\<close>

section \<open>The recorded provider\<close>

record recorded_case =
  rc_case_id :: string
  rc_state :: json
  rc_answers :: answers

record recording =
  rg_judge :: string
  rg_question_set :: string
  rg_cases :: "recorded_case list"

type_synonym request_key = "string list \<times> string"

record recorded_judge =
  rj_source_id :: string
  rj_question_set :: string
  rj_by_request :: "request_key \<rightharpoonup> answers"

definition request_key :: "(json \<Rightarrow> string) \<Rightarrow> json \<Rightarrow> string list \<Rightarrow> request_key" where
  "request_key json_text state ids = (ids, json_text state)"

definition case_key :: "(json \<Rightarrow> string) \<Rightarrow> recorded_case \<Rightarrow> request_key" where
  "case_key json_text c = request_key json_text (rc_state c) (map fst (rc_answers c))"

fun index_cases ::
    "(json \<Rightarrow> string) \<Rightarrow> recorded_case list \<Rightarrow> (request_key \<rightharpoonup> answers) \<Rightarrow> judge_error + (request_key \<rightharpoonup> answers)" where
  "index_cases json_text [] m = Inr m"
| "index_cases json_text (c # cs) m =
     (if m (case_key json_text c) \<noteq> None
      then Inl (InvalidRequest (''case '' @ rc_case_id c @ '' repeats the request of an earlier case''))
      else index_cases json_text cs (m(case_key json_text c \<mapsto> rc_answers c)))"

definition recorded_new :: "(json \<Rightarrow> string) \<Rightarrow> recording \<Rightarrow> judge_error + recorded_judge" where
  "recorded_new json_text r =
     (case index_cases json_text (rg_cases r) Map.empty of
        Inl e \<Rightarrow> Inl e
      | Inr m \<Rightarrow> Inr \<lparr>rj_source_id = ''recorded/'' @ rg_judge r, rj_question_set = rg_question_set r,
          rj_by_request = m\<rparr>)"

definition recorded_load ::
    "(json \<Rightarrow> string) \<Rightarrow> string \<Rightarrow> string + string \<Rightarrow> (string \<Rightarrow> string + recording) \<Rightarrow> judge_error + recorded_judge" where
  "recorded_load json_text path file read_recording =
     (case file of
        Inl e \<Rightarrow> Inl (InvalidRequest (''cannot read '' @ path @ '': '' @ e))
      | Inr t \<Rightarrow> (case read_recording t of
          Inl e \<Rightarrow> Inl (InvalidRequest (path @ '' is not a recording: '' @ e))
        | Inr r \<Rightarrow> recorded_new json_text r))"

definition recorded_answer ::
    "(json \<Rightarrow> string) \<Rightarrow> recorded_judge \<Rightarrow> json \<Rightarrow> question_set \<Rightarrow> judge_error + judged" where
  "recorded_answer json_text j state qs =
     (if q_version qs \<noteq> rj_question_set j
      then Inl (InvalidRequest (''recorded on question set '' @ rj_question_set j @ '', asked '' @ q_version qs))
      else case rj_by_request j (request_key json_text state (map fst (q_questions qs))) of
          None \<Rightarrow> Inl (InvalidRequest ''no recorded answers for this request'')
        | Some as \<Rightarrow> (case check_answers qs as of
              Inl e \<Rightarrow> Inl e
            | Inr _ \<Rightarrow> Inr \<lparr>jd_answers = as, jd_input_tokens = None\<rparr>))"

definition usize_max :: nat where "usize_max = 18446744073709551615"

definition recorded_capabilities :: capabilities where
  "recorded_capabilities = \<lparr>question_kinds = [KNoul, KChoice, KScore], max_choice_options = usize_max,
     max_score_levels = usize_max, max_context_tokens = None\<rparr>"

section \<open>Retries\<close>

text \<open>\<open>Duration::MAX\<close>, where the multiplication of a duration saturates.\<close>

definition DURATION_MAX :: rat where "DURATION_MAX = 18446744073709551615 + 999999999 / 1000000000"

record retry_policy =
  rp_max_retries :: nat
  rp_initial_backoff :: rat
  rp_max_backoff :: rat

definition retry_policy_new :: "nat \<Rightarrow> retry_policy" where
  "retry_policy_new n = \<lparr>rp_max_retries = n, rp_initial_backoff = 1 / 2, rp_max_backoff = 5\<rparr>"

definition backoff :: "retry_policy \<Rightarrow> nat \<Rightarrow> rat" where
  "backoff pol retry =
     min (min (rp_initial_backoff pol * rat_of_nat (min (2 ^ retry) u32_max)) DURATION_MAX) (rp_max_backoff pol)"

text \<open>A failed attempt, with the wait the server asked for.\<close>

record failure =
  fl_error :: judge_error
  fl_retry_after :: "rat option"

text \<open>
  \<open>attempt n\<close> is what the attempt after \<open>n\<close> retries returns. The result comes with the waits slept
  before each retry, in order.
\<close>

function with_retries :: "retry_policy \<Rightarrow> (nat \<Rightarrow> failure + 'a) \<Rightarrow> nat \<Rightarrow> (judge_error + 'a) \<times> rat list" where
  "with_retries pol attempt retry =
     (case attempt retry of
        Inr v \<Rightarrow> (Inr v, [])
      | Inl f \<Rightarrow>
          (if is_retryable (fl_error f) \<and> retry < rp_max_retries pol
           then let wait = (case fl_retry_after f of Some w \<Rightarrow> w | None \<Rightarrow> backoff pol retry);
                    (r, waits) = with_retries pol attempt (retry + 1)
                in (r, wait # waits)
           else (Inl (fl_error f), [])))"
  by pat_completeness auto
termination by (relation "measure (\<lambda>(pol, _, retry). rp_max_retries pol - retry)") auto

declare with_retries.simps [simp del]

section \<open>Responses\<close>

text \<open>\<open>str::parse::<f64>\<close>: an infinity or NaN by name, or a decimal number with an optional exponent.\<close>

datatype float = Finite rat | Infinite bool | NaN

definition f64_limit :: rat where "f64_limit = 2 ^ 1024 - 2 ^ 970"

definition to_f64 :: "rat \<Rightarrow> float" where
  "to_f64 x = (if f64_limit \<le> \<bar>x\<bar> then Infinite (x < 0) else Finite x)"

fun read_exponent :: "string \<Rightarrow> int option" where
  "read_exponent [] = Some 0"
| "read_exponent (c # cs) =
     (if c = CHR ''e'' \<or> c = CHR ''E''
      then let (neg, ds) = (case cs of d # ds \<Rightarrow> if d = CHR ''-'' then (True, ds)
                 else if d = CHR ''+'' then (False, ds) else (False, cs) | [] \<Rightarrow> (False, []))
        in if ds = [] \<or> \<not> list_all is_digit ds then None
           else Some (if neg then - int (number_from 0 ds) else int (number_from 0 ds))
      else None)"

definition scaled :: "rat \<Rightarrow> int \<Rightarrow> rat" where
  "scaled m e = (if 0 \<le> e then m * 10 ^ nat e else m / 10 ^ nat (- e))"

definition read_decimal :: "string \<Rightarrow> rat option" where
  "read_decimal s =
     (let whole = takeWhile is_digit s; r = dropWhile is_digit s;
          (frac, r') = (case r of c # cs \<Rightarrow> if c = CHR ''.'' then (takeWhile is_digit cs, dropWhile is_digit cs)
              else ([], r) | [] \<Rightarrow> ([], []))
      in if whole = [] \<and> frac = [] then None
         else map_option (scaled (rat_of_nat (number_from 0 (whole @ frac)) / 10 ^ length frac)) (read_exponent r'))"

definition parse_f64 :: "string \<Rightarrow> float option" where
  "parse_f64 s =
     (let (neg, t) = (case s of c # cs \<Rightarrow> if c = CHR ''-'' then (True, cs)
            else if c = CHR ''+'' then (False, cs) else (False, s) | [] \<Rightarrow> (False, []))
      in if eq_ignore_case t ''inf'' \<or> eq_ignore_case t ''infinity'' then Some (Infinite neg)
         else if eq_ignore_case t ''nan'' then Some NaN
         else map_option (\<lambda>x. to_f64 (if neg then - x else x)) (read_decimal t))"

definition MAX_RETRY_AFTER :: rat where "MAX_RETRY_AFTER = 30"

definition header_seconds :: "(string \<Rightarrow> string option) \<Rightarrow> string \<Rightarrow> rat option" where
  "header_seconds headers name =
     (case headers name of
        None \<Rightarrow> None
      | Some v \<Rightarrow> (case parse_f64 (trim v) of
          Some (Finite x) \<Rightarrow> if 0 \<le> x then Some x else None
        | _ \<Rightarrow> None))"

definition retry_after :: "(string \<Rightarrow> string option) \<Rightarrow> rat option" where
  "retry_after headers =
     map_option (\<lambda>s. min s MAX_RETRY_AFTER)
       (case header_seconds headers ''retry-after-ms'' of
          Some ms \<Rightarrow> Some (ms / 1000)
        | None \<Rightarrow> header_seconds headers ''retry-after'')"

datatype network_error = Timed_Out string | Network string

definition network_failure :: "network_error \<Rightarrow> failure" where
  "network_failure e =
     \<lparr>fl_error = Unavailable (case e of Timed_Out t \<Rightarrow> ''timeout: '' @ t | Network t \<Rightarrow> ''network: '' @ t),
      fl_retry_after = None\<rparr>"

record response =
  rs_status :: nat
  rs_headers :: "string \<Rightarrow> string option"
  rs_text :: "network_error + string"

definition status_error :: "(nat \<Rightarrow> string) \<Rightarrow> nat \<Rightarrow> judge_error" where
  "status_error status_text status =
     (let detail = ''HTTP '' @ status_text status
      in if status \<in> {401, 403} then Unauthorized detail
         else if status \<in> {408, 429} \<or> 500 \<le> status \<and> status \<le> 599 then Unavailable detail
         else InvalidRequest detail)"

definition success_body :: "(nat \<Rightarrow> string) \<Rightarrow> response \<Rightarrow> failure + string" where
  "success_body status_text r =
     (if 200 \<le> rs_status r \<and> rs_status r < 300
      then (case rs_text r of Inl e \<Rightarrow> Inl (network_failure e) | Inr t \<Rightarrow> Inr t)
      else Inl \<lparr>fl_error = status_error status_text (rs_status r), fl_retry_after = retry_after (rs_headers r)\<rparr>)"

section \<open>The wire\<close>

datatype wire_query =
    WireNoul json "(json \<times> json) option"
  | WireChoice json "(string \<times> json) list"
  | WireScore json "json list"

fun wire_question :: "question \<Rightarrow> wire_query" where
  "wire_question (QNoul i c) = WireNoul i (map_option (\<lambda>c. (c_yes c, c_no c)) c)"
| "wire_question (QChoice i opts) = WireChoice i (btree_of (map (\<lambda>(name, d). (name, unwrap_or d JNull)) opts))"
| "wire_question (QScore i levels) = WireScore i levels"

record wire_request =
  wr_state :: json
  wr_model :: string
  wr_questions :: "(string \<times> wire_query) list"

datatype wire_answer =
    WireNoulAnswer rat
  | WireChoiceAnswer "(string \<times> rat) list"
  | WireScoreAnswer "(string \<times> rat) list"

record wire_response =
  wp_model :: string
  wp_answers :: "(string \<times> wire_answer) list"
  wp_usage :: "nat option"

fun score_levels :: "(string \<times> rat) list \<Rightarrow> nat list \<Rightarrow> judge_error + rat list" where
  "score_levels probs [] = Inr []"
| "score_levels probs (l # ls) =
     (case map_of probs (dec l) of
        None \<Rightarrow> Inl (Malformed (OtherMalformed (''score has no level '' @ dec l)))
      | Some p \<Rightarrow> (case score_levels probs ls of Inl e \<Rightarrow> Inl e | Inr ps \<Rightarrow> Inr (p # ps)))"

fun into_answer :: "wire_answer \<Rightarrow> judge_error + answer" where
  "into_answer (WireNoulAnswer p) = Inr (Noul p)"
| "into_answer (WireChoiceAnswer probs) = Inr (Choice probs)"
| "into_answer (WireScoreAnswer probs) =
     (case score_levels probs [0..<length probs] of Inl e \<Rightarrow> Inl e | Inr ps \<Rightarrow> Inr (Score ps))"

fun into_answers :: "(string \<times> wire_answer) list \<Rightarrow> judge_error + answers" where
  "into_answers [] = Inr []"
| "into_answers ((i, a) # as) =
     (case into_answer a of
        Inl e \<Rightarrow> Inl e
      | Inr b \<Rightarrow> (case into_answers as of Inl e \<Rightarrow> Inl e | Inr bs \<Rightarrow> Inr ((i, b) # bs)))"

section \<open>The typesafe provider\<close>

record typesafe_judge =
  ts_id :: string
  ts_model :: string
  ts_api_base :: string
  ts_api_key :: string
  ts_retry :: retry_policy

definition typesafe_new :: "string option \<Rightarrow> judge_config \<Rightarrow> string \<Rightarrow> judge_error + typesafe_judge" where
  "typesafe_new client_error c api_key =
     (case client_error of
        Some e \<Rightarrow> Inl (InvalidRequest (''cannot build HTTP client: '' @ e))
      | None \<Rightarrow> Inr \<lparr>ts_id = judge_key c, ts_model = model c,
          ts_api_base = rev (dropWhile (\<lambda>ch. ch = CHR ''/'') (rev (api_base c))), ts_api_key = api_key,
          ts_retry = retry_policy_new (max_retries c)\<rparr>)"

text \<open>The HTTP exchange and what surrounds it; \<open>ht_post n\<close> is the exchange after \<open>n\<close> retries.\<close>

record http =
  ht_post :: "nat \<Rightarrow> string \<Rightarrow> string \<Rightarrow> wire_request \<Rightarrow> network_error + response"
  ht_get :: "nat \<Rightarrow> string \<Rightarrow> string \<Rightarrow> network_error + response"
  ht_read :: "string \<Rightarrow> string + wire_response"
  ht_status_text :: "nat \<Rightarrow> string"

definition failed :: "judge_error \<Rightarrow> failure" where
  "failed e = \<lparr>fl_error = e, fl_retry_after = None\<rparr>"

definition read_answers :: "typesafe_judge \<Rightarrow> question_set \<Rightarrow> wire_response \<Rightarrow> judge_error + judged" where
  "read_answers j qs wire =
     (if wp_model wire \<noteq> ts_model j
      then Inl (Malformed (OtherMalformed (''answered by model '' @ wp_model wire @ '', configured '' @ ts_model j)))
      else case into_answers (wp_answers wire) of
          Inl e \<Rightarrow> Inl e
        | Inr as \<Rightarrow> (case check_answers qs as of
              Inl e \<Rightarrow> Inl e
            | Inr _ \<Rightarrow> Inr \<lparr>jd_answers = as, jd_input_tokens = wp_usage wire\<rparr>))"

definition evaluate_once ::
    "http \<Rightarrow> typesafe_judge \<Rightarrow> wire_request \<Rightarrow> question_set \<Rightarrow> nat \<Rightarrow> failure + judged" where
  "evaluate_once h j body qs n =
     (case ht_post h n (ts_api_base j @ ''/v1/systemone'') (ts_api_key j) body of
        Inl e \<Rightarrow> Inl (network_failure e)
      | Inr r \<Rightarrow> (case success_body (ht_status_text h) r of
          Inl f \<Rightarrow> Inl f
        | Inr t \<Rightarrow> (case ht_read h t of
            Inl e \<Rightarrow> Inl (failed (Malformed (OtherMalformed (''response body: '' @ e))))
          | Inr wire \<Rightarrow> (case read_answers j qs wire of Inl e \<Rightarrow> Inl (failed e) | Inr v \<Rightarrow> Inr v))))"

definition health_once :: "http \<Rightarrow> typesafe_judge \<Rightarrow> nat \<Rightarrow> failure + unit" where
  "health_once h j n =
     (case ht_get h n (ts_api_base j @ ''/v1/models'') (ts_api_key j) of
        Inl e \<Rightarrow> Inl (network_failure e)
      | Inr r \<Rightarrow> (case success_body (ht_status_text h) r of Inl f \<Rightarrow> Inl f | Inr _ \<Rightarrow> Inr ()))"

definition wire_body :: "typesafe_judge \<Rightarrow> json \<Rightarrow> question_set \<Rightarrow> wire_request" where
  "wire_body j state qs = \<lparr>wr_state = state, wr_model = ts_model j,
     wr_questions = map (\<lambda>(i, q). (i, wire_question q)) (q_questions qs)\<rparr>"

definition typesafe_evaluate ::
    "http \<Rightarrow> typesafe_judge \<Rightarrow> json \<Rightarrow> question_set \<Rightarrow> (judge_error + judged) \<times> rat list" where
  "typesafe_evaluate h j state qs = with_retries (ts_retry j) (evaluate_once h j (wire_body j state qs) qs) 0"

definition typesafe_health :: "http \<Rightarrow> typesafe_judge \<Rightarrow> (judge_error + unit) \<times> rat list" where
  "typesafe_health h j = with_retries (ts_retry j) (health_once h j) 0"

definition MAX_CHOICE_OPTIONS :: nat where "MAX_CHOICE_OPTIONS = 255"
definition MAX_SCORE_LEVELS :: nat where "MAX_SCORE_LEVELS = 10"
definition MAX_CONTEXT_TOKENS :: nat where "MAX_CONTEXT_TOKENS = 64000"

definition typesafe_capabilities :: capabilities where
  "typesafe_capabilities = \<lparr>question_kinds = [KNoul, KChoice, KScore], max_choice_options = MAX_CHOICE_OPTIONS,
     max_score_levels = MAX_SCORE_LEVELS, max_context_tokens = Some MAX_CONTEXT_TOKENS\<rparr>"

section \<open>Retries are bounded\<close>

definition wait_after :: "retry_policy \<Rightarrow> failure \<Rightarrow> nat \<Rightarrow> rat" where
  "wait_after pol f retry = (case fl_retry_after f of Some w \<Rightarrow> w | None \<Rightarrow> backoff pol retry)"

definition settled :: "failure + 'a \<Rightarrow> judge_error + 'a" where
  "settled r = (case r of Inr v \<Rightarrow> Inr v | Inl f \<Rightarrow> Inl (fl_error f))"

definition retried :: "retry_policy \<Rightarrow> (nat \<Rightarrow> failure + 'a) \<Rightarrow> nat \<Rightarrow> rat \<Rightarrow> bool" where
  "retried pol attempt k w \<longleftrightarrow>
     (case attempt k of Inr _ \<Rightarrow> False | Inl f \<Rightarrow> is_retryable (fl_error f) \<and> w = wait_after pol f k)"

definition last_one :: "retry_policy \<Rightarrow> (nat \<Rightarrow> failure + 'a) \<Rightarrow> nat \<Rightarrow> bool" where
  "last_one pol attempt n \<longleftrightarrow>
     (case attempt n of Inr _ \<Rightarrow> True | Inl f \<Rightarrow> \<not> is_retryable (fl_error f) \<or> rp_max_retries pol \<le> n)"

lemma with_retries_last:
  "last_one pol attempt k \<Longrightarrow> with_retries pol attempt k = (settled (attempt k), [])"
  by (subst with_retries.simps) (auto simp: last_one_def settled_def split: sum.splits)

lemma with_retries_again:
  "\<not> last_one pol attempt k \<Longrightarrow> \<exists>w. retried pol attempt k w \<and> k < rp_max_retries pol \<and>
     with_retries pol attempt k =
       (fst (with_retries pol attempt (k + 1)), w # snd (with_retries pol attempt (k + 1)))"
  by (subst with_retries.simps)
    (auto simp: last_one_def retried_def wait_after_def Let_def split: sum.splits prod.splits)

lemma with_retries_from:
  assumes "with_retries pol attempt k = (r, waits)" and "k \<le> rp_max_retries pol"
  shows "k + length waits \<le> rp_max_retries pol \<and> r = settled (attempt (k + length waits)) \<and>
    last_one pol attempt (k + length waits) \<and>
    list_all (\<lambda>(i, w). retried pol attempt i w) (enumerate k waits)"
  using assms
proof (induction "rp_max_retries pol - k" arbitrary: k r waits rule: less_induct)
  case less
  show ?case
  proof (cases "last_one pol attempt k")
    case True
    with less.prems with_retries_last [OF True] show ?thesis by simp
  next
    case False
    obtain w where w: "retried pol attempt k w" "k < rp_max_retries pol"
      "with_retries pol attempt k =
        (fst (with_retries pol attempt (k + 1)), w # snd (with_retries pol attempt (k + 1)))"
      using with_retries_again [OF False] by blast
    let ?ws = "snd (with_retries pol attempt (k + 1))"
    have waits: "waits = w # ?ws" and r: "with_retries pol attempt (k + 1) = (r, ?ws)"
      using less.prems(1) w(3) by (auto simp: prod_eq_iff)
    from less.hyps [OF _ r] w(2) have "k + 1 + length ?ws \<le> rp_max_retries pol \<and>
      r = settled (attempt (k + 1 + length ?ws)) \<and> last_one pol attempt (k + 1 + length ?ws) \<and>
      list_all (\<lambda>(i, w). retried pol attempt i w) (enumerate (k + 1) ?ws)" by simp
    with waits w(1) show ?thesis by simp
  qed
qed

text \<open>
  Property C32. A call ends after at most \<open>max_retries\<close> retries, whatever the server answers: every attempt but the
  last failed with a retryable error and was followed by the wait the server asked for or else the
  back-off; the last one succeeded, failed for good, or used up the retries, and its outcome is the
  call's.
\<close>

theorem retries_end:
  assumes "with_retries pol attempt 0 = (r, waits)"
  shows "length waits \<le> rp_max_retries pol \<and> r = settled (attempt (length waits)) \<and>
    last_one pol attempt (length waits) \<and> list_all (\<lambda>(i, w). retried pol attempt i w) (enumerate 0 waits)"
  using with_retries_from [OF assms] by simp

section \<open>Waits are bounded\<close>

lemma rat_power_le: "(2::nat) ^ n \<le> m \<Longrightarrow> (2::rat) ^ n \<le> rat_of_nat m"
  by (metis of_nat_le_iff of_nat_numeral of_nat_power)

lemma backoff_new: "backoff (retry_policy_new n) k = min (2 ^ k / 2) 5"
proof (cases "k \<le> 31")
  case True
  then have "(2::nat) ^ k \<le> 2 ^ 31" by (intro power_increasing) simp_all
  then have k: "(2::nat) ^ k \<le> u32_max" by (simp add: u32_max_def)
  then have "(2::rat) ^ k \<le> rat_of_nat u32_max" by (rule rat_power_le)
  with k show ?thesis by (simp add: backoff_def retry_policy_new_def min_def u32_max_def DURATION_MAX_def)
next
  case False
  then have "(2::nat) ^ 32 \<le> 2 ^ k" by (intro power_increasing) simp_all
  then have k: "u32_max \<le> (2::nat) ^ k" by (simp add: u32_max_def)
  have "(2::rat) ^ 32 \<le> 2 ^ k" using False by (intro power_increasing) simp_all
  with k show ?thesis by (simp add: backoff_def retry_policy_new_def min_def u32_max_def DURATION_MAX_def)
qed

text \<open>
  Under the provider's own policy the back-off is half a second doubled per retry up to five seconds,
  for every retry count: neither saturation of the code's arithmetic ever shows.
\<close>

theorem backoff_doubles: "backoff (retry_policy_new n) k = min (2 ^ k / 2) 5"
by (rule backoff_new)

definition busy_then_down :: "nat \<Rightarrow> failure + nat" where
  "busy_then_down n = (if n = 0 then Inl \<lparr>fl_error = Unavailable ''HTTP 429'', fl_retry_after = Some 3\<rparr>
     else if n = 1 then Inl (network_failure (Timed_Out ''10 s'')) else Inl (failed (Unauthorized ''HTTP 401'')))"

lemma busy_then_down_run:
  "with_retries (retry_policy_new 3) busy_then_down 0 = (Inl (Unauthorized ''HTTP 401''), [3, 1])"
  by (simp add: with_retries.simps [of _ busy_then_down] busy_then_down_def network_failure_def failed_def
      is_retryable_def retry_policy_new_def backoff_new [unfolded retry_policy_new_def])

lemma retries_end_witness:
  "with_retries (retry_policy_new 3) busy_then_down 0 = (settled (busy_then_down 2), [3, 1]) \<and>
   last_one (retry_policy_new 3) busy_then_down 2"
  using retries_end [OF busy_then_down_run] by (simp add: busy_then_down_run numeral_2_eq_2)


section \<open>What a provider may return\<close>

lemma checked_keys:
  assumes "check_answers qs as = Inr u"
  shows "fst ` set as = fst ` set (q_questions qs) \<and>
    (\<forall>(i, q) \<in> set (q_questions qs). \<exists>a. map_of as i = Some a \<and> fits a q)"
proof -
  have sub: "fst ` set as \<subseteq> fst ` set (q_questions qs)"
    and each: "\<forall>(i, q) \<in> set (q_questions qs). \<exists>a. map_of as i = Some a \<and> fits a q"
    using assms by (simp_all add: check_answers_parts)
  have "i \<in> fst ` set as" if iq: "(i, q) \<in> set (q_questions qs)" for i q
  proof -
    obtain a where "map_of as i = Some a" using bspec [OF each iq] by auto
    from image_eqI [OF _ map_of_SomeD [OF this], of i fst] show ?thesis by simp
  qed
  then have "fst ` set (q_questions qs) \<subseteq> fst ` set as" by auto
  with sub each show ?thesis by blast
qed

text \<open>
  The contract every judge keeps: what it returns for a question set has passed \<open>check_answers\<close>
  against that set. The turn rests on it and on nothing else of the provider.
\<close>

locale checked_judge =
  fixes ask :: "json \<Rightarrow> question_set \<Rightarrow> judge_error + judged"
  assumes checked: "ask state qs = Inr v \<Longrightarrow> check_answers qs (jd_answers v) = Inr ()"
begin

lemma fitting:
  assumes "ask state qs = Inr v"
  shows "fst ` set (jd_answers v) = fst ` set (q_questions qs) \<and>
    (\<forall>(i, q) \<in> set (q_questions qs). \<exists>a. map_of (jd_answers v) i = Some a \<and> fits a q)"
  by (rule checked_keys [OF checked [OF assms]])

end

lemma recorded_answer_Inr:
  "recorded_answer json_text j state qs = Inr v \<longleftrightarrow>
     q_version qs = rj_question_set j \<and> jd_input_tokens v = None \<and> check_answers qs (jd_answers v) = Inr () \<and>
     rj_by_request j (request_key json_text state (map fst (q_questions qs))) = Some (jd_answers v)"
  by (auto simp: recorded_answer_def split: option.splits sum.splits)

lemma read_answers_Inr:
  "read_answers j qs wire = Inr v \<longleftrightarrow>
     wp_model wire = ts_model j \<and> into_answers (wp_answers wire) = Inr (jd_answers v) \<and>
     check_answers qs (jd_answers v) = Inr () \<and> jd_input_tokens v = wp_usage wire"
  by (auto simp: read_answers_def split: sum.splits)

interpretation replay: checked_judge "recorded_answer json_text j" for json_text j
  by unfold_locales (simp add: recorded_answer_Inr)

lemma evaluate_once_Inr:
  "evaluate_once h j body qs n = Inr v \<longleftrightarrow>
     (\<exists>r t wire. ht_post h n (ts_api_base j @ ''/v1/systemone'') (ts_api_key j) body = Inr r \<and>
        success_body (ht_status_text h) r = Inr t \<and> ht_read h t = Inr wire \<and> read_answers j qs wire = Inr v)"
  by (auto simp: evaluate_once_def split: sum.splits)

lemma settled_Inr: "settled r = Inr v \<longleftrightarrow> r = Inr v"
  by (auto simp: settled_def split: sum.splits)

lemma typesafe_evaluate_Inr:
  assumes "fst (typesafe_evaluate h j state qs) = Inr v"
  shows "\<exists>n \<le> rp_max_retries (ts_retry j). evaluate_once h j (wire_body j state qs) qs n = Inr v"
proof -
  obtain waits where "with_retries (ts_retry j) (evaluate_once h j (wire_body j state qs) qs) 0 = (Inr v, waits)"
    using assms by (metis prod.collapse typesafe_evaluate_def)
  from with_retries_from [OF this] have "length waits \<le> rp_max_retries (ts_retry j)"
    and "settled (evaluate_once h j (wire_body j state qs) qs (length waits)) = Inr v" by simp_all
  then show ?thesis unfolding settled_Inr by blast
qed

interpretation live: checked_judge "\<lambda>state qs. fst (typesafe_evaluate h j state qs)" for h j
  by unfold_locales (auto simp: evaluate_once_Inr read_answers_Inr dest!: typesafe_evaluate_Inr)

text \<open>
  Property C16. Whichever provider answers, live or replayed, there is exactly one answer per question asked and it
  has the question's type: a probability for a yes-or-no, a distribution over exactly the options of a
  choice, or over exactly the levels of a score.
\<close>

theorem answers_have_their_questions_type:
  assumes "recorded_answer json_text r state qs = Inr v \<or> fst (typesafe_evaluate h j state qs) = Inr v"
  shows "fst ` set (jd_answers v) = fst ` set (q_questions qs) \<and>
    (\<forall>(i, q) \<in> set (q_questions qs). \<exists>a. map_of (jd_answers v) i = Some a \<and> fits a q)"
  using assms
proof
  assume "recorded_answer json_text r state qs = Inr v"
  then show ?thesis by (rule replay.fitting)
next
  assume "fst (typesafe_evaluate h j state qs) = Inr v"
  then show ?thesis by (rule live.fitting)
qed

text \<open>
  Answers are never used under another judge's name: what the provider returns came in a response the
  server marked as a success, within the allowed retries, naming exactly the configured model.
\<close>

theorem only_the_pinned_model_answers:
  assumes "typesafe_new client_error c key = Inr j" and "fst (typesafe_evaluate h j state qs) = Inr v"
  shows "\<exists>n r t wire. n \<le> max_retries c \<and>
    ht_post h n (ts_api_base j @ ''/v1/systemone'') key \<lparr>wr_state = state, wr_model = model c,
       wr_questions = map (\<lambda>(i, q). (i, wire_question q)) (q_questions qs)\<rparr> = Inr r \<and>
    rs_status r div 100 = 2 \<and> rs_text r = Inr t \<and> ht_read h t = Inr wire \<and> wp_model wire = model c \<and>
    into_answers (wp_answers wire) = Inr (jd_answers v)"
proof -
  have j: "ts_model j = model c" "ts_api_key j = key" "rp_max_retries (ts_retry j) = max_retries c"
    using assms(1) by (auto simp: typesafe_new_def retry_policy_new_def split: option.splits)
  have ok: "success_body st r = Inr t \<Longrightarrow> rs_status r div 100 = 2 \<and> rs_text r = Inr t" for st r t
    by (auto simp: success_body_def split: if_splits sum.splits)
  from typesafe_evaluate_Inr [OF assms(2)] show ?thesis
    unfolding evaluate_once_Inr read_answers_Inr j wire_body_def by (blast dest: ok)
qed

section \<open>A recording replays what was recorded\<close>

lemma index_cases_Inr:
  assumes "index_cases json_text cs m = Inr m'"
  shows "distinct (map (case_key json_text) cs) \<and> dom m \<inter> case_key json_text ` set cs = {} \<and>
    m' = (\<lambda>k. case find (\<lambda>c. case_key json_text c = k) cs of Some c \<Rightarrow> Some (rc_answers c) | None \<Rightarrow> m k)"
  using assms
proof (induction cs arbitrary: m)
  case (Cons c cs)
  then have new: "m (case_key json_text c) = None" and
    rest: "index_cases json_text cs (m(case_key json_text c \<mapsto> rc_answers c)) = Inr m'"
    by (auto split: if_splits)
  note IH = Cons.IH [OF rest]
  then have fresh: "case_key json_text c \<notin> case_key json_text ` set cs" by auto
  then have none: "find (\<lambda>d. case_key json_text d = case_key json_text c) cs = None"
    unfolding find_None_iff by (metis image_eqI)
  have "m' k = (case find (\<lambda>c. case_key json_text c = k) (c # cs) of Some c \<Rightarrow> Some (rc_answers c) | None \<Rightarrow> m k)" for k
    using IH none by (cases "case_key json_text c = k") (auto split: option.splits)
  then have "m' = (\<lambda>k. case find (\<lambda>c. case_key json_text c = k) (c # cs) of
      Some c \<Rightarrow> Some (rc_answers c) | None \<Rightarrow> m k)" ..
  moreover have "dom m \<inter> case_key json_text ` set (c # cs) = {}"
  proof -
    have "dom m \<subseteq> dom (m(case_key json_text c \<mapsto> rc_answers c))" by auto
    with conjunct1 [OF conjunct2 [OF IH]] have "dom m \<inter> case_key json_text ` set cs = {}" by blast
    with new show ?thesis by (simp add: domIff)
  qed
  ultimately show ?case using conjunct1 [OF IH] fresh by simp
qed auto

lemma index_cases_total:
  "distinct (map (case_key json_text) cs) \<Longrightarrow> dom m \<inter> case_key json_text ` set cs = {} \<Longrightarrow>
     \<exists>m'. index_cases json_text cs m = Inr m'"
  by (induction cs arbitrary: m) auto

lemma recorded_new_Inr:
  assumes "recorded_new json_text r = Inr j"
  shows "distinct (map (case_key json_text) (rg_cases r)) \<and> rj_source_id j = ''recorded/'' @ rg_judge r \<and>
    rj_question_set j = rg_question_set r \<and>
    rj_by_request j = (\<lambda>k. map_option rc_answers (find (\<lambda>c. case_key json_text c = k) (rg_cases r)))"
proof -
  obtain m where m: "index_cases json_text (rg_cases r) Map.empty = Inr m"
    and j: "j = \<lparr>rj_source_id = ''recorded/'' @ rg_judge r, rj_question_set = rg_question_set r, rj_by_request = m\<rparr>"
    using assms by (auto simp: recorded_new_def split: sum.splits)
  have "m k = map_option rc_answers (find (\<lambda>c. case_key json_text c = k) (rg_cases r))" for k
    using index_cases_Inr [OF m] by (simp split: option.splits)
  then have "m = (\<lambda>k. map_option rc_answers (find (\<lambda>c. case_key json_text c = k) (rg_cases r)))" ..
  then show ?thesis using index_cases_Inr [OF m] by (simp add: j)
qed

lemma find_distinct_key:
  "distinct (map f xs) \<Longrightarrow> find (\<lambda>x. f x = k) xs = Some y \<longleftrightarrow> y \<in> set xs \<and> f y = k"
  by (induction xs) auto

text \<open>
  A recording never guesses: a request is answered exactly when the recording was made on the same
  question set and holds a case with the same state text and the same question ids whose answers fit
  the questions; the answer is that case's, and there is no second such case.
\<close>

theorem replay_is_exact:
  assumes "recorded_new json_text r = Inr j"
  shows "recorded_answer json_text j state qs = Inr v \<longleftrightarrow>
    q_version qs = rg_question_set r \<and> jd_input_tokens v = None \<and> check_answers qs (jd_answers v) = Inr () \<and>
    (\<exists>!c. c \<in> set (rg_cases r) \<and> json_text (rc_state c) = json_text state \<and>
       map fst (rc_answers c) = map fst (q_questions qs)) \<and>
    (\<exists>c \<in> set (rg_cases r). json_text (rc_state c) = json_text state \<and>
       map fst (rc_answers c) = map fst (q_questions qs) \<and> rc_answers c = jd_answers v)"
proof -
  note new = recorded_new_Inr [OF assms]
  let ?hit = "\<lambda>c. c \<in> set (rg_cases r) \<and> json_text (rc_state c) = json_text state \<and>
    map fst (rc_answers c) = map fst (q_questions qs)"
  have found: "find (\<lambda>c. case_key json_text c = request_key json_text state (map fst (q_questions qs))) (rg_cases r)
      = Some c \<longleftrightarrow> ?hit c" for c
    using find_distinct_key new by (force simp: case_key_def request_key_def)
  have "(\<exists>c. ?hit c \<and> rc_answers c = jd_answers v) \<longleftrightarrow>
      rj_by_request j (request_key json_text state (map fst (q_questions qs))) = Some (jd_answers v)"
    using new by (simp add: found)
  moreover have "?hit c \<Longrightarrow> ?hit d \<Longrightarrow> c = d" for c d
    using found [of c] found [of d] by (metis option.inject)
  ultimately show ?thesis unfolding recorded_answer_Inr conjunct1 [OF conjunct2 [OF conjunct2 [OF new]]] by blast
qed

section \<open>Scores on the wire\<close>

definition score_on_wire :: "rat list \<Rightarrow> (string \<times> rat) list" where
  "score_on_wire ps = btree_of (map (\<lambda>(i, p). (dec i, p)) (enumerate 0 ps))"

lemma score_levels_ok:
  "list_all2 (\<lambda>l p. map_of probs (dec l) = Some p) ls ps \<Longrightarrow> score_levels probs ls = Inr ps"
  by (induction rule: list_all2_induct) auto

lemma score_on_wire_lookup:
  assumes "i < length ps"
  shows "map_of (score_on_wire ps) (dec i) = Some (ps ! i)"
proof -
  have "distinct (map fst (map (\<lambda>(i, p). (dec i, p)) (enumerate 0 ps)))"
    by (auto simp: distinct_map inj_on_def dec_inject in_set_enumerate_eq)
  then have "distinct (map fst (rev (map (\<lambda>(i, p). (dec i, p)) (enumerate 0 ps))))"
    by (simp only: rev_map [symmetric] distinct_rev)
  moreover have "(dec i, ps ! i) \<in> set (rev (map (\<lambda>(i, p). (dec i, p)) (enumerate 0 ps)))"
    using assms by (auto simp: in_set_enumerate_eq intro!: image_eqI [where x = "(i, ps ! i)"])
  ultimately show ?thesis unfolding score_on_wire_def map_of_btree_of by (rule map_of_is_SomeI)
qed

lemma set_key_fold: "set (fold key_insert ks xs) = set ks \<union> set xs"
  by (induction ks arbitrary: xs) auto

lemma score_on_wire_length: "length (score_on_wire ps) = length ps"
proof -
  have d: "distinct (map fst (score_on_wire ps))"
    unfolding score_on_wire_def using sorted_btree_of by (metis strict_sorted_iff)
  have "map fst (map (\<lambda>(i, p). (dec i, p)) (enumerate 0 ps)) = map dec [0..<length ps]"
    by (rule nth_equalityI) (simp_all add: nth_enumerate_eq)
  then have "set (map fst (score_on_wire ps)) = dec ` {0..<length ps}"
    unfolding score_on_wire_def btree_of_keys by (simp only: set_key_fold) simp
  then have "card (set (map fst (score_on_wire ps))) = length ps"
    by (simp add: card_image inj_on_def dec_inject)
  then show ?thesis using distinct_card [OF d] by simp
qed

text \<open>
  A score comes off the wire in level order whatever the order of its level names: the map of a score
  is sorted by name, where level 10 stands before level 2.
\<close>

theorem score_survives_the_wire: "into_answer (WireScoreAnswer (score_on_wire ps)) = Inr (Score ps)"
proof -
  have "score_levels (score_on_wire ps) [0..<length ps] = Inr ps"
    by (rule score_levels_ok) (simp add: list_all2_conv_all_nth score_on_wire_lookup)
  then show ?thesis by (simp add: score_on_wire_length)
qed

section \<open>How long a call may wait\<close>

lemma retry_after_range: "retry_after headers = Some w \<Longrightarrow> 0 \<le> w \<and> w \<le> 30"
  by (auto simp: retry_after_def header_seconds_def MAX_RETRY_AFTER_def
      split: option.splits float.splits if_splits)

lemma evaluate_once_wait:
  "evaluate_once h j body qs n = Inl f \<Longrightarrow> fl_retry_after f = Some w \<Longrightarrow> 0 \<le> w \<and> w \<le> 30"
  by (auto simp: evaluate_once_def success_body_def network_failure_def failed_def
      split: sum.splits if_splits dest: retry_after_range)

lemma wait_range:
  assumes "retried (retry_policy_new m) (evaluate_once h j body qs) k w"
  shows "0 \<le> w \<and> w \<le> 30"
proof -
  obtain f where f: "evaluate_once h j body qs k = Inl f" and w: "w = wait_after (retry_policy_new m) f k"
    using assms by (auto simp: retried_def split: sum.splits)
  show ?thesis
  proof (cases "fl_retry_after f")
    case None
    have "0 \<le> min (2 ^ k / 2) (5::rat) \<and> min (2 ^ k / 2) (5::rat) \<le> 30" by (auto simp: min_def)
    with None w show ?thesis by (simp add: wait_after_def backoff_new)
  next
    case (Some v)
    with w evaluate_once_wait [OF f Some] show ?thesis by (simp add: wait_after_def)
  qed
qed

lemma sum_waits: "list_all (\<lambda>w. 0 \<le> w \<and> w \<le> (30::rat)) ws \<Longrightarrow> sum_list ws \<le> 30 * rat_of_nat (length ws)"
  by (induction ws) (auto simp: algebra_simps)

text \<open>
  However long the server asks Serbero to wait, no single wait of a call exceeds thirty seconds, and
  all of them together stay within thirty seconds per configured retry.
\<close>

theorem waits_are_bounded:
  assumes "typesafe_new client_error c key = Inr j" and "typesafe_evaluate h j state qs = (r, waits)"
  shows "list_all (\<lambda>w. 0 \<le> w \<and> w \<le> 30) waits \<and> sum_list waits \<le> 30 * rat_of_nat (max_retries c)"
proof -
  have pol: "ts_retry j = retry_policy_new (max_retries c)" "rp_max_retries (ts_retry j) = max_retries c"
    using assms(1) by (auto simp: typesafe_new_def retry_policy_new_def split: option.splits)
  from with_retries_from [OF assms(2) [unfolded typesafe_evaluate_def]]
  have "length waits \<le> rp_max_retries (ts_retry j)" and each:
    "list_all (\<lambda>(i, w). retried (ts_retry j) (evaluate_once h j (wire_body j state qs) qs) i w) (enumerate 0 waits)"
    by simp_all
  then have len: "length waits \<le> max_retries c" by (simp only: pol(2))
  have all: "list_all (\<lambda>w. 0 \<le> w \<and> w \<le> 30) waits"
    unfolding list_all_length
  proof (intro allI impI)
    fix i assume i: "i < length waits"
    then have "retried (ts_retry j) (evaluate_once h j (wire_body j state qs) qs) i (waits ! i)"
      using each by (auto simp: list_all_length nth_enumerate_eq)
    from wait_range [OF this [unfolded pol(1)]] show "0 \<le> waits ! i \<and> waits ! i \<le> 30" .
  qed
  have "sum_list waits \<le> 30 * rat_of_nat (length waits)" by (rule sum_waits [OF all])
  also have "\<dots> \<le> 30 * rat_of_nat (max_retries c)" using len by simp
  finally show ?thesis using all by blast
qed

section \<open>Error bodies are dropped\<close>

text \<open>A response as it is when only the bodies of successes are read.\<close>

definition without_error_body :: "network_error + response \<Rightarrow> network_error + response" where
  "without_error_body r =
     (case r of
        Inl e \<Rightarrow> Inl e
      | Inr q \<Rightarrow> if 200 \<le> rs_status q \<and> rs_status q < 300 then Inr q else Inr (q\<lparr>rs_text := Inr []\<rparr>))"

lemma success_body_without: "success_body st q = success_body st q' \<or> without_error_body (Inr q) \<noteq> without_error_body (Inr q')"
  by (cases q; cases q') (auto simp: success_body_def without_error_body_def)

lemma evaluate_once_without:
  assumes "without_error_body (ht_post h n (ts_api_base j @ ''/v1/systemone'') (ts_api_key j) body) =
      without_error_body (ht_post g n (ts_api_base j @ ''/v1/systemone'') (ts_api_key j) body)"
    and "ht_read g = ht_read h" and "ht_status_text g = ht_status_text h"
  shows "evaluate_once g j body qs n = evaluate_once h j body qs n"
proof (cases "ht_post h n (ts_api_base j @ ''/v1/systemone'') (ts_api_key j) body")
  case (Inl e)
  with assms have "ht_post g n (ts_api_base j @ ''/v1/systemone'') (ts_api_key j) body = Inl e"
    by (auto simp: without_error_body_def split: sum.splits if_splits)
  with Inl show ?thesis by (simp add: evaluate_once_def)
next
  case (Inr q)
  with assms obtain q' where q': "ht_post g n (ts_api_base j @ ''/v1/systemone'') (ts_api_key j) body = Inr q'"
    by (auto simp: without_error_body_def split: sum.splits if_splits)
  with Inr assms success_body_without [of "ht_status_text h" q q'] show ?thesis
    by (simp add: evaluate_once_def split: sum.split)
qed

text \<open>
  What the server writes in the body of a refusal, which may echo the parties' words, reaches nothing:
  two servers that differ only in those bodies give the same result after the same waits.
\<close>

theorem error_bodies_never_kept:
  assumes "\<And>n url key body. without_error_body (ht_post g n url key body) = without_error_body (ht_post h n url key body)"
    and "ht_read g = ht_read h" and "ht_status_text g = ht_status_text h"
  shows "typesafe_evaluate g j state qs = typesafe_evaluate h j state qs"
proof -
  have "evaluate_once g j (wire_body j state qs) qs = evaluate_once h j (wire_body j state qs) qs"
    by (rule ext) (rule evaluate_once_without [OF assms(1) [symmetric] assms(2,3)])
  then show ?thesis by (simp add: typesafe_evaluate_def)
qed

section \<open>A server and a recording\<close>

definition fraud_set :: question_set where
  "fraud_set = \<lparr>q_version = ''qs-1'', q_questions = [(''fraud_signal'', QNoul JNull None)]\<rparr>"

definition busy_server :: "string \<Rightarrow> http" where
  "busy_server refusal = \<lparr>
     ht_post = (\<lambda>n url key body. if n = 0
       then Inr \<lparr>rs_status = 429, rs_headers = [''retry-after-ms'' \<mapsto> ''1500''], rs_text = Inr refusal\<rparr>
       else Inr \<lparr>rs_status = 200, rs_headers = Map.empty, rs_text = Inr ''answers''\<rparr>),
     ht_get = (\<lambda>n url key. Inl (Network ''refused'')),
     ht_read = (\<lambda>t. Inr \<lparr>wp_model = ''jev-1.13.0'', wp_answers = [(''fraud_signal'', WireNoulAnswer (1 / 3))],
       wp_usage = Some 812\<rparr>),
     ht_status_text = dec\<rparr>"

definition example_typesafe :: typesafe_judge where
  "example_typesafe = \<lparr>ts_id = ''typesafe/jev-1.13.0'', ts_model = ''jev-1.13.0'',
     ts_api_base = ''https://api.typesafe.ai'', ts_api_key = ''key'', ts_retry = retry_policy_new 3\<rparr>"

definition fraud_judged :: judged where
  "fraud_judged = \<lparr>jd_answers = [(''fraud_signal'', Noul (1 / 3))], jd_input_tokens = Some 812\<rparr>"

lemma example_typesafe_new: "typesafe_new None default_judge ''key'' = Inr example_typesafe"
  by (simp add: typesafe_new_def example_typesafe_def default_judge_def judge_key_def)

lemma read_1500: "read_decimal ''1500'' = Some 1500" and trim_1500: "trim ''1500'' = ''1500''"
  and not_special: "\<not> eq_ignore_case ''1500'' ''inf''" "\<not> eq_ignore_case ''1500'' ''infinity''"
    "\<not> eq_ignore_case ''1500'' ''nan''"
  by code_simp+

lemma busy_server_waits: "retry_after [''retry-after-ms'' \<mapsto> ''1500''] = Some (3 / 2)"
  by (simp add: retry_after_def header_seconds_def trim_1500 parse_f64_def not_special read_1500 to_f64_def
      f64_limit_def MAX_RETRY_AFTER_def)

lemma busy_server_run:
  "typesafe_evaluate (busy_server refusal) example_typesafe JNull fraud_set = (Inr fraud_judged, [3 / 2])"
proof -
  let ?a = "evaluate_once (busy_server refusal) example_typesafe (wire_body example_typesafe JNull fraud_set) fraud_set"
  have first: "?a 0 = Inl \<lparr>fl_error = Unavailable (''HTTP '' @ dec 429), fl_retry_after = Some (3 / 2)\<rparr>"
    using busy_server_waits by (simp add: evaluate_once_def busy_server_def success_body_def status_error_def)
  have second: "?a (Suc 0) = Inr fraud_judged"
    by (simp add: evaluate_once_def busy_server_def success_body_def read_answers_def example_typesafe_def
        fraud_judged_def fraud_set_def check_answers_def check_unit_def)
  show ?thesis
    by (simp add: typesafe_evaluate_def with_retries.simps [of _ ?a] first second is_retryable_def)
      (simp add: example_typesafe_def retry_policy_new_def)
qed

lemma answers_have_their_questions_type_witness:
  "fst ` set (jd_answers fraud_judged) = {''fraud_signal''}"
  using answers_have_their_questions_type [of "\<lambda>_. []" undefined JNull fraud_set fraud_judged "busy_server []"
      example_typesafe] busy_server_run [of "[]"] by (simp add: fraud_set_def)

lemma only_the_pinned_model_answers_witness:
  "fst (typesafe_evaluate (busy_server []) example_typesafe JNull fraud_set) = Inr fraud_judged \<and>
   (\<exists>n r. n \<le> max_retries default_judge \<and> rs_status (r :: response) div 100 = 2)"
  using only_the_pinned_model_answers [OF example_typesafe_new, of "busy_server []" JNull fraud_set fraud_judged]
    busy_server_run [of "[]"] by (metis fst_conv)

lemma waits_are_bounded_witness: "sum_list [3 / 2] \<le> 30 * rat_of_nat (max_retries default_judge)"
  using waits_are_bounded [OF example_typesafe_new busy_server_run [of "[]"]] by simp

lemma error_bodies_never_kept_witness:
  "typesafe_evaluate (busy_server ''the buyer wrote'') example_typesafe JNull fraud_set = (Inr fraud_judged, [3 / 2])"
proof -
  have "typesafe_evaluate (busy_server ''the buyer wrote'') example_typesafe JNull fraud_set =
      typesafe_evaluate (busy_server []) example_typesafe JNull fraud_set"
    by (rule error_bodies_never_kept) (simp_all add: busy_server_def without_error_body_def)
  with busy_server_run [of "[]"] show ?thesis by simp
qed

definition fraud_recording :: recording where
  "fraud_recording = \<lparr>rg_judge = ''typesafe/jev-1.13.0'', rg_question_set = ''qs-1'',
     rg_cases = [\<lparr>rc_case_id = ''c1'', rc_state = JNull, rc_answers = [(''fraud_signal'', Noul (1 / 3))]\<rparr>]\<rparr>"

definition fraud_replay :: recorded_judge where
  "fraud_replay = \<lparr>rj_source_id = ''recorded/typesafe/jev-1.13.0'', rj_question_set = ''qs-1'',
     rj_by_request = [([''fraud_signal''], ''null'') \<mapsto> [(''fraud_signal'', Noul (1 / 3))]]\<rparr>"

lemma fraud_recording_new: "recorded_new (\<lambda>_. ''null'') fraud_recording = Inr fraud_replay"
  by (simp add: recorded_new_def fraud_recording_def fraud_replay_def case_key_def request_key_def)

lemma replay_is_exact_witness:
  "recorded_answer (\<lambda>_. ''null'') fraud_replay JNull fraud_set = Inr (fraud_judged\<lparr>jd_input_tokens := None\<rparr>)"
  unfolding replay_is_exact [OF fraud_recording_new]
  by (auto simp: fraud_recording_def fraud_set_def fraud_judged_def check_answers_def check_unit_def)

end
