(* ===== verification/Evaluation.thy ===== *)
theory Evaluation
  imports Providers "HOL-Library.Multiset"
begin

text \<open>
  The evaluation of a judge against labelled cases: \<open>src/src/eval/case.rs\<close> (the golden cases),
  \<open>src/src/eval/metrics.rs\<close> (scores, rates, targets and recommended thresholds),
  \<open>src/src/eval/report.rs\<close> (running the cases and recording the answers) and the decisions of
  \<open>src/src/bin/eval.rs\<close> (arguments and settings). The walk over the directory is not modelled: \<open>load_cases\<close>
  starts from the cases read; the report and the files written are in \<open>Report\<close>. An \<open>f64\<close> is a rational.
\<close>

section \<open>Golden cases\<close>

datatype label = LOption string | LYes bool

record golden =
  gc_id :: string
  gc_lang :: string
  gc_source :: string
  gc_state :: json
  gc_guiding :: bool
  gc_expect :: "(string \<times> label) list"

definition is_array :: "json \<Rightarrow> bool" where
  "is_array j = (case j of JArr _ \<Rightarrow> True | _ \<Rightarrow> False)"

definition has_items :: "json \<Rightarrow> bool" where
  "has_items j = (case j of JArr xs \<Rightarrow> xs \<noteq> [] | _ \<Rightarrow> False)"

definition case_wrote :: "golden \<Rightarrow> party list" where
  "case_wrote c = filter (\<lambda>p. has_items (jget (jget (gc_state c) ''latest'') (party_str p))) [Buyer, Seller]"

definition case_questions :: "question_set \<Rightarrow> golden \<Rightarrow> question_set" where
  "case_questions turn c = for_turn turn (case_wrote c) (gc_guiding c)"

datatype case_problem =
    NoTranscript string
  | NotAsked string string
  | NotAnAnswer string string label
  | RepeatedId string

fun valid_label :: "question \<Rightarrow> label \<Rightarrow> bool" where
  "valid_label (QNoul _ _) (LYes _) = True"
| "valid_label (QChoice _ options) (LOption opt) = (opt \<in> fst ` set options)"
| "valid_label _ _ = False"

fun check_labels :: "string \<Rightarrow> (string \<times> question) list \<Rightarrow> (string \<times> label) list \<Rightarrow> case_problem + unit" where
  "check_labels cid qs [] = Inr ()"
| "check_labels cid qs ((i, l) # ls) =
     (case map_of qs i of
        None \<Rightarrow> Inl (NotAsked cid i)
      | Some q \<Rightarrow> if valid_label q l then check_labels cid qs ls else Inl (NotAnAnswer cid i l))"

definition case_validate :: "question_set \<Rightarrow> golden \<Rightarrow> case_problem + unit" where
  "case_validate turn c =
     (if \<not> is_array (jget (gc_state c) ''transcript'') then Inl (NoTranscript (gc_id c))
      else check_labels (gc_id c) (q_questions (case_questions turn c)) (gc_expect c))"

fun repeated :: "golden list \<Rightarrow> string option" where
  "repeated (a # b # cs) = (if gc_id a = gc_id b then Some (gc_id a) else repeated (b # cs))"
| "repeated _ = None"

fun validate_all :: "question_set \<Rightarrow> golden list \<Rightarrow> case_problem + unit" where
  "validate_all turn [] = Inr ()"
| "validate_all turn (c # cs) =
     (case case_validate turn c of Inl e \<Rightarrow> Inl e | Inr _ \<Rightarrow> validate_all turn cs)"

definition load_cases :: "golden list \<Rightarrow> string \<Rightarrow> question_set \<Rightarrow> case_problem + golden list" where
  "load_cases collected lang turn =
     (let cases = sort_key gc_id (filter (\<lambda>c. gc_lang c = lang) collected)
      in case repeated cases of
           Some i \<Rightarrow> Inl (RepeatedId i)
         | None \<Rightarrow> (case validate_all turn cases of Inl e \<Rightarrow> Inl e | Inr _ \<Rightarrow> Inr cases))"

section \<open>Scores\<close>

record scored =
  sc_case_id :: string
  sc_question :: string
  sc_base :: string
  sc_label :: label
  sc_answer :: answer

definition predicted :: "scored \<Rightarrow> label" where
  "predicted s =
     (case sc_answer s of Noul p \<Rightarrow> LYes (1 / 2 \<le> p) | a \<Rightarrow> LOption (unwrap_or (winner a) []))"

definition is_right :: "scored \<Rightarrow> bool" where
  "is_right s \<longleftrightarrow> predicted s = sc_label s"

fun label_p :: "answer \<Rightarrow> label \<Rightarrow> rat" where
  "label_p (Noul p) (LYes yes) = (if yes then p else 1 - p)"
| "label_p a (LOption opt) = share a opt"
| "label_p _ _ = 0"

definition p_of :: "scored \<Rightarrow> label \<Rightarrow> rat" where
  "p_of s l = label_p (sc_answer s) l"

definition pick_confidence :: "scored \<Rightarrow> rat" where
  "pick_confidence s = p_of s (predicted s)"

fun base_of :: "string \<Rightarrow> string list \<Rightarrow> string" where
  "base_of i [] = i"
| "base_of i (pre # pres) =
     (case strip_prefix pre i of
        Some r \<Rightarrow> if r \<in> {''message_kind'', ''language'', ''wants_human''} then ''<party>_'' @ r else base_of i pres
      | None \<Rightarrow> base_of i pres)"

definition base_question :: "string \<Rightarrow> string" where
  "base_question i = base_of i [''buyer_'', ''seller_'']"

definition score :: "golden \<Rightarrow> answers \<Rightarrow> scored list" where
  "score c answers =
     List.map_filter (\<lambda>(q, l). map_option
         (\<lambda>a. \<lparr>sc_case_id = gc_id c, sc_question = q, sc_base = base_question q, sc_label = l, sc_answer = a\<rparr>)
         (map_of answers q)) (gc_expect c)"

section \<open>Rates\<close>

definition about :: "scored list \<Rightarrow> string \<Rightarrow> scored list" where
  "about items base = filter (\<lambda>s. sc_base s = base) items"

type_synonym rate = "(rat \<times> nat) option"

definition rate :: "nat \<Rightarrow> nat \<Rightarrow> rate" where
  "rate hits n = (if 0 < n then Some (rat_of_nat hits / rat_of_nat n, n) else None)"

definition rate_of :: "(scored \<Rightarrow> bool) \<Rightarrow> scored list \<Rightarrow> rate" where
  "rate_of hit items = rate (length (filter hit items)) (length items)"

definition precision_at :: "scored list \<Rightarrow> string \<Rightarrow> label \<Rightarrow> rat \<Rightarrow> rate" where
  "precision_at items base positive threshold =
     rate_of (\<lambda>s. sc_label s = positive) (filter (\<lambda>s. threshold \<le> p_of s positive) (about items base))"

definition recall_at :: "scored list \<Rightarrow> string \<Rightarrow> label \<Rightarrow> rat \<Rightarrow> rate" where
  "recall_at items base positive threshold =
     rate_of (\<lambda>s. threshold \<le> p_of s positive) (filter (\<lambda>s. sc_label s = positive) (about items base))"

definition accuracy_above :: "scored list \<Rightarrow> string \<Rightarrow> rat \<Rightarrow> rate" where
  "accuracy_above items base threshold =
     rate_of is_right (filter (\<lambda>s. threshold \<le> pick_confidence s) (about items base))"

definition coverage :: "scored list \<Rightarrow> string \<Rightarrow> rat \<Rightarrow> rate" where
  "coverage items base threshold = rate_of (\<lambda>s. threshold \<le> pick_confidence s) (about items base)"

definition accuracy :: "scored list \<Rightarrow> string \<Rightarrow> rate" where
  "accuracy items base = rate_of is_right (about items base)"

section \<open>Calibration error\<close>

definition ECE_BINS :: nat where "ECE_BINS = 10"

type_synonym bin = "nat \<times> rat \<times> nat"

definition bin_of :: "rat \<Rightarrow> nat" where
  "bin_of c = min (nat \<lfloor>c * rat_of_nat ECE_BINS\<rfloor>) (ECE_BINS - 1)"

definition add_to_bin :: "scored \<Rightarrow> bin list \<Rightarrow> bin list" where
  "add_to_bin s bins =
     (let c = clamp (pick_confidence s) 0 1; b = bin_of c; (n, conf, right) = bins ! b
      in bins[b := (n + 1, conf + c, right + of_bool (is_right s))])"

definition bin_gap :: "nat \<Rightarrow> bin \<Rightarrow> rat" where
  "bin_gap tot b = (case b of (n, conf, right) \<Rightarrow>
     rat_of_nat n / rat_of_nat tot * \<bar>rat_of_nat right / rat_of_nat n - conf / rat_of_nat n\<bar>)"

definition ece :: "scored list \<Rightarrow> rat option" where
  "ece items =
     (if items = [] then None
      else let bins = fold add_to_bin items (replicate ECE_BINS (0, 0, 0))
        in Some (sum_list (map (bin_gap (length items)) (filter (\<lambda>(n, _, _). 0 < n) bins))))"

section \<open>Targets\<close>

datatype metric =
    PrecisionAt label rat
  | RecallAt label rat
  | AccuracyAbove rat
  | Coverage rat
  | Accuracy

record eval_target =
  tg_base :: string
  tg_metric :: metric
  tg_target :: rat

definition measure_target :: "eval_target \<Rightarrow> scored list \<Rightarrow> rate" where
  "measure_target t items =
     (case tg_metric t of
        PrecisionAt positive th \<Rightarrow> precision_at items (tg_base t) positive th
      | RecallAt positive th \<Rightarrow> recall_at items (tg_base t) positive th
      | AccuracyAbove th \<Rightarrow> accuracy_above items (tg_base t) th
      | Coverage th \<Rightarrow> coverage items (tg_base t) th
      | Accuracy \<Rightarrow> accuracy items (tg_base t))"

definition meets_rate :: "rate \<Rightarrow> rat \<Rightarrow> bool" where
  "meets_rate r goal = (case r of None \<Rightarrow> False | Some (v, _) \<Rightarrow> goal \<le> v)"

definition targets :: "thresholds \<Rightarrow> eval_target list" where
  "targets th =
     [\<lparr>tg_base = ''seller_receipt'', tg_metric = PrecisionAt (LOption ''says_received'') (th_guide th), tg_target = 98 / 100\<rparr>,
      \<lparr>tg_base = ''buyer_payment'', tg_metric = PrecisionAt (LOption ''says_not_sent'') (th_guide th), tg_target = 98 / 100\<rparr>] @
     concat (map (\<lambda>base.
       [\<lparr>tg_base = base, tg_metric = AccuracyAbove (th_fact th), tg_target = 95 / 100\<rparr>,
        \<lparr>tg_base = base, tg_metric = Coverage (th_fact th), tg_target = 70 / 100\<rparr>])
       [''buyer_payment'', ''seller_receipt'']) @
     [\<lparr>tg_base = ''<party>_wants_human'', tg_metric = RecallAt (LYes True) (th_human_request th), tg_target = 90 / 100\<rparr>,
      \<lparr>tg_base = ''fraud_signal'', tg_metric = RecallAt (LYes True) (th_fraud th), tg_target = 85 / 100\<rparr>,
      \<lparr>tg_base = ''<party>_language'', tg_metric = Accuracy, tg_target = 95 / 100\<rparr>,
      \<lparr>tg_base = ''<party>_message_kind'', tg_metric = Accuracy, tg_target = 85 / 100\<rparr>]"

definition targets_met :: "thresholds \<Rightarrow> scored list \<Rightarrow> nat" where
  "targets_met th items = length (filter (\<lambda>t. meets_rate (measure_target t items) (tg_target t)) (targets th))"

section \<open>Recommended thresholds\<close>

definition sweep_values :: "rat list" where
  "sweep_values = map (\<lambda>step. rat_of_nat step * (5 / 100)) [10..<20]"

datatype goal = Precision | Recall

definition meets_at :: "scored list \<Rightarrow> string \<Rightarrow> label \<Rightarrow> goal \<Rightarrow> rat \<Rightarrow> rat \<Rightarrow> bool" where
  "meets_at items base positive g target t =
     meets_rate (case g of Precision \<Rightarrow> precision_at items base positive t
       | Recall \<Rightarrow> recall_at items base positive t) target"

definition recommended_threshold :: "scored list \<Rightarrow> string \<Rightarrow> label \<Rightarrow> goal \<Rightarrow> rat \<Rightarrow> rat option" where
  "recommended_threshold items base positive g target =
     (case g of
        Precision \<Rightarrow> find (meets_at items base positive g target) sweep_values
      | Recall \<Rightarrow> last_opt (filter (meets_at items base positive g target) sweep_values))"

definition recommended_guide :: "scored list \<Rightarrow> rat option" where
  "recommended_guide items =
     (case recommended_threshold items ''seller_receipt'' (LOption ''says_received'') Precision (98 / 100) of
        None \<Rightarrow> None
      | Some seller \<Rightarrow>
          map_option (\<lambda>buyer. max seller buyer)
            (recommended_threshold items ''buyer_payment'' (LOption ''says_not_sent'') Precision (98 / 100)))"

definition meets_fact :: "scored list \<Rightarrow> rat \<Rightarrow> bool" where
  "meets_fact items t =
     list_all (\<lambda>base. meets_rate (accuracy_above items base t) (95 / 100) \<and> meets_rate (coverage items base t) (70 / 100))
       [''buyer_payment'', ''seller_receipt'']"

definition recommended_fact :: "scored list \<Rightarrow> rat option" where
  "recommended_fact items = find (meets_fact items) sweep_values"

section \<open>Running the cases\<close>

record case_run =
  cr_case :: golden
  cr_judged :: judged
  cr_latency_ms :: nat

fun run_cases ::
    "(json \<Rightarrow> question_set \<Rightarrow> judge_error + judged) \<Rightarrow> (golden \<Rightarrow> nat) \<Rightarrow> question_set \<Rightarrow> golden list \<Rightarrow>
       judge_error + case_run list" where
  "run_cases ask latency turn [] = Inr []"
| "run_cases ask latency turn (c # cs) =
     (case ask (gc_state c) (case_questions turn c) of
        Inl e \<Rightarrow> Inl e
      | Inr v \<Rightarrow> (case run_cases ask latency turn cs of
          Inl e \<Rightarrow> Inl e
        | Inr runs \<Rightarrow> Inr (\<lparr>cr_case = c, cr_judged = v, cr_latency_ms = latency c\<rparr> # runs)))"

definition recording_of :: "string \<Rightarrow> string \<Rightarrow> case_run list \<Rightarrow> recording" where
  "recording_of judge_id qset runs = \<lparr>rg_judge = judge_id, rg_question_set = qset,
     rg_cases = map (\<lambda>r. \<lparr>rc_case_id = gc_id (cr_case r), rc_state = gc_state (cr_case r),
       rc_answers = jd_answers (cr_judged r)\<rparr>) runs\<rparr>"

definition all_scored :: "case_run list \<Rightarrow> scored list" where
  "all_scored runs = concat (map (\<lambda>r. score (cr_case r) (jd_answers (cr_judged r))) runs)"

text \<open>\<open>f64::round\<close> of a value that is not negative, and the percentile of the latencies.\<close>

definition percentile :: "nat list \<Rightarrow> rat \<Rightarrow> nat" where
  "percentile latencies q =
     (let xs = sort latencies; i = nat \<lfloor>(rat_of_nat (length xs) - 1) * q + 1 / 2\<rfloor>
      in if i < length xs then xs ! i else 0)"

definition misses :: "scored list \<Rightarrow> scored list" where
  "misses items = filter (\<lambda>s. \<not> is_right s) items"

section \<open>The command line\<close>

record eval_options =
  op_lang :: string
  op_cases :: string
  op_config :: "string option"
  op_provider :: "string option"
  op_model :: "string option"
  op_recording :: "string option"
  op_limit :: "nat option"
  op_report :: "string option"
  op_record_to :: "string option"
  op_record :: bool

datatype args_error = NeedsValue string | NotANumber string | UnknownArgument string | LangRequired

definition default_options :: eval_options where
  "default_options = \<lparr>op_lang = [], op_cases = ''eval/golden'', op_config = None, op_provider = None,
     op_model = None, op_recording = None, op_limit = None, op_report = None, op_record_to = None, op_record = True\<rparr>"

definition parse_usize :: "string \<Rightarrow> nat option" where
  "parse_usize s =
     (let ds = (case s of c # cs \<Rightarrow> if c = CHR ''+'' then cs else s | [] \<Rightarrow> [])
      in if ds = [] \<or> \<not> list_all is_digit ds \<or> usize_max < number_from 0 ds then None
         else Some (number_from 0 ds))"

definition takes_value :: "string \<Rightarrow> bool" where
  "takes_value flag \<longleftrightarrow> flag \<in> {''--lang'', ''--cases'', ''--config'', ''--provider'', ''--model'', ''--recording'',
     ''--limit'', ''--report'', ''--record-to''}"

definition set_option :: "string \<Rightarrow> string \<Rightarrow> eval_options \<Rightarrow> args_error + eval_options" where
  "set_option flag v opts =
     (if flag = ''--lang'' then Inr (opts\<lparr>op_lang := v\<rparr>)
      else if flag = ''--cases'' then Inr (opts\<lparr>op_cases := v\<rparr>)
      else if flag = ''--config'' then Inr (opts\<lparr>op_config := Some v\<rparr>)
      else if flag = ''--provider'' then Inr (opts\<lparr>op_provider := Some v\<rparr>)
      else if flag = ''--model'' then Inr (opts\<lparr>op_model := Some v\<rparr>)
      else if flag = ''--recording'' then Inr (opts\<lparr>op_recording := Some v\<rparr>)
      else if flag = ''--limit'' then
        (case parse_usize v of None \<Rightarrow> Inl (NotANumber v) | Some n \<Rightarrow> Inr (opts\<lparr>op_limit := Some n\<rparr>))
      else if flag = ''--report'' then Inr (opts\<lparr>op_report := Some v\<rparr>)
      else Inr (opts\<lparr>op_record_to := Some v\<rparr>))"

fun parse_flags :: "string list \<Rightarrow> eval_options \<Rightarrow> args_error + eval_options" where
  "parse_flags [] opts = Inr opts"
| "parse_flags (flag # args) opts =
     (if takes_value flag then
        (case args of
           [] \<Rightarrow> Inl (NeedsValue flag)
         | v # args' \<Rightarrow> (case set_option flag v opts of Inl e \<Rightarrow> Inl e | Inr opts' \<Rightarrow> parse_flags args' opts'))
      else if flag = ''--no-record'' then parse_flags args (opts\<lparr>op_record := False\<rparr>)
      else Inl (UnknownArgument flag))"

definition parse_args :: "string list \<Rightarrow> args_error + eval_options" where
  "parse_args args =
     (case parse_flags args default_options of
        Inl e \<Rightarrow> Inl e
      | Inr opts \<Rightarrow> if op_lang opts = [] then Inl LangRequired else Inr opts)"

definition DEFAULT_THRESHOLDS :: thresholds where
  "DEFAULT_THRESHOLDS = \<lparr>th_guide = 90 / 100, th_fact = 80 / 100, th_human_request = 80 / 100, th_fraud = 60 / 100,
     th_conflict = 75 / 100, th_outside_scope = 80 / 100, validated_languages = []\<rparr>"

record eval_setup =
  es_judge :: judge_config
  es_languages :: "string list"
  es_thresholds :: thresholds
  es_source :: string

definition thresholds_key :: "judge_config \<Rightarrow> string option \<Rightarrow> string" where
  "thresholds_key j source = (case source of Some s \<Rightarrow> s | None \<Rightarrow> judge_key j)"

text \<open>
  \<open>read_config path\<close> is what reading and parsing the configuration gives, \<open>read_source path\<close> the
  judge a recording names; either can fail with a text.
\<close>

definition chosen_judge :: "eval_options \<Rightarrow> judge_config \<Rightarrow> judge_config" where
  "chosen_judge opts j0 =
     (let j1 = (case op_provider opts of Some p \<Rightarrow> j0\<lparr>provider := p\<rparr> | None \<Rightarrow> j0)
      in case op_model opts of Some m \<Rightarrow> j1\<lparr>model := m\<rparr> | None \<Rightarrow> j1)"

definition replayed_judge ::
    "(string \<Rightarrow> string + string) \<Rightarrow> eval_options \<Rightarrow> judge_config \<Rightarrow> string + string option" where
  "replayed_judge read_source opts j =
     (case op_recording opts of
        Some path \<Rightarrow> if provider j = ''recorded''
          then (case read_source path of Inl e \<Rightarrow> Inl e | Inr s \<Rightarrow> Inr (Some s)) else Inr None
      | None \<Rightarrow> Inr None)"

definition eval_setup_for ::
    "(string \<Rightarrow> string + config) \<Rightarrow> (string \<Rightarrow> string + string) \<Rightarrow> string list \<Rightarrow> eval_options \<Rightarrow> string + eval_setup" where
  "eval_setup_for read_config read_source embedded opts =
     (case (case op_config opts of
              Some path \<Rightarrow> (case read_config path of Inl e \<Rightarrow> Inl e | Inr c \<Rightarrow> Inr (judge c, languages (mediation c)))
            | None \<Rightarrow> Inr (default_judge, embedded)) of
        Inl e \<Rightarrow> Inl e
      | Inr (j0, langs) \<Rightarrow>
          (let j = chosen_judge opts j0
           in case replayed_judge read_source opts j of
                Inl e \<Rightarrow> Inl e
              | Inr source \<Rightarrow>
                  (case map_of (judge_thresholds j) (thresholds_key j source) of
                     Some t \<Rightarrow> Inr \<lparr>es_judge = j, es_languages = langs, es_thresholds = t, es_source = ''config''\<rparr>
                   | None \<Rightarrow> Inr \<lparr>es_judge = j, es_languages = langs, es_thresholds = DEFAULT_THRESHOLDS,
                       es_source = ''defaults (judgments.md '' @ [CHR 0xA7] @ ''3)''\<rparr>)))"

section \<open>Rates are shares\<close>

lemma rate_of_range:
  "rate_of hit xs = Some (v, n) \<Longrightarrow> 0 \<le> v \<and> v \<le> 1 \<and> n = length xs \<and> 0 < n"
  by (auto simp: rate_of_def rate_def divide_le_eq_1 split: if_splits)

lemma length_about: "length (filter P (about items base)) \<le> length items"
  unfolding about_def by (meson length_filter_le order.trans)

text \<open>
  Whatever a target measures is a share of its items: between 0 and 1, over at least one item and at
  most all of them; a target without items has no value.
\<close>

theorem measured_values_are_shares:
  assumes "measure_target t items = Some (v, n)"
  shows "0 \<le> v \<and> v \<le> 1 \<and> 0 < n \<and> n \<le> length items"
proof (cases "tg_metric t")
  case (PrecisionAt l th)
  with assms rate_of_range length_about show ?thesis
    by (fastforce simp: measure_target_def precision_at_def)
next
  case (RecallAt l th)
  with assms rate_of_range length_about show ?thesis
    by (fastforce simp: measure_target_def recall_at_def)
next
  case (AccuracyAbove th)
  with assms rate_of_range length_about show ?thesis
    by (fastforce simp: measure_target_def accuracy_above_def)
next
  case (Coverage th)
  with assms rate_of_range length_about [of "\<lambda>_. True"] show ?thesis
    by (fastforce simp: measure_target_def coverage_def)
next
  case Accuracy
  with assms rate_of_range length_about [of "\<lambda>_. True"] show ?thesis
    by (fastforce simp: measure_target_def accuracy_def)
qed

section \<open>Thresholds that recall recommends\<close>

lemma length_filter_mono:
  "(\<And>x. x \<in> set xs \<Longrightarrow> P x \<Longrightarrow> Q x) \<Longrightarrow> length (filter P xs) \<le> length (filter Q xs)"
  by (induction xs) auto

lemma rate_of_mono:
  assumes "\<And>x. P x \<Longrightarrow> Q x" and "meets_rate (rate_of P xs) goal"
  shows "meets_rate (rate_of Q xs) goal"
proof -
  have le: "rat_of_nat (length (filter P xs)) \<le> rat_of_nat (length (filter Q xs))"
    using assms(1) by (intro of_nat_mono length_filter_mono)
  show ?thesis
  proof (cases "xs = []")
    case False
    then have "goal \<le> rat_of_nat (length (filter P xs)) / rat_of_nat (length xs)"
      using assms(2) by (simp add: meets_rate_def rate_of_def rate_def)
    also have "\<dots> \<le> rat_of_nat (length (filter Q xs)) / rat_of_nat (length xs)"
      using le by (simp add: divide_right_mono)
    finally show ?thesis using False by (simp add: meets_rate_def rate_of_def rate_def)
  qed (use assms(2) in \<open>simp add: meets_rate_def rate_of_def rate_def\<close>)
qed

lemma recall_antitone:
  "t \<le> t' \<Longrightarrow> meets_at items base positive Recall goal t' \<Longrightarrow> meets_at items base positive Recall goal t"
  by (auto simp: meets_at_def recall_at_def intro: rate_of_mono [rotated])

lemma sweep_sorted: "sorted sweep_values"
  by (simp add: sweep_values_def upt_rec)

lemma last_opt_filter_sorted:
  "sorted xs \<Longrightarrow> last_opt (filter P xs) = Some y \<Longrightarrow> y \<in> set xs \<and> P y \<and> (\<forall>x \<in> set xs. P x \<longrightarrow> x \<le> y)"
  by (induction xs rule: rev_induct) (auto simp: last_opt_def sorted_append split: if_splits)

text \<open>
  For a recall target the recommended threshold divides the sweep: the values that meet the target are
  exactly those up to it, so lowering the threshold below the recommendation never loses the target.
\<close>

theorem recommended_recall_divides_the_sweep:
  assumes "recommended_threshold items base positive Recall goal = Some t" and "x \<in> set sweep_values"
  shows "meets_rate (recall_at items base positive x) goal \<longleftrightarrow> x \<le> t"
proof -
  have t: "meets_at items base positive Recall goal t"
    and top: "\<And>x. x \<in> set sweep_values \<Longrightarrow> meets_at items base positive Recall goal x \<Longrightarrow> x \<le> t"
    using last_opt_filter_sorted [OF sweep_sorted] assms(1) by (auto simp: recommended_threshold_def)
  have "meets_at items base positive Recall goal x \<longleftrightarrow> x \<le> t"
    using top [OF assms(2)] recall_antitone [OF _ t] by blast
  then show ?thesis by (simp add: meets_at_def)
qed

lemma find_sorted_least:
  "sorted xs \<Longrightarrow> find P xs = Some y \<Longrightarrow> y \<in> set xs \<and> P y \<and> (\<forall>x \<in> set xs. P x \<longrightarrow> y \<le> x)"
  by (induction xs) (auto split: if_splits)

text \<open>
  The recommended \<open>fact\<close> value meets all four of its targets at once, and no lower swept value does.
\<close>

theorem recommended_fact_meets_its_targets:
  assumes "recommended_fact items = Some t"
  shows "list_all (\<lambda>base. meets_rate (accuracy_above items base t) (95 / 100) \<and>
      meets_rate (coverage items base t) (70 / 100)) [''buyer_payment'', ''seller_receipt''] \<and>
    list_all (\<lambda>x. meets_fact items x \<longrightarrow> t \<le> x) sweep_values"
  using find_sorted_least [OF sweep_sorted assms [unfolded recommended_fact_def]]
  unfolding list_all_iff by (simp add: meets_fact_def list_all_iff)

section \<open>Thresholds that precision recommends\<close>

text \<open>Fifty sellers: forty-nine who did receive the money, at 0.6, and one who did not, at 1.\<close>

definition verdict :: "string \<Rightarrow> string \<Rightarrow> string \<Rightarrow> string \<Rightarrow> rat \<Rightarrow> scored" where
  "verdict base yes no l p = \<lparr>sc_case_id = ''c'', sc_question = base, sc_base = base, sc_label = LOption l,
     sc_answer = Choice [(no, 1 - p), (yes, p)]\<rparr>"

definition uneven_items :: "scored list" where
  "uneven_items =
     verdict ''seller_receipt'' ''says_received'' ''not_clear'' ''not_clear'' 1 #
     replicate 49 (verdict ''seller_receipt'' ''says_received'' ''not_clear'' ''says_received'' (6 / 10)) @
     [verdict ''buyer_payment'' ''says_not_sent'' ''not_clear'' ''not_clear'' (9 / 10),
      verdict ''buyer_payment'' ''says_not_sent'' ''not_clear'' ''says_not_sent'' 1]"

lemma uneven_seller:
  "precision_at uneven_items ''seller_receipt'' (LOption ''says_received'') t =
     (if t \<le> 6 / 10 then Some (49 / 50, 50) else if t \<le> 1 then Some (0, 1) else None)"
  by (simp add: precision_at_def about_def uneven_items_def verdict_def filter_replicate p_of_def rate_of_def
      rate_def)

lemma uneven_buyer:
  "precision_at uneven_items ''buyer_payment'' (LOption ''says_not_sent'') t =
     (if t \<le> 9 / 10 then Some (1 / 2, 2) else if t \<le> 1 then Some (1, 1) else None)"
  by (simp add: precision_at_def about_def uneven_items_def verdict_def filter_replicate p_of_def rate_of_def
      rate_def)


section \<open>Calibration error is a share\<close>

definition bin_ok :: "bin \<Rightarrow> bool" where
  "bin_ok b = (case b of (n, conf, right) \<Rightarrow> 0 \<le> conf \<and> conf \<le> rat_of_nat n \<and> right \<le> n)"

definition bin_size :: "bin \<Rightarrow> nat" where "bin_size b = fst b"

definition bins_ok :: "nat \<Rightarrow> bin list \<Rightarrow> bool" where
  "bins_ok k bins \<longleftrightarrow> length bins = ECE_BINS \<and> list_all bin_ok bins \<and> sum_list (map bin_size bins) = k"

lemma bin_of_less: "bin_of c < ECE_BINS"
  by (simp add: bin_of_def ECE_BINS_def)

lemma sum_list_update_suc:
  "i < length xs \<Longrightarrow> f y = f (xs ! i) + 1 \<Longrightarrow> sum_list (map f (xs[i := y])) = sum_list (map f xs) + (1::nat)"
  by (induction xs arbitrary: i) (auto split: nat.splits)

lemma add_to_bin_ok:
  assumes "bins_ok k bins"
  shows "bins_ok (k + 1) (add_to_bin s bins)"
proof -
  let ?c = "clamp (pick_confidence s) 0 1"
  let ?b = "bin_of ?c"
  obtain n conf right where b: "bins ! ?b = (n, conf, right)" by (cases "bins ! ?b")
  let ?new = "(n + 1, conf + ?c, right + of_bool (is_right s))"
  have lt: "?b < length bins" using assms bin_of_less by (simp add: bins_ok_def)
  then have old: "bin_ok (n, conf, right)" using assms b by (metis bins_ok_def list_all_length)
  have "0 \<le> ?c \<and> ?c \<le> 1" by (auto simp: clamp_def)
  with old have new: "bin_ok ?new" by (auto simp: bin_ok_def)
  have "sum_list (map bin_size (bins[?b := ?new])) = sum_list (map bin_size bins) + 1"
    using lt by (intro sum_list_update_suc) (simp_all add: bin_size_def b)
  moreover have "list_all bin_ok (bins[?b := ?new])"
    using assms new set_update_subset_insert [of bins ?b ?new] by (auto simp: bins_ok_def list_all_iff)
  ultimately show ?thesis using assms by (simp add: add_to_bin_def Let_def b bins_ok_def)
qed

lemma fold_bins_ok: "bins_ok k bins \<Longrightarrow> bins_ok (k + length items) (fold add_to_bin items bins)"
proof (induction items arbitrary: k bins)
  case (Cons s items)
  from Cons.IH [OF add_to_bin_ok [OF Cons.prems]] show ?case by simp
qed simp

lemma bin_gap_range:
  assumes "bin_ok (n, conf, right)" and "0 < n" and "0 < tot"
  shows "0 \<le> bin_gap tot (n, conf, right) \<and> bin_gap tot (n, conf, right) \<le> rat_of_nat n / rat_of_nat tot"
proof -
  have n: "0 < rat_of_nat n" and t: "0 < rat_of_nat tot" using assms(2,3) by simp_all
  have c: "0 \<le> conf / rat_of_nat n" "conf / rat_of_nat n \<le> 1"
    using assms(1) n by (simp_all add: bin_ok_def divide_le_eq_1)
  have r: "0 \<le> rat_of_nat right / rat_of_nat n" "rat_of_nat right / rat_of_nat n \<le> 1"
    using assms(1) n by (simp_all add: bin_ok_def divide_le_eq_1)
  have gap: "\<bar>rat_of_nat right / rat_of_nat n - conf / rat_of_nat n\<bar> \<le> 1" using c r by linarith
  have "rat_of_nat n / rat_of_nat tot * \<bar>rat_of_nat right / rat_of_nat n - conf / rat_of_nat n\<bar> \<le>
      rat_of_nat n / rat_of_nat tot * 1"
    by (rule mult_left_mono [OF gap]) simp
  then show ?thesis by (simp add: bin_gap_def)
qed

lemma sum_gaps:
  assumes "list_all bin_ok bins" and "0 < tot"
  shows "0 \<le> sum_list (map (bin_gap tot) (filter (\<lambda>(n, _, _). 0 < n) bins)) \<and>
    sum_list (map (bin_gap tot) (filter (\<lambda>(n, _, _). 0 < n) bins)) \<le>
      rat_of_nat (sum_list (map bin_size bins)) / rat_of_nat tot"
  using assms(1)
proof (induction bins)
  case (Cons b bins)
  obtain n conf right where b: "b = (n, conf, right)" by (cases b)
  show ?case
  proof (cases "0 < n")
    case True
    have "bin_ok (n, conf, right)" using Cons.prems b by simp
    from bin_gap_range [OF this True assms(2)] Cons True show ?thesis
      by (simp add: b bin_size_def add_divide_distrib)
  next
    case False
    with Cons show ?thesis by (simp add: b bin_size_def)
  qed
qed simp

text \<open>
  The expected calibration error is defined exactly when there are labelled answers, and lies between
  0 and 1: every item falls in one of the ten bins, a confidence of 1 in the last.
\<close>

theorem calibration_error_is_a_share:
  "(case ece items of None \<Rightarrow> items = [] | Some e \<Rightarrow> items \<noteq> [] \<and> 0 \<le> e \<and> e \<le> 1)"
proof (cases "items = []")
  case False
  let ?bins = "fold add_to_bin items (replicate ECE_BINS (0, 0, 0))"
  have "bins_ok 0 (replicate ECE_BINS (0, 0, 0))"
    by (simp add: bins_ok_def bin_ok_def bin_size_def list_all_iff)
  from fold_bins_ok [OF this, of items]
  have bins: "list_all bin_ok ?bins" "sum_list (map bin_size ?bins) = length items" by (simp_all add: bins_ok_def)
  have "0 < length items" using False by simp
  from sum_gaps [OF bins(1) this] False show ?thesis
    by (simp add: ece_def Let_def bins(2))
qed (simp add: ece_def)

section \<open>Loading cases\<close>

lemma repeated_None: "sorted (map gc_id cs) \<Longrightarrow> repeated cs = None \<longleftrightarrow> distinct (map gc_id cs)"
proof (induction cs rule: repeated.induct)
  case (1 a b cs)
  show ?case
  proof (cases "gc_id a = gc_id b")
    case False
    have "gc_id a \<notin> gc_id ` set (b # cs)"
    proof
      assume "gc_id a \<in> gc_id ` set (b # cs)"
      with False have "gc_id a \<in> gc_id ` set cs" by auto
      then have "gc_id b \<le> gc_id a" using "1.prems" by auto
      moreover have "gc_id a \<le> gc_id b" using "1.prems" by simp
      ultimately show False using False by simp
    qed
    with 1 False show ?thesis by simp
  qed simp
qed simp_all

lemma validate_all_ok: "validate_all turn cs = Inr u \<longleftrightarrow> (\<forall>c \<in> set cs. case_validate turn c = Inr ())"
  by (induction cs) (auto split: sum.splits)

text \<open>
  The cases of a language are loaded all or not at all: each once, sorted by id, no id twice, every
  label naming a question its turn asks and one of its answers.
\<close>

theorem loaded_cases:
  assumes "load_cases collected lang turn = Inr cs"
  shows "mset cs = mset (filter (\<lambda>c. gc_lang c = lang) collected) \<and> sorted (map gc_id cs) \<and>
    distinct (map gc_id cs) \<and> list_all (\<lambda>c. case_validate turn c = Inr ()) cs"
proof -
  let ?cs = "sort_key gc_id (filter (\<lambda>c. gc_lang c = lang) collected)"
  have "repeated ?cs = None" "validate_all turn ?cs = Inr ()" "cs = ?cs"
    using assms by (auto simp: load_cases_def Let_def split: option.splits sum.splits)
  then show ?thesis by (simp add: repeated_None validate_all_ok list_all_iff)
qed

section \<open>Scoring validated cases\<close>

lemma check_labels_ok:
  "check_labels cid qs ls = Inr u \<longleftrightarrow> (\<forall>(i, l) \<in> set ls. \<exists>q. map_of qs i = Some q \<and> valid_label q l)"
  by (induction ls) (auto split: option.splits if_splits)

lemma winner_in_options:
  assumes "map fst probs = sort (map fst options)" and "options \<noteq> []"
  shows "\<exists>w. winner (Choice probs) = Some w \<and> w \<in> fst ` set options"
proof -
  have ne: "probs \<noteq> []" using assms by (metis length_0_conv length_map length_sort)
  then obtain w where w: "winner (Choice probs) = Some w" by (metis option.exhaust winner_None)
  then obtain p where "(w, p) \<in> set probs"
    using fold_better_find [of probs] by (auto simp: find_Some_iff) (metis nth_mem)
  then have "w \<in> set (map fst probs)" by force
  then have "w \<in> fst ` set options" unfolding assms(1) by simp
  with w show ?thesis by blast
qed

definition well_scored :: "question_set \<Rightarrow> scored \<Rightarrow> bool" where
  "well_scored qs s =
     (case map_of (q_questions qs) (sc_question s) of
        None \<Rightarrow> False
      | Some q \<Rightarrow> fits (sc_answer s) q \<and> valid_label q (sc_label s) \<and> valid_label q (predicted s) \<and>
          0 \<le> p_of s (sc_label s) \<and> p_of s (sc_label s) \<le> 1)"

lemma scored_item:
  assumes "fits a q" and "valid_label q l"
  shows "valid_label q (predicted \<lparr>sc_case_id = cid, sc_question = i, sc_base = b, sc_label = l, sc_answer = a\<rparr>) \<and>
    0 \<le> label_p a l \<and> label_p a l \<le> 1"
proof (cases q)
  case (QNoul x y)
  with assms show ?thesis by (cases a; cases l) (auto simp: predicted_def)
next
  case (QChoice x options)
  then obtain opt where l: "l = LOption opt" "opt \<in> fst ` set options" using assms(2) by (cases l) auto
  obtain probs where a: "a = Choice probs" "map fst probs = sort (map fst options)" "units (map snd probs)"
    using assms(1) QChoice by (cases a) (auto simp: distribution_def)
  have "options \<noteq> []" using l(2) by auto
  from winner_in_options [OF a(2) this] obtain w where w: "winner (Choice probs) = Some w" "w \<in> fst ` set options"
    by blast
  from share_range [OF a(3)] show ?thesis
    by (simp add: QChoice l(1) a(1) predicted_def w del: winner.simps share.simps)
next
  case (QScore x y)
  with assms show ?thesis by (cases l) auto
qed

lemma length_map_filter_all: "list_all (\<lambda>x. f x \<noteq> None) xs \<Longrightarrow> length (List.map_filter f xs) = length xs"
  by (induction xs) (auto simp: List.map_filter_def)

text \<open>
  No label of a validated case is lost when checked answers are scored: each gives one scored item,
  about an asked question, with a prediction that is one of the labels the question allows and a
  probability of the label between 0 and 1.
\<close>

theorem validated_cases_are_scored_in_full:
  assumes "case_validate turn c = Inr ()" and "check_answers (case_questions turn c) answers = Inr ()"
    and "distinct (map fst (q_questions (case_questions turn c)))"
  shows "length (score c answers) = length (gc_expect c) \<and>
    list_all (well_scored (case_questions turn c)) (score c answers)"
proof -
  let ?qs = "q_questions (case_questions turn c)"
  have labels: "\<exists>q. map_of ?qs i = Some q \<and> valid_label q l" if il: "(i, l) \<in> set (gc_expect c)" for i l
    using assms(1) il by (auto simp: case_validate_def check_labels_ok split: if_splits)
  have fitting: "\<exists>a. map_of answers i = Some a \<and> fits a q" if iq: "map_of ?qs i = Some q" for i q
    using assms(2) map_of_SomeD [OF iq] by (auto simp: check_answers_parts)
  have all: "list_all (\<lambda>(i, l). map_of answers i \<noteq> None) (gc_expect c)"
    using labels fitting by (fastforce simp: list_all_iff)
  have "length (score c answers) = length (gc_expect c)"
    unfolding score_def by (rule length_map_filter_all) (use all in \<open>auto simp: list_all_iff\<close>)
  moreover have "well_scored (case_questions turn c) s" if s: "s \<in> set (score c answers)" for s
  proof -
    obtain i l a where il: "(i, l) \<in> set (gc_expect c)" and a: "map_of answers i = Some a"
      and s': "s = \<lparr>sc_case_id = gc_id c, sc_question = i, sc_base = base_question i, sc_label = l, sc_answer = a\<rparr>"
      using s by (auto simp: score_def List.map_filter_def split: option.splits)
    obtain q where q: "map_of ?qs i = Some q" "valid_label q l" using labels [OF il] by blast
    have "fits a q" using fitting [OF q(1)] a by simp
    from scored_item [OF this q(2)] show ?thesis
      using q \<open>fits a q\<close> by (simp add: well_scored_def s' p_of_def)
  qed
  ultimately show ?thesis by (simp add: list_all_iff)
qed

section \<open>A run can be replayed\<close>

lemma btree_keys_unique:
  assumes "btree xs" and "btree ys" and "fst ` set xs = fst ` set ys"
  shows "map fst xs = map fst ys"
  using assms by (intro sorted_distinct_set_unique) (simp_all add: btree_def strict_sorted_iff)

lemma run_cases_each:
  "run_cases ask latency turn cs = Inr runs \<Longrightarrow> map cr_case runs = cs \<and>
     list_all (\<lambda>r. ask (gc_state (cr_case r)) (case_questions turn (cr_case r)) = Inr (cr_judged r)) runs"
  by (induction cs arbitrary: runs) (auto split: sum.splits)

lemma case_questions_btree:
  assumes "btree (q_questions turn)"
  shows "btree (q_questions (case_questions turn c))"
  using assms sorted_wrt_filter [of "\<lambda>a b. fst a < fst b"]
  by (simp add: btree_def case_questions_def for_turn_def sorted_wrt_map)

lemma recorded_each:
  assumes "run_cases ask latency turn cs = Inr runs" and "btree (q_questions turn)"
    and "\<And>state qs v. ask state qs = Inr v \<Longrightarrow> check_answers qs (jd_answers v) = Inr () \<and> btree (jd_answers v)"
    and "recorded_new json_text (recording_of judge_id (q_version turn) runs) = Inr j"
  shows "list_all (\<lambda>r. recorded_answer json_text j (gc_state (cr_case r)) (case_questions turn (cr_case r)) =
      Inr ((cr_judged r)\<lparr>jd_input_tokens := None\<rparr>)) runs"
  unfolding list_all_iff
proof
  fix r assume r: "r \<in> set runs"
  let ?qs = "case_questions turn (cr_case r)"
  let ?c = "\<lparr>rc_case_id = gc_id (cr_case r), rc_state = gc_state (cr_case r), rc_answers = jd_answers (cr_judged r)\<rparr>"
  have ask: "ask (gc_state (cr_case r)) ?qs = Inr (cr_judged r)"
    using run_cases_each [OF assms(1)] r by (simp add: list_all_iff)
  note ok = assms(3) [OF ask]
  have keys: "map fst (jd_answers (cr_judged r)) = map fst (q_questions ?qs)"
    by (rule btree_keys_unique [OF conjunct2 [OF ok] case_questions_btree [OF assms(2)]
          conjunct1 [OF checked_keys [OF conjunct1 [OF ok]]]])
  have c: "?c \<in> set (rg_cases (recording_of judge_id (q_version turn) runs))"
    using r by (auto simp: recording_of_def)
  note new = recorded_new_Inr [OF assms(4)]
  have key: "case_key json_text ?c = request_key json_text (gc_state (cr_case r)) (map fst (q_questions ?qs))"
    by (simp add: case_key_def request_key_def keys)
  have "find (\<lambda>d. case_key json_text d = case_key json_text ?c) (rg_cases (recording_of judge_id (q_version turn) runs))
      = Some ?c"
    using new c by (simp add: find_distinct_key)
  then have "rj_by_request j (request_key json_text (gc_state (cr_case r)) (map fst (q_questions ?qs))) =
      Some (jd_answers (cr_judged r))"
    using new by (simp add: key)
  moreover have "rj_question_set j = q_version ?qs"
    using new by (simp add: recording_of_def case_questions_def for_turn_def)
  ultimately show "recorded_answer json_text j (gc_state (cr_case r)) ?qs = Inr ((cr_judged r)\<lparr>jd_input_tokens := None\<rparr>)"
    using ok by (simp add: recorded_answer_Inr)
qed

text \<open>
  What an evaluation records replays it: as long as the judge keeps its contract and answers in key
  order, a judge built from the recording of a run gives every case of the run exactly the answers it had,
  without the token counts.
\<close>

theorem recorded_run_replays:
  assumes "run_cases ask latency turn cs = Inr runs" and "btree (q_questions turn)"
    and "\<And>state qs v. ask state qs = Inr v \<Longrightarrow> check_answers qs (jd_answers v) = Inr () \<and> btree (jd_answers v)"
    and "recorded_new json_text (recording_of judge_id (q_version turn) runs) = Inr j"
  shows "list_all (\<lambda>r. recorded_answer json_text j (gc_state (cr_case r)) (case_questions turn (cr_case r)) =
      Inr ((cr_judged r)\<lparr>jd_input_tokens := None\<rparr>)) runs"
  by (rule recorded_each [OF assms])

section \<open>An example\<close>

definition fraud_case :: golden where
  "fraud_case = \<lparr>gc_id = ''c1'', gc_lang = ''es'', gc_source = ''synthetic'',
     gc_state = JObj [(''transcript'', JArr [])], gc_guiding = False, gc_expect = [(''fraud_signal'', LYes False)]\<rparr>"

definition fraud_judge :: "json \<Rightarrow> question_set \<Rightarrow> judge_error + judged" where
  "fraud_judge state qs = (if qs = fraud_set then Inr fraud_judged else Inl (Unavailable ''HTTP 503''))"

lemma split_fraud: "split_party ''fraud_signal'' = None"
  by code_simp

lemma fraud_questions [simp]: "case_questions fraud_set fraud_case = fraud_set"
  by (simp add: case_questions_def for_turn_def fraud_set_def split_fraud)

lemma fraud_case_valid: "case_validate fraud_set fraud_case = Inr ()"
  by (simp add: case_validate_def) (simp add: fraud_case_def fraud_set_def is_array_def)

lemma fraud_checked: "check_answers fraud_set (jd_answers fraud_judged) = Inr ()"
  by (simp add: fraud_set_def fraud_judged_def check_answers_def check_unit_def)

lemma measured_values_are_shares_witness: "(0 :: rat) \<le> 49 / 50 \<and> (49 / 50 :: rat) \<le> 1 \<and> 50 \<le> length uneven_items"
proof -
  let ?t = "\<lparr>tg_base = ''seller_receipt'', tg_metric = PrecisionAt (LOption ''says_received'') (1 / 2), tg_target = 98 / 100\<rparr>"
  have "measure_target ?t uneven_items = Some (49 / 50, 50)" by (simp add: measure_target_def uneven_seller)
  from measured_values_are_shares [OF this] show ?thesis by simp
qed

lemma uneven_recall:
  "recall_at uneven_items ''seller_receipt'' (LOption ''says_received'') t = Some (of_bool (t \<le> 6 / 10), 49)"
  by (simp add: recall_at_def about_def uneven_items_def verdict_def filter_replicate p_of_def rate_of_def rate_def)

lemma recommended_recall_divides_the_sweep_witness:
  "meets_rate (recall_at uneven_items ''seller_receipt'' (LOption ''says_received'') (1 / 2)) (90 / 100)"
proof -
  have "recommended_threshold uneven_items ''seller_receipt'' (LOption ''says_received'') Recall (90 / 100) = Some (6 / 10)"
    by (simp add: recommended_threshold_def meets_at_def uneven_recall sweep_values_def upt_rec meets_rate_def
        last_opt_def)
  from recommended_recall_divides_the_sweep [OF this, of "1 / 2"] show ?thesis
    by (simp add: sweep_values_def upt_rec)
qed

definition clear_items :: "scored list" where
  "clear_items = [verdict ''buyer_payment'' ''says_sent'' ''not_clear'' ''says_sent'' (6 / 10),
     verdict ''seller_receipt'' ''says_received'' ''not_clear'' ''says_received'' (6 / 10)]"

lemma recommended_fact_meets_its_targets_witness: "meets_rate (coverage clear_items ''buyer_payment'' (1 / 2)) (70 / 100)"
proof -
  have "recommended_fact clear_items = Some (1 / 2)"
    by (simp add: recommended_fact_def meets_fact_def sweep_values_def upt_rec clear_items_def coverage_def
        accuracy_above_def about_def verdict_def rate_of_def rate_def meets_rate_def pick_confidence_def predicted_def
        p_of_def is_right_def)
  from recommended_fact_meets_its_targets [OF this] show ?thesis by simp
qed

lemma loaded_cases_witness: "load_cases [fraud_case] ''es'' fraud_set = Inr [fraud_case] \<and> distinct (map gc_id [fraud_case])"
proof -
  have "gc_lang fraud_case = ''es''" by (simp add: fraud_case_def)
  then have l: "load_cases [fraud_case] ''es'' fraud_set = Inr [fraud_case]"
    by (simp add: load_cases_def fraud_case_valid)
  with loaded_cases [OF this] show ?thesis by blast
qed

lemma validated_cases_are_scored_in_full_witness: "length (score fraud_case (jd_answers fraud_judged)) = 1"
proof -
  have "length (score fraud_case (jd_answers fraud_judged)) = length (gc_expect fraud_case)"
    using validated_cases_are_scored_in_full [OF fraud_case_valid, unfolded fraud_questions, OF fraud_checked]
    by (simp add: fraud_set_def)
  then show ?thesis by (simp add: fraud_case_def)
qed

lemma fraud_run:
  "run_cases fraud_judge (\<lambda>_. 40) fraud_set [fraud_case] =
     Inr [\<lparr>cr_case = fraud_case, cr_judged = fraud_judged, cr_latency_ms = 40\<rparr>]"
  by (simp add: fraud_judge_def)

lemma recorded_run_replays_witness:
  "\<exists>j. recorded_answer (\<lambda>_. ''state'') j (gc_state fraud_case) fraud_set = Inr (fraud_judged\<lparr>jd_input_tokens := None\<rparr>)"
proof -
  have contract: "fraud_judge state qs = Inr v \<Longrightarrow> check_answers qs (jd_answers v) = Inr () \<and> btree (jd_answers v)"
    for state qs v
    using fraud_checked by (auto simp: fraud_judge_def btree_def fraud_judged_def split: if_splits)
  have bt: "btree (q_questions fraud_set)" by (simp add: btree_def fraud_set_def)
  obtain j where "recorded_new (\<lambda>_. ''state'') (recording_of ''typesafe/jev-1.13.0'' (q_version fraud_set)
      [\<lparr>cr_case = fraud_case, cr_judged = fraud_judged, cr_latency_ms = 40\<rparr>]) = Inr j"
    by (auto simp: recorded_new_def recording_of_def)
  from recorded_run_replays [where ask = fraud_judge, OF fraud_run bt _ this] contract
  have "recorded_answer (\<lambda>_. ''state'') j (gc_state fraud_case) fraud_set = Inr (fraud_judged\<lparr>jd_input_tokens := None\<rparr>)"
    by simp
  then show ?thesis ..
qed

end
