(* ===== verification/Daemon.thy ===== *)
theory Daemon
  imports Opening Feedback "HOL-Library.Product_Lexorder"
begin

text \<open>
  The wiring of \<open>src/src/daemon/mod.rs\<close> and \<open>src/src/daemon/sync.rs\<close>: the backlog sync, the loop over
  live events, the reminder timer that waits for the first sync, and the start-up of mediation. The
  tasks interleave: \<open>daemon_input\<close> is one of their turns, and a reminder pass lists the revisions the
  event loop records while the pass awaits. What the relays return, the clocks and the delivery of
  messages are inputs or parameters; process set-up and logging are left out.
\<close>

section \<open>The newest revisions\<close>

fun keep_newest ::
    "(string list list \<Rightarrow> string option) \<Rightarrow> copy list \<Rightarrow> (string \<times> copy) list \<Rightarrow> (string \<times> copy) list" where
  "keep_newest identifier [] kept = kept"
| "keep_newest identifier (e # es) kept =
     (case identifier (no_tags (cp_event e)) of
        None \<Rightarrow> keep_newest identifier es kept
      | Some i \<Rightarrow>
          (if (case map_of kept i of None \<Rightarrow> True | Some k \<Rightarrow> rank_less k e)
           then keep_newest identifier es ((i, e) # filter (\<lambda>x. fst x \<noteq> i) kept)
           else keep_newest identifier es kept))"

definition stored_key :: "copy \<Rightarrow> nat \<times> string" where
  "stored_key c = (no_created_at (cp_event c), cp_id c)"

definition newest_revisions :: "(string list list \<Rightarrow> string option) \<Rightarrow> copy list \<Rightarrow> copy list" where
  "newest_revisions identifier es = sort_key stored_key (map snd (keep_newest identifier es []))"

section \<open>Applying the backlog\<close>

text \<open>What the notifier is built with: the node's names for statuses, its key, and the solvers.\<close>

record notifier =
  nv_st_str :: "dispute_status \<Rightarrow> string"
  nv_st_parse :: "string \<Rightarrow> dispute_status option"
  nv_dispute_kind :: nat
  nv_identifier :: "string list list \<Rightarrow> string option"
  nv_author :: string
  nv_send :: "string \<Rightarrow> string \<Rightarrow> string option"
  nv_solvers :: "solver list"
  nv_own_takes :: "string set"

definition revision_of :: "notifier \<Rightarrow> nostr_event \<Rightarrow> dispute_event result option" where
  "revision_of nv = dispute_of (nv_dispute_kind nv) (nv_identifier nv) (nv_st_parse nv) (nv_author nv)"

definition notifier_handle ::
    "notifier \<Rightarrow> db \<Rightarrow> nostr_event \<Rightarrow> int \<Rightarrow> change result \<times> db \<times> hook_call list" where
  "notifier_handle nv s e now =
     handle_event (nv_st_str nv) (revision_of nv) (nv_send nv) (nv_solvers nv) (nv_own_takes nv) s e now"

text \<open>An event that cannot be applied is logged and the next one applied; \<open>now n\<close> is the clock read for the \<open>n\<close>-th.\<close>

fun apply_stored :: "notifier \<Rightarrow> (nat \<Rightarrow> int) \<Rightarrow> nat \<Rightarrow> copy list \<Rightarrow> db \<Rightarrow> db \<times> hook_call list" where
  "apply_stored nv now n [] s = (s, [])"
| "apply_stored nv now n (c # cs) s =
     (let (_, s1, hooks) = notifier_handle nv s (cp_event c) (now n);
          (s2, more) = apply_stored nv now (n + 1) cs s1
      in (s2, hooks @ more))"

definition sync_backlog ::
    "notifier \<Rightarrow> (nat \<Rightarrow> int) \<Rightarrow> string + copy list \<Rightarrow> db \<Rightarrow> nat result \<times> db \<times> hook_call list" where
  "sync_backlog nv now fetched s =
     (case fetched of
        Inl e \<Rightarrow> (Inl (Nostr (''cannot fetch stored disputes: '' @ e)), s, [])
      | Inr events \<Rightarrow>
          (let revisions = newest_revisions (nv_identifier nv) events;
               (s', hooks) = apply_stored nv now 0 revisions s
           in (Inr (length revisions), s', hooks)))"

section \<open>The loops\<close>

record daemon =
  dm_db :: db
  dm_synced :: bool

datatype daemon_input =
    Live nostr_event int
  | Backlog "string + copy list" "nat \<Rightarrow> int"
  | Remind int "nat \<Rightarrow> (dispute_event \<times> int) list"

definition recording_others :: "notifier \<Rightarrow> (nat \<Rightarrow> (dispute_event \<times> int) list) \<Rightarrow> nat \<Rightarrow> db \<Rightarrow> db" where
  "recording_others nv revs n s = fold (recorded_db (nv_st_str nv)) (revs n) s"

definition sync_round :: "notifier \<Rightarrow> string + copy list \<Rightarrow> (nat \<Rightarrow> int) \<Rightarrow> daemon \<Rightarrow> daemon" where
  "sync_round nv fetched now st =
     st\<lparr>dm_db := fst (snd (sync_backlog nv now fetched (dm_db st))), dm_synced := True\<rparr>"

definition reminder_tick ::
    "notifier \<Rightarrow> int \<Rightarrow> int \<Rightarrow> (nat \<Rightarrow> (dispute_event \<times> int) list) \<Rightarrow> daemon \<Rightarrow> daemon" where
  "reminder_tick nv after_secs now revs st =
     (if dm_synced st
      then st\<lparr>dm_db := snd (snd (remind_solvers (recording_others nv revs) (nv_send nv) (nv_solvers nv)
             after_secs now (dm_db st)))\<rparr>
      else st)"

fun daemon_step :: "notifier \<Rightarrow> int \<Rightarrow> daemon_input \<Rightarrow> daemon \<Rightarrow> daemon" where
  "daemon_step nv after_secs (Live e now) st = st\<lparr>dm_db := fst (snd (notifier_handle nv (dm_db st) e now))\<rparr>"
| "daemon_step nv after_secs (Backlog fetched now) st = sync_round nv fetched now st"
| "daemon_step nv after_secs (Remind now revs) st = reminder_tick nv after_secs now revs st"

definition daemon_start :: "db \<Rightarrow> daemon" where
  "daemon_start s = \<lparr>dm_db = s, dm_synced = False\<rparr>"

text \<open>\<open>event_loop\<close> over the client's notifications, each with the clock; a shutdown signal may come between two.\<close>

datatype client_notification = Relay_Event nostr_event | Client_Shutdown | Other_Notification

datatype loop_item = Shutdown_Signal | Notified client_notification int

fun event_loop :: "notifier \<Rightarrow> loop_item list \<Rightarrow> db \<Rightarrow> db \<times> hook_call list" where
  "event_loop nv [] s = (s, [])"
| "event_loop nv (Shutdown_Signal # xs) s = (s, [])"
| "event_loop nv (Notified n now # xs) s =
     (case n of
        Relay_Event e \<Rightarrow>
          (let (_, s1, hooks) = notifier_handle nv s e now; (s2, more) = event_loop nv xs s1 in (s2, hooks @ more))
      | Client_Shutdown \<Rightarrow> (s, [])
      | Other_Notification \<Rightarrow> event_loop nv xs s)"

section \<open>Starting mediation\<close>

definition settings_of :: "mediation_config \<Rightarrow> mediation_settings" where
  "settings_of m = \<lparr>ms_enabled = True, ms_default_language = default_language m, ms_languages = languages m,
     ms_max_rounds = max_rounds m, ms_max_message_chars = max_message_chars m,
     ms_max_messages_per_turn = max_messages_per_turn m, ms_response_timeout = response_timeout m,
     ms_self_resolution_timeout = self_resolution_timeout m, ms_handoff_grace = handoff_grace m\<rparr>"

definition judge_languages :: "catalogs \<Rightarrow> string list \<Rightarrow> language list" where
  "judge_languages cats codes =
     List.map_filter (\<lambda>code. map_option (\<lambda>c. \<lparr>l_code = code, l_name = cat_name c\<rparr>) (map_of cats code)) codes"

text \<open>A judge as the start-up meets it: its id, what it can express and its health error, if any.\<close>

record judge_info =
  ji_id :: string
  ji_capabilities :: capabilities
  ji_health_error :: "string option"

definition set_ready :: "ready_judge \<Rightarrow> mediator \<Rightarrow> mediator" where
  "set_ready rj me = me\<lparr>me_judge := Some rj\<rparr>"

definition start_judge ::
    "outside \<Rightarrow> node_side \<Rightarrow> string + judge_info \<Rightarrow> thresholds option \<Rightarrow> language list \<Rightarrow> int \<Rightarrow> int \<Rightarrow>
     mediator \<Rightarrow> desk \<Rightarrow> world \<Rightarrow> mediator \<times> desk \<times> world" where
  "start_judge out ns made th langs started now me dk w =
     (if check_node ns (w_step w) = Unsupported then (me, dk, others out w)
      else case made of
          Inl _ \<Rightarrow> (me, dk, others out w)
        | Inr j \<Rightarrow>
            (let turn = turn_questions (os_digest out) langs;
                 w1 = others out w
             in case (check_judge (ji_capabilities j) (ji_health_error j) th turn, th) of
                  (Ready, Some t) \<Rightarrow>
                    (let me' = set_ready \<lparr>rj_id = ji_id j, rj_thresholds = t, rj_turn = turn\<rparr> me;
                         (_, dk', w') = reconsider out ns me' started now dk (others out w1)
                     in (me', dk', w'))
                | _ \<Rightarrow> (me, dk, others out w1)))"

section \<open>Which revisions are kept\<close>

definition ids_ok :: "copy list \<Rightarrow> bool" where
  "ids_ok es \<longleftrightarrow> (\<forall>a \<in> set es. \<forall>b \<in> set es. cp_id a = cp_id b \<longrightarrow> a = b)"

definition best_of :: "(string list list \<Rightarrow> string option) \<Rightarrow> copy list \<Rightarrow> string \<Rightarrow> copy \<Rightarrow> bool" where
  "best_of identifier es i c \<longleftrightarrow> c \<in> set es \<and> identifier (no_tags (cp_event c)) = Some i \<and>
     (\<forall>d \<in> set es. identifier (no_tags (cp_event d)) = Some i \<longrightarrow> \<not> rank_less c d)"

definition holder_ok :: "(string list list \<Rightarrow> string option) \<Rightarrow> copy list \<Rightarrow> string \<Rightarrow> copy option \<Rightarrow> bool" where
  "holder_ok identifier es i x \<longleftrightarrow>
     (case x of None \<Rightarrow> \<forall>c \<in> set es. identifier (no_tags (cp_event c)) \<noteq> Some i | Some c \<Rightarrow> best_of identifier es i c)"

definition kept_ok :: "(string list list \<Rightarrow> string option) \<Rightarrow> copy list \<Rightarrow> (string \<times> copy) list \<Rightarrow> bool" where
  "kept_ok identifier es kept \<longleftrightarrow> distinct (map fst kept) \<and> (\<forall>i. holder_ok identifier es i (map_of kept i))"

lemma kept_okD: "kept_ok identifier es kept \<Longrightarrow> holder_ok identifier es i (map_of kept i)"
  by (simp add: kept_ok_def)

lemma kept_ok_Nil: "kept_ok identifier [] []"
  by (simp add: kept_ok_def holder_ok_def)

lemma map_of_filter_key: "map_of (filter (\<lambda>x. fst x \<noteq> i) kept) j = (if j = i then None else map_of kept j)"
  by (induction kept) auto

lemma distinct_filter_fst: "distinct (map fst kept) \<Longrightarrow> distinct (map fst (filter P kept))"
  by (induction kept) auto

lemma rank_less_irrefl: "\<not> rank_less a a"
  by (simp add: rank_less_def)

lemma holder_snoc_other:
  "identifier (no_tags (cp_event e)) \<noteq> Some i \<Longrightarrow> holder_ok identifier es i x \<Longrightarrow> holder_ok identifier (es @ [e]) i x"
  by (auto simp: holder_ok_def best_of_def split: option.splits)

lemma holder_snoc_kept:
  "holder_ok identifier es i (Some c) \<Longrightarrow> \<not> rank_less c e \<Longrightarrow> holder_ok identifier (es @ [e]) i (Some c)"
  by (auto simp: holder_ok_def best_of_def)

lemma holder_snoc_new:
  assumes "identifier (no_tags (cp_event e)) = Some i" and "holder_ok identifier es i x"
    and "case x of None \<Rightarrow> True | Some k \<Rightarrow> rank_less k e"
  shows "holder_ok identifier (es @ [e]) i (Some e)"
proof (cases x)
  case None
  with assms rank_less_irrefl show ?thesis by (auto simp: holder_ok_def best_of_def)
next
  case (Some k)
  with assms have k: "rank_less k e" "\<And>d. d \<in> set es \<Longrightarrow> identifier (no_tags (cp_event d)) = Some i \<Longrightarrow> \<not> rank_less k d"
    by (auto simp: holder_ok_def best_of_def)
  have "\<not> rank_less e d" if "d \<in> set es" "identifier (no_tags (cp_event d)) = Some i" for d
    using k(2) [OF that] rank_less_trans [OF k(1)] by blast
  with assms(1) rank_less_irrefl show ?thesis by (auto simp: holder_ok_def best_of_def)
qed

lemma keep_newest_ok:
  "kept_ok identifier seen kept \<Longrightarrow> kept_ok identifier (seen @ es) (keep_newest identifier es kept)"
proof (induction es arbitrary: seen kept)
  case (Cons e es)
  note holder = kept_okD [OF Cons.prems]
  have dist: "distinct (map fst kept)" using Cons.prems by (simp add: kept_ok_def)
  show ?case
  proof (cases "identifier (no_tags (cp_event e))")
    case None
    have "kept_ok identifier (seen @ [e]) kept"
      using dist holder_snoc_other [OF _ holder] None by (simp add: kept_ok_def)
    from Cons.IH [OF this] None show ?thesis by simp
  next
    case (Some i)
    have other: "holder_ok identifier (seen @ [e]) j (map_of kept j)" if "j \<noteq> i" for j
      using holder_snoc_other [OF _ holder] Some that by simp
    show ?thesis
    proof (cases "case map_of kept i of None \<Rightarrow> True | Some k \<Rightarrow> rank_less k e")
      case True
      let ?kept = "(i, e) # filter (\<lambda>x. fst x \<noteq> i) kept"
      have "holder_ok identifier (seen @ [e]) j (map_of ?kept j)" for j
        using holder_snoc_new [OF Some holder True] other [of j] by (simp add: map_of_filter_key)
      moreover have "distinct (map fst ?kept)" using distinct_filter_fst [OF dist] by auto
      ultimately have "kept_ok identifier (seen @ [e]) ?kept" by (simp add: kept_ok_def)
      from Cons.IH [OF this] Some True show ?thesis by simp
    next
      case False
      then obtain k where k: "map_of kept i = Some k" "\<not> rank_less k e" by (auto split: option.splits)
      have "holder_ok identifier (seen @ [e]) j (map_of kept j)" for j
        using other [of j] holder_snoc_kept [OF holder [of i, unfolded k(1)] k(2)] k(1) by (cases "j = i") simp_all
      then have "kept_ok identifier (seen @ [e]) kept" using dist by (simp add: kept_ok_def)
      from Cons.IH [OF this] Some False show ?thesis by simp
    qed
  qed
qed simp

lemma kept_backlog: "kept_ok identifier es (keep_newest identifier es [])"
  using keep_newest_ok [OF kept_ok_Nil] by simp

lemma kept_best: "(i, c) \<in> set (keep_newest identifier es []) \<Longrightarrow> best_of identifier es i c"
proof -
  assume ic: "(i, c) \<in> set (keep_newest identifier es [])"
  have "distinct (map fst (keep_newest identifier es []))" using kept_backlog by (auto simp: kept_ok_def)
  then have "map_of (keep_newest identifier es []) i = Some c" using ic by (rule map_of_is_SomeI)
  moreover have "holder_ok identifier es i (map_of (keep_newest identifier es []) i)"
    by (rule kept_okD [OF kept_backlog])
  ultimately show "best_of identifier es i c" by (simp add: holder_ok_def)
qed

lemma best_of_unique:
  assumes "ids_ok es" and "best_of identifier es i c" and "best_of identifier es i d"
  shows "c = d"
  using assms unfolding best_of_def ids_ok_def rank_less_def by (metis linorder_neqE)

lemma newest_revisions_set:
  assumes "ids_ok es"
  shows "c \<in> set (newest_revisions identifier es) \<longleftrightarrow> (\<exists>i. best_of identifier es i c)"
proof
  assume "c \<in> set (newest_revisions identifier es)"
  then obtain i where "(i, c) \<in> set (keep_newest identifier es [])" by (auto simp: newest_revisions_def)
  from kept_best [OF this] show "\<exists>i. best_of identifier es i c" ..
next
  assume "\<exists>i. best_of identifier es i c"
  then obtain i where i: "best_of identifier es i c" ..
  have "map_of (keep_newest identifier es []) i \<noteq> None"
  proof
    assume "map_of (keep_newest identifier es []) i = None"
    moreover have "holder_ok identifier es i (map_of (keep_newest identifier es []) i)"
      by (rule kept_okD [OF kept_backlog])
    ultimately show False using i by (auto simp: holder_ok_def best_of_def)
  qed
  then obtain d where d: "(i, d) \<in> set (keep_newest identifier es [])" by (auto dest: map_of_SomeD)
  with best_of_unique [OF assms i kept_best] show "c \<in> set (newest_revisions identifier es)"
    by (force simp: newest_revisions_def)
qed

lemma newest_revisions_distinct: "distinct (newest_revisions identifier es)"
proof -
  let ?kept = "keep_newest identifier es []"
  have "identifier (no_tags (cp_event c)) = Some i" if "(i, c) \<in> set ?kept" for i c
    using kept_best [OF that] by (simp add: best_of_def)
  note idf = this
  have "inj_on snd (set ?kept)"
  proof (rule inj_onI)
    fix x y assume xy: "x \<in> set ?kept" "y \<in> set ?kept" "snd x = snd y"
    have "fst x = fst y"
      using idf [of "fst x" "snd x", unfolded prod.collapse, OF xy(1)]
        idf [of "fst y" "snd y", unfolded prod.collapse, OF xy(2)] xy(3) by simp
    with xy(3) show "x = y" by (simp add: prod_eq_iff)
  qed
  moreover have "distinct ?kept" using kept_backlog by (auto simp: kept_ok_def distinct_map)
  ultimately show ?thesis by (simp add: newest_revisions_def distinct_map)
qed

lemma newest_revisions_sorted: "sorted (map stored_key (newest_revisions identifier es))"
  by (simp add: newest_revisions_def)

text \<open>
  The backlog is the newest revision of each dispute, oldest first, whatever order the relays answered
  in and however often: two fetches of the same events give the same list. Newest is NIP-01's: the
  later one, and of two of the same second the one with the lower id.
\<close>

theorem backlog_ignores_relay_order:
  assumes "ids_ok es" and "set es' = set es"
  shows "newest_revisions identifier es' = newest_revisions identifier es \<and>
    sorted (map stored_key (newest_revisions identifier es)) \<and>
    (\<forall>c. c \<in> set (newest_revisions identifier es) \<longleftrightarrow> (\<exists>i. best_of identifier es i c))"
proof -
  have ok': "ids_ok es'" using assms by (simp add: ids_ok_def)
  have best: "best_of identifier es' = best_of identifier es"
    by (intro ext) (simp add: best_of_def assms(2))
  have set: "set (newest_revisions identifier es') = set (newest_revisions identifier es)"
    using newest_revisions_set [OF ok'] newest_revisions_set [OF assms(1)] best by auto
  have inj: "inj_on stored_key (set es)"
    using assms(1) by (auto simp: inj_on_def stored_key_def ids_ok_def)
  have sub: "set (newest_revisions identifier es) \<subseteq> set es"
    using newest_revisions_set [OF assms(1)] by (auto simp: best_of_def)
  have "newest_revisions identifier es' = newest_revisions identifier es"
  proof (rule map_sorted_distinct_set_unique)
    show "inj_on stored_key (set (newest_revisions identifier es') \<union> set (newest_revisions identifier es))"
      using inj sub set by (auto intro: inj_on_subset)
  next
    have d: "inj_on stored_key (set (newest_revisions identifier es))" by (rule inj_on_subset [OF inj sub])
    then show "distinct (map stored_key (newest_revisions identifier es))"
      "distinct (map stored_key (newest_revisions identifier es'))"
      by (simp_all add: distinct_map newest_revisions_distinct set)
  qed (simp_all add: newest_revisions_sorted set)
  then show ?thesis using newest_revisions_set [OF assms(1)] newest_revisions_sorted by blast
qed

section \<open>The disputes the daemon keeps\<close>

text \<open>
  Everything the daemon does to the disputes table is a run of the operations of \<open>dispute_step\<close>: a
  revision recorded, or a row marked as notified. \<open>did st_str ops s s'\<close> says which run led from \<open>s\<close>
  to \<open>s'\<close>, as far as that table goes.
\<close>

definition did :: "(dispute_status \<Rightarrow> string) \<Rightarrow> dispute_op list \<Rightarrow> db \<Rightarrow> db \<Rightarrow> bool" where
  "did st_str ops s s' \<longleftrightarrow> db_disputes s' = db_disputes (fold (dispute_step st_str) ops s)"

definition recorded_in :: "dispute_op list \<Rightarrow> dispute_event list" where
  "recorded_in ops = List.map_filter (\<lambda>x. case x of Revision de _ \<Rightarrow> Some de | Mark _ _ \<Rightarrow> None) ops"

lemma recorded_in_simps [simp]:
  "recorded_in [] = []"
  "recorded_in (Revision de n # ops) = de # recorded_in ops"
  "recorded_in (Mark i n # ops) = recorded_in ops"
  "recorded_in (xs @ ys) = recorded_in xs @ recorded_in ys"
  by (simp_all add: recorded_in_def List.map_filter_def)

lemma dispute_step_same:
  assumes "disputes_ok (db_disputes s)" and "db_disputes t = db_disputes s"
  shows "db_disputes (dispute_step st_str x t) = db_disputes (dispute_step st_str x s)"
proof (cases x)
  case (Revision de n)
  have ok: "disputes_ok (db_disputes t)" using assms by simp
  show ?thesis
    unfolding Revision dispute_step.simps recorded_disputes [OF assms(1)] recorded_disputes [OF ok] assms(2) ..
next
  case (Mark i n)
  with assms(2) show ?thesis by (simp add: mark_def)
qed

lemma dispute_run_same:
  "disputes_ok (db_disputes s) \<Longrightarrow> db_disputes t = db_disputes s \<Longrightarrow>
     db_disputes (fold (dispute_step st_str) ops t) = db_disputes (fold (dispute_step st_str) ops s)"
proof (induction ops arbitrary: s t)
  case (Cons x ops)
  have "disputes_ok (db_disputes (dispute_step st_str x s))"
    using dispute_machine.run_inv [of s st_str "[x]"] Cons.prems(1) by simp
  from Cons.IH [OF this dispute_step_same [OF Cons.prems]] show ?case by simp
qed simp

lemma did_refl: "did st_str [] s s"
  by (simp add: did_def)

lemma did_ok: "disputes_ok (db_disputes s) \<Longrightarrow> did st_str ops s s' \<Longrightarrow> disputes_ok (db_disputes s')"
  using dispute_machine.run_inv [of s st_str ops] by (simp add: did_def)

lemma did_trans:
  assumes "disputes_ok (db_disputes s)" and "did st_str xs s s'" and "did st_str ys s' s''"
  shows "did st_str (xs @ ys) s s''"
proof -
  let ?t = "fold (dispute_step st_str) xs s"
  have "disputes_ok (db_disputes ?t)" using dispute_machine.run_inv [of s st_str xs] assms(1) by simp
  then have "db_disputes (fold (dispute_step st_str) ys s') = db_disputes (fold (dispute_step st_str) ys ?t)"
    by (rule dispute_run_same) (use assms(2) in \<open>simp add: did_def\<close>)
  with assms(3) show ?thesis by (simp add: did_def)
qed

lemma did_mark: "did st_str [Mark i now] s (mark s i now)"
  by (simp add: did_def)

lemma did_revisions: "did st_str (map (\<lambda>(de, n). Revision de n) revs) s (fold (recorded_db st_str) revs s)"
proof -
  have "fold (dispute_step st_str) (map (\<lambda>(de, n). Revision de n) revs) s = fold (recorded_db st_str) revs s"
    by (induction revs arbitrary: s) auto
  then show ?thesis by (simp add: did_def)
qed

lemma recorded_in_revisions: "recorded_in (map (\<lambda>(de, n). Revision de n) revs) = map fst revs"
  by (induction revs) auto

lemma notify_loop_disputes:
  "db_disputes (snd (snd (notify_loop send sos d notification txt now acc))) = db_disputes (snd (snd acc))"
  by (induction send sos d notification "txt" now acc rule: notify_loop.induct)
    (auto simp: Let_def log_event_Inr split: option.splits)

lemma notify_solvers_disputes: "db_disputes (snd (notify_solvers send sos d notification txt now s)) = db_disputes s"
  using notify_loop_disputes [of send sos d notification "txt" now "(0, None, s)"]
  by (auto simp: notify_solvers_def split: prod.splits option.splits)

lemma did_notify: "did st_str [] s (snd (notify_solvers send sos d notification txt now s))"
  by (simp add: did_def notify_solvers_disputes)

definition revisions_from :: "dispute_event result option \<Rightarrow> dispute_event list" where
  "revisions_from r = (case r of Some (Inr de) \<Rightarrow> [de] | _ \<Rightarrow> [])"

lemma did_notify_new:
  assumes "disputes_ok (db_disputes s)"
  shows "\<exists>ops. did st_str ops s (snd (notify_new send sos de now s)) \<and> recorded_in ops = []"
proof -
  obtain r s1 where n: "notify_solvers send sos (de_dispute_id de) ''new_dispute''
      (text_new_dispute (de_dispute_id de) (de_initiator de)) now s = (r, s1)" by (meson surj_pair)
  then have d1: "did st_str [] s s1" using did_notify by (metis snd_conv)
  have d2: "did st_str ([] @ [Mark (de_dispute_id de) now]) s (mark s1 (de_dispute_id de) now)"
    by (rule did_trans [OF assms d1 did_mark])
  have m: "recorded_in ([] @ [Mark (de_dispute_id de) now]) = []" by simp
  show ?thesis
  proof (cases r)
    case (Inl e)
    with n d1 show ?thesis by (auto simp: notify_new_def intro!: exI [of _ "[]"])
  next
    case (Inr k)
    show ?thesis
    proof (cases "0 < k")
      case True
      with n Inr have "snd (notify_new send sos de now s) = mark s1 (de_dispute_id de) now"
        by (simp add: notify_new_def)
      with d2 m show ?thesis by metis
    next
      case False
      with n Inr have "snd (notify_new send sos de now s) = s1" by (simp add: notify_new_def)
      with d1 show ?thesis by (metis recorded_in_simps(1))
    qed
  qed
qed

lemma handle_did:
  assumes "disputes_ok (db_disputes s)"
  shows "\<exists>ops. did st_str ops s (fst (snd (handle_event st_str of_event send sos own_set s e now))) \<and>
    recorded_in ops = revisions_from (of_event e)"
proof (cases "\<exists>de. of_event e = Some (Inr de)")
  case False
  then show ?thesis
    by (auto simp: handle_event_def revisions_from_def did_def intro!: exI [of _ "[]"] split: option.splits sum.splits)
next
  case True
  then obtain de where de: "of_event e = Some (Inr de)" ..
  obtain ch s1 where rec: "record_event st_str s de now = Inr (ch, s1)" using record_total by blast
  have d1: "did st_str [Revision de now] s s1"
    using rec by (simp add: did_def recorded_db_def)
  note ok1 = did_ok [OF assms d1]
  have step: "\<exists>ops. did st_str ops s s2 \<and> recorded_in ops = [de]"
    if later: "\<exists>ops. did st_str ops s1 s2 \<and> recorded_in ops = []" for s2
  proof -
    obtain ops where ops: "did st_str ops s1 s2" "recorded_in ops = []" using later by blast
    from did_trans [OF assms d1 ops(1)] ops(2) show ?thesis by (metis append_Cons append_Nil recorded_in_simps(2))
  qed
  have same: "\<exists>ops. did st_str ops s1 s1 \<and> recorded_in ops = []"
    using did_refl by (metis recorded_in_simps(1))
  have told: "\<exists>ops. did st_str ops s1 (snd (notify_solvers send sos d k txt now s1)) \<and> recorded_in ops = []" for d k "txt"
    using did_notify by (metis recorded_in_simps(1))
  have "\<exists>ops. did st_str ops s (fst (snd (handle_event st_str of_event send sos own_set s e now))) \<and> recorded_in ops = [de]"
  proof (cases ch)
    case Ch_New
    have "fst (snd (handle_event st_str of_event send sos own_set s e now)) = snd (notify_new send sos de now s1)"
      by (simp add: handle_event_def de rec Ch_New split: prod.split sum.split)
    with step [OF did_notify_new [OF ok1]] show ?thesis by simp
  next
    case Ch_Taken
    have "fst (snd (handle_event st_str of_event send sos own_set s e now)) =
        snd (notify_solvers send sos (de_dispute_id de) ''taken''
          (text_taken (de_dispute_id de) (taken_by_serbero own_set s1 (de_dispute_id de))) now s1)"
      by (simp add: handle_event_def de rec Ch_Taken split: prod.split sum.split)
    with step [OF told] show ?thesis by simp
  qed (use step [OF same] in \<open>simp_all add: handle_event_def de rec\<close>)
  then show ?thesis by (simp add: de revisions_from_def)
qed

text \<open>A change of the table by revisions among \<open>R\<close> only.\<close>

definition led :: "(dispute_status \<Rightarrow> string) \<Rightarrow> dispute_event set \<Rightarrow> db \<Rightarrow> db \<Rightarrow> bool" where
  "led st_str R s s' \<longleftrightarrow> (\<exists>ops. did st_str ops s s' \<and> set (recorded_in ops) \<subseteq> R)"

lemma led_refl: "led st_str R s s"
  unfolding led_def by (rule exI [of _ "[]"]) (simp add: did_refl)

lemma led_did: "did st_str ops s s' \<Longrightarrow> set (recorded_in ops) \<subseteq> R \<Longrightarrow> led st_str R s s'"
  by (auto simp: led_def)

lemma led_ok: "disputes_ok (db_disputes s) \<Longrightarrow> led st_str R s s' \<Longrightarrow> disputes_ok (db_disputes s')"
  by (auto simp: led_def intro: did_ok)

lemma led_trans:
  assumes "disputes_ok (db_disputes s)" and "led st_str R s s'" and "led st_str R s' s''"
  shows "led st_str R s s''"
proof -
  obtain xs ys where "did st_str xs s s'" "set (recorded_in xs) \<subseteq> R" "did st_str ys s' s''" "set (recorded_in ys) \<subseteq> R"
    using assms(2,3) by (auto simp: led_def)
  with did_trans [OF assms(1), of st_str xs s' ys s''] show ?thesis unfolding led_def by (intro exI [of _ "xs @ ys"]) simp
qed

definition recorded_meanwhile :: "(nat \<Rightarrow> (dispute_event \<times> int) list) \<Rightarrow> dispute_event set" where
  "recorded_meanwhile revs = (\<Union>n. fst ` set (revs n))"

lemma led_others: "led (nv_st_str nv) (recorded_meanwhile revs) s (recording_others nv revs n s)"
  unfolding recording_others_def
  by (rule led_did [OF did_revisions]) (auto simp: recorded_in_revisions recorded_meanwhile_def)

lemma led_notify: "led st_str R s (snd (notify_solvers send sos d notification txt now s))"
  by (rule led_did [OF did_notify]) simp

lemma led_mark: "led st_str R s (mark s i now)"
  by (rule led_did [OF did_mark]) simp

lemma remind_each_led:
  "disputes_ok (db_disputes s) \<Longrightarrow>
     led (nv_st_str nv) (recorded_meanwhile revs) s
       (snd (snd (remind_each (recording_others nv revs) send sos now n dues (processed, hooks, s))))"
proof (induction dues arbitrary: n processed hooks s)
  case (Cons due dues)
  let ?led = "led (nv_st_str nv) (recorded_meanwhile revs)"
  let ?s1 = "recording_others nv revs n s"
  have l1: "?led s ?s1" by (rule led_others)
  note ok1 = led_ok [OF Cons.prems l1]
  show ?case
  proof (cases "get_dispute (db_disputes ?s1) (d_dispute_id due)")
    case None
    then show ?thesis using led_trans [OF Cons.prems l1 Cons.IH [OF ok1]] by (simp add: Let_def)
  next
    case (Some d)
    show ?thesis
    proof (cases "waiting d")
      case False
      then show ?thesis using led_trans [OF Cons.prems l1 Cons.IH [OF ok1]] Some by (simp add: Let_def)
    next
      case True
      let ?say = "if d_lifecycle d = Lc_New then (''new_dispute'', text_new_dispute (d_dispute_id d) (d_initiator d))
        else (''reminder'', text_reminder (d_dispute_id d) (now - d_first_seen_at d))"
      obtain r s2 where n2: "notify_solvers send sos (d_dispute_id d) (fst ?say) (snd ?say) now ?s1 = (r, s2)"
        by (meson surj_pair)
      then have "?led ?s1 s2" by (metis led_notify snd_conv)
      from led_trans [OF Cons.prems l1 this] have l2: "?led s s2" .
      note ok2 = led_ok [OF Cons.prems l2]
      show ?thesis
      proof (cases r)
        case (Inl e)
        with l2 n2 Some True show ?thesis by (simp add: Let_def case_prod_unfold)
      next
        case (Inr k)
        let ?s3 = "recording_others nv revs (n + 1) s2"
        have l3: "?led s ?s3" by (rule led_trans [OF Cons.prems l2 led_others])
        note ok3 = led_ok [OF Cons.prems l3]
        have l4: "?led s (mark ?s3 (d_dispute_id d) now)" by (rule led_trans [OF Cons.prems l3 led_mark])
        note ok4 = led_ok [OF Cons.prems l4]
        show ?thesis
          using led_trans [OF Cons.prems l3 Cons.IH [OF ok3]] led_trans [OF Cons.prems l4 Cons.IH [OF ok4]]
            n2 Inr Some True
          by (simp add: Let_def case_prod_unfold)
      qed
    qed
  qed
qed (simp add: led_refl)

lemma apply_stored_did:
  "disputes_ok (db_disputes s) \<Longrightarrow>
     \<exists>ops. did (nv_st_str nv) ops s (fst (apply_stored nv now n cs s)) \<and>
       recorded_in ops = concat (map (\<lambda>c. revisions_from (revision_of nv (cp_event c))) cs)"
proof (induction cs arbitrary: n s)
  case Nil
  show ?case by (rule exI [of _ "[]"]) (simp add: did_refl)
next
  case (Cons c cs)
  obtain ch s1 hooks where h: "notifier_handle nv s (cp_event c) (now n) = (ch, s1, hooks)" by (metis prod_cases3)
  then obtain xs where xs: "did (nv_st_str nv) xs s s1" "recorded_in xs = revisions_from (revision_of nv (cp_event c))"
    using handle_did [OF Cons.prems, of "nv_st_str nv" "revision_of nv" "nv_send nv" "nv_solvers nv" "nv_own_takes nv"
        "cp_event c" "now n"] by (auto simp: notifier_handle_def)
  obtain ys where ys: "did (nv_st_str nv) ys s1 (fst (apply_stored nv now (n + 1) cs s1))"
      "recorded_in ys = concat (map (\<lambda>c. revisions_from (revision_of nv (cp_event c))) cs)"
    using Cons.IH [OF did_ok [OF Cons.prems xs(1)]] by blast
  from did_trans [OF Cons.prems xs(1) ys(1)] xs(2) ys(2) h show ?case
    by (intro exI [of _ "xs @ ys"]) (simp add: Let_def case_prod_unfold)
qed

section \<open>Convergence\<close>

text \<open>The revisions an input records for certain, and those it may record besides.\<close>

fun records :: "notifier \<Rightarrow> daemon_input \<Rightarrow> dispute_event set" where
  "records nv (Live e now) = set (revisions_from (revision_of nv e))"
| "records nv (Backlog fetched now) =
     (case fetched of Inl _ \<Rightarrow> {}
      | Inr es \<Rightarrow> (\<Union>c \<in> set (newest_revisions (nv_identifier nv) es). set (revisions_from (revision_of nv (cp_event c)))))"
| "records nv (Remind now revs) = {}"

fun may_record :: "notifier \<Rightarrow> daemon_input \<Rightarrow> dispute_event set" where
  "may_record nv (Remind now revs) = recorded_meanwhile revs"
| "may_record nv x = records nv x"

lemma daemon_step_did:
  assumes "disputes_ok (db_disputes (dm_db st))"
  shows "\<exists>ops. did (nv_st_str nv) ops (dm_db st) (dm_db (daemon_step nv after_secs x st)) \<and>
    records nv x \<subseteq> set (recorded_in ops) \<and> set (recorded_in ops) \<subseteq> may_record nv x"
proof (cases x)
  case (Live e now)
  with handle_did [OF assms, of "nv_st_str nv" "revision_of nv" "nv_send nv" "nv_solvers nv" "nv_own_takes nv" e now]
  show ?thesis by (auto simp: notifier_handle_def)
next
  case (Backlog fetched now)
  show ?thesis
  proof (cases fetched)
    case (Inl e)
    with Backlog show ?thesis by (intro exI [of _ "[]"]) (simp add: sync_round_def sync_backlog_def did_refl)
  next
    case (Inr es)
    obtain ops where "did (nv_st_str nv) ops (dm_db st)
        (fst (apply_stored nv now 0 (newest_revisions (nv_identifier nv) es) (dm_db st)))"
      "recorded_in ops = concat (map (\<lambda>c. revisions_from (revision_of nv (cp_event c))) (newest_revisions (nv_identifier nv) es))"
      using apply_stored_did [OF assms] by blast
    with Backlog Inr show ?thesis
      by (intro exI [of _ ops]) (simp add: sync_round_def sync_backlog_def Let_def case_prod_unfold)
  qed
next
  case (Remind now revs)
  have "led (nv_st_str nv) (recorded_meanwhile revs) (dm_db st) (dm_db (daemon_step nv after_secs x st))"
    using remind_each_led [OF assms] led_refl by (simp add: Remind reminder_tick_def remind_solvers_def)
  with Remind show ?thesis by (auto simp: led_def)
qed

lemma daemon_run_did:
  "disputes_ok (db_disputes (dm_db st)) \<Longrightarrow>
     \<exists>ops. did (nv_st_str nv) ops (dm_db st) (dm_db (fold (daemon_step nv after_secs) xs st)) \<and>
       (\<Union>x \<in> set xs. records nv x) \<subseteq> set (recorded_in ops) \<and>
       set (recorded_in ops) \<subseteq> (\<Union>x \<in> set xs. may_record nv x)"
proof (induction xs arbitrary: st)
  case Nil
  show ?case by (rule exI [of _ "[]"]) (simp add: did_refl)
next
  case (Cons x xs)
  obtain as where as: "did (nv_st_str nv) as (dm_db st) (dm_db (daemon_step nv after_secs x st))"
    "records nv x \<subseteq> set (recorded_in as)" "set (recorded_in as) \<subseteq> may_record nv x"
    using daemon_step_did [OF Cons.prems] by blast
  obtain bs where bs: "did (nv_st_str nv) bs (dm_db (daemon_step nv after_secs x st))
      (dm_db (fold (daemon_step nv after_secs) xs (daemon_step nv after_secs x st)))"
    "(\<Union>x \<in> set xs. records nv x) \<subseteq> set (recorded_in bs)"
    "set (recorded_in bs) \<subseteq> (\<Union>x \<in> set xs. may_record nv x)"
    using Cons.IH [OF did_ok [OF Cons.prems as(1)]] by blast
  show ?case
  proof (intro exI [of _ "as @ bs"] conjI)
    show "did (nv_st_str nv) (as @ bs) (dm_db st) (dm_db (fold (daemon_step nv after_secs) (x # xs) st))"
      using did_trans [OF Cons.prems as(1) bs(1)] by simp
  qed (use as(2,3) bs(2,3) in auto)
qed

definition status_view :: "dispute \<Rightarrow> string \<times> int" where
  "status_view d = (d_status d, d_status_at d)"

lemma step_run_status:
  assumes "disputes_ok (db_disputes s)" and "get_dispute (db_disputes s) i = None"
  shows "map_option status_view (get_dispute (db_disputes (fold (dispute_step st_str) ops s)) i) =
    map_option (\<lambda>e. (st_str (de_status e), de_revision_at e))
      (newest (filter (\<lambda>e. de_dispute_id e = i) (recorded_in ops)))"
proof (induction ops rule: rev_induct)
  case Nil
  then show ?case using assms(2) by (simp add: newest_def)
next
  case (snoc x ops)
  let ?s = "fold (dispute_step st_str) ops s"
  have ok: "disputes_ok (db_disputes ?s)" by (rule dispute_machine.run_inv [OF assms(1)])
  have two: "map_option status_view d = map_option (\<lambda>(a, b, c). (a, b)) (map_option dispute_view d)" for d
    by (cases d) (simp_all add: dispute_view_def status_view_def)
  show ?case
  proof (cases x)
    case (Revision de n)
    have v: "map_option dispute_view (get_dispute (db_disputes (recorded_db st_str (de, n) ?s)) i) =
        dispute_after st_str de i (get_dispute (db_disputes ?s) i)"
      by (rule recorded_view [OF ok])
    have after: "map_option status_view (get_dispute (db_disputes (fold (dispute_step st_str) (ops @ [x]) s)) i) =
        map_option (\<lambda>(a, b, c). (a, b)) (dispute_after st_str de i (get_dispute (db_disputes ?s) i))"
      using two v by (simp add: Revision del: map_option_eq_Some)
    show ?thesis
      unfolding after using snoc.IH
      by (cases "get_dispute (db_disputes ?s) i"; cases "newest (filter (\<lambda>e. de_dispute_id e = i) (recorded_in ops))")
        (auto simp: Revision dispute_after_def newest_snoc status_view_def)
  next
    case (Mark j n)
    have "map_option status_view (get_dispute (db_disputes (mark ?s j n)) i) =
        map_option status_view (get_dispute (db_disputes ?s) i)"
      by (cases "get_dispute (db_disputes ?s) i")
        (auto simp: mark_def get_dispute_notified status_view_def notified_row_def)
    with snoc.IH show ?thesis by (simp add: Mark)
  qed
qed


section \<open>Stale revisions\<close>

lemma transition_not_new: "transition st_str s de existing now \<noteq> Inr (Ch_New, s')"
  by (auto simp: transition_def Let_def end_live_session_Inr log_event_Inr split: lifecycle.splits option.splits if_splits)

lemma record_event_new: "record_event st_str s de now = Inr (Ch_New, s') \<Longrightarrow> de_status de = Initiated"
  using transition_not_new
  by (auto simp: record_event_def Let_def log_event_Inr split: option.splits prod.splits if_splits status_update.splits)

lemma handle_event_hook:
  assumes "handle_event st_str of_event send sos taken s e now = (r, s', hooks)" and "On_New_Dispute i \<in> set hooks"
  shows "\<exists>de. of_event e = Some (Inr de) \<and> de_dispute_id de = i \<and> de_status de = Initiated"
  using assms by (auto simp: handle_event_def dest: record_event_new split: option.splits sum.splits prod.splits change.splits if_splits)

lemma revision_of_identifier: "revision_of nv e = Some (Inr de) \<Longrightarrow> nv_identifier nv (no_tags e) = Some (de_dispute_id de)"
  by (auto simp: revision_of_def dispute_of_def parse_dispute_event_def Let_def
      dest!: result_bind_Inr [THEN iffD1] split: if_splits option.splits sum.splits)

lemma apply_stored_hook:
  "On_New_Dispute i \<in> set (snd (apply_stored nv now n cs s)) \<Longrightarrow>
     \<exists>c \<in> set cs. \<exists>de. revision_of nv (cp_event c) = Some (Inr de) \<and> de_dispute_id de = i \<and> de_status de = Initiated"
proof (induction cs arbitrary: n s)
  case (Cons c cs)
  obtain ch s1 hooks where h: "notifier_handle nv s (cp_event c) (now n) = (ch, s1, hooks)" by (metis prod_cases3)
  with Cons.prems consider "On_New_Dispute i \<in> set hooks"
    | "On_New_Dispute i \<in> set (snd (apply_stored nv now (n + 1) cs s1))"
    by (auto simp: Let_def case_prod_unfold)
  then show ?case
  proof cases
    case 1
    from handle_event_hook [OF h [unfolded notifier_handle_def] 1] show ?thesis by auto
  next
    case 2
    from Cons.IH [OF this] show ?thesis by auto
  qed
qed simp

text \<open>
  Property C29. A relay with an old copy never makes Serbero announce a dispute as new: a backlog sync announces one
  only when the newest revision that any of the relays returned still says it was just opened.
\<close>

theorem stale_revision_never_announced:
  assumes "ids_ok es" and "sync_backlog nv now (Inr es) s = (r, s', hooks)" and "On_New_Dispute i \<in> set hooks"
  shows "\<exists>c de. best_of (nv_identifier nv) es i c \<and> revision_of nv (cp_event c) = Some (Inr de) \<and>
    de_dispute_id de = i \<and> de_status de = Initiated"
proof -
  have "On_New_Dispute i \<in> set (snd (apply_stored nv now 0 (newest_revisions (nv_identifier nv) es) s))"
    using assms(2,3) by (simp add: sync_backlog_def Let_def case_prod_unfold)
  from apply_stored_hook [OF this] obtain c de where c: "c \<in> set (newest_revisions (nv_identifier nv) es)"
    and de: "revision_of nv (cp_event c) = Some (Inr de)" "de_dispute_id de = i" "de_status de = Initiated" by blast
  obtain k where k: "best_of (nv_identifier nv) es k c" using c newest_revisions_set [OF assms(1)] by blast
  with revision_of_identifier [OF de(1)] de(2) have "k = i" by (simp add: best_of_def)
  with k de show ?thesis by blast
qed

section \<open>Reminders wait\<close>

definition is_backlog :: "daemon_input \<Rightarrow> bool" where
  "is_backlog x = (case x of Backlog _ _ \<Rightarrow> True | _ \<Rightarrow> False)"

definition is_remind :: "daemon_input \<Rightarrow> bool" where
  "is_remind x = (case x of Remind _ _ \<Rightarrow> True | _ \<Rightarrow> False)"

text \<open>
  Until the first backlog sync has been tried, the reminder timer has no effect: the run is as if none
  of its ticks had happened.
\<close>

theorem no_reminder_before_the_first_sync:
  assumes "list_all (\<lambda>x. \<not> is_backlog x) xs"
  shows "fold (daemon_step nv after_secs) xs (daemon_start s) =
    fold (daemon_step nv after_secs) (filter (\<lambda>x. \<not> is_remind x) xs) (daemon_start s)"
proof -
  have "\<not> dm_synced st \<Longrightarrow> fold (daemon_step nv after_secs) xs st =
      fold (daemon_step nv after_secs) (filter (\<lambda>x. \<not> is_remind x) xs) st" for st
    using assms
  proof (induction xs arbitrary: st)
    case (Cons x xs)
    then show ?case by (cases x) (simp_all add: is_backlog_def is_remind_def reminder_tick_def)
  qed simp
  then show ?thesis by (simp add: daemon_start_def)
qed

section \<open>Mediation starts when everything checks\<close>

text \<open>
  The judge becomes available only after every start-up check: the node did not deny protocol v2, the
  provider could be built, thresholds are configured for it, it can express the whole question set and
  answered its health check; the disputes that arrived meanwhile are then considered with that judge.
\<close>

theorem judge_ready_only_when_checked:
  assumes "start_judge out ns made th langs started now me dk w = (me', dk', w')" and "me_judge me = None"
    and "me_judge me' = Some rj"
  shows "check_node ns (w_step w) \<noteq> Unsupported \<and>
    (\<exists>j t. made = Inr j \<and> th = Some t \<and>
       rj = \<lparr>rj_id = ji_id j, rj_thresholds = t, rj_turn = turn_questions (os_digest out) langs\<rparr> \<and>
       capabilities_check (ji_capabilities j) (rj_turn rj) = [] \<and> ji_health_error j = None) \<and>
    me' = set_ready rj me \<and> snd (reconsider out ns me' started now dk (others out (others out w))) = (dk', w')"
  using assms
  by (auto simp: start_judge_def set_ready_def check_judge_def readiness_of_def Let_def
      split: if_splits sum.splits option.splits readiness.splits prod.splits)

section \<open>An example\<close>

fun example_st_parse :: "string \<Rightarrow> dispute_status option" where
  "example_st_parse t = (if t = ''initiated'' then Some Initiated else if t = ''in-progress'' then Some InProgress else None)"

definition example_notifier :: notifier where
  "example_notifier = \<lparr>nv_st_str = example_st_str, nv_st_parse = example_st_parse, nv_dispute_kind = 38386,
     nv_identifier = (\<lambda>t. tag_value t ''d''), nv_author = ''mostro'', nv_send = (\<lambda>_ _. None),
     nv_solvers = [\<lparr>so_pubkey = ''alice'', so_permission = Read\<rparr>], nv_own_takes = {}\<rparr>"

definition dispute_copy :: "string \<Rightarrow> string \<Rightarrow> nat \<Rightarrow> copy" where
  "dispute_copy i st t = \<lparr>cp_id = i, cp_event = \<lparr>no_kind = 38386, no_pubkey = ''mostro'',
     no_tags = [[''d'', ''d1''], [''s'', st], [''z'', ''dispute''], [''initiator'', ''buyer'']], no_created_at = t\<rparr>\<rparr>"

lemma two_copies:
  "newest_revisions (nv_identifier example_notifier) [dispute_copy ''b'' ''in-progress'' 9, dispute_copy ''a'' ''initiated'' 5] =
     [dispute_copy ''b'' ''in-progress'' 9]"
  by (simp add: newest_revisions_def example_notifier_def dispute_copy_def rank_less_def)

lemma backlog_ignores_relay_order_witness:
  "newest_revisions (nv_identifier example_notifier) [dispute_copy ''a'' ''initiated'' 5, dispute_copy ''b'' ''in-progress'' 9] =
     [dispute_copy ''b'' ''in-progress'' 9]"
proof -
  have "ids_ok [dispute_copy ''b'' ''in-progress'' 9, dispute_copy ''a'' ''initiated'' 5]"
    by (simp add: ids_ok_def dispute_copy_def)
  from backlog_ignores_relay_order [OF this, of "[dispute_copy ''a'' ''initiated'' 5, dispute_copy ''b'' ''in-progress'' 9]"]
  show ?thesis by (simp add: two_copies insert_commute)
qed

definition copy_revision :: "dispute_status \<Rightarrow> int \<Rightarrow> dispute_event" where
  "copy_revision st t = \<lparr>de_dispute_id = ''d1'', de_status = st, de_initiator = InitBuyer, de_opened_at = None, de_revision_at = t\<rparr>"

lemma example_revisions:
  "revision_of example_notifier (cp_event (dispute_copy i ''initiated'' 5)) = Some (Inr (copy_revision Initiated 5))"
  "revision_of example_notifier (cp_event (dispute_copy i ''in-progress'' 9)) = Some (Inr (copy_revision InProgress 9))"
  by (simp_all add: revision_of_def example_notifier_def dispute_of_def dispute_copy_def parse_dispute_event_def
      required_tag_def initiator_from_str_def as_i64_cast_def i64_max_def copy_revision_def)

lemma one_copy: "newest_revisions idf [c] = (if idf (no_tags (cp_event c)) = None then [] else [c])"
  by (simp add: newest_revisions_def split: option.split)

lemma example_identifier: "nv_identifier example_notifier (no_tags (cp_event (dispute_copy i st t))) = Some ''d1''"
  by (simp add: example_notifier_def dispute_copy_def)

definition example_inputs :: "daemon_input list" where
  "example_inputs = [Live (cp_event (dispute_copy ''b'' ''in-progress'' 9)) 30, Remind 35 (\<lambda>_. []),
     Backlog (Inr [dispute_copy ''a'' ''initiated'' 5]) (\<lambda>_. 40), Remind 60 (\<lambda>_. [])]"


lemma stale_revision_never_announced_witness:
  "On_New_Dispute ''d1'' \<in> set (snd (snd (sync_backlog example_notifier (\<lambda>_. 40) (Inr [dispute_copy ''a'' ''initiated'' 5]) empty_db))) \<and>
   (\<exists>c. best_of (nv_identifier example_notifier) [dispute_copy ''a'' ''initiated'' 5] ''d1'' c)"
proof -
  let ?r = "sync_backlog example_notifier (\<lambda>_. 40) (Inr [dispute_copy ''a'' ''initiated'' 5]) empty_db"
  have sent: "nv_send example_notifier = (\<lambda>_ _. None)" "nv_solvers example_notifier = [\<lparr>so_pubkey = ''alice'', so_permission = Read\<rparr>]"
    by (simp_all add: example_notifier_def)
  have hook: "On_New_Dispute ''d1'' \<in> set (snd (snd ?r))"
    by (simp add: sync_backlog_def one_copy example_identifier notifier_handle_def handle_event_def example_revisions
        record_event_def empty_db_def get_dispute_def copy_revision_def log_event_Inr notify_new_def notify_solvers_def
        sent Let_def)
  have "ids_ok [dispute_copy ''a'' ''initiated'' 5]" by (simp add: ids_ok_def)
  from stale_revision_never_announced [OF this, of example_notifier "\<lambda>_. 40" empty_db "fst ?r" "fst (snd ?r)" "snd (snd ?r)"] hook
  show ?thesis by auto
qed

lemma no_reminder_before_the_first_sync_witness:
  "fold (daemon_step example_notifier 900) [Remind 35 (\<lambda>_. []), Remind 36 (\<lambda>_. [])] (daemon_start example_db) = daemon_start example_db"
  using no_reminder_before_the_first_sync [of "[Remind 35 (\<lambda>_. []), Remind 36 (\<lambda>_. [])]" example_notifier 900 example_db]
  by (simp add: is_backlog_def is_remind_def)

definition able_judge :: judge_info where
  "able_judge = \<lparr>ji_id = ''typesafe/jev-1.13.0'', ji_capabilities = example_caps, ji_health_error = None\<rparr>"

lemma able_judge_fits: "capabilities_check example_caps (turn_questions d []) = []"
  unfolding capabilities_check_def turn_questions_def Let_def question_set.select_convs by code_simp

lemma judge_ready_only_when_checked_witness:
  "\<exists>me' dk' w' rj. start_judge quiet_outside (example_node None) (Inr able_judge) (Some example_thresholds) [] 0 50
      (example_mediator\<lparr>me_judge := None\<rparr>) no_desk (example_mediated []) = (me', dk', w') \<and>
     me_judge me' = Some rj \<and> capabilities_check example_caps (rj_turn rj) = []"
proof -
  let ?run = "start_judge quiet_outside (example_node None) (Inr able_judge) (Some example_thresholds) [] 0 50
      (example_mediator\<lparr>me_judge := None\<rparr>) no_desk (example_mediated [])"
  obtain me' dk' w' where run: "?run = (me', dk', w')" by (metis prod_cases3)
  have v2: "check_node (example_node None) n = V2" for n
    by (simp add: check_node_def example_node_def fetch_node_def newest_event_def node_from_event_def difficulty_def
        example_copy_def speaks_v2_def)
  have "me_judge me' \<noteq> None"
    using run by (auto simp: start_judge_def v2 able_judge_def check_judge_def readiness_of_def able_judge_fits
        set_ready_def Let_def split: prod.splits)
  then obtain rj where rj: "me_judge me' = Some rj" by blast
  from judge_ready_only_when_checked [OF run _ rj] have "capabilities_check example_caps (rj_turn rj) = []"
    by (auto simp: able_judge_def)
  with run rj show ?thesis by blast
qed

end
