(* ===== verification/Migrations.thy ===== *)
theory Migrations
  imports Texts
begin

text \<open>
  The schema migrations of \<open>src/src/store/migrations.rs\<close>. \<open>exec\<close> is SQLite running the text of a
  migration on the tables: it gives the tables after it, or an error. The tables themselves are of any
  type; those the shipped migrations make are what \<open>Sessions\<close>, \<open>Messages\<close>, \<open>Events\<close> and \<open>Disputes\<close>
  model. A transaction that is not committed leaves no trace.
\<close>

section \<open>The version table\<close>

record migration =
  mg_name :: string
  mg_sql :: string

record version_row =
  vr_version :: nat
  vr_name :: string
  vr_applied_at :: int

record 's schema =
  sc_tables :: 's
  sc_versions :: "version_row list option"

definition MIGRATION_NAMES :: "string list" where
  "MIGRATION_NAMES = [''disputes_and_events'', ''sessions_and_messages'', ''evaluations'',
     ''messages_unique_per_party'', ''rounds_per_party'']"

definition current_version :: "version_row list \<Rightarrow> nat" where
  "current_version rows = Max (insert 0 (set (map vr_version rows)))"

section \<open>Applying them\<close>

definition migration_failed :: "nat \<Rightarrow> migration \<Rightarrow> string \<Rightarrow> error" where
  "migration_failed v m e = Schema (''migration '' @ dec v @ '' ('' @ mg_name m @ '') failed: '' @ e)"

definition insert_version :: "version_row list \<Rightarrow> version_row \<Rightarrow> version_row list result" where
  "insert_version rows r =
     (if vr_version r \<in> vr_version ` set rows
      then Inl (Store (ConstraintViolation ''UNIQUE constraint failed: schema_version.version''))
      else Inr (rows @ [r]))"

fun migrate_each ::
    "(string \<Rightarrow> 's \<Rightarrow> string + 's) \<Rightarrow> (nat \<Rightarrow> int) \<Rightarrow> (nat \<times> migration) list \<Rightarrow> 's \<times> version_row list \<Rightarrow>
     unit result \<times> 's \<times> version_row list" where
  "migrate_each exec now [] db = (Inr (), db)"
| "migrate_each exec now ((v, m) # ms) (t, rows) =
     (case exec (mg_sql m) t of
        Inl e \<Rightarrow> (Inl (migration_failed v m e), t, rows)
      | Inr t' \<Rightarrow>
          (case insert_version rows \<lparr>vr_version = v, vr_name = mg_name m, vr_applied_at = now v\<rparr> of
             Inl e \<Rightarrow> (Inl e, t, rows)
           | Inr rows' \<Rightarrow> migrate_each exec now ms (t', rows')))"

definition apply_migrations ::
    "(string \<Rightarrow> 's \<Rightarrow> string + 's) \<Rightarrow> (nat \<Rightarrow> int) \<Rightarrow> migration list \<Rightarrow> 's schema \<Rightarrow> nat result \<times> 's schema" where
  "apply_migrations exec now ms db =
     (let rows = (case sc_versions db of None \<Rightarrow> [] | Some r \<Rightarrow> r);
          db0 = db\<lparr>sc_versions := Some rows\<rparr>; current = current_version rows; latest = length ms
      in if u32_max < latest then (Inl (Schema ''too many migrations''), db0)
         else if latest < current then
           (Inl (Schema (''database is at schema version '' @ dec current @ '', but this Serbero only knows up to '' @
              dec latest @ ''; upgrade Serbero or use another database'')), db0)
         else case migrate_each exec now (drop current (enumerate 1 ms)) (sc_tables db, rows) of
             (Inl e, t, rows') \<Rightarrow> (Inl e, db0\<lparr>sc_tables := t, sc_versions := Some rows'\<rparr>)
           | (Inr _, t, rows') \<Rightarrow> (Inr latest, db0\<lparr>sc_tables := t, sc_versions := Some rows'\<rparr>))"

section \<open>Databases at a version\<close>

text \<open>The tables after the first migrations of a list, if none of them fails.\<close>

fun exec_all :: "(string \<Rightarrow> 's \<Rightarrow> string + 's) \<Rightarrow> migration list \<Rightarrow> 's \<Rightarrow> 's option" where
  "exec_all exec [] t = Some t"
| "exec_all exec (m # ms) t = (case exec (mg_sql m) t of Inl _ \<Rightarrow> None | Inr t' \<Rightarrow> exec_all exec ms t')"

definition at_version ::
    "(string \<Rightarrow> 's \<Rightarrow> string + 's) \<Rightarrow> migration list \<Rightarrow> 's \<Rightarrow> nat \<Rightarrow> 's \<times> version_row list \<Rightarrow> bool" where
  "at_version exec ms t0 k db \<longleftrightarrow> k \<le> length ms \<and> exec_all exec (take k ms) t0 = Some (fst db) \<and>
     map (\<lambda>r. (vr_version r, vr_name r)) (snd db) = enumerate 1 (map mg_name (take k ms))"

lemma exec_all_snoc:
  "exec_all exec (ms @ [m]) t =
     (case exec_all exec ms t of None \<Rightarrow> None | Some t' \<Rightarrow> (case exec (mg_sql m) t' of Inl _ \<Rightarrow> None | Inr u \<Rightarrow> Some u))"
  by (induction ms arbitrary: t) (auto split: sum.splits)

lemma at_version_versions:
  assumes "at_version exec ms t0 k (t, rows)"
  shows "vr_version ` set rows = {1..k} \<and> current_version rows = k"
proof -
  have k: "k \<le> length ms" and rows: "map (\<lambda>r. (vr_version r, vr_name r)) rows = enumerate 1 (map mg_name (take k ms))"
    using assms by (simp_all add: at_version_def)
  from rows have "map fst (map (\<lambda>r. (vr_version r, vr_name r)) rows) = map fst (enumerate 1 (map mg_name (take k ms)))"
    by simp
  then have v: "map vr_version rows = [1..<Suc k]" using k by (simp add: comp_def)
  then have s: "vr_version ` set rows = {1..k}"
    by (metis atLeastLessThanSuc_atLeastAtMost set_map set_upt)
  have "Max (insert 0 {1..k}) = k"
    by (rule Max_eqI) auto
  with s show ?thesis by (simp only: current_version_def set_map)
qed

lemma drop_enumerate:
  "k < length ms \<Longrightarrow> drop k (enumerate (Suc 0) ms) = (Suc k, ms ! k) # drop (Suc k) (enumerate (Suc 0) ms)"
  by (simp add: Cons_nth_drop_Suc [symmetric] nth_enumerate_eq)

lemma at_version_step:
  assumes "at_version exec ms t0 k (t, rows)" and "k < length ms" and "exec (mg_sql (ms ! k)) t = Inr t'"
  shows "at_version exec ms t0 (Suc k)
    (t', rows @ [\<lparr>vr_version = Suc k, vr_name = mg_name (ms ! k), vr_applied_at = at_time\<rparr>])"
proof -
  have k: "length (take k ms) = k" using assms(2) by simp
  show ?thesis
    using assms by (simp add: at_version_def take_Suc_conv_app_nth exec_all_snoc enumerate_append_eq k del: length_take)
qed

text \<open>Where a run of migrations stops: at the end, or at the version before the one that failed.\<close>

definition stopped_at ::
    "(string \<Rightarrow> 's \<Rightarrow> string + 's) \<Rightarrow> migration list \<Rightarrow> 's \<Rightarrow> nat \<Rightarrow> unit result \<Rightarrow> 's \<times> version_row list \<Rightarrow> bool" where
  "stopped_at exec ms t0 j r db \<longleftrightarrow> at_version exec ms t0 j db \<and>
     (case r of Inr _ \<Rightarrow> j = length ms
      | Inl er \<Rightarrow> j < length ms \<and>
          (case exec (mg_sql (ms ! j)) (fst db) of Inl e \<Rightarrow> er = migration_failed (Suc j) (ms ! j) e | Inr _ \<Rightarrow> False))"

lemma migrate_each_stops:
  "at_version exec ms t0 k (t, rows) \<Longrightarrow>
     migrate_each exec now (drop k (enumerate 1 ms)) (t, rows) = (r, db) \<Longrightarrow>
     \<exists>j \<ge> k. stopped_at exec ms t0 j r db"
proof (induction "length ms - k" arbitrary: k t rows)
  case 0
  then have "k = length ms" by (simp add: at_version_def)
  with "0.prems" show ?case by (auto simp: stopped_at_def)
next
  case (Suc n)
  then have k: "k < length ms" by simp
  show ?case
  proof (cases "exec (mg_sql (ms ! k)) t")
    case (Inl e)
    with Suc.prems k show ?thesis by (auto simp: drop_enumerate stopped_at_def intro!: exI [of _ k])
  next
    case (Inr t')
    let ?row = "\<lparr>vr_version = Suc k, vr_name = mg_name (ms ! k), vr_applied_at = now (Suc k)\<rparr>"
    have "insert_version rows ?row = Inr (rows @ [?row])"
      using at_version_versions [OF Suc.prems(1)] by (simp add: insert_version_def)
    then have run: "migrate_each exec now (drop (Suc k) (enumerate 1 ms)) (t', rows @ [?row]) = (r, db)"
      using Suc.prems(2) Inr k by (simp add: drop_enumerate)
    have "n = length ms - Suc k" using Suc.hyps(2) by simp
    from Suc.hyps(1) [OF this at_version_step [OF Suc.prems(1) k Inr] run] show ?thesis
      by (meson Suc_leD)
  qed
qed

text \<open>
  Property C31. Migrating is resumable: from a database that is at version \<open>k\<close> it ends with one that is at a version
  \<open>j\<close> not below \<open>k\<close>, where exactly the first \<open>j\<close> migrations have run, once each and in order, and each
  is recorded. Without an error \<open>j\<close> is the latest version; with one, migration \<open>j + 1\<close> is the one that
  failed and nothing of it is left.
\<close>

theorem migrating_is_resumable:
  assumes "at_version exec ms t0 k (sc_tables db, case sc_versions db of None \<Rightarrow> [] | Some r \<Rightarrow> r)"
    and "length ms \<le> u32_max"
    and "apply_migrations exec now ms db = (r, db')"
  shows "\<exists>j rows. k \<le> j \<and> sc_versions db' = Some rows \<and>
    stopped_at exec ms t0 j (case r of Inl e \<Rightarrow> Inl e | Inr _ \<Rightarrow> Inr ()) (sc_tables db', rows) \<and>
    (r = Inr (length ms) \<or> (\<exists>e. r = Inl e))"
proof -
  let ?rows = "case sc_versions db of None \<Rightarrow> [] | Some r \<Rightarrow> r"
  have cur: "current_version ?rows = k" and k: "k \<le> length ms"
    using at_version_versions [OF assms(1)] assms(1) by (simp_all add: at_version_def)
  obtain q t rows where run: "migrate_each exec now (drop k (enumerate 1 ms)) (sc_tables db, ?rows) = (q, t, rows)"
    by (metis prod_cases3)
  from migrate_each_stops [OF assms(1) run] obtain j where j: "k \<le> j" "stopped_at exec ms t0 j q (t, rows)" by blast
  have "r = (case q of Inl e \<Rightarrow> Inl e | Inr _ \<Rightarrow> Inr (length ms))" "sc_tables db' = t" "sc_versions db' = Some rows"
    using assms(2,3) run k by (auto simp: apply_migrations_def Let_def cur split: sum.splits)
  with j show ?thesis by (cases q) auto
qed

text \<open>
  Opening the database again after a success changes nothing, whatever the migrations would do.
\<close>

theorem migrating_twice_changes_nothing:
  assumes "at_version exec ms t0 (length ms) (sc_tables db, rows)" and "sc_versions db = Some rows"
    and "length ms \<le> u32_max"
  shows "apply_migrations exec' later ms db = (Inr (length ms), db)"
  using assms at_version_versions [OF assms(1)] by (simp add: apply_migrations_def Let_def)

text \<open>
  A database of a newer Serbero is refused, and its tables and versions are left as they are.
\<close>

theorem newer_database_refused:
  assumes "sc_versions db = Some rows" and "length ms < current_version rows"
  shows "\<exists>e. apply_migrations exec now ms db = (Inl e, db)"
  using assms by (auto simp: apply_migrations_def Let_def)

section \<open>An example\<close>

definition example_migrations :: "migration list" where
  "example_migrations = [\<lparr>mg_name = ''create_a'', mg_sql = ''a''\<rparr>, \<lparr>mg_name = ''broken'', mg_sql = ''?''\<rparr>]"

definition example_exec :: "string \<Rightarrow> string list \<Rightarrow> string + string list" where
  "example_exec sql t = (if sql = ''?'' then Inl ''no such table: missing'' else Inr (t @ [sql]))"

definition fresh_schema :: "string list schema" where
  "fresh_schema = \<lparr>sc_tables = [], sc_versions = None\<rparr>"

definition first_row :: version_row where
  "first_row = \<lparr>vr_version = 1, vr_name = ''create_a'', vr_applied_at = 7\<rparr>"

lemma example_run:
  "apply_migrations example_exec (\<lambda>_. 7) example_migrations fresh_schema =
     (Inl (migration_failed 2 (example_migrations ! 1) ''no such table: missing''),
      \<lparr>sc_tables = [''a''], sc_versions = Some [first_row]\<rparr>)"
  by (simp add: apply_migrations_def example_exec_def example_migrations_def fresh_schema_def first_row_def
      current_version_def u32_max_def insert_version_def Let_def numeral_2_eq_2)

lemma migrating_is_resumable_witness:
  "\<exists>j. stopped_at example_exec example_migrations [] j
     (Inl (migration_failed 2 (example_migrations ! 1) ''no such table: missing'')) ([''a''], [first_row])"
proof -
  have "at_version example_exec example_migrations [] 0
      (sc_tables fresh_schema, case sc_versions fresh_schema of None \<Rightarrow> [] | Some r \<Rightarrow> r)"
    by (simp add: at_version_def fresh_schema_def)
  from migrating_is_resumable [OF this _ example_run] show ?thesis
    by (auto simp: example_migrations_def u32_max_def)
qed

lemma migrating_twice_changes_nothing_witness:
  "apply_migrations example_exec (\<lambda>_. 8) [hd example_migrations] \<lparr>sc_tables = [''a''], sc_versions = Some [first_row]\<rparr> =
     (Inr 1, \<lparr>sc_tables = [''a''], sc_versions = Some [first_row]\<rparr>)"
proof -
  let ?db = "\<lparr>sc_tables = [''a''], sc_versions = Some [first_row]\<rparr>"
  have "at_version example_exec [hd example_migrations] [] (length [hd example_migrations]) (sc_tables ?db, [first_row])"
    by (simp add: at_version_def example_migrations_def example_exec_def first_row_def)
  from migrating_twice_changes_nothing [OF this] show ?thesis by (simp add: u32_max_def)
qed

lemma newer_database_refused_witness:
  "\<exists>e. apply_migrations example_exec (\<lambda>_. 8) [] \<lparr>sc_tables = [''a''], sc_versions = Some [first_row]\<rparr> =
     (Inl e, \<lparr>sc_tables = [''a''], sc_versions = Some [first_row]\<rparr>)"
  by (rule newer_database_refused [OF schema.select_convs(2)]) (simp add: current_version_def first_row_def)

end
