(* ===== verification/Rows.thy ===== *)
theory Rows
  imports Mediator
begin

text \<open>
  How rows are read back from SQLite: \<open>from_row\<close> of \<open>src/src/store/disputes.rs\<close> and \<open>sessions.rs\<close>, and
  \<open>from_values\<close> of \<open>evaluations.rs\<close>. The other theories keep tables of typed rows; here a stored row
  has its enum columns as the text SQLite holds, statements filter on that text, and reading parses
  it. The theorems justify the typed tables: on rows the program wrote, both agree.
\<close>

section \<open>Stored rows\<close>

record dispute_columns =
  dc_dispute_id :: string
  dc_initiator :: string
  dc_status :: string
  dc_status_at :: int
  dc_lifecycle :: string
  dc_assigned_solver :: "string option"
  dc_first_seen_at :: int
  dc_last_notified_at :: "int option"
  dc_updated_at :: int

definition dispute_from_row :: "dispute_columns \<Rightarrow> dispute result" where
  "dispute_from_row c =
     (case initiator_from_str (dc_initiator c) of
        Inl e \<Rightarrow> Inl e
      | Inr i \<Rightarrow> (case lifecycle_from_str (dc_lifecycle c) of
          Inl e \<Rightarrow> Inl e
        | Inr l \<Rightarrow> Inr \<lparr>d_dispute_id = dc_dispute_id c, d_initiator = i, d_status = dc_status c,
            d_status_at = dc_status_at c, d_lifecycle = l, d_assigned_solver = dc_assigned_solver c,
            d_first_seen_at = dc_first_seen_at c, d_last_notified_at = dc_last_notified_at c,
            d_updated_at = dc_updated_at c\<rparr>))"

definition stored_dispute :: "dispute \<Rightarrow> dispute_columns" where
  "stored_dispute d = \<lparr>dc_dispute_id = d_dispute_id d, dc_initiator = initiator_str (d_initiator d), dc_status = d_status d,
     dc_status_at = d_status_at d, dc_lifecycle = lifecycle_str (d_lifecycle d), dc_assigned_solver = d_assigned_solver d,
     dc_first_seen_at = d_first_seen_at d, dc_last_notified_at = d_last_notified_at d, dc_updated_at = d_updated_at d\<rparr>"

text \<open>A session's columns in the order of \<open>COLUMNS\<close>; only \<open>state\<close> is parsed.\<close>

record session_columns =
  sc_session_id :: string
  sc_dispute_id :: string
  sc_state :: string
  sc_buyer_trade_pubkey :: string
  sc_seller_trade_pubkey :: string
  sc_fiat_amount :: "string option"
  sc_fiat_code :: "string option"
  sc_payment_method :: "string option"
  sc_order_published_at :: "int option"
  sc_buyer_lang :: "string option"
  sc_seller_lang :: "string option"
  sc_buyer_chat_cursor :: "int option"
  sc_seller_chat_cursor :: "int option"
  sc_rounds :: nat
  sc_handoff_reason :: "string option"
  sc_opened_at :: int
  sc_updated_at :: int
  sc_buyer_rounds :: nat
  sc_seller_rounds :: nat

definition session_from_row :: "session_columns \<Rightarrow> session result" where
  "session_from_row c =
     (case session_state_from_str (sc_state c) of
        Inl e \<Rightarrow> Inl e
      | Inr st \<Rightarrow> Inr \<lparr>s_session_id = sc_session_id c, s_dispute_id = sc_dispute_id c, s_state = st,
          s_buyer_trade_pubkey = sc_buyer_trade_pubkey c, s_seller_trade_pubkey = sc_seller_trade_pubkey c,
          s_fiat_amount = sc_fiat_amount c, s_fiat_code = sc_fiat_code c, s_payment_method = sc_payment_method c,
          s_order_published_at = sc_order_published_at c, s_buyer_lang = sc_buyer_lang c, s_seller_lang = sc_seller_lang c,
          s_buyer_chat_cursor = sc_buyer_chat_cursor c, s_seller_chat_cursor = sc_seller_chat_cursor c,
          s_rounds = sc_rounds c, s_buyer_rounds = sc_buyer_rounds c, s_seller_rounds = sc_seller_rounds c,
          s_handoff_reason = sc_handoff_reason c, s_opened_at = sc_opened_at c, s_updated_at = sc_updated_at c\<rparr>)"

definition stored_session :: "session \<Rightarrow> session_columns" where
  "stored_session s = \<lparr>sc_session_id = s_session_id s, sc_dispute_id = s_dispute_id s, sc_state = session_state_str (s_state s),
     sc_buyer_trade_pubkey = s_buyer_trade_pubkey s, sc_seller_trade_pubkey = s_seller_trade_pubkey s,
     sc_fiat_amount = s_fiat_amount s, sc_fiat_code = s_fiat_code s, sc_payment_method = s_payment_method s,
     sc_order_published_at = s_order_published_at s, sc_buyer_lang = s_buyer_lang s, sc_seller_lang = s_seller_lang s,
     sc_buyer_chat_cursor = s_buyer_chat_cursor s, sc_seller_chat_cursor = s_seller_chat_cursor s,
     sc_rounds = s_rounds s, sc_handoff_reason = s_handoff_reason s, sc_opened_at = s_opened_at s,
     sc_updated_at = s_updated_at s, sc_buyer_rounds = s_buyer_rounds s, sc_seller_rounds = s_seller_rounds s\<rparr>"

text \<open>
  An evaluation keeps its answers and its action as JSON text: \<open>read_answers\<close> and \<open>read_action\<close> are
  what \<open>serde_json\<close> reads, an error text on the left.
\<close>

record evaluation_columns =
  ec_id :: int
  ec_session_id :: string
  ec_question_set :: string
  ec_judge_id :: string
  ec_last_message_id :: int
  ec_answers :: string
  ec_action :: string
  ec_input_tokens :: "nat option"
  ec_latency_ms :: "nat option"
  ec_created_at :: int

definition evaluation_from_values ::
    "(string \<Rightarrow> string + answers) \<Rightarrow> (string \<Rightarrow> string + action) \<Rightarrow> evaluation_columns \<Rightarrow> evaluation result" where
  "evaluation_from_values read_answers read_action c =
     (case read_answers (ec_answers c) of
        Inl e \<Rightarrow> Inl (Schema (''evaluation '' @ dec_int (ec_id c) @ '' has invalid answers: '' @ e))
      | Inr as \<Rightarrow> (case read_action (ec_action c) of
          Inl e \<Rightarrow> Inl (Schema (''evaluation '' @ dec_int (ec_id c) @ '' has invalid action: '' @ e))
        | Inr act \<Rightarrow> Inr \<lparr>el_id = ec_id c, el_session_id = ec_session_id c, el_question_set = ec_question_set c,
            el_judge_id = ec_judge_id c, el_last_message_id = ec_last_message_id c, el_answers = as, el_action = act,
            el_input_tokens = ec_input_tokens c, el_latency_ms = ec_latency_ms c, el_created_at = ec_created_at c\<rparr>))"

definition stored_evaluation :: "(answers \<Rightarrow> string) \<Rightarrow> (action \<Rightarrow> string) \<Rightarrow> evaluation \<Rightarrow> evaluation_columns" where
  "stored_evaluation answers_text action_text e = \<lparr>ec_id = el_id e, ec_session_id = el_session_id e,
     ec_question_set = el_question_set e, ec_judge_id = el_judge_id e, ec_last_message_id = el_last_message_id e,
     ec_answers = answers_text (el_answers e), ec_action = action_text (el_action e), ec_input_tokens = el_input_tokens e,
     ec_latency_ms = el_latency_ms e, ec_created_at = el_created_at e\<rparr>"

section \<open>Statements on stored rows\<close>

text \<open>Collecting the rows of a query stops at the first one that cannot be read.\<close>

fun collect_rows :: "('c \<Rightarrow> 'r result) \<Rightarrow> 'c list \<Rightarrow> 'r list result" where
  "collect_rows from_row [] = Inr []"
| "collect_rows from_row (c # cs) =
     (case from_row c of
        Inl e \<Rightarrow> Inl e
      | Inr r \<Rightarrow> (case collect_rows from_row cs of Inl e \<Rightarrow> Inl e | Inr rs \<Rightarrow> Inr (r # rs)))"

definition stored_get_dispute :: "dispute_columns list \<Rightarrow> string \<Rightarrow> dispute option result" where
  "stored_get_dispute t i =
     (case find (\<lambda>c. dc_dispute_id c = i) t of
        None \<Rightarrow> Inr None
      | Some c \<Rightarrow> (case dispute_from_row c of Inl e \<Rightarrow> Inl e | Inr d \<Rightarrow> Inr (Some d)))"

definition stored_get_session :: "session_columns list \<Rightarrow> string \<Rightarrow> session option result" where
  "stored_get_session t i =
     (case find (\<lambda>c. sc_session_id c = i) t of
        None \<Rightarrow> Inr None
      | Some c \<Rightarrow> (case session_from_row c of Inl e \<Rightarrow> Inl e | Inr s \<Rightarrow> Inr (Some s)))"

definition stored_list_live :: "session_columns list \<Rightarrow> session list result" where
  "stored_list_live t = collect_rows session_from_row
     (sort_key (\<lambda>c. (sc_opened_at c, sc_session_id c))
       (filter (\<lambda>c. sc_state c \<notin> {''closed'', ''superseded''}) t))"

definition stored_evaluations_for_session ::
    "(string \<Rightarrow> string + answers) \<Rightarrow> (string \<Rightarrow> string + action) \<Rightarrow> evaluation_columns list \<Rightarrow> string \<Rightarrow> evaluation list result" where
  "stored_evaluations_for_session read_answers read_action t sid =
     collect_rows (evaluation_from_values read_answers read_action) (filter (\<lambda>c. ec_session_id c = sid) t)"

section \<open>Reading back what was written\<close>

lemma collect_each: "\<forall>r \<in> set t. from_row (to_row r) = Inr r \<Longrightarrow> collect_rows from_row (map to_row t) = Inr t"
  by (induction t) simp_all

text \<open>A reader of stored rows that inverts the writer.\<close>

locale row_codec =
  fixes encode :: "'r \<Rightarrow> 'c" and decode :: "'c \<Rightarrow> 'r result"
  assumes decode_encode: "decode (encode r) = Inr r"
begin

lemma collect_encoded: "collect_rows decode (map encode t) = Inr t"
  by (rule collect_each) (simp add: decode_encode)

lemma find_encoded:
  assumes "\<And>r. Q (encode r) = P r"
  shows "find Q (map encode t) = map_option encode (find P t)"
  by (induction t) (simp_all add: assms)

end

lemma read_lifecycle: "lifecycle_from_str (lifecycle_str l) = Inr l"
  by (cases l) (simp_all add: lifecycle_from_str_def)

lemma read_initiator: "initiator_from_str (initiator_str i) = Inr i"
  by (cases i) (simp_all add: initiator_from_str_def)

lemma read_state: "session_state_from_str (session_state_str st) = Inr st"
  by (cases st) (simp_all add: session_state_from_str_def)

interpretation dispute_rows: row_codec stored_dispute dispute_from_row
  by unfold_locales (simp add: dispute_from_row_def stored_dispute_def read_lifecycle read_initiator)

interpretation session_rows: row_codec stored_session session_from_row
  by unfold_locales (simp add: session_from_row_def stored_session_def read_state)

lemma live_text: "session_state_str st \<notin> {''closed'', ''superseded''} \<longleftrightarrow> \<not> is_terminal st"
  by (cases st) simp_all

lemma live_where: "sc_state (stored_session s) \<notin> {''closed'', ''superseded''} \<longleftrightarrow> live s"
  using live_text by (simp add: stored_session_def live_def)

lemma sort_stored: "sort_key (\<lambda>c. (sc_opened_at c, sc_session_id c)) (map stored_session t) =
    map stored_session (sort_key (\<lambda>s. (s_opened_at s, s_session_id s)) t)"
proof -
  have "insort_key (\<lambda>c. (sc_opened_at c, sc_session_id c)) (stored_session x) (map stored_session xs) =
      map stored_session (insort_key (\<lambda>s. (s_opened_at s, s_session_id s)) x xs)" for x xs
    by (induction xs) (simp_all add: stored_session_def)
  then show ?thesis by (induction t) simp_all
qed


lemma collect_unreadable:
  "c \<in> set cs \<Longrightarrow> from_row c = Inl e \<Longrightarrow> \<exists>e'. collect_rows from_row cs = Inl e'"
  by (induction cs) (auto split: sum.split)

text \<open>
  A state this version does not know stops every listing of live sessions: such a row passes the
  filter, which only names the two final states, and then cannot be read, so no live session is
  listed at all.
\<close>

theorem unknown_state_hides_live_sessions:
  assumes "c \<in> set t" and "\<forall>st. sc_state c \<noteq> session_state_str st"
  shows "\<exists>e. stored_list_live t = Inl e"
proof -
  have unknown: "session_from_row c = Inl (Schema (''unknown session state '' @ debug_str (sc_state c)))"
    using assms(2) by (auto simp: session_from_row_def session_state_from_str_def dest: spec [of _ Opening]
        spec [of _ Active] spec [of _ Guiding] spec [of _ HandedOff] spec [of _ Closed] spec [of _ Superseded])
  have "sc_state c \<notin> {''closed'', ''superseded''}"
    using assms(2) [THEN spec, of Closed] assms(2) [THEN spec, of Superseded] by simp
  with assms(1) have "c \<in> set (sort_key (\<lambda>c. (sc_opened_at c, sc_session_id c))
       (filter (\<lambda>c. sc_state c \<notin> {''closed'', ''superseded''}) t))" by simp
  from collect_unreadable [of c _ session_from_row, OF this unknown] show ?thesis by (simp add: stored_list_live_def)
qed

section \<open>Examples\<close>

definition example_rows_session :: session where
  "example_rows_session = opening_row (example_session ''s1'' ''d1'')"

definition example_rows_evaluation :: evaluation where
  "example_rows_evaluation = \<lparr>el_id = 1, el_session_id = ''s1'', el_question_set = ''qs-1'', el_judge_id = ''j'',
     el_last_message_id = 2, el_answers = [], el_action = Wait, el_input_tokens = None, el_latency_ms = Some 5,
     el_created_at = 50\<rparr>"


lemma unknown_state_hides_live_sessions_witness:
  "\<exists>e. stored_list_live [stored_session example_rows_session, (stored_session example_rows_session)\<lparr>sc_state := ''paused''\<rparr>] = Inl e"
proof -
  have "\<forall>st. sc_state ((stored_session example_rows_session)\<lparr>sc_state := ''paused''\<rparr>) \<noteq> session_state_str st"
  proof
    fix st show "sc_state ((stored_session example_rows_session)\<lparr>sc_state := ''paused''\<rparr>) \<noteq> session_state_str st"
      by (cases st) simp_all
  qed
  from unknown_state_hides_live_sessions [OF _ this] show ?thesis by simp
qed

end
