(* ===== verification/System.thy ===== *)
theory System
  imports Daemon Providers
begin

text \<open>
  The components together: the judge that answers a turn is the provider built at start-up from the
  validated configuration, and the hook the notifier calls is what offers a dispute to mediation. The
  properties here rest on the lemmas of both sides.
\<close>

section \<open>Mediation with the live judge\<close>

text \<open>\<open>show_error\<close> is the text of a judge error; \<open>h n\<close> the HTTP client at the \<open>n\<close>-th interaction.\<close>

definition live_judge_info ::
    "(judge_error \<Rightarrow> string) \<Rightarrow> http \<Rightarrow> typesafe_judge \<Rightarrow> judge_info" where
  "live_judge_info show_error h j = \<lparr>ji_id = ts_id j, ji_capabilities = typesafe_capabilities,
     ji_health_error = (case fst (typesafe_health h j) of Inl e \<Rightarrow> Some (show_error e) | Inr _ \<Rightarrow> None)\<rparr>"

definition configured_judge ::
    "(judge_error \<Rightarrow> string) \<Rightarrow> string option \<Rightarrow> judge_config \<Rightarrow> string option \<Rightarrow> string + typesafe_judge" where
  "configured_judge show_error client_error c key =
     judge_from_config (\<lambda>c k. case typesafe_new client_error c k of Inl e \<Rightarrow> Inl (show_error e) | Inr j \<Rightarrow> Inr j) c key"

definition start_mediation_judge ::
    "outside \<Rightarrow> node_side \<Rightarrow> (judge_error \<Rightarrow> string) \<Rightarrow> string option \<Rightarrow> (nat \<Rightarrow> http) \<Rightarrow> config \<Rightarrow> string option \<Rightarrow>
     catalogs \<Rightarrow> int \<Rightarrow> int \<Rightarrow> mediator \<Rightarrow> desk \<Rightarrow> world \<Rightarrow> mediator \<times> desk \<times> world" where
  "start_mediation_judge out ns show_error client_error h c key cats started now me dk w =
     start_judge out ns
       (case configured_judge show_error client_error (judge c) key of
          Inl e \<Rightarrow> Inl e
        | Inr j \<Rightarrow> Inr (live_judge_info show_error (h (w_step w)) j))
       (active_thresholds (judge c)) (judge_languages cats (languages (mediation c))) started now me dk w"

definition asks_live :: "(nat \<Rightarrow> http) \<Rightarrow> typesafe_judge \<Rightarrow> outside \<Rightarrow> outside" where
  "asks_live h j out = out\<lparr>os_judge := \<lambda>n state qs. fst (typesafe_evaluate (h n) j state qs)\<rparr>"

lemma configured_judge_Inr:
  "configured_judge show_error client_error c key = Inr j \<longleftrightarrow>
     (\<exists>k. provider c = ''typesafe'' \<and> key = Some k \<and> typesafe_new client_error c k = Inr j)"
  by (auto simp: configured_judge_def judge_from_config_def split: option.splits sum.splits)

lemma started_thresholds:
  assumes "start_mediation_judge out ns show_error client_error h c key cats started now me dk w = (me', dk', w')"
    and "me_judge me = None" and "me_judge me' = Some rj"
  shows "active_thresholds (judge c) = Some (rj_thresholds rj)"
  using judge_ready_only_when_checked [OF assms(1) [unfolded start_mediation_judge_def] assms(2,3)] by auto


section \<open>From the relay to the mediator\<close>

lemma notify_solvers_sessions: "db_sessions (snd (notify_solvers send sos d notification txt now s)) = db_sessions s"
  using notify_loop_sessions [of send sos d notification "txt" now 0 s]
  by (auto simp: notify_solvers_def split: prod.splits option.splits)

lemma announced_row:
  assumes "notifier_handle nv s e now = (r, s', hooks)" and "On_New_Dispute d \<in> set hooks"
  shows "(\<exists>x. get_dispute (db_disputes s') d = Some x \<and> d_lifecycle x = Lc_Notified) \<and> db_sessions s' = db_sessions s"
proof -
  obtain de s1 where de: "revision_of nv e = Some (Inr de)" "de_dispute_id de = d"
    and rec: "record_event (nv_st_str nv) s de now = Inr (Ch_New, s1)"
    and told: "notify_new (nv_send nv) (nv_solvers nv) de now s1 = (Inr True, s')"
    using assms by (auto simp: notifier_handle_def handle_event_def split: option.splits sum.splits prod.splits change.splits if_splits)
  have new: "get_dispute (db_disputes s) d = None"
    using rec transition_not_new de(2) by (auto simp: record_event_def Let_def log_event_Inr split: option.splits prod.splits if_splits status_update.splits)
  then have absent: "\<forall>x \<in> set (db_disputes s). d_dispute_id x \<noteq> d" by (simp add: get_dispute_def find_None_iff)
  have s1: "db_disputes s1 = db_disputes s @ [new_dispute_row \<lparr>nd_dispute_id = d, nd_initiator = de_initiator de,
      nd_status = nv_st_str nv (de_status de), nd_status_at = de_revision_at de, nd_now = now\<rparr>]"
    and ses1: "db_sessions s1 = db_sessions s"
    using rec new absent by (auto simp: record_event_def de(2) Let_def log_event_Inr insert_dispute_def split: if_splits)
  obtain x where x: "get_dispute (db_disputes s1) d = Some x" "waiting x" "d_dispute_id x = d"
    using new unfolding s1 by (auto simp: get_dispute_def find_append new_dispute_row_def waiting_def)
  obtain n s2 where n: "notify_solvers (nv_send nv) (nv_solvers nv) d ''new_dispute'' (text_new_dispute d (de_initiator de)) now s1 = (Inr n, s2)"
    and s': "s' = mark s2 d now"
    using told de(2) by (auto simp: notify_new_def split: prod.splits sum.splits if_splits)
  have s2: "db_disputes s2 = db_disputes s1" "db_sessions s2 = db_sessions s1"
    using notify_solvers_disputes [of "nv_send nv" "nv_solvers nv" d "''new_dispute''" "text_new_dispute d (de_initiator de)" now s1]
      notify_solvers_sessions [of "nv_send nv" "nv_solvers nv" d "''new_dispute''" "text_new_dispute d (de_initiator de)" now s1] n
    by simp_all
  show ?thesis
    using x ses1 s2 unfolding s' mark_def by (simp add: get_dispute_notified notified_row_def)
qed


lemma considered_without_judge:
  "me_judge me = None \<Longrightarrow> snd (consider_dispute out ns me d now dk w) = (dk, w)"
  by (auto simp: consider_dispute_def claim_take_def eligibility_check_def Let_def split: option.splits if_splits)

text \<open>
  Property C26. Without a usable judge nobody is contacted. If at start-up the provider is not the live one, its key is
  missing or refused, no thresholds are configured for the judge, it fails its health check or
  the node denies protocol v2, then no judge is set, and offering a dispute changes nothing: no take, no
  session, no message.
\<close>

theorem no_judge_no_mediation:
  assumes "start_mediation_judge out ns show_error client_error h c key cats started now me dk w = (me', dk', w')"
    and "me_judge me = None"
    and "provider (judge c) \<noteq> ''typesafe'' \<or> key = None \<or> client_error \<noteq> None \<or> active_thresholds (judge c) = None \<or>
      (\<exists>j e. configured_judge show_error client_error (judge c) key = Inr j \<and> fst (typesafe_health (h (w_step w)) j) = Inl e) \<or>
      check_node ns (w_step w) = Unsupported"
  shows "me_judge me' = None \<and> snd (consider_dispute out' ns' me' d now' dk2 w2) = (dk2, w2)"
proof -
  have "me_judge me' = None"
  proof (rule ccontr)
    assume "me_judge me' \<noteq> None"
    then obtain rj where rj: "me_judge me' = Some rj" by blast
    note ready = judge_ready_only_when_checked [OF assms(1) [unfolded start_mediation_judge_def] assms(2) rj]
    then obtain j where j: "configured_judge show_error client_error (judge c) key = Inr j"
      "ji_health_error (live_judge_info show_error (h (w_step w)) j) = None"
      by (auto split: sum.splits)
    then have "\<exists>u. fst (typesafe_health (h (w_step w)) j) = Inr u" by (auto simp: live_judge_info_def split: sum.splits)
    with assms(3) ready j(1) show False
      by (auto simp: configured_judge_Inr typesafe_new_def)
  qed
  then show ?thesis by (simp add: considered_without_judge)
qed

section \<open>A server that answers\<close>

text \<open>Every turn of a session in English gets these answers; a brief does not fit them and is refused.\<close>

definition live_wire :: "(string \<times> wire_answer) list" where
  "live_wire = [(''buyer_details'', WireNoulAnswer (1/2)),
     (''buyer_language'', WireChoiceAnswer [(''en'', 1), (''other'', 0), (''unknown'', 0)]),
     (''buyer_message_kind'', WireChoiceAnswer [(''answers'', 1), (''asks_language'', 0), (''asks_next_step'', 0),
        (''greeting'', 0), (''not_understood'', 0), (''other'', 0)]),
     (''buyer_payment'', WireChoiceAnswer [(''not_stated'', 1), (''says_not_sent'', 0), (''says_sent'', 0)]),
     (''buyer_wants_human'', WireNoulAnswer 0),
     (''claims_conflict'', WireNoulAnswer 0),
     (''dispute_topic'', WireChoiceAnswer [(''counterpart_unresponsive'', 0), (''not_yet_clear'', 0), (''other'', 0),
        (''payment_not_confirmed'', 1), (''technical_problem'', 0), (''wrong_account_or_method'', 0), (''wrong_amount'', 0)]),
     (''fraud_signal'', WireNoulAnswer 0),
     (''seller_checked'', WireNoulAnswer (1/2)),
     (''seller_language'', WireChoiceAnswer [(''en'', 1), (''other'', 0), (''unknown'', 0)]),
     (''seller_message_kind'', WireChoiceAnswer [(''answers'', 1), (''asks_language'', 0), (''asks_next_step'', 0),
        (''greeting'', 0), (''not_understood'', 0), (''other'', 0)]),
     (''seller_receipt'', WireChoiceAnswer [(''not_stated'', 1/20), (''says_not_received'', 0), (''says_received'', 19/20),
        (''says_received_with_problem'', 0)]),
     (''seller_wants_human'', WireNoulAnswer 0)]"

definition live_server :: "nat \<Rightarrow> http" where
  "live_server n = \<lparr>
     ht_post = (\<lambda>_ url key body. Inr \<lparr>rs_status = 200, rs_headers = Map.empty, rs_text = Inr ''answers''\<rparr>),
     ht_get = (\<lambda>_ url key. Inr \<lparr>rs_status = 200, rs_headers = Map.empty, rs_text = Inr ''models''\<rparr>),
     ht_read = (\<lambda>t. Inr \<lparr>wp_model = ''jev-1.13.0'', wp_answers = live_wire, wp_usage = Some 900\<rparr>),
     ht_status_text = dec\<rparr>"

definition live_answers :: answers where
  "live_answers = map (\<lambda>(i, a). (i, projr (into_answer a))) live_wire"

definition live_judged :: judged where
  "live_judged = \<lparr>jd_answers = live_answers, jd_input_tokens = Some 900\<rparr>"

definition naming_digest :: "json \<Rightarrow> string" where
  "naming_digest j = (case j of JObj ((k, _) # _) \<Rightarrow> k | _ \<Rightarrow> ''v'')"

definition live_base :: outside where
  "live_base = quiet_outside\<lparr>os_digest := naming_digest\<rparr>"

definition live_turn :: question_set where
  "live_turn = turn_questions naming_digest (judge_languages example_texts (languages (mediation example_config)))"

definition live_ready :: ready_judge where
  "live_ready = \<lparr>rj_id = ''typesafe/jev-1.13.0'', rj_thresholds = example_thresholds, rj_turn = live_turn\<rparr>"

definition live_me :: mediator where
  "live_me = example_chatting\<lparr>me_judge := Some live_ready\<rparr>"

definition live_out :: outside where
  "live_out = asks_live live_server example_typesafe live_base"

lemma live_into: "into_answers live_wire = Inr live_answers"
  by code_simp

lemma live_checked: "check_answers (for_turn live_turn [Buyer, Seller] False) live_answers = Inr ()"
  by code_simp

lemma live_server_answers:
  "evaluate_once (live_server n) example_typesafe body qs k =
     (case check_answers qs live_answers of Inl e \<Rightarrow> Inl (failed e) | Inr _ \<Rightarrow> Inr live_judged)"
  by (simp add: evaluate_once_def live_server_def success_body_def read_answers_def example_typesafe_def live_into
      live_judged_def split: sum.split)

lemma live_evaluates:
  assumes "check_answers qs live_answers = Inr u"
  shows "fst (typesafe_evaluate (live_server n) example_typesafe state qs) = Inr live_judged"
  unfolding typesafe_evaluate_def
  by (subst with_retries_last) (simp_all add: last_one_def live_server_answers assms settled_def)

lemma check_answers_not_retryable: "check_answers qs as = Inl e \<Longrightarrow> \<not> is_retryable e"
proof -
  have "check_each qs as = Inl e \<Longrightarrow> \<not> is_retryable e" for qs as
    by (induction qs) (auto simp: is_retryable_def split: option.splits sum.splits)
  then show "check_answers qs as = Inl e \<Longrightarrow> \<not> is_retryable e"
    by (auto simp: check_answers_def is_retryable_def split: option.splits)
qed

lemma live_refuses:
  assumes "check_answers qs live_answers = Inl e"
  shows "fst (typesafe_evaluate (live_server n) example_typesafe state qs) = Inl e"
  unfolding typesafe_evaluate_def using check_answers_not_retryable [OF assms]
  by (subst with_retries_last) (simp_all add: last_one_def live_server_answers assms settled_def failed_def)

lemma live_run_turn:
  "run_turn live_out live_me ''s1'' 50 example_heard =
     act_on_answers live_out live_me live_ready example_turned example_messages Phase_Gathering
       example_state live_judged 0 50 (others live_out example_heard)"
proof -
  have "\<not> newer_than (others live_out example_heard) example_turned example_messages"
    "\<not> moved_on (others live_out example_heard) example_turned"
    "flooded live_out live_me example_turned example_messages 50 example_heard = Inr (False, w_db example_heard)" by code_simp+
  moreover have "example_heard\<lparr>w_db := w_db example_heard\<rparr> = example_heard" by simp
  ultimately show ?thesis
    using example_wrote live_evaluates [OF live_checked]
    by (simp add: run_turn_def example_load judge_or_flood_def live_me_def example_chatting_def example_mediator_def example_state_def
        judge_turn_def Let_def live_out_def live_ready_def asks_live_def live_base_def quiet_outside_def u32_try_from_def)
qed

definition live_facts :: facts where
  "live_facts = from_answers live_answers example_thresholds [''en'']"

definition live_evaluation :: evaluation where
  "live_evaluation = evaluation_row 1 \<lparr>nl_session_id = ''s1'', nl_question_set = q_version live_turn,
     nl_judge_id = ''typesafe/jev-1.13.0'', nl_last_message_id = 2, nl_answers = live_answers, nl_action = Guide PaymentArrived,
     nl_input_tokens = Some 900, nl_latency_ms = Some 0, nl_now = 50\<rparr>"

definition live_reads :: turn_reading where
  "live_reads = \<lparr>tr_state = example_state, tr_answers = live_answers, tr_facts = live_facts, tr_last_message_id = 2\<rparr>"

definition live_guiding :: db where
  "live_guiding = (case guide_tx example_chatting example_turned PaymentArrived 50 (w_db example_heard) of Inr (_, s) \<Rightarrow> s | _ \<Rightarrow> empty_db)"

definition live_world :: "db \<Rightarrow> nat \<Rightarrow> world" where
  "live_world s n = \<lparr>w_db = s, w_evals = [live_evaluation], w_step = n, w_sent = []\<rparr>"

lemma live_decides:
  "decide (turn_of live_me live_ready Phase_Gathering live_facts example_turned example_messages
      (next_questions live_facts (turn_history example_messages [])) False) = Guide PaymentArrived"
  by code_simp

lemma live_languages:
  "update_languages live_me example_turned live_facts 50 [Buyer, Seller] ([], w_db (others live_out example_heard)) =
     ([], w_db (others live_out example_heard))"
  by code_simp

lemma live_records:
  "record_evaluation live_ready example_turned example_messages live_judged (Guide PaymentArrived) 0 50 (others live_out example_heard) =
     (Inr (), live_world (w_db example_heard) 1)"
proof -
  have "newest_id example_messages = 2" by code_simp
  then show ?thesis
    by (simp add: record_evaluation_def insert_evaluation_def Let_def example_heard_def example_active_def example_mediated_def
        session_ids_def others_def live_out_def asks_live_def live_base_def quiet_outside_def live_world_def live_evaluation_def
        live_ready_def live_judged_def next_rowid_def max_or_def max_key_def opening_row_def example_session_def)
qed

lemma live_versions:
  "q_version live_turn = ''qs-1-buyer_de''" "q_version (brief_for_state naming_digest example_state) \<noteq> ''qs-1-buyer_de''"
  by code_simp+

lemma stored_brief_other:
  "\<forall>e \<in> set (w_evals w). el_question_set e \<noteq> v \<Longrightarrow> stored_brief w ses v act = None"
  by (auto simp: stored_brief_def find_last_None evaluations_for_session_def split: option.split)

lemma live_no_brief: "\<exists>e. check_answers (brief_for_state naming_digest example_state) live_answers = Inl e"
proof -
  have "isl (check_answers (brief_for_state naming_digest example_state) live_answers)" by code_simp
  then show ?thesis by (cases "check_answers (brief_for_state naming_digest example_state) live_answers") auto
qed

lemma live_asks_brief:
  "ask_brief live_out live_ready example_turned live_reads (Subject_Guide PaymentArrived) 50 (live_world s n) =
     (default_brief, live_world s (n + 1))"
proof -
  have none: "stored_brief (live_world s n) example_turned (q_version (brief_for_state naming_digest example_state)) act = None" for act
    using live_versions by (intro stored_brief_other) (simp add: live_world_def live_evaluation_def evaluation_row_def)
  obtain e where "check_answers (brief_for_state naming_digest example_state) live_answers = Inl e" using live_no_brief ..
  from live_refuses [OF this] none show ?thesis
    by (simp add: ask_brief_def Let_def live_reads_def live_out_def asks_live_def live_base_def quiet_outside_def others_def live_world_def)
qed

lemma live_claims:
  "guide_tx (example_chatting\<lparr>me_judge := j\<rparr>) example_turned PaymentArrived 50 (w_db example_heard) = Inr (Some 2, live_guiding)"
proof -
  have "\<exists>s. guide_tx example_chatting example_turned PaymentArrived 50 (w_db example_heard) = Inr (Some 2, s)"
    by (rule exI, code_simp)
  then have "guide_tx example_chatting example_turned PaymentArrived 50 (w_db example_heard) = Inr (Some 2, live_guiding)"
    by (auto simp: live_guiding_def)
  moreover have "guide_tx (example_chatting\<lparr>me_judge := j\<rparr>) example_turned PaymentArrived 50 (w_db example_heard) =
      guide_tx example_chatting example_turned PaymentArrived 50 (w_db example_heard)"
  proof -
    have o: "me_observers (example_chatting\<lparr>me_judge := j\<rparr>) = me_observers example_chatting"
      by (simp add: example_chatting_def)
    show ?thesis unfolding guide_tx_def o by (rule refl)
  qed
  ultimately show ?thesis by simp
qed

lemma live_guides:
  "guide_session live_out live_me example_turned PaymentArrived live_reads 50 (live_world (w_db example_heard) n) =
     (Inr (), snd (send_guides live_out live_me example_turned PaymentArrived (live_world live_guiding (n + 1))))"
  (is "guide_session ?out ?me ?ses _ _ _ ?w = _")
proof -
  have tx: "guide_tx ?me ?ses PaymentArrived 50 (w_db ?w) = Inr (Some 2, live_guiding)"
    using live_claims by (simp add: live_me_def live_world_def)
  have w: "?w\<lparr>w_db := live_guiding\<rparr> = live_world live_guiding n" by (simp add: live_world_def)
  have "session_messages \<lparr>w_db = live_guiding, w_evals = es, w_step = k, w_sent = []\<rparr> ?ses = example_messages" for es k by code_simp
  then have ms: "session_messages (live_world live_guiding k) ?ses = example_messages" for k by (simp add: live_world_def)
  have "\<exists>parts. transcript (os_nip19 ?out) (s_dispute_id ?ses) (message_lines example_messages) = Some parts"
    by (rule exI, code_simp)
  then obtain parts where tr: "transcript (os_nip19 ?out) (s_dispute_id ?ses) (message_lines example_messages) = Some parts" ..
  have me: "me_judge ?me = Some live_ready" "me_solvers ?me = []" by (simp_all add: live_me_def example_chatting_def)
  have no: "recipients [] x = []" for x by (cases x) (simp_all add: recipients_def)
  show ?thesis
    by (simp only: guide_session_def tx w sum.case prod.case option.case brief_solvers_def Let_def
        me live_asks_brief no ms tr deliver_def if_True simp_thms) simp
qed

lemma guides_sent:
  "map (\<lambda>m. (sm_party m, sm_template m)) (w_sent (snd (send_guides (live_base\<lparr>os_judge := q\<rparr>) (example_chatting\<lparr>me_judge := j\<rparr>)
      example_turned PaymentArrived \<lparr>w_db = live_guiding, w_evals = es, w_step = n, w_sent = []\<rparr>))) =
     [(Seller, ''guide_arrived_seller''), (Buyer, ''guide_arrived_buyer'')]"
  by code_simp

lemma live_turn_guides:
  "map (\<lambda>m. (sm_party m, sm_template m)) (w_sent (snd (run_turn live_out live_me ''s1'' 50 example_heard))) =
     [(Seller, ''guide_arrived_seller''), (Buyer, ''guide_arrived_buyer'')]"
proof -
  let ?w = "others live_out example_heard"
  have r: "reload ?w (s_session_id example_turned) = Inr example_turned"
    and h: "is_held ?w example_turned example_messages = False" and n: "newest_id example_messages = 2" by code_simp+
  have l: "ms_languages (me_settings live_me) = [''en'']" "rj_thresholds live_ready = example_thresholds"
    "jd_answers live_judged = live_answers"
    by (simp_all add: live_me_def example_chatting_def example_mediator_def live_ready_def live_judged_def)
  have w: "?w\<lparr>w_db := w_db ?w\<rparr> = ?w" by simp
  have "run_turn live_out live_me ''s1'' 50 example_heard = (Inr (Decided (Guide PaymentArrived)),
      snd (send_guides live_out live_me example_turned PaymentArrived (live_world live_guiding (1 + 1))))"
    unfolding live_run_turn act_on_answers_def Let_def l live_facts_def [symmetric] live_languages prod.case w r sum.case n h
      live_decides live_records perform.simps live_reads_def [symmetric] live_guides by (rule refl)
  then show ?thesis
    unfolding live_out_def asks_live_def live_me_def live_world_def snd_conv by (simp only: guides_sent snd_conv)
qed

lemma live_configured:
  "configured_judge show_error None (judge example_config) (Some ''key'') = Inr example_typesafe"
  by (simp add: configured_judge_Inr example_config_def default_judge_def typesafe_new_def example_typesafe_def judge_key_def)

lemma live_capable: "capabilities_check typesafe_capabilities live_turn = []"
proof -
  have caps: "question_kinds typesafe_capabilities = question_kinds example_caps"
    "max_choice_options typesafe_capabilities = max_choice_options example_caps"
    "max_score_levels typesafe_capabilities = max_score_levels example_caps"
    by (simp_all add: typesafe_capabilities_def MAX_CHOICE_OPTIONS_def MAX_SCORE_LEVELS_def example_caps_def)
  have "question_problems typesafe_capabilities = question_problems example_caps"
    unfolding question_problems_def caps by (rule refl)
  then have "capabilities_check typesafe_capabilities live_turn = capabilities_check example_caps live_turn"
    by (simp add: capabilities_check_def)
  also have "\<dots> = []"
    unfolding capabilities_check_def live_turn_def turn_questions_def Let_def question_set.select_convs by code_simp
  finally show ?thesis .
qed

lemma live_healthy: "fst (typesafe_health (live_server n) example_typesafe) = Inr ()"
  unfolding typesafe_health_def
  by (subst with_retries_last)
    (simp_all add: last_one_def settled_def health_once_def live_server_def success_body_def example_typesafe_def)

lemma live_started:
  "\<exists>dk w. start_mediation_judge live_base (example_node None) show_error None live_server example_config (Some ''key'') example_texts
     0 50 (example_chatting\<lparr>me_judge := None\<rparr>) no_desk (example_mediated []) = (live_me, dk, w)"
proof -
  have v2: "check_node (example_node None) n = V2" for n
    by (simp add: check_node_def example_node_def fetch_node_def newest_event_def node_from_event_def difficulty_def
        example_copy_def speaks_v2_def)
  have r: "check_judge typesafe_capabilities None (Some example_thresholds) live_turn = Ready"
    by (simp add: check_judge_def readiness_of_def live_capable)
  have q: "turn_questions (os_digest live_base) (judge_languages example_texts (languages (mediation example_config))) = live_turn"
    by (simp add: live_turn_def live_base_def)
  have me: "set_ready \<lparr>rj_id = ''typesafe/jev-1.13.0'', rj_thresholds = example_thresholds, rj_turn = live_turn\<rparr>
      (example_chatting\<lparr>me_judge := None\<rparr>) = live_me"
    by (simp add: set_ready_def live_me_def live_ready_def)
  have i: "ji_id (live_judge_info show_error (live_server n) example_typesafe) = ''typesafe/jev-1.13.0''"
    "ji_capabilities (live_judge_info show_error (live_server n) example_typesafe) = typesafe_capabilities"
    "ji_health_error (live_judge_info show_error (live_server n) example_typesafe) = None" for n
    by (simp_all add: live_judge_info_def example_typesafe_def live_healthy [unfolded example_typesafe_def])
  show ?thesis
    by (simp add: start_mediation_judge_def live_configured start_judge_def v2 example_active q r i me split: prod.split)
qed



lemma no_judge_no_mediation_witness:
  "\<exists>me' dk' w'. start_mediation_judge quiet_outside (example_node None) (\<lambda>_. []) None live_server example_config None example_texts
     0 50 (example_chatting\<lparr>me_judge := None\<rparr>) no_desk (example_mediated []) = (me', dk', w') \<and>
     snd (consider_dispute quiet_outside (example_node None) me' ''d1'' 60 no_desk example_waiting) = (no_desk, example_waiting)"
proof -
  obtain me' dk' w' where s: "start_mediation_judge quiet_outside (example_node None) (\<lambda>_. []) None live_server example_config None
      example_texts 0 50 (example_chatting\<lparr>me_judge := None\<rparr>) no_desk (example_mediated []) = (me', dk', w')"
    by (metis prod_cases3)
  have "me_judge (example_chatting\<lparr>me_judge := None\<rparr>) = None" by (simp add: example_chatting_def)
  from no_judge_no_mediation [OF s this] s show ?thesis by simp
qed

end
