(* ===== verification/Report.thy ===== *)
theory Report
  imports Evaluation
begin

text \<open>
  The report of an evaluation (\<open>src/src/eval/report.rs\<close>) and the run of \<open>serbero-eval\<close> from its options
  to the files it writes (\<open>src/src/bin/eval.rs\<close>). The report has two characters outside the first 256
  code points, and shows thresholds as \<open>f64\<close>: \<open>glyphs\<close> are these two and the shortest decimal of a
  number. Reading files, TOML and JSON are parameters; each error keeps what the text is made of.
\<close>

section \<open>The report\<close>

record glyphs =
  gl_ge :: string
  gl_dash :: string
  gl_number :: "rat \<Rightarrow> string"

record header =
  hd_judge_id :: string
  hd_question_set :: string
  hd_lang :: string
  hd_thresholds :: thresholds
  hd_source :: string

definition code_span :: "string \<Rightarrow> string" where
  "code_span s = ''`'' @ s @ ''`''"

definition row_of :: "string list \<Rightarrow> string" where
  "row_of cells = ''| '' @ join '' | '' cells @ '' |''"

fun bool_str :: "bool \<Rightarrow> string" where
  "bool_str True = ''true''" | "bool_str False = ''false''"

fun show_label :: "label \<Rightarrow> string" where
  "show_label (LOption opt) = opt"
| "show_label (LYes yes) = bool_str yes"

fun metric_name :: "glyphs \<Rightarrow> metric \<Rightarrow> string" where
  "metric_name g (PrecisionAt positive th) = ''precision of '' @ code_span (show_label positive) @ '' at '' @ gl_number g th"
| "metric_name g (RecallAt positive th) = ''recall of '' @ code_span (show_label positive) @ '' at '' @ gl_number g th"
| "metric_name g (AccuracyAbove th) = ''accuracy above '' @ gl_number g th"
| "metric_name g (Coverage th) = ''coverage at '' @ gl_number g th"
| "metric_name g Accuracy = ''accuracy''"

definition thresholds_line :: "glyphs \<Rightarrow> thresholds \<Rightarrow> string" where
  "thresholds_line g th = join '', '' (map (\<lambda>(name, v). name @ '' '' @ gl_number g v) (named th))"

definition target_row :: "glyphs \<Rightarrow> scored list \<Rightarrow> eval_target \<Rightarrow> string" where
  "target_row g items t =
     (let m = measure_target t items;
          (value, over) = (case m of None \<Rightarrow> (gl_dash g, ''0'') | Some (v, n) \<Rightarrow> (decimals 3 v, dec n))
      in row_of [code_span (tg_base t), metric_name g (tg_metric t), value, over, gl_ge g @ '' '' @ gl_number g (tg_target t),
           if meets_rate m (tg_target t) then ''yes'' else ''**no**''])"

definition targets_section :: "glyphs \<Rightarrow> thresholds \<Rightarrow> scored list \<Rightarrow> string list" where
  "targets_section g th items =
     [[], ''## Targets (evaluation.md '' @ [CHR 0xA7] @ ''2)'', [],
      ''| Question | Metric | Value | Over | Target | Met |'', ''|---|---|---:|---:|---:|---|''] @
     map (target_row g items) (targets th) @
     [[], dec (targets_met th items) @ '' of '' @ dec (length (targets th)) @ '' targets met. A target without items is not met.'']"

definition show_threshold :: "rat option \<Rightarrow> string" where
  "show_threshold t = (case t of None \<Rightarrow> ''none'' | Some t \<Rightarrow> decimals 2 t)"

definition recommended_section :: "glyphs \<Rightarrow> scored list \<Rightarrow> string list" where
  "recommended_section g items =
     (let ge = '' '' @ gl_ge g @ '' '';
          recall = (\<lambda>base goal. show_threshold (recommended_threshold items base (LYes True) Recall goal))
      in [[], ''## Recommended thresholds (evaluation.md '' @ [CHR 0xA7] @ ''3)'', [], ''| Threshold | Rule | Value |'', ''|---|---|---:|''] @
         map (\<lambda>(name, rule, value). row_of [code_span name, rule, value])
           [(''guide'', ''lowest meeting precision'' @ ge @
               ''0.98 for both `seller_receipt = says_received` and `buyer_payment = says_not_sent`'',
               show_threshold (recommended_guide items)),
            (''fact'', ''lowest meeting accuracy'' @ ge @ ''0.95 and coverage'' @ ge @
               ''0.70 for both `buyer_payment` and `seller_receipt`'', show_threshold (recommended_fact items)),
            (''human_request'', ''highest keeping `<party>_wants_human` recall'' @ ge @ ''0.90'',
               recall ''<party>_wants_human'' (90 / 100)),
            (''fraud'', ''highest keeping `fraud_signal` recall'' @ ge @ ''0.85'', recall ''fraud_signal'' (85 / 100))] @
         [[], ''Values are swept from 0.50 to 0.95 in steps of 0.05.''])"

definition accuracy_section :: "scored list \<Rightarrow> string list" where
  "accuracy_section items =
     [[], ''## Accuracy per question'', [], ''| Question | Labels | Accuracy |'', ''|---|---:|---:|''] @
     List.map_filter (\<lambda>base. map_option (\<lambda>(acc, n). row_of [code_span base, dec n, decimals 3 acc]) (accuracy items base))
       (remdups_adj (sort (map sc_base items))) @
     [[], (case ece items of
        Some e \<Rightarrow> ''Expected calibration error ('' @ dec ECE_BINS @ '' bins, all answers): '' @ decimals 3 e @ ''.''
      | None \<Rightarrow> ''Expected calibration error: no labelled answers.'')]"

definition mean_tokens :: "case_run list \<Rightarrow> string" where
  "mean_tokens runs =
     (let ts = List.map_filter (\<lambda>r. jd_input_tokens (cr_judged r)) runs
      in if ts = [] then ''not reported''
         else ''mean '' @ dec (nat (round_half_even (rat_of_nat (sum_list ts) / rat_of_nat (length ts)))))"

definition usage_section :: "case_run list \<Rightarrow> string list" where
  "usage_section runs =
     (let ls = map cr_latency_ms runs
      in [[], ''Latency: median '' @ dec (percentile ls (1 / 2)) @ '' ms, p95 '' @ dec (percentile ls (95 / 100)) @
            '' ms. Input tokens: '' @ mean_tokens runs @ ''.''])"

definition miss_row :: "scored \<Rightarrow> string" where
  "miss_row s = row_of [code_span (sc_case_id s), code_span (sc_question s), code_span (show_label (sc_label s)),
     code_span (show_label (predicted s)) @ '' ('' @ decimals 2 (pick_confidence s) @ '')'', decimals 2 (p_of s (sc_label s))]"

definition misses_section :: "scored list \<Rightarrow> string list" where
  "misses_section items =
     [[], ''## Misses ('' @ dec (length (misses items)) @ '')''] @
     (if misses items = [] then []
      else [[], ''| Case | Question | Label | Answer | P(label) |'', ''|---|---|---|---|---:|''] @ map miss_row (misses items))"

definition report_head :: "glyphs \<Rightarrow> header \<Rightarrow> case_run list \<Rightarrow> string list" where
  "report_head g h runs =
     [''# Evaluation: '' @ hd_lang h @ '' '' @ [CHR 0xB7] @ '' '' @ hd_judge_id h, [],
      ''Question set '' @ code_span (hd_question_set h) @ '', '' @ dec (length runs) @ '' cases, '' @
        dec (length (all_scored runs)) @ '' labelled answers. Thresholds from '' @ hd_source h @ '': '' @
        thresholds_line g (hd_thresholds h) @ ''.'']"

definition render_report :: "glyphs \<Rightarrow> header \<Rightarrow> case_run list \<Rightarrow> string" where
  "render_report g h runs =
     (let items = all_scored runs
      in join [NL] (report_head g h runs @ targets_section g (hd_thresholds h) items @ recommended_section g items @
           accuracy_section items @ usage_section runs @ misses_section items) @ [NL])"

section \<open>The run\<close>

record eval_judge =
  ej_id :: string
  ej_ask :: "json \<Rightarrow> question_set \<Rightarrow> judge_error + judged"

datatype eval_error =
    SetupFailed string
  | CatalogFailed error
  | CasesFailed string
  | CaseProblem case_problem
  | NoCases string string
  | KeyProblem config_problem
  | KeyNotSet string
  | JudgeFailedToStart judge_error
  | RecordingNeeded
  | ProviderUnknown string
  | JudgeFailed judge_error
  | WriteFailed string string

text \<open>What the program reads and calls; \<open>ei_put path\<close> is the error of writing a file there, if any.\<close>

record eval_io =
  ei_config :: "string \<Rightarrow> string + config"
  ei_source :: "string \<Rightarrow> string + string"
  ei_catalogs :: "catalogs result"
  ei_cases :: "string \<Rightarrow> string + golden list"
  ei_env :: "string \<Rightarrow> string option"
  ei_secret :: "string \<Rightarrow> secret_file option"
  ei_client :: "string option"
  ei_http :: http
  ei_file :: "string \<Rightarrow> string + string"
  ei_recording :: "string \<Rightarrow> string + recording"
  ei_json :: "json \<Rightarrow> string"
  ei_pretty :: "recording \<Rightarrow> string"
  ei_digest :: "json \<Rightarrow> string"
  ei_latency :: "golden \<Rightarrow> nat"
  ei_glyphs :: glyphs
  ei_put :: "string \<Rightarrow> string option"

definition build_judge :: "eval_io \<Rightarrow> eval_setup \<Rightarrow> eval_options \<Rightarrow> eval_error + eval_judge" where
  "build_judge io st opts =
     (let j = es_judge st
      in if provider j = ''typesafe'' then
           (case lookup_secret (ei_env io) (ei_secret io) (api_key_env j) of
              Inl p \<Rightarrow> Inl (KeyProblem p)
            | Inr None \<Rightarrow> Inl (KeyNotSet (api_key_env j))
            | Inr (Some k) \<Rightarrow> (case typesafe_new (ei_client io) j (f_value k) of
                Inl e \<Rightarrow> Inl (JudgeFailedToStart e)
              | Inr t \<Rightarrow> Inr \<lparr>ej_id = ts_id t, ej_ask = \<lambda>state qs. fst (typesafe_evaluate (ei_http io) t state qs)\<rparr>))
         else if provider j = ''recorded'' then
           (case op_recording opts of
              None \<Rightarrow> Inl RecordingNeeded
            | Some path \<Rightarrow> (case recorded_load (ei_json io) path (ei_file io path) (ei_recording io) of
                Inl e \<Rightarrow> Inl (JudgeFailedToStart e)
              | Inr r \<Rightarrow> Inr \<lparr>ej_id = rj_source_id r, ej_ask = recorded_answer (ei_json io) r\<rparr>))
         else Inl (ProviderUnknown (provider j)))"

definition eval_languages :: "catalogs \<Rightarrow> string list \<Rightarrow> language list" where
  "eval_languages cats codes =
     map (\<lambda>code. \<lparr>l_code = code, l_name = (case map_of cats code of Some c \<Rightarrow> cat_name c | None \<Rightarrow> code)\<rparr>) codes"

definition select_cases :: "eval_io \<Rightarrow> eval_options \<Rightarrow> question_set \<Rightarrow> eval_error + golden list" where
  "select_cases io opts turn =
     (case ei_cases io (op_cases opts) of
        Inl e \<Rightarrow> Inl (CasesFailed e)
      | Inr collected \<Rightarrow> (case load_cases collected (op_lang opts) turn of
          Inl p \<Rightarrow> Inl (CaseProblem p)
        | Inr cs \<Rightarrow>
            (let cs' = (case op_limit opts of None \<Rightarrow> cs | Some n \<Rightarrow> take n cs)
             in if cs' = [] then Inl (NoCases (op_lang opts) (op_cases opts)) else Inr cs')))"

definition default_path :: "string \<Rightarrow> string \<Rightarrow> question_set \<Rightarrow> eval_options \<Rightarrow> string \<Rightarrow> string" where
  "default_path dir judge_id turn opts ext =
     dir @ ''/'' @ judge_id @ ''/'' @ q_version turn @ ''/'' @ op_lang opts @ ext"

text \<open>The runs of the cases with what they were judged by, or why there are none.\<close>

definition evaluated ::
    "eval_io \<Rightarrow> string list \<Rightarrow> eval_options \<Rightarrow> eval_error + eval_setup \<times> question_set \<times> eval_judge \<times> case_run list" where
  "evaluated io embedded opts =
     (case eval_setup_for (ei_config io) (ei_source io) embedded opts of
        Inl e \<Rightarrow> Inl (SetupFailed e)
      | Inr st \<Rightarrow> (case ei_catalogs io of
          Inl e \<Rightarrow> Inl (CatalogFailed e)
        | Inr cats \<Rightarrow>
            (let turn = turn_questions (ei_digest io) (eval_languages cats (es_languages st))
             in case select_cases io opts turn of
                  Inl e \<Rightarrow> Inl e
                | Inr cs \<Rightarrow> (case build_judge io st opts of
                    Inl e \<Rightarrow> Inl e
                  | Inr j \<Rightarrow> (case run_cases (ej_ask j) (ei_latency io) turn cs of
                      Inl e \<Rightarrow> Inl (JudgeFailed e)
                    | Inr runs \<Rightarrow> Inr (st, turn, j, runs))))))"

definition report_file :: "eval_io \<Rightarrow> eval_options \<Rightarrow> eval_setup \<Rightarrow> question_set \<Rightarrow> eval_judge \<Rightarrow> case_run list \<Rightarrow> string \<times> string" where
  "report_file io opts st turn j runs =
     (unwrap_or (op_report opts) (default_path ''eval/reports'' (ej_id j) turn opts ''.md''),
      render_report (ei_glyphs io) \<lparr>hd_judge_id = ej_id j, hd_question_set = q_version turn, hd_lang = op_lang opts,
        hd_thresholds = es_thresholds st, hd_source = es_source st\<rparr> runs)"

definition recording_file :: "eval_io \<Rightarrow> eval_options \<Rightarrow> question_set \<Rightarrow> eval_judge \<Rightarrow> case_run list \<Rightarrow> string \<times> string" where
  "recording_file io opts turn j runs =
     (unwrap_or (op_record_to opts) (default_path ''eval/recorded'' (ej_id j) turn opts ''.json''),
      ei_pretty io (recording_of (ej_id j) (q_version turn) runs) @ [NL])"

text \<open>Files written, in order; the program stops at the first one it cannot write.\<close>

fun write_files :: "(string \<Rightarrow> string option) \<Rightarrow> (string \<times> string) list \<Rightarrow> (eval_error + unit) \<times> (string \<times> string) list" where
  "write_files put [] = (Inr (), [])"
| "write_files put ((path, t) # fs) =
     (case put path of
        Some e \<Rightarrow> (Inl (WriteFailed path e), [])
      | None \<Rightarrow> (let (r, ws) = write_files put fs in (r, (path, t) # ws)))"

definition evaluate :: "eval_io \<Rightarrow> string list \<Rightarrow> eval_options \<Rightarrow> (eval_error + unit) \<times> (string \<times> string) list" where
  "evaluate io embedded opts =
     (case evaluated io embedded opts of
        Inl e \<Rightarrow> (Inl e, [])
      | Inr (st, turn, j, runs) \<Rightarrow>
          write_files (ei_put io) (report_file io opts st turn j runs #
            (if op_record opts \<and> provider (es_judge st) \<noteq> ''recorded'' then [recording_file io opts turn j runs] else [])))"

text \<open>The exit code of the program and the files it wrote.\<close>

definition eval_main :: "eval_io \<Rightarrow> string list \<Rightarrow> string list \<Rightarrow> nat \<times> (string \<times> string) list" where
  "eval_main io embedded args =
     (case parse_args args of
        Inl _ \<Rightarrow> (2, [])
      | Inr opts \<Rightarrow> (case evaluate io embedded opts of (Inr _, ws) \<Rightarrow> (0, ws) | (Inl _, ws) \<Rightarrow> (1, ws)))"

section \<open>What is written\<close>

lemma written_prefix: "\<exists>k. snd (write_files put fs) = take k fs"
proof (induction fs)
  case (Cons f fs)
  then obtain k where "snd (write_files put fs) = take k fs" by blast
  then show ?case
    by (cases f) (auto simp: split_beta Let_def intro: exI [of _ 0] exI [of _ "Suc k"] split: option.split)
qed simp

lemma judge_built:
  assumes "build_judge io st opts = Inr j" and "provider (es_judge st) \<noteq> ''recorded''"
  shows "\<exists>key t. provider (es_judge st) = ''typesafe'' \<and> typesafe_new (ei_client io) (es_judge st) key = Inr t \<and>
    j = \<lparr>ej_id = ts_id t, ej_ask = \<lambda>state qs. fst (typesafe_evaluate (ei_http io) t state qs)\<rparr>"
  using assms by (auto simp: build_judge_def Let_def split: if_splits sum.splits option.splits)

text \<open>
  Nothing is written unless every case was judged. Then the first file is the report of exactly these
  runs; at most one more is written, the recording, and only when the live provider answered and recording
  was not switched off: a replay is never recorded again.
\<close>

theorem only_live_answers_are_recorded:
  assumes "evaluate io embedded opts = (r, ws)" and "ws \<noteq> []"
  shows "\<exists>st turn j runs. evaluated io embedded opts = Inr (st, turn, j, runs) \<and>
    (ws = [report_file io opts st turn j runs] \<or>
     ws = [report_file io opts st turn j runs, recording_file io opts turn j runs] \<and> op_record opts \<and>
       provider (es_judge st) = ''typesafe'')"
proof -
  obtain st turn j runs where e: "evaluated io embedded opts = Inr (st, turn, j, runs)"
    using assms by (cases "evaluated io embedded opts") (auto simp: evaluate_def)
  let ?more = "if op_record opts \<and> provider (es_judge st) \<noteq> ''recorded'' then [recording_file io opts turn j runs] else []"
  have "ws = snd (write_files (ei_put io) (report_file io opts st turn j runs # ?more))"
    using assms(1) by (simp add: evaluate_def e split: if_splits)
  then obtain k where "ws = take k (report_file io opts st turn j runs # ?more)" using written_prefix by metis
  then have ws: "ws = [report_file io opts st turn j runs] \<or> ws = report_file io opts st turn j runs # ?more"
    using assms(2) by (cases k; cases "k - 1") (auto split: if_splits)
  have "provider (es_judge st) = ''typesafe''" if "provider (es_judge st) \<noteq> ''recorded''"
    using e judge_built [OF _ that] by (auto simp: evaluated_def Let_def split: sum.splits)
  with e ws show ?thesis by (auto split: if_splits)
qed

section \<open>A replay reports the same\<close>

lemma into_answers_keys: "into_answers ws = Inr as \<Longrightarrow> map fst as = map fst ws"
  by (induction ws arbitrary: as) (auto split: sum.splits)

lemma live_answers_sorted:
  assumes "\<And>t wire. ht_read h t = Inr wire \<Longrightarrow> btree (wp_answers wire)" and "fst (typesafe_evaluate h j state qs) = Inr v"
  shows "check_answers qs (jd_answers v) = Inr () \<and> btree (jd_answers v)"
proof -
  obtain t wire where "ht_read h t = Inr wire" "into_answers (wp_answers wire) = Inr (jd_answers v)"
    using typesafe_evaluate_Inr [OF assms(2)] by (auto simp: evaluate_once_Inr read_answers_Inr)
  with assms(1) have "btree (jd_answers v)" by (auto simp: btree_def dest: into_answers_keys)
  with live.checked [OF assms(2)] show ?thesis by blast
qed

lemma sorted_turn_questions: "btree (q_questions (turn_questions digest langs))"
proof -
  have "sorted_wrt (<) (map fst case_facts)" unfolding case_facts_def by (rule sorted_btree_of)
  then show ?thesis
    by (simp add: turn_questions_def Let_def btree_def btree_insert_keys btree_extend_keys sorted_key_insert sorted_key_fold)
qed

lemma run_cases_again:
  assumes "list_all (\<lambda>r. ask (gc_state (cr_case r)) (case_questions turn (cr_case r)) = Inr ((cr_judged r)\<lparr>jd_input_tokens := None\<rparr>)) runs"
  shows "\<exists>runs'. run_cases ask latency turn (map cr_case runs) = Inr runs' \<and> map cr_case runs' = map cr_case runs \<and>
    all_scored runs' = all_scored runs"
  using assms by (induction runs) (auto simp: all_scored_def)

lemma run_cases_map: "run_cases ask latency turn cs = Inr runs \<Longrightarrow> map cr_case runs = cs"
  by (induction cs arbitrary: runs) (auto split: sum.splits)


section \<open>An example\<close>

text \<open>One Spanish case in which nobody wrote yet, judged by a server that answers the seven case facts.\<close>

definition quiet_case :: golden where
  "quiet_case = \<lparr>gc_id = ''c1'', gc_lang = ''es'', gc_source = ''synthetic'',
     gc_state = JObj [(''transcript'', JArr [])], gc_guiding = False, gc_expect = [(''fraud_signal'', LYes True)]\<rparr>"

definition facts_wire :: "(string \<times> wire_answer) list" where
  "facts_wire = [(''buyer_details'', WireNoulAnswer (1/2)),
     (''buyer_payment'', WireChoiceAnswer [(''not_stated'', 1), (''says_not_sent'', 0), (''says_sent'', 0)]),
     (''claims_conflict'', WireNoulAnswer 0),
     (''dispute_topic'', WireChoiceAnswer [(''counterpart_unresponsive'', 0), (''not_yet_clear'', 1), (''other'', 0),
        (''payment_not_confirmed'', 0), (''technical_problem'', 0), (''wrong_account_or_method'', 0), (''wrong_amount'', 0)]),
     (''fraud_signal'', WireNoulAnswer (1/3)),
     (''seller_checked'', WireNoulAnswer (1/2)),
     (''seller_receipt'', WireChoiceAnswer [(''not_stated'', 1), (''says_not_received'', 0), (''says_received'', 0),
        (''says_received_with_problem'', 0)])]"

definition facts_judged :: judged where
  "facts_judged = \<lparr>jd_answers = map (\<lambda>(i, a). (i, projr (into_answer a))) facts_wire, jd_input_tokens = Some 700\<rparr>"

definition facts_server :: http where
  "facts_server = \<lparr>
     ht_post = (\<lambda>_ url key body. Inr \<lparr>rs_status = 200, rs_headers = Map.empty, rs_text = Inr ''answers''\<rparr>),
     ht_get = (\<lambda>_ url key. Inl (Network ''refused'')),
     ht_read = (\<lambda>t. Inr \<lparr>wp_model = ''jev-1.13.0'', wp_answers = facts_wire, wp_usage = Some 700\<rparr>),
     ht_status_text = dec\<rparr>"

definition facts_turn :: question_set where
  "facts_turn = turn_questions (\<lambda>_. ''digest'') [\<lparr>l_code = ''es'', l_name = ''es''\<rparr>]"

definition facts_run :: case_run where
  "facts_run = \<lparr>cr_case = quiet_case, cr_judged = facts_judged, cr_latency_ms = 40\<rparr>"

definition facts_recording :: recording where
  "facts_recording = recording_of ''typesafe/jev-1.13.0'' (q_version facts_turn) [facts_run]"

definition facts_io :: eval_io where
  "facts_io = \<lparr>ei_config = \<lambda>_. Inl ''no file'', ei_source = \<lambda>_. Inr ''typesafe/jev-1.13.0'', ei_catalogs = Inr [],
     ei_cases = \<lambda>_. Inr [quiet_case], ei_env = [''TYPESAFE_API_KEY'' \<mapsto> ''key''], ei_secret = \<lambda>_. None, ei_client = None,
     ei_http = facts_server, ei_file = \<lambda>_. Inr ''recording'', ei_recording = \<lambda>_. Inr facts_recording,
     ei_json = \<lambda>_. ''state'', ei_pretty = \<lambda>_. ''recording'', ei_digest = \<lambda>_. ''digest'', ei_latency = \<lambda>_. 40,
     ei_glyphs = \<lparr>gl_ge = ''>='', gl_dash = ''-'', gl_number = decimals 2\<rparr>, ei_put = \<lambda>_. None\<rparr>"

definition facts_options :: eval_options where
  "facts_options = default_options\<lparr>op_lang := ''es''\<rparr>"

lemma facts_into: "into_answers facts_wire = Inr (jd_answers facts_judged)"
  unfolding facts_judged_def judged.select_convs by code_simp

lemma facts_checked: "check_answers (case_questions facts_turn quiet_case) (jd_answers facts_judged) = Inr ()"
  unfolding facts_judged_def judged.select_convs by code_simp

lemma facts_loaded: "load_cases [quiet_case] ''es'' facts_turn = Inr [quiet_case]"
  by code_simp

lemma facts_evaluated:
  "fst (typesafe_evaluate facts_server example_typesafe state (case_questions facts_turn quiet_case)) = Inr facts_judged"
proof -
  have "evaluate_once facts_server example_typesafe body (case_questions facts_turn quiet_case) k = Inr facts_judged" for body k
    by (simp add: evaluate_once_def facts_server_def success_body_def read_answers_def example_typesafe_def facts_into facts_checked)
      (simp add: facts_judged_def)
  then show ?thesis
    unfolding typesafe_evaluate_def by (subst with_retries_last) (simp_all add: last_one_def settled_def)
qed

lemma facts_live:
  "\<exists>st j. evaluated facts_io [''es''] facts_options = Inr (st, facts_turn, j, [facts_run]) \<and>
     provider (es_judge st) = ''typesafe'' \<and> ej_id j = ''typesafe/jev-1.13.0''"
proof -
  let ?st = "\<lparr>es_judge = default_judge, es_languages = [''es''], es_thresholds = DEFAULT_THRESHOLDS,
    es_source = ''defaults (judgments.md '' @ [CHR 0xA7] @ ''3)''\<rparr>"
  have st: "eval_setup_for (ei_config facts_io) (ei_source facts_io) [''es''] facts_options = Inr ?st"
    by (simp add: eval_setup_for_def facts_options_def default_options_def chosen_judge_def replayed_judge_def default_judge_def)
  have turn: "turn_questions (ei_digest facts_io) (eval_languages [] (es_languages ?st)) = facts_turn"
    by (simp add: facts_turn_def facts_io_def eval_languages_def)
  have cs: "select_cases facts_io facts_options facts_turn = Inr [quiet_case]"
    by (simp add: select_cases_def facts_io_def facts_options_def default_options_def facts_loaded)
  have key: "lookup_secret (ei_env facts_io) (ei_secret facts_io) ''TYPESAFE_API_KEY'' = Inr (Some \<lparr>f_value = ''key'', f_warning = False\<rparr>)"
    unfolding facts_io_def eval_io.select_convs by code_simp
  have j: "build_judge facts_io ?st facts_options =
      Inr \<lparr>ej_id = ts_id example_typesafe, ej_ask = \<lambda>state qs. fst (typesafe_evaluate facts_server example_typesafe state qs)\<rparr>"
    using key example_typesafe_new
    by (simp add: build_judge_def default_judge_def) (simp add: facts_io_def)
  have runs: "run_cases (\<lambda>state qs. fst (typesafe_evaluate facts_server example_typesafe state qs)) (ei_latency facts_io) facts_turn
      [quiet_case] = Inr [facts_run]"
    by (simp add: facts_evaluated facts_run_def facts_io_def)
  have c: "ei_catalogs facts_io = Inr []" by (simp add: facts_io_def)
  show ?thesis
    by (simp only: evaluated_def st c sum.case Let_def turn cs j eval_judge.select_convs runs)
      (simp add: default_judge_def example_typesafe_def)
qed

lemma only_live_answers_are_recorded_witness:
  "\<exists>st j. hd (snd (evaluate facts_io [''es''] facts_options)) = report_file facts_io facts_options st facts_turn j [facts_run]"
proof -
  obtain st j where live: "evaluated facts_io [''es''] facts_options = Inr (st, facts_turn, j, [facts_run])"
    using facts_live by blast
  have "snd (evaluate facts_io [''es''] facts_options) \<noteq> []"
    by (simp add: evaluate_def live split_beta) (simp add: report_file_def facts_io_def split_beta)
  from only_live_answers_are_recorded [OF surjective_pairing this] live show ?thesis by fastforce
qed


end
